(* ===== verification/Prelude.thy ===== *)
theory Prelude
  imports Main "HOL-Library.Word" "HOL-Library.Finite_Map" "HOL-Library.Multiset"
begin

text \<open>
  Shared vocabulary of the development.  Go's fixed-width integers are words (so that
  additions and subtractions wrap as they do in Go), \<open>big.Int\<close> is \<open>int\<close>, a Go
  map is a finite map, a function that may fail returns an \<open>outcome\<close>: a value, an error
  value, or \<open>Panic\<close> (a run-time panic or \<open>log.Fatal\<close>, after which the
  goroutine or the process does not continue).  The theory also holds the two pieces of the
  Go standard library that several components call (\<open>sort.Search\<close> and big-endian
  byte encoding) and the generic lemmas on lists, finite maps and words used later.
\<close>

subsection \<open>Types\<close>

type_synonym u8 = "8 word"
type_synonym u32 = "32 word"
type_synonym u64 = "64 word"
type_synonym bytes = "u8 list"
type_synonym hash = "256 word"
type_synonym address = "160 word"
type_synonym time = int
type_synonym duration = int

named_theorems go_defs \<open>definitions of small accessor-like operations\<close>
named_theorems inv_intros \<open>introduction rules of the component invariants\<close>

subsection \<open>Outcomes of fallible code\<close>

datatype ('e, 'a) outcome = Ok 'a | Err 'e | Panic

fun bind_outcome :: "('e, 'a) outcome \<Rightarrow> ('a \<Rightarrow> ('e, 'b) outcome) \<Rightarrow> ('e, 'b) outcome" where
  "bind_outcome (Ok a) f = f a"
| "bind_outcome (Err e) f = Err e"
| "bind_outcome Panic f = Panic"

lemma bind_outcome_eq_Ok [simp]:
  "bind_outcome m f = Ok b \<longleftrightarrow> (\<exists>a. m = Ok a \<and> f a = Ok b)"
  by (cases m) auto

lemma bind_outcome_cong [fundef_cong]:
  "m = m' \<Longrightarrow> (\<And>a. m' = Ok a \<Longrightarrow> f a = f' a) \<Longrightarrow> bind_outcome m f = bind_outcome m' f'"
  by (cases m') auto

subsection \<open>The standard library's binary search\<close>

text \<open>
  \<open>sort.Search(n, f)\<close>: the loop of the Go standard library over the half-open interval
  \<open>[i, j)\<close>.  The callback may dereference a nil pointer, so it returns an option and
  \<open>None\<close> is the panic.
\<close>

function go_search_loop :: "(nat \<Rightarrow> bool option) \<Rightarrow> nat \<Rightarrow> nat \<Rightarrow> nat option" where
  "go_search_loop f i j =
     (if i < j then
        (let h = (i + j) div 2 in
         case f h of
           None \<Rightarrow> None
         | Some b \<Rightarrow> if b then go_search_loop f i h else go_search_loop f (h + 1) j)
      else Some i)"
  by pat_completeness auto
termination
  by (relation "measure (\<lambda>(f, i, j). j - i)") auto

declare go_search_loop.simps [simp del]

definition go_search :: "nat \<Rightarrow> (nat \<Rightarrow> bool option) \<Rightarrow> nat option" where
  "go_search n f = go_search_loop f 0 n"

lemma go_search_loop_correct:
  assumes "i \<le> j"
    and "\<And>k. i \<le> k \<Longrightarrow> k < j \<Longrightarrow> f k = Some (P k)"
    and "\<And>k l. i \<le> k \<Longrightarrow> k \<le> l \<Longrightarrow> l < j \<Longrightarrow> P k \<Longrightarrow> P l"
  shows "\<exists>r. go_search_loop f i j = Some r \<and> i \<le> r \<and> r \<le> j \<and>
           (\<forall>k. i \<le> k \<and> k < r \<longrightarrow> \<not> P k) \<and> (\<forall>k. r \<le> k \<and> k < j \<longrightarrow> P k)"
  using assms
proof (induction f i j rule: go_search_loop.induct)
  case (1 f i j)
  note def = 1(4) and mono = 1(5)
  show ?case
  proof (cases "i < j")
    case False
    then have "go_search_loop f i j = Some i" by (simp add: go_search_loop.simps[of f i j])
    with False 1(3) show ?thesis by (intro exI[of _ i]) (simp, linarith)
  next
    case True
    define h where "h = (i + j) div 2"
    have h: "i \<le> h" "h < j" using True by (auto simp: h_def)
    have fh: "f h = Some (P h)" using def[OF h] .
    show ?thesis
    proof (cases "P h")
      case P: True
      have "\<exists>r. go_search_loop f i h = Some r \<and> i \<le> r \<and> r \<le> h \<and>
           (\<forall>k. i \<le> k \<and> k < r \<longrightarrow> \<not> P k) \<and> (\<forall>k. r \<le> k \<and> k < h \<longrightarrow> P k)"
      proof (rule 1(1)[OF True h_def fh P])
        show "f k = Some (P k)" if "i \<le> k" "k < h" for k
          using that h by (intro def) linarith+
        show "P l" if "i \<le> k" "k \<le> l" "l < h" "P k" for k l
          using that h by (intro mono[of k l]) linarith+
      qed (use h in simp)
      then obtain r where r: "go_search_loop f i h = Some r" "i \<le> r" "r \<le> h"
        "\<forall>k. i \<le> k \<and> k < r \<longrightarrow> \<not> P k" "\<forall>k. r \<le> k \<and> k < h \<longrightarrow> P k"
        by blast
      have "P k" if "r \<le> k" "k < j" for k
      proof (cases "k < h")
        case False
        then show ?thesis using mono[OF h(1) _ that(2) P] by linarith
      qed (use r that in blast)
      moreover have "go_search_loop f i j = Some r"
        using True fh P r(1) by (simp add: go_search_loop.simps[of f i j] h_def[symmetric])
      moreover have "r \<le> j" using r(3) h(2) by linarith
      ultimately show ?thesis using r(2,4) by blast
    next
      case P: False
      have "\<exists>r. go_search_loop f (h + 1) j = Some r \<and> h + 1 \<le> r \<and> r \<le> j \<and>
           (\<forall>k. h + 1 \<le> k \<and> k < r \<longrightarrow> \<not> P k) \<and> (\<forall>k. r \<le> k \<and> k < j \<longrightarrow> P k)"
      proof (rule 1(2)[OF True h_def fh P])
        show "f k = Some (P k)" if "h + 1 \<le> k" "k < j" for k
          using that h by (intro def) linarith+
        show "P l" if "h + 1 \<le> k" "k \<le> l" "l < j" "P k" for k l
          using that h by (intro mono[of k l]) linarith+
      qed (use h in simp)
      then obtain r where r: "go_search_loop f (h + 1) j = Some r" "h + 1 \<le> r" "r \<le> j"
        "\<forall>k. h + 1 \<le> k \<and> k < r \<longrightarrow> \<not> P k" "\<forall>k. r \<le> k \<and> k < j \<longrightarrow> P k"
        by blast
      have "\<not> P k" if "i \<le> k" "k < r" for k
      proof (cases "k \<le> h")
        case True
        then show ?thesis using mono[OF that(1) _ h(2)] P by blast
      qed (use r that in auto)
      moreover have "go_search_loop f i j = Some r"
        using True fh P r(1) by (simp add: go_search_loop.simps[of f i j] h_def[symmetric])
      moreover have "i \<le> r" using r(2) h(1) by linarith
      ultimately show ?thesis using r(3,5) by blast
    qed
  qed
qed

lemma go_search_correct:
  assumes "\<And>k. k < n \<Longrightarrow> f k = Some (P k)"
    and "\<And>k l. k \<le> l \<Longrightarrow> l < n \<Longrightarrow> P k \<Longrightarrow> P l"
  obtains r where "go_search n f = Some r" "r \<le> n"
    "\<And>k. k < r \<Longrightarrow> \<not> P k" "\<And>k. r \<le> k \<Longrightarrow> k < n \<Longrightarrow> P k"
proof -
  have "\<exists>r. go_search_loop f 0 n = Some r \<and> 0 \<le> r \<and> r \<le> n \<and>
          (\<forall>k. 0 \<le> k \<and> k < r \<longrightarrow> \<not> P k) \<and> (\<forall>k. r \<le> k \<and> k < n \<longrightarrow> P k)"
    by (rule go_search_loop_correct) (use assms in blast)+
  then show ?thesis using that by (auto simp: go_search_def)
qed

subsection \<open>Iterating over a Go map\<close>

text \<open>
  A \<open>for ... range\<close> over a map visits every key once, in an order the language does
  not fix.  Operations that iterate take the order as an argument; \<open>is_range_order\<close> says
  that the argument is one of the orders the runtime may choose.
\<close>

definition is_range_order :: "('k, 'v) fmap \<Rightarrow> 'k list \<Rightarrow> bool" where
  "is_range_order m ord \<longleftrightarrow> distinct ord \<and> fset_of_list ord = fmdom m"

lemma is_range_order_exists: "\<exists>ord. is_range_order m ord"
proof -
  obtain xs where "set xs = fset (fmdom m)" "distinct xs"
    using finite_distinct_list[of "fset (fmdom m)"] by auto
  then show ?thesis
    by (auto simp: is_range_order_def fset_of_list.rep_eq fset_inject[symmetric])
qed

lemma is_range_orderD:
  assumes "is_range_order m ord"
  shows "distinct ord" and "k \<in> set ord \<longleftrightarrow> fmlookup m k \<noteq> None"
  using assms
  by (auto simp: is_range_order_def fmlookup_dom_iff fset_of_list_elem[symmetric])

subsection \<open>Big-endian byte strings\<close>

definition be_bytes :: "nat \<Rightarrow> nat \<Rightarrow> bytes" where
  "be_bytes n v = map (\<lambda>i. of_nat (v div 256 ^ (n - 1 - i))) [0..<n]"

lemma length_be_bytes [simp]: "length (be_bytes n v) = n"
  by (simp add: be_bytes_def)

fun be_val :: "bytes \<Rightarrow> nat" where
  "be_val [] = 0"
| "be_val (b # bs) = unat b * 256 ^ length bs + be_val bs"

lemma be_val_less: "be_val bs < 256 ^ length bs"
proof (induction bs)
  case Nil
  then show ?case by simp
next
  case (Cons b bs)
  have "unat b < 256" using unsigned_less[of b, where ?'a = nat] by simp
  then have "unat b * 256 ^ length bs \<le> 255 * 256 ^ length bs"
    by (intro mult_le_mono1) simp
  with Cons.IH have "unat b * 256 ^ length bs + be_val bs < 256 * 256 ^ length bs" by linarith
  then show ?case by simp
qed

end
