(* ===== verification/L1InfoTree.thy ===== *)
theory L1InfoTree
  imports Prelude
begin

text \<open>
  The incremental Merkle tree of L1 info leaves (\<open>l1infotree/hash.go\<close>, \<open>l1infotree/tree.go\<close>).
  Keccak comes from third-party packages and is the argument \<open>keccak\<close>.  A loop over the levels
  \<open>h < height\<close> is a recursion over the list of levels; an index out of range is \<open>Panic\<close>.

  The specification is \<open>mroot\<close>, the root of the perfect binary tree over the leaves padded with
  zero leaves.  The theory shows that the level-by-level construction computes it, that the
  Merkle proofs it produces verify, and that the frontier kept by \<open>AddLeaf\<close> gives the same root
  as rebuilding the tree.
\<close>

subsection \<open>Hashes\<close>

type_synonym keccak = "bytes \<Rightarrow> hash"

definition hash_bytes :: "hash \<Rightarrow> bytes" where
  "hash_bytes h = be_bytes 32 (unat h)"

definition Hash :: "keccak \<Rightarrow> hash list \<Rightarrow> hash" where
  "Hash keccak ds = keccak (concat (map hash_bytes ds))"

primrec zeroHashesUpTo :: "keccak \<Rightarrow> nat \<Rightarrow> hash list" where
  "zeroHashesUpTo keccak 0 = [0]"
| "zeroHashesUpTo keccak (Suc i) =
     (let zs = zeroHashesUpTo keccak i in zs @ [Hash keccak [zs ! i, zs ! i]])"

definition generateZeroHashes :: "keccak \<Rightarrow> u8 \<Rightarrow> hash list" where
  "generateZeroHashes keccak height = zeroHashesUpTo keccak (unat height)"

definition HashLeafData :: "keccak \<Rightarrow> hash \<Rightarrow> hash \<Rightarrow> u64 \<Rightarrow> hash" where
  "HashLeafData keccak ger prevBlockHash minTimestamp =
     keccak (hash_bytes ger @ hash_bytes prevBlockHash @ be_bytes 8 (unat minTimestamp))"

subsection \<open>The tree\<close>

datatype L1TreeError =
    ErrMoreThanOneRoot
  | ErrMismatchedLeafCount u32 u32
  | ErrInitialLeavesMismatch

record L1InfoTree =
  l1_height :: u8
  zeroHashes :: "hash list"
  l1_count :: u32
  l1_siblings :: "hash list"
  currentRoot :: hash

definition index_ok :: "'a list \<Rightarrow> nat \<Rightarrow> ('e, 'a) outcome" where
  "index_ok xs i = (if i < length xs then Ok (xs ! i) else Panic)"

text \<open>The nodes of a level as (hash, left, right), and their hashes.\<close>

fun buildIntermediate ::
  "keccak \<Rightarrow> hash list \<Rightarrow> (L1TreeError, (hash \<times> hash \<times> hash) list \<times> hash list) outcome" where
  "buildIntermediate keccak [] = Ok ([], [])"
| "buildIntermediate keccak [l] = Panic"
| "buildIntermediate keccak (l # r # leaves) =
     bind_outcome (buildIntermediate keccak leaves)
       (\<lambda>(nodes, hashes). let h = Hash keccak [l, r] in Ok ((h, l, r) # nodes, h # hashes))"

text \<open>A level of odd length is completed with the zero hash of that level.\<close>

definition padLevel :: "hash list \<Rightarrow> nat \<Rightarrow> hash list \<Rightarrow> (L1TreeError, hash list) outcome" where
  "padLevel zs h leaves =
     (if odd (length leaves) then bind_outcome (index_ok zs h) (\<lambda>z. Ok (leaves @ [z])) else Ok leaves)"

fun buildLevels ::
  "keccak \<Rightarrow> hash list \<Rightarrow> nat list \<Rightarrow> hash list \<Rightarrow> (hash \<times> hash \<times> hash) list \<Rightarrow>
   (L1TreeError, (hash \<times> hash \<times> hash) list) outcome" where
  "buildLevels keccak zs [] leaves ns = Ok ns"
| "buildLevels keccak zs (h # hs) leaves ns =
     bind_outcome (padLevel zs h leaves) (\<lambda>padded.
     bind_outcome (buildIntermediate keccak padded) (\<lambda>(ns', hashes).
     buildLevels keccak zs hs hashes ns'))"

definition orZeroLeaf :: "hash list \<Rightarrow> hash list \<Rightarrow> (L1TreeError, hash list) outcome" where
  "orZeroLeaf zs leaves =
     (if leaves = [] then bind_outcome (index_ok zs 0) (\<lambda>z. Ok [z]) else Ok leaves)"

definition singleRoot :: "(hash \<times> hash \<times> hash) list \<Rightarrow> (L1TreeError, hash) outcome" where
  "singleRoot ns = (if length ns \<noteq> 1 then Err ErrMoreThanOneRoot else Ok (fst (ns ! 0)))"

definition BuildL1InfoRoot :: "keccak \<Rightarrow> L1InfoTree \<Rightarrow> hash list \<Rightarrow> (L1TreeError, hash) outcome" where
  "BuildL1InfoRoot keccak mt leaves0 =
     bind_outcome (orZeroLeaf (zeroHashes mt) leaves0) (\<lambda>leaves.
     bind_outcome (buildLevels keccak (zeroHashes mt) [0..<unat (l1_height mt)] leaves []) singleRoot)"

definition proofSibling :: "hash list \<Rightarrow> u32 \<Rightarrow> hash list \<Rightarrow> (L1TreeError, hash list) outcome" where
  "proofSibling leaves index siblings =
     (if index mod 2 = 1 then
        bind_outcome (index_ok leaves (unat (index - 1))) (\<lambda>s. Ok (siblings @ [s]))
      else if length leaves > 1 then
        if index \<ge> of_nat (length leaves)
        then bind_outcome (index_ok leaves (unat (index - 1))) (\<lambda>s. Ok (siblings @ [s]))
        else bind_outcome (index_ok leaves (unat (index + 1))) (\<lambda>s. Ok (siblings @ [s]))
      else Ok siblings)"

fun proofLevels ::
  "keccak \<Rightarrow> hash list \<Rightarrow> nat list \<Rightarrow> hash list \<Rightarrow> u32 \<Rightarrow> hash list \<Rightarrow> (hash \<times> hash \<times> hash) list \<Rightarrow>
   (L1TreeError, hash list \<times> (hash \<times> hash \<times> hash) list) outcome" where
  "proofLevels keccak zs [] leaves index siblings ns = Ok (siblings, ns)"
| "proofLevels keccak zs (h # hs) leaves index siblings ns =
     bind_outcome (padLevel zs h leaves) (\<lambda>padded.
     bind_outcome (proofSibling padded index siblings) (\<lambda>siblings'.
     bind_outcome (buildIntermediate keccak padded) (\<lambda>(nsi, hashes).
     proofLevels keccak zs hs hashes (index div 2) siblings' nsi)))"

definition ComputeMerkleProof ::
  "keccak \<Rightarrow> L1InfoTree \<Rightarrow> u32 \<Rightarrow> hash list \<Rightarrow> (L1TreeError, hash list \<times> hash) outcome" where
  "ComputeMerkleProof keccak mt gerIndex leaves0 =
     bind_outcome (orZeroLeaf (zeroHashes mt) leaves0) (\<lambda>leaves.
     bind_outcome (proofLevels keccak (zeroHashes mt) [0..<unat (l1_height mt)] leaves gerIndex [] [])
       (\<lambda>(siblings, ns). bind_outcome (singleRoot ns) (\<lambda>root. Ok (siblings, root))))"

unbundle bit_operations_syntax

fun addLeafLevels ::
  "keccak \<Rightarrow> hash list \<Rightarrow> u32 \<Rightarrow> nat list \<Rightarrow> hash list \<Rightarrow> hash \<Rightarrow> bool \<Rightarrow>
   (L1TreeError, hash list \<times> hash) outcome" where
  "addLeafLevels keccak zs index [] siblings cur isFilledSubTree = Ok (siblings, cur)"
| "addLeafLevels keccak zs index (h # hs) siblings cur isFilledSubTree =
     (if index AND push_bit h 1 > 0 then
        bind_outcome (index_ok siblings h) (\<lambda>s.
        addLeafLevels keccak zs index hs siblings (Hash keccak [s, cur]) isFilledSubTree)
      else
        bind_outcome
          (if isFilledSubTree
           then bind_outcome (index_ok siblings h) (\<lambda>_. Ok (siblings[h := cur])) else Ok siblings) (\<lambda>siblings'.
        bind_outcome (index_ok zs h) (\<lambda>z.
        addLeafLevels keccak zs index hs siblings' (Hash keccak [cur, z]) False)))"

definition AddLeaf ::
  "keccak \<Rightarrow> L1InfoTree \<Rightarrow> u32 \<Rightarrow> hash \<Rightarrow> (L1TreeError, L1InfoTree \<times> hash) outcome" where
  "AddLeaf keccak mt index leaf =
     (if index \<noteq> l1_count mt then Err (ErrMismatchedLeafCount index (l1_count mt))
      else
        bind_outcome
          (addLeafLevels keccak (zeroHashes mt) index [0..<unat (l1_height mt)] (l1_siblings mt) leaf True)
          (\<lambda>(siblings, cur).
             Ok (mt\<lparr>l1_siblings := siblings, currentRoot := cur, l1_count := l1_count mt + 1\<rparr>, cur)))"

definition initSiblings ::
  "keccak \<Rightarrow> L1InfoTree \<Rightarrow> hash list \<Rightarrow> (L1TreeError, hash list \<times> hash) outcome" where
  "initSiblings keccak mt initialLeaves =
     (if l1_count mt \<noteq> of_nat (length initialLeaves) then Err ErrInitialLeavesMismatch
      else if l1_count mt = 0 then
        bind_outcome (BuildL1InfoRoot keccak mt initialLeaves)
          (\<lambda>root. Ok (map (\<lambda>h. zeroHashes mt ! h) [0..<unat (l1_height mt)], root))
      else ComputeMerkleProof keccak mt (l1_count mt) initialLeaves)"

definition NewL1InfoTree :: "keccak \<Rightarrow> u8 \<Rightarrow> hash list \<Rightarrow> (L1TreeError, L1InfoTree) outcome" where
  "NewL1InfoTree keccak height initialLeaves =
     (let mt = \<lparr>l1_height = height, zeroHashes = generateZeroHashes keccak height,
                l1_count = of_nat (length initialLeaves), l1_siblings = [], currentRoot = 0\<rparr>
      in bind_outcome (initSiblings keccak mt initialLeaves)
           (\<lambda>(siblings, root). Ok (mt\<lparr>l1_siblings := siblings, currentRoot := root\<rparr>)))"

definition GetCurrentRootCountAndSiblings :: "L1InfoTree \<Rightarrow> hash \<times> u32 \<times> hash list" where
  "GetCurrentRootCountAndSiblings mt = (currentRoot mt, l1_count mt, l1_siblings mt)"

subsection \<open>The specification: roots of padded perfect trees\<close>

definition node :: "keccak \<Rightarrow> hash \<Rightarrow> hash \<Rightarrow> hash" where
  "node keccak l r = Hash keccak [l, r]"

primrec zero_root :: "keccak \<Rightarrow> nat \<Rightarrow> hash" where
  "zero_root keccak 0 = 0"
| "zero_root keccak (Suc n) = node keccak (zero_root keccak n) (zero_root keccak n)"

text \<open>
  \<open>mroot keccak k n ls\<close>: the root of the tree of height \<open>n\<close> whose leaves \<open>ls\<close> are nodes of level
  \<open>k\<close>, missing ones being roots of empty trees.
\<close>

primrec mroot :: "keccak \<Rightarrow> nat \<Rightarrow> nat \<Rightarrow> hash list \<Rightarrow> hash" where
  "mroot keccak k 0 ls = (case ls of [] \<Rightarrow> zero_root keccak k | l # _ \<Rightarrow> l)"
| "mroot keccak k (Suc n) ls =
     node keccak (mroot keccak k n (take (2 ^ n) ls)) (mroot keccak k n (drop (2 ^ n) ls))"

fun level_up :: "keccak \<Rightarrow> nat \<Rightarrow> hash list \<Rightarrow> hash list" where
  "level_up keccak k [] = []"
| "level_up keccak k [l] = [node keccak l (zero_root keccak k)]"
| "level_up keccak k (l # r # ls) = node keccak l r # level_up keccak k ls"

lemma mroot_Nil [simp]: "mroot keccak k n [] = zero_root keccak (n + k)"
  by (induction n) simp_all

lemma length_level_up [simp]: "length (level_up keccak k ls) = (length ls + 1) div 2"
  by (induction keccak k ls rule: level_up.induct) simp_all

lemma level_up_eq_Nil [simp]: "level_up keccak k ls = [] \<longleftrightarrow> ls = []"
  by (cases "(keccak, k, ls)" rule: level_up.cases) simp_all

lemma level_up_take: "level_up keccak k (take (2 * m) ls) = take m (level_up keccak k ls)"
proof (induction keccak k ls arbitrary: m rule: level_up.induct)
  case (3 keccak k l r ls)
  show ?case using "3.IH" by (cases m) simp_all
qed (simp_all split: nat.split add: take_Cons')

lemma level_up_drop: "level_up keccak k (drop (2 * m) ls) = drop m (level_up keccak k ls)"
proof (induction keccak k ls arbitrary: m rule: level_up.induct)
  case (3 keccak k l r ls)
  show ?case using "3.IH" by (cases m) simp_all
qed (simp_all add: drop_Cons')

lemma mroot_level_up: "mroot keccak k (Suc n) ls = mroot keccak (Suc k) n (level_up keccak k ls)"
proof (induction n arbitrary: ls)
  case 0
  show ?case by (cases "(keccak, k, ls)" rule: level_up.cases) simp_all
next
  case (Suc n)
  have "mroot keccak k (Suc (Suc n)) ls =
      node keccak (mroot keccak k (Suc n) (take (2 * 2 ^ n) ls)) (mroot keccak k (Suc n) (drop (2 * 2 ^ n) ls))"
    by simp
  also have "\<dots> = mroot keccak (Suc k) (Suc n) (level_up keccak k ls)"
    unfolding Suc.IH level_up_take level_up_drop by simp
  finally show ?case .
qed

lemma zeroHashesUpTo_eq: "zeroHashesUpTo keccak n = map (zero_root keccak) [0..<Suc n]"
  by (induction n) (simp_all add: Let_def nth_append node_def)

definition zeros_ok :: "keccak \<Rightarrow> nat \<Rightarrow> hash list \<Rightarrow> bool" where
  "zeros_ok keccak n zs \<longleftrightarrow> (\<forall>i\<le>n. i < length zs \<and> zs ! i = zero_root keccak i)"

lemma generateZeroHashes_ok: "zeros_ok keccak (unat height) (generateZeroHashes keccak height)"
  by (simp add: zeros_ok_def generateZeroHashes_def zeroHashesUpTo_eq del: upt_Suc)

subsection \<open>Levels\<close>

definition padded :: "keccak \<Rightarrow> nat \<Rightarrow> hash list \<Rightarrow> hash list" where
  "padded keccak h ls = (if odd (length ls) then ls @ [zero_root keccak h] else ls)"

lemma padLevel_ok: "zeros_ok keccak n zs \<Longrightarrow> h \<le> n \<Longrightarrow> padLevel zs h ls = Ok (padded keccak h ls)"
  by (simp add: padLevel_def padded_def index_ok_def zeros_ok_def)

lemma even_length_padded [simp]: "even (length (padded keccak h ls))"
  by (simp add: padded_def)

lemma level_up_padded [simp]: "level_up keccak h (padded keccak h ls) = level_up keccak h ls"
  by (induction keccak h ls rule: level_up.induct) (simp_all add: padded_def split: if_splits)

lemma padded_Cons2: "padded keccak h (l # r # ls) = l # r # padded keccak h ls"
  by (simp add: padded_def)

lemma nth_level_up:
  assumes "i < (length ls + 1) div 2"
  shows "level_up keccak h ls ! i = node keccak (padded keccak h ls ! (2 * i)) (padded keccak h ls ! (2 * i + 1))"
  using assms
proof (induction keccak h ls arbitrary: i rule: level_up.induct)
  case (3 keccak h l r ls)
  then show ?case by (cases i) (simp_all add: padded_Cons2)
qed (simp_all add: padded_def)

lemma buildIntermediate_ok:
  assumes "even (length ls)"
  shows "\<exists>nodes. buildIntermediate keccak ls = Ok (nodes, level_up keccak h ls) \<and>
    map fst nodes = level_up keccak h ls"
  using assms
proof (induction keccak ls rule: buildIntermediate.induct)
  case (3 keccak l r leaves)
  then show ?case by (force simp: node_def Let_def)
qed simp_all

subsection \<open>Building the root\<close>

lemma ceil_div_twice: "((x + 1) div 2 + 2 ^ m - 1) div 2 ^ m = (x + 2 ^ Suc m - 1) div (2 ^ Suc m :: nat)"
proof -
  obtain p :: nat where p: "2 ^ m = Suc p" by (metis not0_implies_Suc power_eq_0_iff zero_neq_numeral)
  have "(x + 1) div 2 + p = (x + 2 * p + 1) div 2" by simp
  then have "((x + 1) div 2 + p) div Suc p = (x + 2 * p + 1) div (2 * Suc p)"
    by (simp only: div_mult2_eq)
  then show ?thesis by (simp add: p)
qed

lemma buildLevels_ok:
  assumes "zeros_ok keccak n zs" "m + k \<le> n"
  shows "\<exists>nodes. buildLevels keccak zs [k..<k + m] ls ns = Ok nodes \<and>
    (0 < m \<longrightarrow> length nodes = (length ls + 2 ^ m - 1) div 2 ^ m \<and>
      (length nodes = 1 \<longrightarrow> fst (nodes ! 0) = mroot keccak k m ls))"
  using assms(2)
proof (induction m arbitrary: k ls ns)
  case (Suc m)
  have upt: "[k..<k + Suc m] = k # [Suc k..<Suc k + m]" by (simp add: upt_rec)
  obtain nodes where b: "buildIntermediate keccak (padded keccak k ls) = Ok (nodes, level_up keccak k ls)"
    "map fst nodes = level_up keccak k ls"
    using buildIntermediate_ok[of "padded keccak k ls" keccak k] by auto
  have step: "buildLevels keccak zs [k..<k + Suc m] ls ns =
      buildLevels keccak zs [Suc k..<Suc k + m] (level_up keccak k ls) nodes"
    using padLevel_ok[OF assms(1), of k ls] Suc.prems unfolding upt by (simp add: b del: upt_Suc)
  show ?case
  proof (cases "m = 0")
    case True
    have "length nodes = (length ls + 1) div 2" using arg_cong[OF b(2), of length] by simp
    moreover have "fst (nodes ! 0) = mroot keccak k 1 ls" if "length nodes = 1"
    proof -
      have "fst (nodes ! 0) = level_up keccak k ls ! 0" using that b(2) by (metis less_one nth_map)
      moreover have "length (level_up keccak k ls) = 1" using that b(2) by (metis length_map)
      ultimately show ?thesis
        using mroot_level_up[of keccak k 0 ls] by (cases "level_up keccak k ls") auto
    qed
    ultimately show ?thesis unfolding step using True by (intro exI[of _ nodes]) simp
  next
    case False
    obtain nodes' where n': "buildLevels keccak zs [Suc k..<Suc k + m] (level_up keccak k ls) nodes = Ok nodes'"
      "length nodes' = ((length ls + 1) div 2 + 2 ^ m - 1) div 2 ^ m"
      "length nodes' = 1 \<longrightarrow> fst (nodes' ! 0) = mroot keccak (Suc k) m (level_up keccak k ls)"
      using Suc.IH[of "Suc k" "level_up keccak k ls" nodes] Suc.prems False by auto
    have "((length ls + 1) div 2 + 2 ^ m - 1) div 2 ^ m = (length ls + 2 ^ Suc m - 1) div 2 ^ Suc m"
      using ceil_div_twice[of "length ls" m] .
    then show ?thesis
      unfolding step using n' mroot_level_up[of keccak k m ls] by (intro exI[of _ nodes']) simp
  qed
qed simp

lemma mroot_zero_leaf: "mroot keccak k n [zero_root keccak k] = zero_root keccak (n + k)"
  by (induction n) simp_all

lemma ceil_div_eq_1:
  assumes "0 < x"
  shows "(x + 2 ^ m - 1) div 2 ^ m = Suc 0 \<longleftrightarrow> x \<le> (2::nat) ^ m"
proof -
  obtain y where y: "x = Suc y" using assms by (cases x) auto
  have "(x + 2 ^ m - 1) div 2 ^ m = Suc (y div 2 ^ m)" by (simp add: y)
  then show ?thesis by (auto simp: y div_eq_0_iff)
qed

lemma BuildL1InfoRoot_eq:
  assumes "zeros_ok keccak (unat (l1_height mt)) (zeroHashes mt)"
  shows "BuildL1InfoRoot keccak mt ls =
    (if 0 < l1_height mt \<and> length ls \<le> 2 ^ unat (l1_height mt)
     then Ok (mroot keccak 0 (unat (l1_height mt)) ls) else Err ErrMoreThanOneRoot)"
proof -
  let ?h = "unat (l1_height mt)"
  define ls' where "ls' = (if ls = [] then [zero_root keccak 0] else ls)"
  have or: "orZeroLeaf (zeroHashes mt) ls = Ok ls'"
    using assms by (auto simp: orZeroLeaf_def ls'_def index_ok_def zeros_ok_def)
  have len: "0 < length ls'" "length ls' \<le> 2 ^ ?h \<longleftrightarrow> length ls \<le> 2 ^ ?h" by (simp_all add: ls'_def)
  have root: "mroot keccak 0 ?h ls' = mroot keccak 0 ?h ls"
    using mroot_zero_leaf[of keccak 0 ?h] by (simp add: ls'_def)
  obtain nodes where n: "buildLevels keccak (zeroHashes mt) [0..<?h] ls' [] = Ok nodes"
    "0 < ?h \<longrightarrow> length nodes = (length ls' + 2 ^ ?h - 1) div 2 ^ ?h \<and>
      (length nodes = 1 \<longrightarrow> fst (nodes ! 0) = mroot keccak 0 ?h ls')"
    using buildLevels_ok[OF assms, of ?h 0 ls' "[]"] by auto
  show ?thesis
  proof (cases "0 < ?h")
    case True
    then have "length nodes = 1 \<longleftrightarrow> length ls \<le> 2 ^ ?h"
      using n(2) ceil_div_eq_1[OF len(1), of ?h] len(2) by simp
    with True n root show ?thesis
      by (auto simp: BuildL1InfoRoot_def or singleRoot_def unat_gt_0 word_gt_0)
  next
    case False
    with n(1) show ?thesis
      by (auto simp: BuildL1InfoRoot_def or singleRoot_def unat_gt_0 word_gt_0)
  qed
qed

subsection \<open>Merkle proofs\<close>

definition sibling_of :: "hash list \<Rightarrow> nat \<Rightarrow> hash" where
  "sibling_of p i = (if odd i \<or> length p \<le> i then p ! (i - 1) else p ! (i + 1))"

primrec proof_path :: "keccak \<Rightarrow> nat \<Rightarrow> nat \<Rightarrow> hash list \<Rightarrow> nat \<Rightarrow> hash list" where
  "proof_path keccak k 0 ls i = []"
| "proof_path keccak k (Suc m) ls i =
     sibling_of (padded keccak k ls) i # proof_path keccak (Suc k) m (level_up keccak k ls) (i div 2)"

lemma length_proof_path [simp]: "length (proof_path keccak k m ls i) = m"
  by (induction m arbitrary: k ls i) simp_all

lemma length_padded: "length (padded keccak k ls) = 2 * ((length ls + 1) div 2)"
  by (auto simp: padded_def elim!: oddE evenE)

lemma padded_nth: "i < length ls \<Longrightarrow> padded keccak k ls ! i = ls ! i"
  by (simp add: padded_def nth_append)

lemma unat_mod_2: "index mod 2 = 1 \<longleftrightarrow> odd (unat (index :: u32))"
proof -
  have "index mod 2 = 1 \<longleftrightarrow> unat (index mod 2) = unat (1 :: u32)" by (simp only: word_unat_eq_iff)
  then show ?thesis by (simp add: unat_mod_distrib odd_iff_mod_2_eq_one)
qed

lemma proofSibling_ok:
  assumes "ls \<noteq> []" "unat index \<le> length ls" "length ls + 1 < 2 ^ 32"
  shows "proofSibling (padded keccak k ls) index sibs = Ok (sibs @ [sibling_of (padded keccak k ls) (unat index)])"
proof -
  let ?p = "padded keccak k ls"
  have len: "length ?p < 2 ^ 32" "length ls \<le> length ?p" "1 < length ?p" "even (length ?p)"
    using assms(1,3) by (cases ls; auto simp: padded_def)+
  have ge: "index \<ge> of_nat (length ?p) \<longleftrightarrow> length ?p \<le> unat index"
    using len(1) by (simp add: word_le_nat_alt unsigned_of_nat take_bit_nat_eq_self)
  have m1: "unat (index - 1) = unat index - 1" if "unat index \<noteq> 0"
    using that by (simp add: unat_minus_one unat_eq_zero)
  have p1: "unat (index + 1) = unat index + 1" if "unat index < length ?p"
    using that len(1) by (simp add: unat_word_ariths)
  show ?thesis
  proof (cases "odd (unat index) \<or> length ?p \<le> unat index")
    case True
    then have nz: "unat index \<noteq> 0" using len(3) by (metis even_zero less_le_trans not_less0 zero_less_one less_trans)
    have "unat index - 1 < length ?p" using assms(2) len nz by linarith
    with True nz show ?thesis
      using len(3) by (auto simp: proofSibling_def unat_mod_2 ge m1 index_ok_def sibling_of_def)
  next
    case False
    then have "unat index + 1 < length ?p"
    proof -
      have "unat index + 1 \<noteq> length ?p" using False len(4) by (metis even_Suc Suc_eq_plus1)
      with False show ?thesis by linarith
    qed
    with False show ?thesis
      using len(3) by (auto simp: proofSibling_def unat_mod_2 ge p1 index_ok_def sibling_of_def)
  qed
qed

lemma proofLevels_ok:
  assumes "zeros_ok keccak n zs" "m + k \<le> n" "ls \<noteq> []" "unat index \<le> length ls" "length ls + 1 < 2 ^ 32"
  shows "\<exists>nodes. proofLevels keccak zs [k..<k + m] ls index sibs ns =
      Ok (sibs @ proof_path keccak k m ls (unat index), nodes) \<and>
    buildLevels keccak zs [k..<k + m] ls ns = Ok nodes"
  using assms(2-5)
proof (induction m arbitrary: k ls index sibs ns)
  case (Suc m)
  have upt: "[k..<k + Suc m] = k # [Suc k..<Suc k + m]" by (simp add: upt_rec)
  obtain nodes where b: "buildIntermediate keccak (padded keccak k ls) = Ok (nodes, level_up keccak k ls)"
    using buildIntermediate_ok[of "padded keccak k ls" keccak k] by auto
  have idx: "unat (index div 2) = unat index div 2" by (simp add: unat_div_distrib)
  show ?case
    using Suc.IH[of "Suc k" "level_up keccak k ls" "index div 2"
        "sibs @ [sibling_of (padded keccak k ls) (unat index)]" nodes]
      padLevel_ok[OF assms(1), of k ls] proofSibling_ok[of ls index keccak k sibs] b Suc.prems
    unfolding upt by (simp add: idx del: upt_Suc)
qed simp

lemma ComputeMerkleProof_eq:
  assumes "zeros_ok keccak (unat (l1_height mt)) (zeroHashes mt)" "0 < l1_height mt"
    and "ls \<noteq> []" "length ls \<le> 2 ^ unat (l1_height mt)" "length ls + 1 < 2 ^ 32" "unat index \<le> length ls"
  shows "ComputeMerkleProof keccak mt index ls =
    Ok (proof_path keccak 0 (unat (l1_height mt)) ls (unat index), mroot keccak 0 (unat (l1_height mt)) ls)"
proof -
  let ?h = "unat (l1_height mt)"
  have or: "orZeroLeaf (zeroHashes mt) ls = Ok ls" using assms(3) by (simp add: orZeroLeaf_def)
  obtain nodes where n: "proofLevels keccak (zeroHashes mt) [0..<?h] ls index [] [] =
      Ok (proof_path keccak 0 ?h ls (unat index), nodes)"
    "buildLevels keccak (zeroHashes mt) [0..<?h] ls [] = Ok nodes"
    using proofLevels_ok[OF assms(1) _ assms(3,6,5), of ?h 0 "[]" "[]"] by auto
  have "singleRoot nodes = Ok (mroot keccak 0 ?h ls)"
    using BuildL1InfoRoot_eq[OF assms(1), of ls] assms(2,4) by (simp add: BuildL1InfoRoot_def or n(2))
  then show ?thesis by (simp add: ComputeMerkleProof_def or n(1))
qed

text \<open>The check of a Merkle proof, as a verifier of the tree does it.\<close>

primrec verifyProof :: "keccak \<Rightarrow> hash \<Rightarrow> nat \<Rightarrow> hash list \<Rightarrow> hash" where
  "verifyProof keccak cur i [] = cur"
| "verifyProof keccak cur i (s # ss) =
     verifyProof keccak (if odd i then node keccak s cur else node keccak cur s) (i div 2) ss"

lemma level_up_sibling:
  assumes "i < length ls"
  shows "level_up keccak k ls ! (i div 2) =
    (if odd i then node keccak (sibling_of (padded keccak k ls) i) (ls ! i)
     else node keccak (ls ! i) (sibling_of (padded keccak k ls) i))"
proof -
  have lt: "i div 2 < (length ls + 1) div 2" using assms by linarith
  have lenp: "\<not> length (padded keccak k ls) \<le> i" using assms by (simp add: padded_def)
  show ?thesis
    using nth_level_up[OF lt, of keccak k] padded_nth[OF assms, of keccak k] lenp
    by (cases "even i") (auto simp: sibling_of_def elim!: evenE oddE)
qed

lemma verify_proof_path:
  assumes "i < length ls" "length ls \<le> 2 ^ m"
  shows "verifyProof keccak (ls ! i) i (proof_path keccak k m ls i) = mroot keccak k m ls"
  using assms
proof (induction m arbitrary: k ls i)
  case 0
  then show ?case by (cases ls) auto
next
  case (Suc m)
  have "i div 2 < length (level_up keccak k ls)" using Suc.prems(1) by simp
  moreover have "length (level_up keccak k ls) \<le> 2 ^ m" using Suc.prems(2) by simp
  ultimately have "verifyProof keccak (level_up keccak k ls ! (i div 2)) (i div 2)
      (proof_path keccak (Suc k) m (level_up keccak k ls) (i div 2)) =
      mroot keccak (Suc k) m (level_up keccak k ls)"
    by (rule Suc.IH)
  then show ?case
    using level_up_sibling[OF Suc.prems(1), of keccak k] mroot_level_up[of keccak k m ls]
    by (cases "odd i") simp_all
qed

subsection \<open>The frontier\<close>

text \<open>
  \<open>block ls i j\<close>: the leaves below node \<open>j\<close> of level \<open>i\<close>.  The frontier of \<open>n\<close> leaves is, for
  every one bit \<open>i\<close> of \<open>n\<close>, the root of the full subtree to the left of the path to leaf \<open>n\<close>.
\<close>

definition block :: "hash list \<Rightarrow> nat \<Rightarrow> nat \<Rightarrow> hash list" where
  "block ls i j = take (2 ^ i) (drop (j * 2 ^ i) ls)"

definition frontier_ok :: "keccak \<Rightarrow> nat \<Rightarrow> hash list \<Rightarrow> hash list \<Rightarrow> bool" where
  "frontier_ok keccak h ls sibs \<longleftrightarrow> length sibs = h \<and>
     (\<forall>i<h. odd (length ls div 2 ^ i) \<longrightarrow> sibs ! i = mroot keccak 0 i (block ls i (length ls div 2 ^ i - 1)))"

primrec up_from :: "keccak \<Rightarrow> nat \<Rightarrow> nat \<Rightarrow> hash list \<Rightarrow> hash list" where
  "up_from keccak k 0 ls = ls"
| "up_from keccak k (Suc i) ls = up_from keccak (Suc k) i (level_up keccak k ls)"

lemma up_from_nth:
  "j < length (up_from keccak k i ls) \<Longrightarrow> up_from keccak k i ls ! j = mroot keccak k i (block ls i j)"
proof (induction i arbitrary: k ls)
  case 0
  then show ?case by (simp add: block_def take_Suc hd_drop_conv_nth split: list.split)
next
  case (Suc i)
  have "block (level_up keccak k ls) i j = level_up keccak k (block ls (Suc i) j)"
    unfolding block_def power_Suc by (simp add: level_up_take level_up_drop mult.left_commute[of j])
  then show ?case using Suc.IH[of "Suc k" "level_up keccak k ls"] Suc.prems mroot_level_up[of keccak k i "block ls (Suc i) j"]
    by simp
qed

lemma proof_path_nth:
  "i < m \<Longrightarrow> proof_path keccak k m ls idx ! i =
     sibling_of (padded keccak (k + i) (up_from keccak k i ls)) (idx div 2 ^ i)"
proof (induction m arbitrary: k ls idx i)
  case (Suc m)
  then show ?case by (cases i) (simp_all add: div_mult2_eq)
qed simp

lemma up_from_length: "idx \<le> length ls \<Longrightarrow> idx div 2 ^ i \<le> length (up_from keccak k i ls)"
proof (induction i arbitrary: k ls idx)
  case (Suc i)
  have "idx div 2 \<le> length (level_up keccak k ls)" using Suc.prems by simp
  then show ?case using Suc.IH by (simp add: div_mult2_eq)
qed simp

lemma proof_path_frontier: "frontier_ok keccak h ls (proof_path keccak 0 h ls (length ls))"
proof -
  have "proof_path keccak 0 h ls (length ls) ! i = mroot keccak 0 i (block ls i (length ls div 2 ^ i - 1))"
    if "i < h" "odd (length ls div 2 ^ i)" for i
  proof -
    have lt: "length ls div 2 ^ i - 1 < length (up_from keccak 0 i ls)"
      using up_from_length[of "length ls" ls i keccak 0] odd_pos[OF that(2)] by linarith
    then show ?thesis
      using that proof_path_nth[OF that(1), of keccak 0 ls "length ls"] up_from_nth[OF lt]
      by (simp add: sibling_of_def padded_nth)
  qed
  then show ?thesis by (simp add: frontier_ok_def)
qed

lemma bit_test: "index AND push_bit h 1 > 0 \<longleftrightarrow> odd (unat (index :: u32) div 2 ^ h)"
proof -
  have "index AND push_bit h 1 > 0 \<longleftrightarrow> bit index h"
    unfolding word_gt_0 bit_iff_and_push_bit_not_eq_0 by (rule neq_commute)
  also have "\<dots> \<longleftrightarrow> bit (unat index) h" by (simp add: bit_unsigned_iff)
  finally show ?thesis by (simp add: bit_iff_odd)
qed

lemma block_append:
  assumes "q * 2 ^ j \<le> length ls" "0 < q"
  shows "block (ls @ [x]) j (q - 1) = block ls j (q - 1)"
proof -
  have "(q - 1) * 2 ^ j + 2 ^ j = q * 2 ^ j" using assms(2) by (cases q) simp_all
  then show ?thesis using assms(1) by (simp add: block_def)
qed

lemma tail_length: "Suc n - n div 2 ^ i * 2 ^ i \<le> 2 ^ i"
proof -
  have "n = n div 2 ^ i * 2 ^ i + n mod 2 ^ i" by (rule div_mult_mod_eq[symmetric])
  moreover have "n mod 2 ^ i < 2 ^ i" by simp
  ultimately show ?thesis by linarith
qed

lemma mroot_step:
  fixes n i :: nat
  assumes "length ls' = Suc n"
  shows "odd (n div 2 ^ i) \<Longrightarrow> mroot keccak 0 (Suc i) (drop (n div 2 ^ Suc i * 2 ^ Suc i) ls') =
      node keccak (mroot keccak 0 i (block ls' i (n div 2 ^ i - 1))) (mroot keccak 0 i (drop (n div 2 ^ i * 2 ^ i) ls'))"
    and "even (n div 2 ^ i) \<Longrightarrow> mroot keccak 0 (Suc i) (drop (n div 2 ^ Suc i * 2 ^ Suc i) ls') =
      node keccak (mroot keccak 0 i (drop (n div 2 ^ i * 2 ^ i) ls')) (zero_root keccak i)"
proof -
  define q where "q = n div 2 ^ i"
  have half: "n div 2 ^ Suc i = q div 2" unfolding q_def power_Suc by (simp only: mult.commute[of 2] div_mult2_eq)
  have len: "length (drop (q * 2 ^ i) ls') \<le> 2 ^ i" using assms tail_length[of n i] by (simp add: q_def)
  {
    assume "odd (n div 2 ^ i)"
    then obtain p where p: "q = 2 * p + 1" unfolding q_def[symmetric] by (rule oddE)
    have eq: "q div 2 * 2 ^ Suc i = (q - 1) * 2 ^ i" "2 ^ i + (q - 1) * 2 ^ i = q * 2 ^ i" by (simp_all add: p)
    show "mroot keccak 0 (Suc i) (drop (n div 2 ^ Suc i * 2 ^ Suc i) ls') =
      node keccak (mroot keccak 0 i (block ls' i (n div 2 ^ i - 1))) (mroot keccak 0 i (drop (n div 2 ^ i * 2 ^ i) ls'))"
      unfolding half q_def[symmetric] eq(1) by (simp add: block_def eq(2)[simplified])
  }
  {
    assume "even (n div 2 ^ i)"
    then obtain p where p: "q = 2 * p" unfolding q_def[symmetric] by (rule evenE)
    have eq: "q div 2 * 2 ^ Suc i = q * 2 ^ i" by (simp add: p)
    show "mroot keccak 0 (Suc i) (drop (n div 2 ^ Suc i * 2 ^ Suc i) ls') =
      node keccak (mroot keccak 0 i (drop (n div 2 ^ i * 2 ^ i) ls')) (zero_root keccak i)"
      unfolding half q_def[symmetric] eq using len by simp
  }
qed

text \<open>
  Before level \<open>i\<close>: the levels from \<open>i\<close> on still hold the frontier of the old leaves, those
  below already that of the new ones, and \<open>isFilledSubTree\<close> says whether the increment of
  the leaf count still carries into bit \<open>i\<close>.
\<close>

definition frontier_inv :: "keccak \<Rightarrow> nat \<Rightarrow> hash list \<Rightarrow> hash \<Rightarrow> nat \<Rightarrow> hash list \<Rightarrow> bool \<Rightarrow> bool" where
  "frontier_inv keccak h ls leaf i sibs filled \<longleftrightarrow> length sibs = h \<and>
     (\<forall>j. i \<le> j \<and> j < h \<and> odd (length ls div 2 ^ j) \<longrightarrow>
        sibs ! j = mroot keccak 0 j (block ls j (length ls div 2 ^ j - 1))) \<and>
     (\<forall>j<i. odd (Suc (length ls) div 2 ^ j) \<longrightarrow>
        sibs ! j = mroot keccak 0 j (block (ls @ [leaf]) j (Suc (length ls) div 2 ^ j - 1))) \<and>
     Suc (length ls) div 2 ^ i = length ls div 2 ^ i + (if filled then 1 else 0)"

lemma div_pow_Suc: "(x::nat) div 2 ^ Suc i = x div 2 ^ i div 2"
  by (simp only: power_Suc mult.commute[of 2] div_mult2_eq)

lemma frontier_odd:
  assumes inv: "frontier_inv keccak h ls leaf i sibs filled" and i: "i < h" and odd: "odd (length ls div 2 ^ i)"
  shows "frontier_inv keccak h ls leaf (Suc i) sibs filled"
    and "sibs ! i = mroot keccak 0 i (block (ls @ [leaf]) i (length ls div 2 ^ i - 1))"
proof -
  let ?q = "length ls div 2 ^ i"
  have c: "Suc (length ls) div 2 ^ i = ?q + (if filled then 1 else 0)"
    using inv by (simp add: frontier_inv_def)
  have blk: "block (ls @ [leaf]) i (?q - 1) = block ls i (?q - 1)"
    using odd_pos[OF odd] by (intro block_append) (simp_all add: div_times_less_eq_dividend)
  show s: "sibs ! i = mroot keccak 0 i (block (ls @ [leaf]) i (?q - 1))"
    using inv i odd blk by (simp add: frontier_inv_def)
  have "Suc (length ls) div 2 ^ Suc i = length ls div 2 ^ Suc i + (if filled then 1 else 0)"
    unfolding div_pow_Suc c using odd by (auto elim!: oddE)
  moreover have "sibs ! j = mroot keccak 0 j (block (ls @ [leaf]) j (Suc (length ls) div 2 ^ j - 1))"
    if "j < Suc i" "odd (Suc (length ls) div 2 ^ j)" for j
  proof (cases "j = i")
    case True
    then have "\<not> filled" using c odd that(2) by auto
    then show ?thesis using s True c by simp
  qed (use inv that in \<open>simp add: frontier_inv_def\<close>)
  ultimately show "frontier_inv keccak h ls leaf (Suc i) sibs filled"
    using inv by (simp add: frontier_inv_def del: power_Suc)
qed

lemma frontier_even:
  assumes inv: "frontier_inv keccak h ls leaf i sibs filled" and i: "i < h" and even: "even (length ls div 2 ^ i)"
    and cur: "cur = mroot keccak 0 i (drop (length ls div 2 ^ i * 2 ^ i) (ls @ [leaf]))"
  shows "frontier_inv keccak h ls leaf (Suc i) (if filled then sibs[i := cur] else sibs) False"
proof -
  let ?q = "length ls div 2 ^ i" and ?s = "if filled then sibs[i := cur] else sibs"
  have c: "Suc (length ls) div 2 ^ i = ?q + (if filled then 1 else 0)"
    using inv by (simp add: frontier_inv_def)
  have "Suc (length ls) div 2 ^ Suc i = length ls div 2 ^ Suc i"
    unfolding div_pow_Suc c using even by (auto elim!: evenE)
  moreover have "?s ! j = mroot keccak 0 j (block (ls @ [leaf]) j (Suc (length ls) div 2 ^ j - 1))"
    if "j < Suc i" "odd (Suc (length ls) div 2 ^ j)" for j
  proof (cases "j = i")
    case True
    then have f: "filled" using c even that(2) by (cases filled) auto
    have "block (ls @ [leaf]) i ?q = drop (?q * 2 ^ i) (ls @ [leaf])"
      unfolding block_def using tail_length[of "length ls" i]
      by (intro take_all) (simp add: Suc_diff_le div_times_less_eq_dividend)
    then show ?thesis using f True c cur inv i by (simp add: frontier_inv_def)
  qed (use inv that in \<open>simp add: frontier_inv_def\<close>)
  moreover have "?s ! j = mroot keccak 0 j (block ls j (length ls div 2 ^ j - 1))"
    if "Suc i \<le> j" "j < h" "odd (length ls div 2 ^ j)" for j
    using inv that by (simp add: frontier_inv_def)
  ultimately show ?thesis
    using inv by (simp add: frontier_inv_def del: power_Suc)
qed

lemma addLeafLevels_odd:
  assumes "odd (unat index div 2 ^ h)" "h < length sibs"
  shows "addLeafLevels keccak zs index (h # hs) sibs cur filled =
    addLeafLevels keccak zs index hs sibs (node keccak (sibs ! h) cur) filled"
  unfolding addLeafLevels.simps bit_test using assms by (simp add: index_ok_def node_def)

lemma addLeafLevels_even:
  assumes "even (unat index div 2 ^ h)" "h < length sibs" "h < length zs"
  shows "addLeafLevels keccak zs index (h # hs) sibs cur filled =
    addLeafLevels keccak zs index hs (if filled then sibs[h := cur] else sibs) (node keccak cur (zs ! h)) False"
  unfolding addLeafLevels.simps bit_test using assms by (simp add: index_ok_def node_def)

lemma addLeafLevels_ok:
  assumes "zeros_ok keccak h zs" "unat index = length ls" "m + i = h"
    and "frontier_inv keccak h ls leaf i sibs filled"
    and "cur = mroot keccak 0 i (drop (length ls div 2 ^ i * 2 ^ i) (ls @ [leaf]))"
  shows "\<exists>sibs'. addLeafLevels keccak zs index [i..<i + m] sibs cur filled =
      Ok (sibs', mroot keccak 0 h (drop (length ls div 2 ^ h * 2 ^ h) (ls @ [leaf]))) \<and>
    (\<exists>filled'. frontier_inv keccak h ls leaf h sibs' filled')"
  using assms(3-5)
proof (induction m arbitrary: i sibs cur filled)
  case 0
  then show ?case by auto
next
  case (Suc m)
  have upt: "[i..<i + Suc m] = i # [Suc i..<Suc i + m]" by (simp add: upt_rec)
  have i: "i < h" "m + Suc i = h" using Suc.prems(1) by auto
  have idx: "i < length sibs" using Suc.prems(2) i by (simp add: frontier_inv_def)
  have z: "i < length zs" "zs ! i = zero_root keccak i" using assms(1) i by (simp_all add: zeros_ok_def)
  have len: "length (ls @ [leaf]) = Suc (length ls)" by simp
  show ?case
  proof (cases "odd (length ls div 2 ^ i)")
    case True
    note f = frontier_odd[OF Suc.prems(2) i(1) True]
    have "addLeafLevels keccak zs index [i..<i + Suc m] sibs cur filled =
        addLeafLevels keccak zs index [Suc i..<Suc i + m] sibs (node keccak (sibs ! i) cur) filled"
      unfolding upt by (rule addLeafLevels_odd) (simp_all add: assms(2) True idx)
    then show ?thesis
      using Suc.IH[OF i(2) f(1) mroot_step(1)[OF len True, symmetric]] f(2) Suc.prems(3) by metis
  next
    case False
    then have ev: "even (length ls div 2 ^ i)" by simp
    have "addLeafLevels keccak zs index [i..<i + Suc m] sibs cur filled =
        addLeafLevels keccak zs index [Suc i..<Suc i + m] (if filled then sibs[i := cur] else sibs)
          (node keccak cur (zero_root keccak i)) False"
      unfolding upt z(2)[symmetric] by (rule addLeafLevels_even) (simp_all only: assms(2) ev idx z)
    then show ?thesis
      using Suc.IH[OF i(2) frontier_even[OF Suc.prems(2) i(1) ev Suc.prems(3)]
          mroot_step(2)[OF len ev, symmetric]] Suc.prems(3) by metis
  qed
qed

subsection \<open>The invariant of the tree\<close>

definition l1_inv :: "keccak \<Rightarrow> L1InfoTree \<Rightarrow> hash list \<Rightarrow> bool" where
  "l1_inv keccak mt ls \<longleftrightarrow>
     0 < l1_height mt \<and> zeros_ok keccak (unat (l1_height mt)) (zeroHashes mt) \<and>
     length ls < 2 ^ 32 \<and> l1_count mt = of_nat (length ls) \<and> length ls \<le> 2 ^ unat (l1_height mt) \<and>
     frontier_ok keccak (unat (l1_height mt)) ls (l1_siblings mt) \<and>
     currentRoot mt = mroot keccak 0 (unat (l1_height mt)) ls"

lemma unat_of_nat_u32: "n < 2 ^ 32 \<Longrightarrow> unat (of_nat n :: u32) = n"
  by (simp add: unsigned_of_nat take_bit_nat_eq_self)

lemma NewL1InfoTree_inv:
  assumes "0 < height" "length ls \<le> 2 ^ unat height" "length ls + 1 < 2 ^ 32"
  shows "\<exists>mt. NewL1InfoTree keccak height ls = Ok mt \<and> l1_height mt = height \<and> l1_inv keccak mt ls"
proof -
  define mt where "mt = \<lparr>l1_height = height, zeroHashes = generateZeroHashes keccak height,
      l1_count = of_nat (length ls) :: u32, l1_siblings = [], currentRoot = 0\<rparr>"
  have z: "zeros_ok keccak (unat (l1_height mt)) (zeroHashes mt)"
    by (simp add: mt_def generateZeroHashes_ok)
  have h: "0 < l1_height mt" "length ls \<le> 2 ^ unat (l1_height mt)" using assms by (simp_all add: mt_def)
  have c: "unat (l1_count mt) = length ls" using assms(3) by (simp add: mt_def unat_of_nat_u32)
  have "\<exists>sibs. initSiblings keccak mt ls = Ok (sibs, mroot keccak 0 (unat height) ls) \<and>
    frontier_ok keccak (unat height) ls sibs"
  proof (cases "ls = []")
    case True
    then show ?thesis
      using BuildL1InfoRoot_eq[OF z, of ls] h by (auto simp: initSiblings_def frontier_ok_def mt_def)
  next
    case False
    then have "l1_count mt \<noteq> 0" using c by (metis length_0_conv unat_0)
    then show ?thesis
      using ComputeMerkleProof_eq[OF z h(1) False h(2) assms(3), of "l1_count mt"]
        proof_path_frontier[of keccak "unat height" ls] c
      by (simp add: initSiblings_def) (simp add: mt_def)
  qed
  then obtain sibs where "initSiblings keccak mt ls = Ok (sibs, mroot keccak 0 (unat height) ls)"
    "frontier_ok keccak (unat height) ls sibs" by blast
  then show ?thesis
    using z h assms unfolding NewL1InfoTree_def Let_def mt_def[symmetric]
    by (simp add: l1_inv_def) (simp add: mt_def)
qed

lemma frontier_ok_start: "frontier_ok keccak h ls sibs \<Longrightarrow> frontier_inv keccak h ls leaf 0 sibs True"
  by (simp add: frontier_ok_def frontier_inv_def)

lemma frontier_ok_end: "frontier_inv keccak h ls leaf h sibs filled \<Longrightarrow> frontier_ok keccak h (ls @ [leaf]) sibs"
  by (simp add: frontier_ok_def frontier_inv_def)

lemma AddLeaf_computes:
  assumes "l1_inv keccak mt ls"
  shows "\<exists>mt'. AddLeaf keccak mt (l1_count mt) leaf = Ok (mt', currentRoot mt') \<and>
    l1_height mt' = l1_height mt \<and> zeroHashes mt' = zeroHashes mt \<and>
    l1_count mt' = of_nat (Suc (length ls)) \<and>
    frontier_ok keccak (unat (l1_height mt)) (ls @ [leaf]) (l1_siblings mt') \<and>
    currentRoot mt' = mroot keccak 0 (unat (l1_height mt))
      (drop (length ls div 2 ^ unat (l1_height mt) * 2 ^ unat (l1_height mt)) (ls @ [leaf]))"
proof -
  let ?h = "unat (l1_height mt)"
  have z: "zeros_ok keccak ?h (zeroHashes mt)" and c: "unat (l1_count mt) = length ls"
    and f: "frontier_inv keccak ?h ls leaf 0 (l1_siblings mt) True"
    using assms by (auto simp: l1_inv_def unat_of_nat_u32 intro: frontier_ok_start)
  have "leaf = mroot keccak 0 0 (drop (length ls div 2 ^ 0 * 2 ^ 0) (ls @ [leaf]))" by simp
  from addLeafLevels_ok[OF z c _ f this, of ?h] obtain sibs' filled' where
    "addLeafLevels keccak (zeroHashes mt) (l1_count mt) [0..<?h] (l1_siblings mt) leaf True =
      Ok (sibs', mroot keccak 0 ?h (drop (length ls div 2 ^ ?h * 2 ^ ?h) (ls @ [leaf])))"
    "frontier_inv keccak ?h ls leaf ?h sibs' filled'" by auto
  then show ?thesis
    using assms by (auto simp: AddLeaf_def l1_inv_def intro: frontier_ok_end)
qed

lemma AddLeaf_inv:
  assumes "l1_inv keccak mt ls" "length ls < 2 ^ unat (l1_height mt)" "length ls + 1 < 2 ^ 32"
  shows "\<exists>mt'. AddLeaf keccak mt (l1_count mt) leaf = Ok (mt', currentRoot mt') \<and>
    l1_height mt' = l1_height mt \<and> l1_inv keccak mt' (ls @ [leaf])"
  using AddLeaf_computes[OF assms(1), of leaf] assms by (auto simp: l1_inv_def)

subsection \<open>Incremental accumulators\<close>

text \<open>
  \<open>accumulator\<close> is the contract between a tree that is extended leaf by leaf and its users,
  the synchronizer and the storage, which only see the roots: each addition below the
  capacity answers the commitment to all leaves so far.
\<close>

locale accumulator =
  fixes inv :: "'s \<Rightarrow> 'a list \<Rightarrow> bool" and cap :: "'s \<Rightarrow> nat"
    and add :: "'s \<Rightarrow> 'a \<Rightarrow> ('e, 's \<times> 'r) outcome" and spec :: "'s \<Rightarrow> 'a list \<Rightarrow> 'r"
  assumes add_ok: "inv s ls \<Longrightarrow> length ls < cap s \<Longrightarrow>
    \<exists>s'. add s x = Ok (s', spec s (ls @ [x])) \<and> inv s' (ls @ [x]) \<and> cap s' = cap s \<and> spec s' = spec s"
begin

primrec addAll :: "'s \<Rightarrow> 'a list \<Rightarrow> ('e, 's \<times> 'r list) outcome" where
  "addAll s [] = Ok (s, [])"
| "addAll s (x # xs) =
     bind_outcome (add s x) (\<lambda>(s', r). bind_outcome (addAll s' xs) (\<lambda>(s'', rs). Ok (s'', r # rs)))"

lemma addAll_ok:
  "inv s ls \<Longrightarrow> length ls + length xs \<le> cap s \<Longrightarrow>
   \<exists>s'. addAll s xs = Ok (s', map (\<lambda>i. spec s (ls @ take (Suc i) xs)) [0..<length xs]) \<and>
     inv s' (ls @ xs) \<and> cap s' = cap s \<and> spec s' = spec s"
proof (induction xs arbitrary: s ls)
  case (Cons x xs)
  obtain s1 where s1: "add s x = Ok (s1, spec s (ls @ [x]))" "inv s1 (ls @ [x])" "cap s1 = cap s" "spec s1 = spec s"
    using add_ok[OF Cons.prems(1), of x] Cons.prems(2) by auto
  obtain s2 where "addAll s1 xs = Ok (s2, map (\<lambda>i. spec s1 ((ls @ [x]) @ take (Suc i) xs)) [0..<length xs])"
    "inv s2 ((ls @ [x]) @ xs)" "cap s2 = cap s1" "spec s2 = spec s1"
    using Cons.IH[OF s1(2)] Cons.prems(2) s1(3) by auto
  then show ?case
    using s1 by (simp add: upt_conv_Cons map_Suc_upt[symmetric] del: upt_Suc)
qed simp

end

definition addLeaf_next :: "keccak \<Rightarrow> L1InfoTree \<Rightarrow> hash \<Rightarrow> (L1TreeError, L1InfoTree \<times> hash) outcome" where
  "addLeaf_next keccak mt leaf = AddLeaf keccak mt (l1_count mt) leaf"

definition l1_capacity :: "L1InfoTree \<Rightarrow> nat" where
  "l1_capacity mt = min (2 ^ unat (l1_height mt)) (2 ^ 32 - 1)"

interpretation l1acc: accumulator "l1_inv keccak" l1_capacity "addLeaf_next keccak"
  "\<lambda>mt. mroot keccak 0 (unat (l1_height mt))" for keccak
proof
  fix mt ls leaf
  assume inv: "l1_inv keccak mt ls" and "length ls < l1_capacity mt"
  then have "length ls < 2 ^ unat (l1_height mt)" "length ls + 1 < 2 ^ 32" by (simp_all add: l1_capacity_def)
  from AddLeaf_inv[OF inv this, of leaf]
  show "\<exists>mt'. addLeaf_next keccak mt leaf = Ok (mt', mroot keccak 0 (unat (l1_height mt)) (ls @ [leaf])) \<and>
      l1_inv keccak mt' (ls @ [leaf]) \<and> l1_capacity mt' = l1_capacity mt \<and>
      mroot keccak 0 (unat (l1_height mt')) = mroot keccak 0 (unat (l1_height mt))"
    by (auto simp: addLeaf_next_def l1_capacity_def l1_inv_def[of _ _ "ls @ [leaf]"])
qed

subsection \<open>Properties of the tree\<close>

text \<open>The leaves are added one after the other, as the storage does.\<close>

primrec addLeaves :: "keccak \<Rightarrow> L1InfoTree \<Rightarrow> hash list \<Rightarrow> (L1TreeError, L1InfoTree \<times> hash list) outcome" where
  "addLeaves keccak mt [] = Ok (mt, [])"
| "addLeaves keccak mt (leaf # leaves) =
     bind_outcome (AddLeaf keccak mt (l1_count mt) leaf) (\<lambda>(mt', root).
     bind_outcome (addLeaves keccak mt' leaves) (\<lambda>(mt'', roots). Ok (mt'', root # roots)))"

lemma addLeaves_eq: "addLeaves keccak mt xs = l1acc.addAll keccak mt xs"
  by (induction xs arbitrary: mt) (simp_all add: addLeaf_next_def)

lemma NewL1InfoTree_zeros:
  assumes "NewL1InfoTree keccak height init = Ok mt"
  shows "zeros_ok keccak (unat (l1_height mt)) (zeroHashes mt) \<and> l1_height mt = height \<and> 0 < height"
proof -
  let ?m = "\<lparr>l1_height = height, zeroHashes = generateZeroHashes keccak height,
      l1_count = of_nat (length init) :: u32, l1_siblings = [], currentRoot = 0\<rparr>"
  have z: "zeros_ok keccak (unat (l1_height ?m)) (zeroHashes ?m)" by (simp add: generateZeroHashes_ok)
  have "0 < height"
  proof (rule ccontr)
    assume "\<not> 0 < height"
    then have "height = 0" by (simp add: word_gt_0)
    then have "\<nexists>x. initSiblings keccak ?m init = Ok x"
      using BuildL1InfoRoot_eq[OF z, of init]
      by (auto simp: initSiblings_def ComputeMerkleProof_def singleRoot_def orZeroLeaf_def split: if_splits)
    then show False using assms by (simp add: NewL1InfoTree_def Let_def)
  qed
  then show ?thesis using assms z by (auto simp: NewL1InfoTree_def Let_def)
qed

text \<open>
  C14: a tree created with some leaves and extended leaf by leaf through its frontier has, after
  every addition, the root of the padded perfect tree over all leaves so far, which is also
  the root that rebuilding the tree from all leaves computes.
\<close>

theorem L1InfoTree_incremental_root:
  assumes "0 < height" "length init + length xs \<le> 2 ^ unat height" "length init + length xs < 2 ^ 32 - 1"
  shows "\<exists>mt0 mt roots. NewL1InfoTree keccak height init = Ok mt0 \<and>
    addLeaves keccak mt0 xs = Ok (mt, roots) \<and>
    roots = map (\<lambda>i. mroot keccak 0 (unat height) (init @ take (Suc i) xs)) [0..<length xs] \<and>
    currentRoot mt = mroot keccak 0 (unat height) (init @ xs) \<and>
    BuildL1InfoRoot keccak mt (init @ xs) = Ok (currentRoot mt) \<and>
    l1_count mt = of_nat (length (init @ xs))"
proof -
  obtain mt0 where m: "NewL1InfoTree keccak height init = Ok mt0" "l1_height mt0 = height" "l1_inv keccak mt0 init"
    using NewL1InfoTree_inv[OF assms(1), of init keccak] assms by auto
  have "length init + length xs \<le> l1_capacity mt0" using assms m(2) by (simp add: l1_capacity_def)
  from l1acc.addAll_ok[OF m(3) this] obtain mt where
    a: "addLeaves keccak mt0 xs = Ok (mt, map (\<lambda>i. mroot keccak 0 (unat height) (init @ take (Suc i) xs)) [0..<length xs])"
    and inv: "l1_inv keccak mt (init @ xs)"
    and sp: "mroot keccak 0 (unat (l1_height mt)) = mroot keccak 0 (unat height)"
    using m(2) by (auto simp: addLeaves_eq)
  have "BuildL1InfoRoot keccak mt (init @ xs) = Ok (currentRoot mt)"
    using inv BuildL1InfoRoot_eq[of keccak mt "init @ xs"] by (simp add: l1_inv_def)
  moreover have "currentRoot mt = mroot keccak 0 (unat height) (init @ xs)"
    using inv sp by (simp add: l1_inv_def)
  ultimately show ?thesis using m(1) a inv by (auto simp: l1_inv_def)
qed

text \<open>
  On any tree made by \<open>NewL1InfoTree\<close>, \<open>BuildL1InfoRoot\<close> computes the root of the padded
  perfect tree over the leaves, and refuses exactly the lists that do not fit its height.
\<close>

lemma BuildL1InfoRoot_correct:
  assumes "NewL1InfoTree keccak height init = Ok mt"
  shows "BuildL1InfoRoot keccak mt ls =
    (if length ls \<le> 2 ^ unat height then Ok (mroot keccak 0 (unat height) ls) else Err ErrMoreThanOneRoot)"
  using NewL1InfoTree_zeros[OF assms] BuildL1InfoRoot_eq[of keccak mt ls] by auto

text \<open>
  C15: the siblings \<open>ComputeMerkleProof\<close> returns for a leaf are a valid Merkle proof of that leaf
  at that index against the root it returns, which is the root of the tree.
\<close>

theorem ComputeMerkleProof_verifies:
  assumes "NewL1InfoTree keccak height init = Ok mt"
    and "i < length ls" "length ls \<le> 2 ^ unat height" "length ls < 2 ^ 32 - 1"
  shows "\<exists>siblings root. ComputeMerkleProof keccak mt (of_nat i) ls = Ok (siblings, root) \<and>
    length siblings = unat height \<and> verifyProof keccak (ls ! i) i siblings = root \<and>
    BuildL1InfoRoot keccak mt ls = Ok root"
proof -
  note z = NewL1InfoTree_zeros[OF assms(1)]
  have i: "unat (of_nat i :: u32) = i" using assms(2,4) by (simp add: unat_of_nat_u32)
  have "ComputeMerkleProof keccak mt (of_nat i) ls =
      Ok (proof_path keccak 0 (unat height) ls i, mroot keccak 0 (unat height) ls)"
  proof -
    have "ls \<noteq> []" using assms(2) by auto
    then show ?thesis using ComputeMerkleProof_eq[of keccak mt ls "of_nat i"] z assms(2-4) i by auto
  qed
  then show ?thesis
    using verify_proof_path[OF assms(2,3), of keccak 0] BuildL1InfoRoot_eq[of keccak mt ls] z assms(3) by auto
qed

text \<open>
  \<open>AddLeaf\<close> refuses any index other than the number of leaves; but it has no test for a
  full tree: the leaf after the last one is accepted and answered with the root of a tree
  that holds only that leaf.
\<close>

lemma AddLeaf_index_and_capacity:
  assumes "l1_inv keccak mt ls" "length ls = 2 ^ unat (l1_height mt)"
  shows "(index \<noteq> l1_count mt \<longrightarrow>
      AddLeaf keccak mt index leaf = Err (ErrMismatchedLeafCount index (l1_count mt))) \<and>
    (\<exists>mt'. AddLeaf keccak mt (l1_count mt) leaf = Ok (mt', mroot keccak 0 (unat (l1_height mt)) [leaf]))"
  using AddLeaf_computes[OF assms(1), of leaf] assms(2) by (auto simp: AddLeaf_def)

subsection \<open>Witnesses\<close>

text \<open>A stand-in for Keccak: the sum of the bytes weighted by their position.\<close>

definition sumHash :: keccak where
  "sumHash bs = of_nat (be_val bs) + 1"

theorem L1InfoTree_incremental_root_witness:
  "\<exists>mt0 mt roots. NewL1InfoTree sumHash 2 [7] = Ok mt0 \<and> addLeaves sumHash mt0 [8, 9] = Ok (mt, roots) \<and>
     currentRoot mt = mroot sumHash 0 2 [7, 8, 9] \<and> BuildL1InfoRoot sumHash mt [7, 8, 9] = Ok (currentRoot mt)"
  using L1InfoTree_incremental_root[of 2 "[7]" "[8, 9]" sumHash] by (force simp: word_gt_0)

lemma sampleTree: "\<exists>mt. NewL1InfoTree sumHash 2 [] = Ok mt"
  using NewL1InfoTree_inv[of 2 "[]" sumHash] by (auto simp: word_gt_0)

theorem ComputeMerkleProof_verifies_witness:
  "\<exists>mt siblings root. NewL1InfoTree sumHash 2 [] = Ok mt \<and>
     ComputeMerkleProof sumHash mt 1 [7, 8, 9] = Ok (siblings, root) \<and> verifyProof sumHash 8 1 siblings = root"
proof -
  obtain mt where mt: "NewL1InfoTree sumHash 2 [] = Ok mt" using sampleTree by blast
  show ?thesis
    using ComputeMerkleProof_verifies[OF mt, of 1 "[7, 8, 9]"] mt by auto
qed

end
