(* ===== verification/BlockRanges.thy ===== *)
theory BlockRanges
  imports Prelude
begin

text \<open>
  Ranges of L1 blocks and the lists of ranges that are being retrieved or wait for a retry:
  \<open>synchronizer/l1_parallel_sync/block_range.go\<close> and \<open>l1_live_block_ranges.go\<close>.  Block numbers are
  64-bit words; the largest one stands for the latest block and zero for an invalid one.
\<close>

subsection \<open>Ranges\<close>

definition latestBlockNumber :: u64 where "latestBlockNumber = - 1"
definition invalidBlockNumber :: u64 where "invalidBlockNumber = 0"

datatype BlockRangeError =
    errBlockRangeInvalidIsNil
  | errBlockRangeInvalidIsZero
  | errBlockRangeInvalidIsWrong
  | errBlockRangeInvalidOverlap
  | errBlockRangeNotFound
  | errBlockRangeIsEmpty

record blockRange =
  fromBlock :: u64
  toBlock :: u64

fun decimalText :: "nat \<Rightarrow> string" where
  "decimalText n = (if n < 10 then [char_of (n + 48)] else decimalText (n div 10) @ [char_of (n mod 10 + 48)])"

declare decimalText.simps [simp del]

definition blockNumberToString :: "u64 \<Rightarrow> string" where
  "blockNumberToString b =
     (if b = latestBlockNumber then ''earliest''
      else if b = invalidBlockNumber then ''invalid''
      else decimalText (unat b))"

definition br_String :: "blockRange \<Rightarrow> string" where
  "br_String b = ''['' @ blockNumberToString (fromBlock b) @ '', '' @ blockNumberToString (toBlock b) @ '']''"

definition br_len :: "blockRange \<Rightarrow> u64" where
  "br_len b =
     (if toBlock b = latestBlockNumber \<or> fromBlock b = latestBlockNumber then 0
      else toBlock b - fromBlock b + 1)"

definition br_isValid :: "blockRange option \<Rightarrow> BlockRangeError option" where
  "br_isValid br =
     (case br of
        None \<Rightarrow> Some errBlockRangeInvalidIsNil
      | Some b \<Rightarrow>
          if fromBlock b = invalidBlockNumber \<or> toBlock b = invalidBlockNumber then Some errBlockRangeInvalidIsZero
          else if fromBlock b > toBlock b then Some errBlockRangeInvalidIsWrong
          else None)"

definition br_overlaps :: "blockRange \<Rightarrow> blockRange \<Rightarrow> bool" where
  "br_overlaps b br \<longleftrightarrow> fromBlock b \<le> toBlock br \<and> fromBlock br \<le> toBlock b"

subsection \<open>Live ranges\<close>

record liveBlockRanges =
  ranges :: "blockRange list"

definition newLiveBlockRanges :: liveBlockRanges where
  "newLiveBlockRanges = \<lparr>ranges = []\<rparr>"

definition lr_overlaps :: "liveBlockRanges \<Rightarrow> blockRange \<Rightarrow> bool" where
  "lr_overlaps l br = list_ex (\<lambda>r. br_overlaps r br) (ranges l)"

definition addBlockRange :: "liveBlockRanges \<Rightarrow> blockRange \<Rightarrow> liveBlockRanges \<times> BlockRangeError option" where
  "addBlockRange l br =
     (case br_isValid (Some br) of
        Some e \<Rightarrow> (l, Some e)
      | None \<Rightarrow>
          if lr_overlaps l br then (l, Some errBlockRangeInvalidOverlap)
          else (l\<lparr>ranges := ranges l @ [br]\<rparr>, None))"

definition removeBlockRange :: "liveBlockRanges \<Rightarrow> blockRange \<Rightarrow> liveBlockRanges \<times> BlockRangeError option" where
  "removeBlockRange l br =
     (if br \<in> set (ranges l) then (l\<lparr>ranges := remove1 br (ranges l)\<rparr>, None)
      else (l, Some errBlockRangeNotFound))"

definition getFirstBlockRange :: "liveBlockRanges \<Rightarrow> (BlockRangeError, blockRange) outcome" where
  "getFirstBlockRange l = (case ranges l of [] \<Rightarrow> Err errBlockRangeIsEmpty | r # _ \<Rightarrow> Ok r)"

text \<open>The loop of \<open>getSuperBlockRange\<close>; the first iteration initialises both ends.\<close>

definition superStep :: "blockRange \<Rightarrow> u64 \<times> u64 \<Rightarrow> u64 \<times> u64" where
  "superStep r = (\<lambda>(from, to).
     (if fromBlock r < from then fromBlock r else from, if toBlock r > to then toBlock r else to))"

definition getSuperBlockRange :: "liveBlockRanges \<Rightarrow> blockRange option" where
  "getSuperBlockRange l =
     (let (from, to) =
        (case ranges l of
           [] \<Rightarrow> (invalidBlockNumber, invalidBlockNumber)
         | r # rs \<Rightarrow> fold superStep rs (fromBlock r, toBlock r));
        res = \<lparr>fromBlock = from, toBlock = to\<rparr>
      in if br_isValid (Some res) = None then Some res else None)"

definition lr_len :: "liveBlockRanges \<Rightarrow> nat" where
  "lr_len l = length (ranges l)"

subsection \<open>What the operations promise\<close>

text \<open>The blocks of a range, and lists of valid ranges no two of which share a block.\<close>

definition blocks_of :: "blockRange \<Rightarrow> u64 set" where
  "blocks_of b = {fromBlock b..toBlock b}"

definition valid_range :: "blockRange \<Rightarrow> bool" where
  "valid_range b \<longleftrightarrow> br_isValid (Some b) = None"

definition disjoint_ranges :: "blockRange list \<Rightarrow> bool" where
  "disjoint_ranges rs \<longleftrightarrow> list_all valid_range rs \<and> sorted_wrt (\<lambda>a b. \<not> br_overlaps a b) rs"

lemma valid_range_iff: "valid_range b \<longleftrightarrow> fromBlock b \<noteq> 0 \<and> fromBlock b \<le> toBlock b"
  by (auto simp: valid_range_def br_isValid_def invalidBlockNumber_def not_less)

lemma overlaps_iff_common_block:
  assumes "valid_range a" "valid_range b"
  shows "br_overlaps a b \<longleftrightarrow> blocks_of a \<inter> blocks_of b \<noteq> {}"
proof
  assume o: "br_overlaps a b"
  show "blocks_of a \<inter> blocks_of b \<noteq> {}"
  proof (cases "fromBlock a \<le> fromBlock b")
    case True
    then have "fromBlock b \<in> blocks_of a \<inter> blocks_of b"
      using o assms by (auto simp: blocks_of_def br_overlaps_def valid_range_iff)
    then show ?thesis by blast
  next
    case False
    then have "fromBlock a \<in> blocks_of a \<inter> blocks_of b"
      using o assms by (auto simp: blocks_of_def br_overlaps_def valid_range_iff)
    then show ?thesis by blast
  qed
qed (auto simp: blocks_of_def br_overlaps_def)

lemma br_overlaps_sym: "br_overlaps a b = br_overlaps b a"
  by (auto simp: br_overlaps_def)

lemma valid_overlaps_self: "valid_range a \<Longrightarrow> br_overlaps a a"
  by (simp add: valid_range_iff br_overlaps_def)

lemma sorted_wrt_remove1: "sorted_wrt P xs \<Longrightarrow> sorted_wrt P (remove1 x xs)"
  by (induction xs) (auto dest: set_remove1_subset[THEN subsetD])

lemma disjoint_ranges_distinct: "disjoint_ranges rs \<Longrightarrow> distinct rs"
proof (induction rs)
  case (Cons r rs)
  then have "r \<notin> set rs" by (auto simp: disjoint_ranges_def dest: valid_overlaps_self)
  with Cons show ?case by (simp add: disjoint_ranges_def)
qed simp

lemma disjoint_ranges_add:
  assumes "disjoint_ranges rs" "valid_range b" "\<forall>r\<in>set rs. \<not> br_overlaps r b"
  shows "disjoint_ranges (rs @ [b])"
  using assms by (simp add: disjoint_ranges_def sorted_wrt_append)

text \<open>The answer of \<open>addBlockRange\<close> on every branch.\<close>

lemma addBlockRange_spec:
  assumes "disjoint_ranges (ranges l)"
  shows "(snd (addBlockRange l b) = None \<longleftrightarrow> valid_range b \<and> (\<forall>r\<in>set (ranges l). \<not> br_overlaps r b)) \<and>
    (snd (addBlockRange l b) = None \<longrightarrow> ranges (fst (addBlockRange l b)) = ranges l @ [b]) \<and>
    (snd (addBlockRange l b) \<noteq> None \<longrightarrow> fst (addBlockRange l b) = l) \<and>
    disjoint_ranges (ranges (fst (addBlockRange l b)))"
  using assms
  by (auto simp: addBlockRange_def valid_range_def lr_overlaps_def list_ex_iff disjoint_ranges_add[unfolded valid_range_def]
      split: option.splits)

end
