(* ===== verification/SyncStatus.thy ===== *)
theory SyncStatus
  imports BlockRanges
begin

text \<open>
  The bookkeeping of the parallel L1 synchronizer (\<open>l1_parallel_sync/l1_syncstatus.go\<close>): which ranges
  have been requested, are being retrieved or have failed, and which one to request next.  Every
  operation runs under the mutex of the object, so histories are sequences of operations.
  \<open>log.Fatal\<close> is \<open>Panic\<close>.
\<close>

subsection \<open>State and operations\<close>

definition invalidLastBlock :: u64 where "invalidLastBlock = 0"
definition maximumBlockDistanceFromLatestToFinalized :: u64 where
  "maximumBlockDistanceFromLatestToFinalized = 96"

datatype SyncStatusError = errSyncChunkSizeMustBeGreaterThanZero | errStartingBlockNumberMustBeDefined

record syncStatus =
  lastBlockStoreOnStateDB :: u64
  highestBlockRequested :: u64
  lastBlockOnL1 :: u64
  amountOfBlocksInEachRange :: u64
  processingRanges :: liveBlockRanges
  errorRanges :: liveBlockRanges

definition newSyncStatus :: "u64 \<Rightarrow> u64 \<Rightarrow> syncStatus" where
  "newSyncStatus lastBlockStore amount =
     \<lparr>lastBlockStoreOnStateDB = lastBlockStore, highestBlockRequested = lastBlockStore,
      lastBlockOnL1 = invalidLastBlock, amountOfBlocksInEachRange = amount,
      processingRanges = newLiveBlockRanges, errorRanges = newLiveBlockRanges\<rparr>"

definition ss_Reset :: "syncStatus \<Rightarrow> u64 \<Rightarrow> syncStatus" where
  "ss_Reset s lastBlockStore =
     s\<lparr>lastBlockStoreOnStateDB := lastBlockStore, highestBlockRequested := lastBlockStore,
       processingRanges := newLiveBlockRanges\<rparr>"

definition GetLastBlockOnL1 :: "syncStatus \<Rightarrow> u64" where
  "GetLastBlockOnL1 s = lastBlockOnL1 s"

definition HaveRequiredAllBlocksToBeSynchronized :: "syncStatus \<Rightarrow> bool" where
  "HaveRequiredAllBlocksToBeSynchronized s \<longleftrightarrow> lastBlockOnL1 s \<le> highestBlockRequested s"

definition IsNodeFullySynchronizedWithL1 :: "syncStatus \<Rightarrow> bool" where
  "IsNodeFullySynchronizedWithL1 s \<longleftrightarrow>
     lastBlockOnL1 s \<noteq> invalidLastBlock \<and> lastBlockOnL1 s \<le> highestBlockRequested s \<and>
     lr_len (errorRanges s) = 0 \<and> lr_len (processingRanges s) = 0"

definition getNextRangeOnlyRetriesUnsafe :: "syncStatus \<Rightarrow> syncStatus \<times> blockRange option" where
  "getNextRangeOnlyRetriesUnsafe s =
     (case getFirstBlockRange (errorRanges s) of
        Ok br \<Rightarrow>
          if toBlock br = latestBlockNumber
          then (s\<lparr>errorRanges := fst (removeBlockRange (errorRanges s) br)\<rparr>, None)
          else (s, Some br)
      | _ \<Rightarrow> (s, None))"

definition GetNextRangeOnlyRetries :: "syncStatus \<Rightarrow> syncStatus \<times> blockRange option" where
  "GetNextRangeOnlyRetries s = getNextRangeOnlyRetriesUnsafe s"

definition maxTo :: "blockRange list \<Rightarrow> u64 \<Rightarrow> u64" where
  "maxTo rs res = fold (\<lambda>r res. if toBlock r > res then toBlock r else res) rs res"

definition getHighestBlockRequestedUnsafe :: "syncStatus \<Rightarrow> u64" where
  "getHighestBlockRequestedUnsafe s =
     maxTo (ranges (errorRanges s)) (maxTo (ranges (processingRanges s)) invalidBlockNumber)"

definition getNextBlockRangeFromUnsafe :: "u64 \<Rightarrow> u64 \<Rightarrow> u64 \<Rightarrow> blockRange" where
  "getNextBlockRangeFromUnsafe lastBlockInState lastBlockInL1 amount =
     (let fromB = lastBlockInState + 1;
          toB = min lastBlockInL1 (fromB + amount)
      in \<lparr>fromBlock = fromB, toBlock = (if toB = lastBlockInL1 then latestBlockNumber else toB)\<rparr>)"

definition GetNextRange :: "syncStatus \<Rightarrow> (BlockRangeError, syncStatus \<times> blockRange option) outcome" where
  "GetNextRange s0 =
     (case getNextRangeOnlyRetriesUnsafe s0 of
        (s, Some br) \<Rightarrow> Ok (s, Some br)
      | (s, None) \<Rightarrow>
          if lastBlockOnL1 s = invalidLastBlock then Ok (s, None)
          else if lastBlockOnL1 s \<le> highestBlockRequested s then Ok (s, None)
          else if getHighestBlockRequestedUnsafe s = latestBlockNumber then Ok (s, None)
          else
            (let br = getNextBlockRangeFromUnsafe (max (lastBlockStoreOnStateDB s) (getHighestBlockRequestedUnsafe s))
                        (lastBlockOnL1 s) (amountOfBlocksInEachRange s)
             in if br_isValid (Some br) \<noteq> None then Panic else Ok (s, Some br)))"

definition OnStartedNewWorker :: "syncStatus \<Rightarrow> blockRange \<Rightarrow> (BlockRangeError, syncStatus) outcome" where
  "OnStartedNewWorker s br =
     (let s1 = s\<lparr>errorRanges := fst (removeBlockRange (errorRanges s) br)\<rparr>
      in case addBlockRange (processingRanges s1) br of
           (_, Some e) \<Rightarrow> Panic
         | (pr, None) \<Rightarrow>
             Ok (let s2 = s1\<lparr>processingRanges := pr\<rparr> in
                 if toBlock br = latestBlockNumber then s2\<lparr>highestBlockRequested := lastBlockOnL1 s2\<rparr>
                 else if toBlock br > highestBlockRequested s2 then s2\<lparr>highestBlockRequested := toBlock br\<rparr>
                 else s2))"

definition OnFinishWorker ::
  "syncStatus \<Rightarrow> blockRange \<Rightarrow> bool \<Rightarrow> u64 \<Rightarrow> (BlockRangeError, syncStatus \<times> bool) outcome" where
  "OnFinishWorker s br successful highestBlockNumberInResponse =
     (case removeBlockRange (processingRanges s) br of
        (_, Some e) \<Rightarrow> Ok (s, False)
      | (pr, None) \<Rightarrow>
          (let s1 = s\<lparr>processingRanges := pr\<rparr> in
           if successful then
             Ok (if highestBlockNumberInResponse \<noteq> invalidBlockNumber \<and>
                    highestBlockNumberInResponse > lastBlockStoreOnStateDB s1
                 then s1\<lparr>lastBlockStoreOnStateDB := highestBlockNumberInResponse\<rparr> else s1, True)
           else
             (case addBlockRange (errorRanges s1) br of
                (_, Some e) \<Rightarrow> Panic
              | (er, None) \<Rightarrow> Ok (s1\<lparr>errorRanges := er\<rparr>, True))))"

definition setLastBlockOnL1 :: "syncStatus \<Rightarrow> u64 \<Rightarrow> syncStatus" where
  "setLastBlockOnL1 s lastBlock = s\<lparr>lastBlockOnL1 := lastBlock\<rparr>"

record onNewLastBlockResponse =
  fullRange :: blockRange
  extendedRange :: "blockRange option"

definition OnNewLastBlockOnL1 :: "syncStatus \<Rightarrow> u64 \<Rightarrow> syncStatus \<times> onNewLastBlockResponse" where
  "OnNewLastBlockOnL1 s lastBlock =
     (let upTo = (\<lambda>l. \<lparr>fromBlock = lastBlockStoreOnStateDB s, toBlock = l\<rparr>);
          oldLastBlock = lastBlockOnL1 s
      in if oldLastBlock = invalidLastBlock then
           (setLastBlockOnL1 s lastBlock, \<lparr>fullRange = upTo lastBlock, extendedRange = Some (upTo lastBlock)\<rparr>)
         else if lastBlock > oldLastBlock then
           (setLastBlockOnL1 s lastBlock,
            \<lparr>fullRange = upTo lastBlock, extendedRange = Some \<lparr>fromBlock = oldLastBlock + 1, toBlock = lastBlock\<rparr>\<rparr>)
         else if lastBlock = oldLastBlock then
           (setLastBlockOnL1 s lastBlock, \<lparr>fullRange = upTo lastBlock, extendedRange = None\<rparr>)
         else (s, \<lparr>fullRange = upTo oldLastBlock, extendedRange = None\<rparr>))"

definition DoesItHaveAllTheNeedDataToWork :: "syncStatus \<Rightarrow> bool" where
  "DoesItHaveAllTheNeedDataToWork s \<longleftrightarrow>
     lastBlockOnL1 s \<noteq> invalidLastBlock \<and> lastBlockStoreOnStateDB s \<noteq> invalidBlockNumber"

definition ss_Verify :: "syncStatus \<Rightarrow> SyncStatusError option" where
  "ss_Verify s =
     (if amountOfBlocksInEachRange s = 0 then Some errSyncChunkSizeMustBeGreaterThanZero
      else if lastBlockStoreOnStateDB s = invalidBlockNumber then Some errStartingBlockNumberMustBeDefined
      else None)"

definition BlockNumberIsInsideUnsafeArea :: "syncStatus \<Rightarrow> u64 \<Rightarrow> bool" where
  "BlockNumberIsInsideUnsafeArea s blockNumber =
     (let b = (if blockNumber = invalidBlockNumber then highestBlockRequested s else blockNumber)
      in lastBlockOnL1 s - b < maximumBlockDistanceFromLatestToFinalized)"

subsection \<open>Histories\<close>

text \<open>
  The live ranges are those in retrieval and those waiting for a retry.  Block numbers of the
  chain stay below \<open>2 ^ 62\<close>, so that nothing in the arithmetic wraps.
\<close>

definition live :: "syncStatus \<Rightarrow> blockRange list" where
  "live s = ranges (processingRanges s) @ ranges (errorRanges s)"

definition small :: "u64 \<Rightarrow> bool" where
  "small w \<longleftrightarrow> unat w < 2 ^ 62"

text \<open>
  What a response to a range may report as its highest block: the end of the range, or, for an
  open range, the highest block it contains (zero when it has none).
\<close>

definition response_ok :: "blockRange \<Rightarrow> u64 \<Rightarrow> bool" where
  "response_ok br h \<longleftrightarrow>
     (if toBlock br \<noteq> latestBlockNumber then h = toBlock br
      else h = invalidBlockNumber \<or> fromBlock br \<le> h \<and> small h)"

text \<open>A step of the bookkeeping, with the set of blocks delivered so far.\<close>

inductive sync_step :: "syncStatus \<times> u64 set \<Rightarrow> syncStatus \<times> u64 set \<Rightarrow> bool" where
  launch: "GetNextRange s = Ok (s1, Some br) \<Longrightarrow> OnStartedNewWorker s1 br = Ok s2 \<Longrightarrow> sync_step (s, D) (s2, D)"
| launch_busy: "GetNextRange s = Ok (s1, next) \<Longrightarrow> sync_step (s, D) (s1, D)"
| retry: "GetNextRangeOnlyRetries s = (s1, Some br) \<Longrightarrow> OnStartedNewWorker s1 br = Ok s2 \<Longrightarrow>
    sync_step (s, D) (s2, D)"
| retry_busy: "GetNextRangeOnlyRetries s = (s1, next) \<Longrightarrow> sync_step (s, D) (s1, D)"
| finish: "(successful \<longrightarrow> response_ok br h) \<Longrightarrow> OnFinishWorker s br successful h = Ok (s1, used) \<Longrightarrow>
    sync_step (s, D) (s1, if used \<and> successful then D \<union> {fromBlock br..h} else D)"
| newLast: "small l \<Longrightarrow> OnNewLastBlockOnL1 s l = (s1, resp) \<Longrightarrow> sync_step (s, D) (s1, D)"

definition sync_reachable :: "u64 \<Rightarrow> u64 \<Rightarrow> syncStatus \<Rightarrow> u64 set \<Rightarrow> bool" where
  "sync_reachable start amount s D \<longleftrightarrow> sync_step\<^sup>*\<^sup>* (newSyncStatus start amount, {}) (s, D)"

definition status_inv :: "u64 \<Rightarrow> syncStatus \<Rightarrow> u64 set \<Rightarrow> bool" where
  "status_inv start s D \<longleftrightarrow>
     disjoint_ranges (live s) \<and>
     (\<forall>r\<in>set (live s). small (fromBlock r - 1) \<and> (small (toBlock r) \<or> toBlock r = latestBlockNumber)) \<and>
     small (lastBlockStoreOnStateDB s) \<and> small (lastBlockOnL1 s) \<and> small (amountOfBlocksInEachRange s) \<and>
     (\<forall>r\<in>set (live s). toBlock r = latestBlockNumber \<longrightarrow> lastBlockStoreOnStateDB s < fromBlock r) \<and>
     (\<forall>n. start < n \<and> (n \<le> lastBlockStoreOnStateDB s \<or> (\<exists>r\<in>set (live s). n \<le> toBlock r)) \<longrightarrow>
        n \<in> D \<or> (\<exists>r\<in>set (live s). n \<in> blocks_of r))"


subsection \<open>Preservation\<close>

lemma disjoint_ranges_set:
  "disjoint_ranges rs \<longleftrightarrow>
     distinct rs \<and> (\<forall>r\<in>set rs. valid_range r) \<and> (\<forall>a\<in>set rs. \<forall>b\<in>set rs. a \<noteq> b \<longrightarrow> \<not> br_overlaps a b)"
proof
  assume d: "disjoint_ranges rs"
  have "\<forall>a\<in>set rs. \<forall>b\<in>set rs. a \<noteq> b \<longrightarrow> \<not> br_overlaps a b"
    using d unfolding disjoint_ranges_def
    by (induction rs) (auto simp: br_overlaps_sym)
  with d disjoint_ranges_distinct show "distinct rs \<and> (\<forall>r\<in>set rs. valid_range r) \<and>
      (\<forall>a\<in>set rs. \<forall>b\<in>set rs. a \<noteq> b \<longrightarrow> \<not> br_overlaps a b)"
    by (auto simp: disjoint_ranges_def list_all_iff)
next
  assume "distinct rs \<and> (\<forall>r\<in>set rs. valid_range r) \<and> (\<forall>a\<in>set rs. \<forall>b\<in>set rs. a \<noteq> b \<longrightarrow> \<not> br_overlaps a b)"
  then show "disjoint_ranges rs"
    by (induction rs) (auto simp: disjoint_ranges_def)
qed

lemma to_below_latest:
  assumes "disjoint_ranges rs" "r \<in> set rs" "q \<in> set rs" "toBlock r = latestBlockNumber" "q \<noteq> r"
  shows "toBlock q < fromBlock r"
proof -
  have "\<not> br_overlaps r q" using assms by (auto simp: disjoint_ranges_set)
  then show ?thesis using assms(4) by (auto simp: br_overlaps_def latestBlockNumber_def)
qed

lemma maxTo_props:
  "x \<le> maxTo rs x" "r \<in> set rs \<Longrightarrow> toBlock r \<le> maxTo rs x" "maxTo rs x = x \<or> (\<exists>r\<in>set rs. maxTo rs x = toBlock r)"
proof -
  have "x \<le> maxTo rs x \<and> (\<forall>r\<in>set rs. toBlock r \<le> maxTo rs x) \<and> (maxTo rs x = x \<or> (\<exists>r\<in>set rs. maxTo rs x = toBlock r))"
  proof (induction rs arbitrary: x)
    case (Cons a rs)
    have e: "maxTo (a # rs) x = maxTo rs (if toBlock a > x then toBlock a else x)" by (simp add: maxTo_def)
    show ?case
      using Cons.IH[of "if toBlock a > x then toBlock a else x"] unfolding e by (auto split: if_splits)
  qed (simp add: maxTo_def)
  then show "x \<le> maxTo rs x" "r \<in> set rs \<Longrightarrow> toBlock r \<le> maxTo rs x"
    "maxTo rs x = x \<or> (\<exists>r\<in>set rs. maxTo rs x = toBlock r)" by auto
qed

lemma getHighest_props:
  "r \<in> set (live s) \<Longrightarrow> toBlock r \<le> getHighestBlockRequestedUnsafe s"
  "getHighestBlockRequestedUnsafe s = 0 \<or> (\<exists>r\<in>set (live s). getHighestBlockRequestedUnsafe s = toBlock r)"
proof -
  let ?p = "maxTo (ranges (processingRanges s)) invalidBlockNumber"
  note p = maxTo_props[where rs = "ranges (processingRanges s)" and x = invalidBlockNumber]
  note e = maxTo_props[where rs = "ranges (errorRanges s)" and x = ?p]
  show "r \<in> set (live s) \<Longrightarrow> toBlock r \<le> getHighestBlockRequestedUnsafe s"
    using p(2) e(1,2) unfolding getHighestBlockRequestedUnsafe_def live_def by (auto intro: order_trans)
  show "getHighestBlockRequestedUnsafe s = 0 \<or> (\<exists>r\<in>set (live s). getHighestBlockRequestedUnsafe s = toBlock r)"
    using p(3) e(3) unfolding getHighestBlockRequestedUnsafe_def live_def by (auto simp: invalidBlockNumber_def)
qed

text \<open>The next range that is not a retry: it starts right after everything requested so far.\<close>

lemma getNextBlockRangeFrom_valid:
  assumes "small b" "small l" "small amount"
  defines "br \<equiv> getNextBlockRangeFromUnsafe b l amount"
  shows "valid_range br \<and> (\<forall>n<fromBlock br. n \<le> b) \<and> b < fromBlock br \<and> small (fromBlock br - 1) \<and>
    (small (toBlock br) \<or> toBlock br = latestBlockNumber)"
proof -
  have b1: "unat (b + 1) = unat b + 1" using assms(1) by (simp add: small_def unat_word_ariths)
  have s: "unat (b + 1 + amount) = unat b + 1 + unat amount"
    using assms(1,3) b1 by (simp add: small_def unat_word_ariths)
  have lt: "b < b + 1" "n < b + 1 \<Longrightarrow> n \<le> b" for n using b1 by (simp_all add: word_less_nat_alt word_le_nat_alt)
  have fr: "fromBlock br = b + 1" by (simp add: br_def getNextBlockRangeFromUnsafe_def Let_def)
  have nz: "b + 1 \<noteq> 0" using b1 by auto
  show ?thesis
  proof (cases "min l (b + 1 + amount) = l")
    case True
    then have "toBlock br = latestBlockNumber" by (simp add: br_def getNextBlockRangeFromUnsafe_def Let_def)
    then show ?thesis using fr lt nz assms(1) by (auto simp: valid_range_iff latestBlockNumber_def)
  next
    case False
    then have "toBlock br = b + 1 + amount" "b + 1 + amount \<le> l"
      by (auto simp: br_def getNextBlockRangeFromUnsafe_def Let_def min_def split: if_splits)
    then show ?thesis
      using fr lt nz s b1 assms(1,2) by (auto simp: valid_range_iff word_le_nat_alt small_def)
  qed
qed

lemma status_inv_cong:
  assumes "status_inv start s D" "set (live s') = set (live s)" "distinct (live s')"
    and "lastBlockStoreOnStateDB s' = lastBlockStoreOnStateDB s"
    and "small (lastBlockOnL1 s')" "amountOfBlocksInEachRange s' = amountOfBlocksInEachRange s"
  shows "status_inv start s' D"
  using assms unfolding status_inv_def disjoint_ranges_set by auto

text \<open>A range that leaves the live ranges with its blocks up to \<open>h\<close> delivered.\<close>

lemma status_inv_remove:
  assumes inv: "status_inv start s D" and r: "r \<in> set (live s)" and h: "response_ok r h \<or> toBlock r = latestBlockNumber \<and> h = 0"
    and live: "set (live s') = set (live s) - {r}" "distinct (live s')"
    and last: "lastBlockStoreOnStateDB s' = max (lastBlockStoreOnStateDB s) h"
    and rest: "lastBlockOnL1 s' = lastBlockOnL1 s" "amountOfBlocksInEachRange s' = amountOfBlocksInEachRange s"
  shows "status_inv start s' (D \<union> {fromBlock r..h})"
proof -
  have d: "disjoint_ranges (live s)" using inv by (simp add: status_inv_def)
  have sm: "small h"
    using h inv r by (auto simp: response_ok_def status_inv_def small_def invalidBlockNumber_def split: if_splits)
  have top: "max (lastBlockStoreOnStateDB s) h < fromBlock q"
    if q: "q \<in> set (live s)" "q \<noteq> r" "toBlock q = latestBlockNumber" for q
  proof -
    have "toBlock r < fromBlock q" using to_below_latest[OF d q(1) r q(3)] q(2) by simp
    moreover have "lastBlockStoreOnStateDB s < fromBlock q" using inv q by (auto simp: status_inv_def)
    moreover have "h \<le> toBlock r"
      using h by (auto simp: response_ok_def latestBlockNumber_def invalidBlockNumber_def split: if_splits)
    ultimately show ?thesis by auto
  qed
  have cov: "n \<in> D \<or> n \<in> {fromBlock r..h} \<or> (\<exists>q\<in>set (live s) - {r}. n \<in> blocks_of q)"
    if n: "start < n" "n \<le> max (lastBlockStoreOnStateDB s) h \<or> (\<exists>q\<in>set (live s) - {r}. n \<le> toBlock q)" for n
  proof (cases "n \<in> blocks_of r")
    case True
    then have "n \<le> h"
    proof (cases "toBlock r = latestBlockNumber")
      case True
      have "lastBlockStoreOnStateDB s < fromBlock r" using inv r True by (auto simp: status_inv_def)
      moreover have "\<not> n \<le> toBlock q" if "q \<in> set (live s) - {r}" for q
        using to_below_latest[OF d r _ True, of q] that \<open>n \<in> blocks_of r\<close> by (auto simp: blocks_of_def not_le intro: less_le_trans)
      ultimately show ?thesis using n(2) \<open>n \<in> blocks_of r\<close> by (auto simp: blocks_of_def max_def split: if_splits)
    next
      case False
      then show ?thesis using h True by (auto simp: response_ok_def blocks_of_def)
    qed
    then show ?thesis using True by (auto simp: blocks_of_def)
  next
    case False
    have hr: "h \<le> toBlock r"
      using h by (auto simp: response_ok_def latestBlockNumber_def invalidBlockNumber_def split: if_splits)
    have "n \<le> lastBlockStoreOnStateDB s \<or> (\<exists>q\<in>set (live s). n \<le> toBlock q)"
      using n(2) r hr by (auto simp: max_def split: if_splits intro: order_trans)
    then have "n \<in> D \<or> (\<exists>q\<in>set (live s). n \<in> blocks_of q)" using inv n(1) by (auto simp: status_inv_def)
    with False show ?thesis by auto
  qed
  have "disjoint_ranges (live s')" using d live by (auto simp: disjoint_ranges_set)
  moreover have "small (lastBlockStoreOnStateDB s')"
    using inv sm by (auto simp: last max_def status_inv_def)
  ultimately show ?thesis
    using inv top cov unfolding status_inv_def by (auto simp: live rest last)
qed


text \<open>A fresh range lies above all blocks requested or stored so far and leaves no gap.\<close>

definition fresh_range :: "syncStatus \<Rightarrow> blockRange \<Rightarrow> bool" where
  "fresh_range s br \<longleftrightarrow>
     valid_range br \<and> small (fromBlock br - 1) \<and> (small (toBlock br) \<or> toBlock br = latestBlockNumber) \<and>
     lastBlockStoreOnStateDB s < fromBlock br \<and> (\<forall>r\<in>set (live s). toBlock r < fromBlock br) \<and>
     (\<forall>n<fromBlock br. n \<le> lastBlockStoreOnStateDB s \<or> n = 0 \<or> (\<exists>r\<in>set (live s). n \<le> toBlock r))"

lemma retries_inv:
  assumes "status_inv start s D" "getNextRangeOnlyRetriesUnsafe s = (s1, res)"
  shows "status_inv start s1 D" "res = Some br \<Longrightarrow> s1 = s \<and> br \<in> set (ranges (errorRanges s))"
proof -
  show "res = Some br \<Longrightarrow> s1 = s \<and> br \<in> set (ranges (errorRanges s))"
    using assms(2) by (auto simp: getNextRangeOnlyRetriesUnsafe_def getFirstBlockRange_def split: list.splits if_splits)
  show "status_inv start s1 D"
  proof (cases "ranges (errorRanges s)")
    case Nil
    then show ?thesis using assms by (auto simp: getNextRangeOnlyRetriesUnsafe_def getFirstBlockRange_def)
  next
    case (Cons r rs)
    show ?thesis
    proof (cases "toBlock r = latestBlockNumber")
      case False
      then show ?thesis using assms Cons by (auto simp: getNextRangeOnlyRetriesUnsafe_def getFirstBlockRange_def)
    next
      case True
      then have s1: "s1 = s\<lparr>errorRanges := (errorRanges s)\<lparr>ranges := rs\<rparr>\<rparr>"
        using assms(2) Cons
        by (auto simp: getNextRangeOnlyRetriesUnsafe_def getFirstBlockRange_def removeBlockRange_def)
      have dis: "distinct (live s)" "valid_range r" using assms(1) Cons by (auto simp: status_inv_def disjoint_ranges_set live_def)
      have "status_inv start s1 (D \<union> {fromBlock r..0})"
        by (rule status_inv_remove[OF assms(1)]) (use dis Cons True in \<open>auto simp: s1 live_def\<close>)
      moreover have "{fromBlock r..0} = {}" using dis(2) by (auto simp: valid_range_iff)
      ultimately show ?thesis by simp
    qed
  qed
qed

lemma GetNextRange_inv:
  assumes "status_inv start s D"
  obtains s1 res where "GetNextRange s = Ok (s1, res)" "status_inv start s1 D"
    "\<forall>br. res = Some br \<longrightarrow> br \<in> set (ranges (errorRanges s1)) \<or> fresh_range s1 br"
proof -
  obtain s1 o1 where r: "getNextRangeOnlyRetriesUnsafe s = (s1, o1)" by fastforce
  note i = retries_inv[OF assms r]
  show thesis
  proof (cases o1)
    case (Some br)
    then show thesis using that[of s1 "Some br"] r i by (auto simp: GetNextRange_def)
  next
    case None
    let ?h = "getHighestBlockRequestedUnsafe s1" and ?m = "max (lastBlockStoreOnStateDB s1) (getHighestBlockRequestedUnsafe s1)"
    let ?br = "getNextBlockRangeFromUnsafe ?m (lastBlockOnL1 s1) (amountOfBlocksInEachRange s1)"
    show thesis
    proof (cases "lastBlockOnL1 s1 = invalidLastBlock \<or> lastBlockOnL1 s1 \<le> highestBlockRequested s1 \<or> ?h = latestBlockNumber")
      case True
      then show thesis using that[of s1 None] r i(1) None by (auto simp: GetNextRange_def)
    next
      case False
      have "small ?h" using getHighest_props(2)[of s1] i(1) False by (auto simp: status_inv_def small_def)
      then have "small ?m" "small (lastBlockOnL1 s1)" "small (amountOfBlocksInEachRange s1)"
        using i(1) by (auto simp: status_inv_def max_def)
      note br = getNextBlockRangeFrom_valid[OF this]
      have "GetNextRange s = Ok (s1, Some ?br)"
        using r None False br by (simp add: GetNextRange_def valid_range_def Let_def)
      moreover have "fresh_range s1 ?br"
      proof -
        have low: "n \<le> ?m" if "n < fromBlock ?br" for n
          using that br by blast
        have "n \<le> lastBlockStoreOnStateDB s1 \<or> n = 0 \<or> (\<exists>r\<in>set (live s1). n \<le> toBlock r)" if "n < fromBlock ?br" for n
          using low[OF that] getHighest_props(2)[of s1] by (auto simp: max_def split: if_splits)
        moreover have "lastBlockStoreOnStateDB s1 < fromBlock ?br"
          using br by (auto intro: le_less_trans[OF max.cobounded1])
        moreover have "toBlock r < fromBlock ?br" if "r \<in> set (live s1)" for r
          using br getHighest_props(1)[OF that] by (auto intro: le_less_trans[OF max.coboundedI2])
        ultimately show ?thesis using br unfolding fresh_range_def by blast
      qed
      ultimately show thesis using that i(1) by blast
    qed
  qed
qed


lemma live_apart:
  assumes "disjoint_ranges (live s)" "p \<in> set (ranges (processingRanges s))" "e \<in> set (ranges (errorRanges s))"
  shows "\<not> br_overlaps p e" "\<not> br_overlaps e p" "valid_range p" "valid_range e"
  using assms br_overlaps_sym[of p e] by (auto simp: disjoint_ranges_def live_def sorted_wrt_append list_all_iff)

lemma fresh_apart:
  assumes "fresh_range s br" "r \<in> set (live s)"
  shows "\<not> br_overlaps r br" "\<not> br_overlaps br r" "r \<noteq> br"
proof -
  have "toBlock r < fromBlock br" using assms by (simp add: fresh_range_def)
  then show "\<not> br_overlaps r br" "\<not> br_overlaps br r" by (auto simp: br_overlaps_def not_le)
  then show "r \<noteq> br" using assms(1) valid_overlaps_self by (auto simp: fresh_range_def)
qed

lemma OnStartedNewWorker_add:
  assumes "valid_range br" "\<forall>r\<in>set (ranges (processingRanges s)). \<not> br_overlaps r br"
  obtains s2 where "OnStartedNewWorker s br = Ok s2"
    "ranges (processingRanges s2) = ranges (processingRanges s) @ [br]"
    "ranges (errorRanges s2) = remove1 br (ranges (errorRanges s))"
    "lastBlockStoreOnStateDB s2 = lastBlockStoreOnStateDB s" "lastBlockOnL1 s2 = lastBlockOnL1 s"
    "amountOfBlocksInEachRange s2 = amountOfBlocksInEachRange s"
proof -
  have "addBlockRange (processingRanges s) br =
      ((processingRanges s)\<lparr>ranges := ranges (processingRanges s) @ [br]\<rparr>, None)"
    using assms by (auto simp: addBlockRange_def valid_range_def lr_overlaps_def list_ex_iff)
  moreover have "ranges (fst (removeBlockRange (errorRanges s) br)) = remove1 br (ranges (errorRanges s))"
    by (simp add: removeBlockRange_def remove1_idem)
  ultimately show thesis
    by (cases "toBlock br = latestBlockNumber"; cases "highestBlockRequested s < toBlock br")
      (rule that, simp add: OnStartedNewWorker_def Let_def, simp_all)+
qed

lemma OnStartedNewWorker_inv:
  assumes inv: "status_inv start s D" and br: "br \<in> set (ranges (errorRanges s)) \<or> fresh_range s br"
  obtains s2 where "OnStartedNewWorker s br = Ok s2" "status_inv start s2 D"
proof -
  have d: "disjoint_ranges (live s)" using inv by (simp add: status_inv_def)
  have free: "valid_range br \<and> (\<forall>r\<in>set (ranges (processingRanges s)). \<not> br_overlaps r br)"
  proof (cases "br \<in> set (ranges (errorRanges s))")
    case True
    then have "valid_range br" using d by (auto simp: disjoint_ranges_set live_def)
    then show ?thesis using live_apart[OF d _ True] by blast
  next
    case False
    then have "fresh_range s br" using br by blast
    then show ?thesis using fresh_apart(1) by (auto simp: fresh_range_def live_def)
  qed
  then obtain s2 where s2: "OnStartedNewWorker s br = Ok s2"
    "ranges (processingRanges s2) = ranges (processingRanges s) @ [br]"
    "ranges (errorRanges s2) = remove1 br (ranges (errorRanges s))"
    "lastBlockStoreOnStateDB s2 = lastBlockStoreOnStateDB s" "lastBlockOnL1 s2 = lastBlockOnL1 s"
    "amountOfBlocksInEachRange s2 = amountOfBlocksInEachRange s"
    using OnStartedNewWorker_add[of br s] by blast
  have dist: "distinct (live s)" using d by (simp add: disjoint_ranges_set)
  show thesis
  proof (cases "br \<in> set (ranges (errorRanges s))")
    case True
    have "status_inv start s2 D"
      by (rule status_inv_cong[OF inv])
        (use s2 True dist inv in \<open>auto simp: live_def status_inv_def\<close>)
    then show thesis using that s2(1) by blast
  next
    case False
    then have fr: "fresh_range s br" using br by blast
    then have nin: "br \<notin> set (live s)" using fresh_apart(3) by blast
    have lv: "set (live s2) = insert br (set (live s))" "distinct (live s2)"
      using s2(2,3) False dist nin by (auto simp: live_def remove1_idem)
    have "disjoint_ranges (live s2)"
      using d lv free fresh_apart(1,2)[OF fr] unfolding disjoint_ranges_set by auto
    moreover have "n \<in> D \<or> (\<exists>r\<in>set (live s2). n \<in> blocks_of r)"
      if n: "start < n" "n \<le> lastBlockStoreOnStateDB s \<or> (\<exists>r\<in>set (live s2). n \<le> toBlock r)" for n
    proof (cases "fromBlock br \<le> n \<and> n \<le> toBlock br")
      case True
      then show ?thesis by (auto simp: lv blocks_of_def)
    next
      case False
      have "n \<noteq> 0" using n(1) by auto
      then have "n \<le> lastBlockStoreOnStateDB s \<or> (\<exists>r\<in>set (live s). n \<le> toBlock r)"
        using n(2) False fr by (cases "n < fromBlock br") (auto simp: lv fresh_range_def)
      then show ?thesis using inv n(1) by (auto simp: lv status_inv_def)
    qed
    ultimately have "status_inv start s2 D"
      using inv fr s2(4-6) unfolding status_inv_def by (auto simp: lv fresh_range_def dest: leD)
    then show thesis using that s2(1) by blast
  qed
qed

lemma OnFinishWorker_inv:
  assumes inv: "status_inv start s D" and h: "successful \<longrightarrow> response_ok br h"
  obtains s1 used where "OnFinishWorker s br successful h = Ok (s1, used)"
    "status_inv start s1 (if used \<and> successful then D \<union> {fromBlock br..h} else D)"
proof (cases "br \<in> set (ranges (processingRanges s))")
  case False
  then have "OnFinishWorker s br successful h = Ok (s, False)"
    by (simp add: OnFinishWorker_def removeBlockRange_def)
  then show thesis using that[of s False] inv by simp
next
  case True
  define s0 where "s0 = s\<lparr>processingRanges := (processingRanges s)\<lparr>ranges := remove1 br (ranges (processingRanges s))\<rparr>\<rparr>"
  have rm: "removeBlockRange (processingRanges s) br = (processingRanges s0, None)"
    using True by (simp add: removeBlockRange_def s0_def)
  have d: "disjoint_ranges (live s)" "distinct (live s)" using inv by (auto simp: status_inv_def disjoint_ranges_set)
  show thesis
  proof (cases successful)
    case s: True
    let ?s1 = "if h \<noteq> invalidBlockNumber \<and> h > lastBlockStoreOnStateDB s0 then s0\<lparr>lastBlockStoreOnStateDB := h\<rparr> else s0"
    have "OnFinishWorker s br successful h = Ok (?s1, True)"
      using s rm by (simp add: OnFinishWorker_def s0_def Let_def)
    moreover have "status_inv start ?s1 (D \<union> {fromBlock br..h})"
      by (rule status_inv_remove[OF inv])
        (use True h s d in \<open>auto simp: live_def s0_def invalidBlockNumber_def max_def\<close>)
    ultimately show thesis using that[of ?s1 True] s by simp
  next
    case f: False
    have free: "valid_range br" "\<forall>r\<in>set (ranges (errorRanges s)). \<not> br_overlaps r br"
      using d True live_apart[OF d(1) True] by (auto simp: disjoint_ranges_set live_def)
    let ?s1 = "s0\<lparr>errorRanges := (errorRanges s)\<lparr>ranges := ranges (errorRanges s) @ [br]\<rparr>\<rparr>"
    have "addBlockRange (errorRanges s) br = ((errorRanges s)\<lparr>ranges := ranges (errorRanges s) @ [br]\<rparr>, None)"
      using free by (auto simp: addBlockRange_def valid_range_def lr_overlaps_def list_ex_iff)
    then have "OnFinishWorker s br successful h = Ok (?s1, True)"
      using f rm by (simp add: OnFinishWorker_def s0_def Let_def)
    moreover have "status_inv start ?s1 D"
      by (rule status_inv_cong[OF inv])
        (use True d inv in \<open>auto simp: live_def s0_def status_inv_def\<close>)
    ultimately show thesis using that[of ?s1 True] f by simp
  qed
qed

lemma OnStartedNewWorker_no_panic:
  "status_inv start s D \<Longrightarrow> br \<in> set (ranges (errorRanges s)) \<or> fresh_range s br \<Longrightarrow> OnStartedNewWorker s br \<noteq> Panic"
  by (erule OnStartedNewWorker_inv) auto

lemma OnFinishWorker_no_panic:
  "status_inv start s D \<Longrightarrow> successful \<longrightarrow> response_ok br h \<Longrightarrow> OnFinishWorker s br successful h \<noteq> Panic"
  by (erule OnFinishWorker_inv) auto

lemma OnNewLastBlockOnL1_inv:
  assumes "status_inv start s D" "small l" "OnNewLastBlockOnL1 s l = (s1, resp)"
  shows "status_inv start s1 D"
  by (rule status_inv_cong[OF assms(1)])
    (use assms in \<open>auto simp: OnNewLastBlockOnL1_def setLastBlockOnL1_def live_def status_inv_def
       disjoint_ranges_set Let_def split: if_splits\<close>)

lemma sync_step_inv:
  assumes "sync_step (s, D) (s', D')" "status_inv start s D"
  shows "status_inv start s' D'"
  using assms(1)
proof (cases rule: sync_step.cases)
  case (launch s1 br)
  obtain t res where t: "GetNextRange s = Ok (t, res)" "status_inv start t D"
    "\<forall>b. res = Some b \<longrightarrow> b \<in> set (ranges (errorRanges t)) \<or> fresh_range t b"
    by (rule GetNextRange_inv[OF assms(2)])
  then have "status_inv start s1 D" "br \<in> set (ranges (errorRanges s1)) \<or> fresh_range s1 br"
    using launch by auto
  then obtain u where "OnStartedNewWorker s1 br = Ok u" "status_inv start u D" by (rule OnStartedNewWorker_inv)
  then show ?thesis using launch by auto
next
  case (launch_busy "next")
  obtain t res where "GetNextRange s = Ok (t, res)" "status_inv start t D"
    by (rule GetNextRange_inv[OF assms(2)])
  then show ?thesis using launch_busy by auto
next
  case (retry s1 br)
  then have "status_inv start s1 D" "br \<in> set (ranges (errorRanges s1)) \<or> fresh_range s1 br"
    using retries_inv[OF assms(2)] by (auto simp: GetNextRangeOnlyRetries_def)
  then obtain u where "OnStartedNewWorker s1 br = Ok u" "status_inv start u D" by (rule OnStartedNewWorker_inv)
  then show ?thesis using retry by auto
next
  case (retry_busy "next")
  then show ?thesis using retries_inv(1)[OF assms(2)] by (auto simp: GetNextRangeOnlyRetries_def)
next
  case (finish successful br h used)
  obtain t u where "OnFinishWorker s br successful h = Ok (t, u)"
    "status_inv start t (if u \<and> successful then D \<union> {fromBlock br..h} else D)"
    using OnFinishWorker_inv[OF assms(2), of successful br h] finish by auto
  then show ?thesis using finish by auto
next
  case (newLast l resp)
  then show ?thesis using OnNewLastBlockOnL1_inv[OF assms(2)] by auto
qed

lemma newSyncStatus_inv: "small start \<Longrightarrow> small amount \<Longrightarrow> status_inv start (newSyncStatus start amount) {}"
  by (auto simp: status_inv_def newSyncStatus_def live_def newLiveBlockRanges_def
      disjoint_ranges_def invalidLastBlock_def small_def)

lemma sync_reachable_inv:
  assumes "sync_reachable start amount s D" "small start" "small amount"
  shows "status_inv start s D"
proof -
  have "status_inv start (newSyncStatus start amount) {}" using assms(2,3) by (rule newSyncStatus_inv)
  moreover have "sync_step\<^sup>*\<^sup>* x y \<Longrightarrow> status_inv start (fst x) (snd x) \<Longrightarrow> status_inv start (fst y) (snd y)" for x y
    by (induction rule: rtranclp_induct) (auto dest: sync_step_inv)
  ultimately show ?thesis using assms(1) unfolding sync_reachable_def by fastforce
qed


subsection \<open>Properties\<close>

lemma less_inc: "(m :: u64) + 1 \<noteq> 0 \<Longrightarrow> m < m + 1"
  using inc_less_eq_iff by force


text \<open>
  In no history does the bookkeeping reach one of its \<open>log.Fatal\<close> calls: the next range is
  always valid, a launched range never overlaps one in retrieval, and a failed one never
  overlaps one waiting for a retry.
\<close>

lemma sync_never_fatal:
  assumes "sync_reachable start amount s D" "small start" "small amount"
  shows "GetNextRange s \<noteq> Panic \<and>
    (\<forall>s1 br. GetNextRange s = Ok (s1, Some br) \<longrightarrow> OnStartedNewWorker s1 br \<noteq> Panic) \<and>
    (\<forall>s1 br. GetNextRangeOnlyRetries s = (s1, Some br) \<longrightarrow> OnStartedNewWorker s1 br \<noteq> Panic) \<and>
    (\<forall>br h successful. (successful \<longrightarrow> response_ok br h) \<longrightarrow> OnFinishWorker s br successful h \<noteq> Panic)"
proof -
  have inv: "status_inv start s D" by (rule sync_reachable_inv[OF assms])
  obtain t res where t: "GetNextRange s = Ok (t, res)" "status_inv start t D"
    "\<forall>b. res = Some b \<longrightarrow> b \<in> set (ranges (errorRanges t)) \<or> fresh_range t b"
    by (rule GetNextRange_inv[OF inv])
  have "OnStartedNewWorker s1 br \<noteq> Panic" if "GetNextRange s = Ok (s1, Some br)" for s1 br
    using OnStartedNewWorker_no_panic[OF t(2), of br] t(1,3) that by simp
  moreover have "OnStartedNewWorker s1 br \<noteq> Panic" if "GetNextRangeOnlyRetries s = (s1, Some br)" for s1 br
    using OnStartedNewWorker_no_panic[OF inv, of br] retries_inv(2)[OF inv, of s1 "Some br"] that
    by (simp add: GetNextRangeOnlyRetries_def)
  moreover have "OnFinishWorker s br ok h \<noteq> Panic" if "ok \<longrightarrow> response_ok br h" for br ok h
    using OnFinishWorker_no_panic[OF inv that] .
  ultimately show ?thesis using t(1) by auto
qed



text \<open>
  C22: A failed request for an open range (up to the latest block) is dropped instead of being
  retried, while the highest requested block stays at the L1 head.  The bookkeeping then reports
  the node as fully synchronized although nothing of that range was delivered.
\<close>

theorem failed_open_range_reports_synchronized:
  assumes "ranges (processingRanges s) = [br]" "ranges (errorRanges s) = []" "valid_range br"
    and "toBlock br = latestBlockNumber" "lastBlockOnL1 s \<noteq> invalidLastBlock"
    and "lastBlockOnL1 s \<le> highestBlockRequested s"
  shows "\<exists>s1 s2. OnFinishWorker s br False h = Ok (s1, True) \<and> GetNextRange s1 = Ok (s2, None) \<and>
    lastBlockStoreOnStateDB s2 = lastBlockStoreOnStateDB s \<and> IsNodeFullySynchronizedWithL1 s2"
proof -
  let ?s1 = "s\<lparr>processingRanges := (processingRanges s)\<lparr>ranges := []\<rparr>, errorRanges := (errorRanges s)\<lparr>ranges := [br]\<rparr>\<rparr>"
  let ?s2 = "?s1\<lparr>errorRanges := (errorRanges s)\<lparr>ranges := []\<rparr>\<rparr>"
  have "OnFinishWorker s br False h = Ok (?s1, True)"
    using assms(1-3) by (simp add: OnFinishWorker_def removeBlockRange_def addBlockRange_def valid_range_def lr_overlaps_def Let_def)
  moreover have "GetNextRange ?s1 = Ok (?s2, None)"
    using assms(4-6) by (simp add: GetNextRange_def getNextRangeOnlyRetriesUnsafe_def getFirstBlockRange_def removeBlockRange_def)
  moreover have "IsNodeFullySynchronizedWithL1 ?s2"
    using assms(5,6) by (simp add: IsNodeFullySynchronizedWithL1_def lr_len_def)
  ultimately show ?thesis by (intro exI[of _ ?s1] exI[of _ ?s2]) simp
qed

subsection \<open>A history\<close>

text \<open>
  Starting after block 99 with the L1 head at 250: the ranges from 100 and from 201 are launched
  and the first one fails.
\<close>

abbreviation mkRange :: "u64 \<Rightarrow> u64 \<Rightarrow> blockRange" where
  "mkRange f t \<equiv> \<lparr>fromBlock = f, toBlock = t\<rparr>"

abbreviation mkStatus :: "u64 \<Rightarrow> u64 \<Rightarrow> u64 \<Rightarrow> u64 \<Rightarrow> blockRange list \<Rightarrow> blockRange list \<Rightarrow> syncStatus" where
  "mkStatus stored req l1 amount ps es \<equiv>
     \<lparr>lastBlockStoreOnStateDB = stored, highestBlockRequested = req, lastBlockOnL1 = l1,
      amountOfBlocksInEachRange = amount, processingRanges = \<lparr>ranges = ps\<rparr>, errorRanges = \<lparr>ranges = es\<rparr>\<rparr>"

lemmas sync_eval = GetNextRange_def getNextRangeOnlyRetriesUnsafe_def getFirstBlockRange_def removeBlockRange_def
  addBlockRange_def lr_overlaps_def br_overlaps_def br_isValid_def getHighestBlockRequestedUnsafe_def maxTo_def
  getNextBlockRangeFromUnsafe_def OnStartedNewWorker_def OnFinishWorker_def OnNewLastBlockOnL1_def setLastBlockOnL1_def
  newSyncStatus_def newLiveBlockRanges_def invalidLastBlock_def invalidBlockNumber_def latestBlockNumber_def Let_def

lemma sampleStatus_reachable:
  "sync_reachable 99 100 (mkStatus 99 250 250 100 [mkRange 201 (- 1)] [mkRange 100 200]) {}"
proof -
  let ?s0 = "newSyncStatus 99 100" and ?s1 = "mkStatus 99 99 250 100 [] []"
  let ?s2 = "mkStatus 99 200 250 100 [mkRange 100 200] []"
  let ?s3 = "mkStatus 99 250 250 100 [mkRange 100 200, mkRange 201 (- 1)] []"
  let ?s4 = "mkStatus 99 250 250 100 [mkRange 201 (- 1)] [mkRange 100 200]"
  have 1: "sync_step (?s0, {}) (?s1, {})"
    by (rule newLast[where l = 250]) (simp_all add: small_def sync_eval)
  have 2: "sync_step (?s1, {}) (?s2, {})"
    by (rule launch[where ?s1.0 = ?s1 and br = "mkRange 100 200"]) (simp_all add: sync_eval)
  have 3: "sync_step (?s2, {}) (?s3, {})"
    by (rule launch[where ?s1.0 = ?s2 and br = "mkRange 201 (- 1)"]) (simp_all add: sync_eval)
  have "sync_step (?s3, {}) (?s4, if True \<and> False then {} \<union> {fromBlock (mkRange 100 200)..200} else {})"
    by (rule finish[where br = "mkRange 100 200" and h = 200]) (simp_all add: response_ok_def sync_eval)
  then have 4: "sync_step (?s3, {}) (?s4, {})" by simp
  show ?thesis unfolding sync_reachable_def
    using 1 2 3 4 by (meson converse_rtranclp_into_rtranclp rtranclp.rtrancl_refl)
qed



theorem failed_open_range_reports_synchronized_witness:
  "\<exists>s1 s2. OnFinishWorker (mkStatus 99 250 250 100 [mkRange 201 (- 1)] []) (mkRange 201 (- 1)) False 0 = Ok (s1, True) \<and>
     GetNextRange s1 = Ok (s2, None) \<and> IsNodeFullySynchronizedWithL1 s2"
  using failed_open_range_reports_synchronized[of "mkStatus 99 250 250 100 [mkRange 201 (- 1)] []" "mkRange 201 (- 1)" 0]
  by (auto simp: valid_range_iff latestBlockNumber_def invalidLastBlock_def)

end
