(* ===== verification/OrderedFilter.thy ===== *)
theory OrderedFilter
  imports BlockRanges
begin

text \<open>
  Messages from the producer to the consumer of the parallel L1 synchronizer
  (\<open>l1_data_message.go\<close>, the response types of \<open>l1_worker_etherman.go\<close>) and the filter that sends
  them in block order (\<open>l1_filter_send_orderer_results_to_synchronizer.go\<close>).
\<close>

subsection \<open>Messages\<close>

text \<open>
  A block of the etherman package and of the state package carry the same four fields here; the
  rollup events of a block (\<open>'b\<close>) and their order (\<open>'o\<close>) are passed on unread.
\<close>

record BlockInfo =
  BlockNumber :: u64
  BlockHash :: hash
  ParentHash :: hash
  ReceivedAt :: time

record 'b EthBlock =
  eb_info :: BlockInfo
  eb_events :: 'b

record ('b, 'o) rollupInfoByBlockRangeResult =
  ri_blockRange :: blockRange
  ri_blocks :: "'b EthBlock list"
  ri_order :: 'o
  lastBlockOfRange :: "BlockInfo option"
  previousBlockOfRange :: "BlockInfo option"

definition highestStep :: "'b EthBlock \<Rightarrow> u64 \<Rightarrow> u64" where
  "highestStep b highest = (if BlockNumber (eb_info b) > highest then BlockNumber (eb_info b) else highest)"

definition getRealHighestBlockNumberInResponse :: "('b, 'o) rollupInfoByBlockRangeResult \<Rightarrow> u64" where
  "getRealHighestBlockNumberInResponse r =
     (let highest = fold highestStep (ri_blocks r) invalidBlockNumber
      in case lastBlockOfRange r of
           Some lb \<Rightarrow> if BlockNumber lb > highest then BlockNumber lb else highest
         | None \<Rightarrow> highest)"

definition getHighestBlockNumberInResponse :: "('b, 'o) rollupInfoByBlockRangeResult \<Rightarrow> u64" where
  "getHighestBlockNumberInResponse r =
     (if toBlock (ri_blockRange r) \<noteq> latestBlockNumber then toBlock (ri_blockRange r)
      else getRealHighestBlockNumberInResponse r)"

definition receivedStep :: "'b EthBlock \<Rightarrow> BlockInfo option \<Rightarrow> BlockInfo option" where
  "receivedStep b highest =
     (case highest of
        None \<Rightarrow> Some (eb_info b)
      | Some h \<Rightarrow> if BlockNumber (eb_info b) > BlockNumber h then Some (eb_info b) else Some h)"

definition getHighestBlockReceived :: "('b, 'o) rollupInfoByBlockRangeResult \<Rightarrow> BlockInfo option" where
  "getHighestBlockReceived r =
     (case lastBlockOfRange r of
        Some lb \<Rightarrow> Some lb
      | None \<Rightarrow> fold receivedStep (ri_blocks r) None)"

datatype eventEnum = eventNone | eventStop | eventProducerIsFullySynced

record l1ConsumerControl =
  ctl_event :: eventEnum

record ('b, 'o) L1SyncMessage =
  dataIsValid :: bool
  msg_data :: "('b, 'o) rollupInfoByBlockRangeResult option"
  ctrlIsValid :: bool
  msg_ctrl :: l1ConsumerControl

text \<open>The data field of a control message has its zero value, which no code reads; it is \<open>None\<close> here.\<close>

definition newL1SyncMessageControl :: "eventEnum \<Rightarrow> ('b, 'o) L1SyncMessage" where
  "newL1SyncMessageControl event =
     \<lparr>dataIsValid = False, msg_data = None, ctrlIsValid = True, msg_ctrl = \<lparr>ctl_event = event\<rparr>\<rparr>"

definition newL1SyncMessageData ::
  "('b, 'o) rollupInfoByBlockRangeResult option \<Rightarrow> (BlockRangeError, ('b, 'o) L1SyncMessage) outcome" where
  "newL1SyncMessageData result =
     (case result of
        None \<Rightarrow> Panic
      | Some r \<Rightarrow> Ok \<lparr>dataIsValid = True, msg_data = Some r, ctrlIsValid = False, msg_ctrl = \<lparr>ctl_event = eventNone\<rparr>\<rparr>)"

subsection \<open>The filter\<close>

record ('b, 'o) filterToSendOrdererResultsToConsumer =
  lastBlockOnSynchronizer :: u64
  pendingResults :: "('b, 'o) L1SyncMessage list"

definition newFilterToSendOrdererResultsToConsumer :: "u64 \<Rightarrow> ('b, 'o) filterToSendOrdererResultsToConsumer" where
  "newFilterToSendOrdererResultsToConsumer lastBlock = \<lparr>lastBlockOnSynchronizer = lastBlock, pendingResults = []\<rparr>"

definition numItemBlockedInQueue :: "('b, 'o) filterToSendOrdererResultsToConsumer \<Rightarrow> nat" where
  "numItemBlockedInQueue s = length (pendingResults s)"

definition filter_Reset ::
  "('b, 'o) filterToSendOrdererResultsToConsumer \<Rightarrow> u64 \<Rightarrow> ('b, 'o) filterToSendOrdererResultsToConsumer" where
  "filter_Reset s lastBlock = s\<lparr>lastBlockOnSynchronizer := lastBlock, pendingResults := []\<rparr>"

definition matchNextBlockUnsafe :: "u64 \<Rightarrow> ('b, 'o) rollupInfoByBlockRangeResult \<Rightarrow> bool" where
  "matchNextBlockUnsafe lastBlock r \<longleftrightarrow> fromBlock (ri_blockRange r) = lastBlock + 1"

definition setLastBlockUnsafe ::
  "('b, 'o) filterToSendOrdererResultsToConsumer \<Rightarrow> u64 \<Rightarrow> ('b, 'o) filterToSendOrdererResultsToConsumer" where
  "setLastBlockUnsafe s highestBlockNumber =
     (if highestBlockNumber = invalidBlockNumber then s else s\<lparr>lastBlockOnSynchronizer := highestBlockNumber\<rparr>)"

definition addPendingResultUnsafe ::
  "('b, 'o) filterToSendOrdererResultsToConsumer \<Rightarrow> ('b, 'o) L1SyncMessage \<Rightarrow> ('b, 'o) filterToSendOrdererResultsToConsumer" where
  "addPendingResultUnsafe s m = s\<lparr>pendingResults := pendingResults s @ [m]\<rparr>"

text \<open>
  The loop over the pending results: the index of the first one that can be sent, with the
  message.  A data message can be sent when it starts at the next block, a control message only
  from the first place.
\<close>

fun firstSendable ::
  "u64 \<Rightarrow> nat \<Rightarrow> ('b, 'o) L1SyncMessage list \<Rightarrow> (nat \<times> ('b, 'o) L1SyncMessage) option" where
  "firstSendable lastBlock i [] = None"
| "firstSendable lastBlock i (m # ms) =
     (if dataIsValid m then
        (if (case msg_data m of Some r \<Rightarrow> matchNextBlockUnsafe lastBlock r | None \<Rightarrow> False)
         then Some (i, m) else firstSendable lastBlock (i + 1) ms)
      else if i = 0 then Some (i, m) else firstSendable lastBlock (i + 1) ms)"

definition removeIndex :: "nat \<Rightarrow> 'a list \<Rightarrow> 'a list" where
  "removeIndex i xs = take i xs @ drop (i + 1) xs"

lemma firstSendable_Some:
  "firstSendable l i ms = Some (k, m) \<Longrightarrow> i \<le> k \<and> k - i < length ms \<and> ms ! (k - i) = m"
proof (induction l i ms rule: firstSendable.induct)
  case (2 l i x ms)
  then show ?case by (auto split: if_splits option.splits simp: nth_Cons' Suc_diff_le less_Suc_eq_le)
qed simp

lemma length_removeIndex: "i < length xs \<Longrightarrow> length (removeIndex i xs) = length xs - 1"
  by (auto simp: removeIndex_def)

definition sendOne ::
  "('b, 'o) filterToSendOrdererResultsToConsumer \<Rightarrow> nat \<Rightarrow> ('b, 'o) L1SyncMessage \<Rightarrow>
   ('b, 'o) filterToSendOrdererResultsToConsumer" where
  "sendOne s i m =
     (let s1 = (if dataIsValid m
                then (case msg_data m of
                        Some r \<Rightarrow> setLastBlockUnsafe s (getHighestBlockNumberInResponse r)
                      | None \<Rightarrow> s)
                else s)
      in s1\<lparr>pendingResults := removeIndex i (pendingResults s)\<rparr>)"

function sendResultIfPossibleUnsafe ::
  "('b, 'o) filterToSendOrdererResultsToConsumer \<Rightarrow> ('b, 'o) L1SyncMessage list \<Rightarrow>
   ('b, 'o) filterToSendOrdererResultsToConsumer \<times> ('b, 'o) L1SyncMessage list" where
  "sendResultIfPossibleUnsafe s previous =
     (case firstSendable (lastBlockOnSynchronizer s) 0 (pendingResults s) of
        None \<Rightarrow> (s, previous)
      | Some (i, m) \<Rightarrow> sendResultIfPossibleUnsafe (sendOne s i m) (previous @ [m]))"
  by pat_completeness auto
termination
  by (relation "measure (\<lambda>(s, previous). length (pendingResults s))")
    (auto dest!: firstSendable_Some simp: sendOne_def Let_def length_removeIndex)

declare sendResultIfPossibleUnsafe.simps [simp del]

text \<open>\<open>checkValidDataUnsafe\<close> only writes log lines.\<close>

definition Filter ::
  "('b, 'o) filterToSendOrdererResultsToConsumer \<Rightarrow> ('b, 'o) L1SyncMessage \<Rightarrow>
   ('b, 'o) filterToSendOrdererResultsToConsumer \<times> ('b, 'o) L1SyncMessage list" where
  "Filter s m = sendResultIfPossibleUnsafe (addPendingResultUnsafe s m) []"

subsection \<open>What the filter promises\<close>

text \<open>
  The block number the consumer has reached after a message, and when a message may be sent at
  a block number.  \<open>chain\<close> says that a sequence of messages may be sent one after the other.
\<close>

definition after_msg :: "u64 \<Rightarrow> ('b, 'o) L1SyncMessage \<Rightarrow> u64" where
  "after_msg l m =
     (if dataIsValid m
      then (case msg_data m of
              Some r \<Rightarrow> let h = getHighestBlockNumberInResponse r in if h = invalidBlockNumber then l else h
            | None \<Rightarrow> l)
      else l)"

definition may_send :: "u64 \<Rightarrow> ('b, 'o) L1SyncMessage \<Rightarrow> bool" where
  "may_send l m \<longleftrightarrow> (dataIsValid m \<longrightarrow> (\<exists>r. msg_data m = Some r \<and> fromBlock (ri_blockRange r) = l + 1))"

primrec chain :: "('p \<Rightarrow> 'm \<Rightarrow> bool) \<Rightarrow> ('p \<Rightarrow> 'm \<Rightarrow> 'p) \<Rightarrow> 'p \<Rightarrow> 'm list \<Rightarrow> bool" where
  "chain ok nxt p [] = True"
| "chain ok nxt p (m # ms) = (ok p m \<and> chain ok nxt (nxt p m) ms)"

lemma chain_append: "chain ok nxt p (xs @ ys) \<longleftrightarrow> chain ok nxt p xs \<and> chain ok nxt (foldl nxt p xs) ys"
  by (induction xs arbitrary: p) auto

text \<open>
  The contract of a filter for its client: every message is sent once or kept, and what is sent
  continues in order from the position reached so far.
\<close>

locale ordered_filter =
  fixes flt :: "'s \<Rightarrow> 'm \<Rightarrow> 's \<times> 'm list"
    and pend :: "'s \<Rightarrow> 'm list"
    and pos :: "'s \<Rightarrow> 'p"
    and ok :: "'p \<Rightarrow> 'm \<Rightarrow> bool"
    and nxt :: "'p \<Rightarrow> 'm \<Rightarrow> 'p"
  assumes conserves: "flt s m = (s', out) \<Longrightarrow> mset out + mset (pend s') = add_mset m (mset (pend s))"
    and ordered: "flt s m = (s', out) \<Longrightarrow> chain ok nxt (pos s) out \<and> pos s' = foldl nxt (pos s) out"
begin

primrec run :: "'s \<Rightarrow> 'm list \<Rightarrow> 's \<times> 'm list" where
  "run s [] = (s, [])"
| "run s (m # ms) = (let (s1, out) = flt s m; (s2, outs) = run s1 ms in (s2, out @ outs))"

lemma run_conserves: "run s ms = (s', outs) \<Longrightarrow> mset outs + mset (pend s') = mset ms + mset (pend s)"
proof (induction ms arbitrary: s outs)
  case (Cons m ms)
  obtain s1 out outs1 where s1: "flt s m = (s1, out)" "run s1 ms = (s', outs1)" "outs = out @ outs1"
    using Cons.prems by (auto split: prod.splits)
  from Cons.IH[OF s1(2)] conserves[OF s1(1)] show ?case by (simp add: s1(3) add.assoc)
qed simp

lemma run_ordered: "run s ms = (s', outs) \<Longrightarrow> chain ok nxt (pos s) outs \<and> pos s' = foldl nxt (pos s) outs"
proof (induction ms arbitrary: s outs)
  case (Cons m ms)
  obtain s1 out outs1 where s1: "flt s m = (s1, out)" "run s1 ms = (s', outs1)" "outs = out @ outs1"
    using Cons.prems by (auto split: prod.splits)
  from Cons.IH[OF s1(2)] ordered[OF s1(1)] show ?case by (simp add: s1(3) chain_append)
qed simp

end

subsection \<open>The filter meets the contract\<close>

lemma firstSendable_may_send:
  assumes "firstSendable l i ms = Some (k, m)"
  shows "may_send l m"
  using assms
  by (induction l i ms rule: firstSendable.induct)
    (auto simp: may_send_def matchNextBlockUnsafe_def split: if_splits option.splits)

lemma sendOne_pos: "lastBlockOnSynchronizer (sendOne s i m) = after_msg (lastBlockOnSynchronizer s) m"
  by (auto simp: sendOne_def after_msg_def setLastBlockUnsafe_def Let_def split: option.splits)

lemma sendOne_pending [simp]: "pendingResults (sendOne s i m) = removeIndex i (pendingResults s)"
  by (simp add: sendOne_def Let_def)

lemma mset_removeIndex: "i < length xs \<Longrightarrow> add_mset (xs ! i) (mset (removeIndex i xs)) = mset xs"
  using id_take_nth_drop[of i xs] by (simp add: removeIndex_def) (metis mset.simps(2) mset_append union_mset_add_mset_right)

lemma send_correct:
  assumes "sendResultIfPossibleUnsafe s prev = (s', res)"
  shows "\<exists>out. res = prev @ out \<and> chain may_send after_msg (lastBlockOnSynchronizer s) out \<and>
    lastBlockOnSynchronizer s' = foldl after_msg (lastBlockOnSynchronizer s) out \<and>
    mset out + mset (pendingResults s') = mset (pendingResults s) \<and>
    firstSendable (lastBlockOnSynchronizer s') 0 (pendingResults s') = None"
  using assms
proof (induction s prev rule: sendResultIfPossibleUnsafe.induct)
  case (1 s prev)
  show ?case
  proof (cases "firstSendable (lastBlockOnSynchronizer s) 0 (pendingResults s)")
    case None
    then have "s' = s" "res = prev" using 1(2) by (simp_all add: sendResultIfPossibleUnsafe.simps[of s prev])
    then show ?thesis using None by (intro exI[of _ "[]"]) simp
  next
    case (Some km)
    obtain k m where km: "km = (k, m)" by (cases km)
    note f = Some[unfolded km]
    have "sendResultIfPossibleUnsafe (sendOne s k m) (prev @ [m]) = (s', res)"
      using 1(2) f by (simp add: sendResultIfPossibleUnsafe.simps[of s prev])
    from 1(1)[OF Some km[symmetric] this] obtain out where out: "res = (prev @ [m]) @ out"
      "chain may_send after_msg (after_msg (lastBlockOnSynchronizer s) m) out"
      "lastBlockOnSynchronizer s' = foldl after_msg (after_msg (lastBlockOnSynchronizer s) m) out"
      "mset out + mset (pendingResults s') = mset (removeIndex k (pendingResults s))"
      "firstSendable (lastBlockOnSynchronizer s') 0 (pendingResults s') = None"
      by (auto simp: sendOne_pos)
    have k: "k < length (pendingResults s)" "pendingResults s ! k = m" using firstSendable_Some[OF f] by auto
    have "mset (m # out) + mset (pendingResults s') = mset (pendingResults s)"
      using mset_removeIndex[OF k(1)] k(2) out(4) by simp
    then show ?thesis
      using out firstSendable_may_send[OF f] by (intro exI[of _ "m # out"]) simp
  qed
qed

lemma Filter_correct:
  assumes "Filter s m = (s', out)"
  shows "mset out + mset (pendingResults s') = add_mset m (mset (pendingResults s))"
    and "chain may_send after_msg (lastBlockOnSynchronizer s) out"
    and "lastBlockOnSynchronizer s' = foldl after_msg (lastBlockOnSynchronizer s) out"
    and "firstSendable (lastBlockOnSynchronizer s') 0 (pendingResults s') = None"
  using send_correct[OF assms[unfolded Filter_def]] by (auto simp: addPendingResultUnsafe_def)

interpretation fo: ordered_filter Filter pendingResults lastBlockOnSynchronizer may_send after_msg
  by unfold_locales (auto dest: Filter_correct)

primrec runFilter ::
  "('b, 'o) filterToSendOrdererResultsToConsumer \<Rightarrow> ('b, 'o) L1SyncMessage list \<Rightarrow>
   ('b, 'o) filterToSendOrdererResultsToConsumer \<times> ('b, 'o) L1SyncMessage list" where
  "runFilter s [] = (s, [])"
| "runFilter s (m # ms) = (let (s1, out) = Filter s m; (s2, outs) = runFilter s1 ms in (s2, out @ outs))"

lemma runFilter_eq: "runFilter s ms = fo.run s ms"
  by (induction ms arbitrary: s) (auto split: prod.splits)

lemma firstSendable_None_iff:
  "firstSendable l (Suc i) ms = None \<longleftrightarrow> (\<forall>m\<in>set ms. dataIsValid m \<longrightarrow>
     \<not> (\<exists>r. msg_data m = Some r \<and> matchNextBlockUnsafe l r))"
  by (induction ms arbitrary: i) (auto split: option.splits)

lemma runFilter_sendable:
  "runFilter s ms = (s', outs) \<Longrightarrow> ms \<noteq> [] \<Longrightarrow> firstSendable (lastBlockOnSynchronizer s') 0 (pendingResults s') = None"
proof (induction ms arbitrary: s outs)
  case (Cons m ms)
  obtain s1 out outs1 where s1: "Filter s m = (s1, out)" "runFilter s1 ms = (s', outs1)"
    using Cons.prems(1) by (auto split: prod.splits)
  show ?case
  proof (cases ms)
    case Nil
    then show ?thesis using s1 Filter_correct(4)[OF s1(1)] by simp
  next
    case (Cons a list)
    then show ?thesis using Cons.IH[OF s1(2)] by simp
  qed
qed simp

lemma unsendable_not_next:
  assumes "firstSendable l 0 ms = None" "m \<in> set ms" "dataIsValid m" "msg_data m = Some r"
  shows "fromBlock (ri_blockRange r) \<noteq> l + 1"
  using assms firstSendable_None_iff[of l 0]
  by (cases ms) (auto simp: matchNextBlockUnsafe_def split: if_splits option.splits)

text \<open>
  C18: Whatever the order in which the responses arrive, the filter sends every message at most
  once and loses none, sends the data messages so that each starts at the block after the one
  the previous messages reached, and never holds back a message that starts at the next block.
\<close>

theorem filter_orders_and_conserves:
  assumes "runFilter s ms = (s', outs)" "ms \<noteq> []"
  shows "mset outs + mset (pendingResults s') = mset ms + mset (pendingResults s) \<and>
    chain may_send after_msg (lastBlockOnSynchronizer s) outs \<and>
    lastBlockOnSynchronizer s' = foldl after_msg (lastBlockOnSynchronizer s) outs \<and>
    (\<forall>m\<in>set (pendingResults s'). \<forall>r. dataIsValid m \<and> msg_data m = Some r \<longrightarrow>
       fromBlock (ri_blockRange r) \<noteq> lastBlockOnSynchronizer s' + 1)"
  using assms fo.run_conserves[of s ms s' outs] fo.run_ordered[of s ms s' outs]
    unsendable_not_next[OF runFilter_sendable[OF assms]]
  by (auto simp: runFilter_eq)

text \<open>Two responses that arrive in reverse order are both sent, in block order.\<close>

abbreviation sampleResult :: "u64 \<Rightarrow> u64 \<Rightarrow> (unit, unit) rollupInfoByBlockRangeResult" where
  "sampleResult f t \<equiv> \<lparr>ri_blockRange = \<lparr>fromBlock = f, toBlock = t\<rparr>, ri_blocks = [], ri_order = (),
     lastBlockOfRange = Some \<lparr>BlockNumber = t, BlockHash = 0, ParentHash = 0, ReceivedAt = 0\<rparr>,
     previousBlockOfRange = None\<rparr>"

abbreviation sampleMsg :: "u64 \<Rightarrow> u64 \<Rightarrow> (unit, unit) L1SyncMessage" where
  "sampleMsg f t \<equiv> \<lparr>dataIsValid = True, msg_data = Some (sampleResult f t), ctrlIsValid = False,
     msg_ctrl = \<lparr>ctl_event = eventNone\<rparr>\<rparr>"

lemmas filter_eval = Filter_def addPendingResultUnsafe_def newFilterToSendOrdererResultsToConsumer_def
  sendResultIfPossibleUnsafe.simps matchNextBlockUnsafe_def sendOne_def setLastBlockUnsafe_def
  getHighestBlockNumberInResponse_def latestBlockNumber_def invalidBlockNumber_def removeIndex_def

lemma sample_runFilter:
  "runFilter (newFilterToSendOrdererResultsToConsumer 99) [sampleMsg 201 300, sampleMsg 100 200] =
     (\<lparr>lastBlockOnSynchronizer = 300, pendingResults = []\<rparr>, [sampleMsg 100 200, sampleMsg 201 300])"
  by (simp add: filter_eval)

theorem filter_orders_and_conserves_witness:
  "chain may_send after_msg 99 [sampleMsg 100 200, sampleMsg 201 300] \<and>
   foldl after_msg 99 [sampleMsg 100 200, sampleMsg 201 300] = 300"
  using filter_orders_and_conserves[OF sample_runFilter]
  by (simp add: newFilterToSendOrdererResultsToConsumer_def)

text \<open>
  A response that starts below the position of the filter is reported as ignored, but it is kept
  and never sent, and a control message queued behind it is held back as well.
\<close>

lemma stale_result_stays_pending:
  assumes "pendingResults s = []" "dataIsValid m" "msg_data m = Some r"
    and "fromBlock (ri_blockRange r) \<noteq> lastBlockOnSynchronizer s + 1"
  shows "Filter s m = (s\<lparr>pendingResults := [m]\<rparr>, [])"
    and "Filter (s\<lparr>pendingResults := [m]\<rparr>) (newL1SyncMessageControl e) =
      (s\<lparr>pendingResults := [m, newL1SyncMessageControl e]\<rparr>, [])"
  using assms
  by (simp_all add: Filter_def addPendingResultUnsafe_def sendResultIfPossibleUnsafe.simps matchNextBlockUnsafe_def
      newL1SyncMessageControl_def)

end
