(* ===== verification/L1Workers.thy ===== *)
theory L1Workers
  imports OrderedFilter
begin

text \<open>
  The workers of the parallel L1 synchronizer (\<open>l1_worker_etherman.go\<close>, \<open>l1_workers.go\<close>): each
  worker owns a connection to an L1 node and serves one request at a time.  The etherman client
  is a parameter: \<open>ethBlockByNumber\<close>, \<open>getRollupInfo\<close> and \<open>headerByNumber\<close>, whose answers may
  depend on the time of the call; errors of the client are of an arbitrary type.
\<close>

subsection \<open>Requests and responses\<close>

datatype ethermanStatusEnum = ethermanIdle | ethermanWorking | ethermanError
datatype typeOfRequest = typeRequestNone | typeRequestRollupInfo | typeRequestLastBlock | typeRequestEOF
datatype requestLastBlockMode =
  requestLastBlockModeNone | requestLastBlockModeIfNoBlocksInAnswer | requestLastBlockModeAlways

datatype 'e WorkerError = errWorkerBusy | errAllWorkersBusy | errRequiredEtherman | errCanceled | errEtherman 'e

record requestRollupInfoByBlockRange =
  rq_blockRange :: blockRange
  sleepBefore :: duration
  requestLastBlockIfNoBlocksInAnswer :: requestLastBlockMode
  requestPreviousBlock :: bool

record ('b, 'o, 'e) responseRollupInfoByBlockRange =
  rs_err :: "'e WorkerError option"
  rs_result :: "('b, 'o) rollupInfoByBlockRangeResult option"

definition response_getHighestBlockNumberInResponse :: "('b, 'o, 'e) responseRollupInfoByBlockRange \<Rightarrow> u64" where
  "response_getHighestBlockNumberInResponse r =
     (case rs_result r of None \<Rightarrow> invalidBlockNumber | Some x \<Rightarrow> getHighestBlockNumberInResponse x)"

definition newResponseRollupInfo ::
  "'e WorkerError option \<Rightarrow> ('b, 'o) rollupInfoByBlockRangeResult option \<Rightarrow> ('b, 'o, 'e) responseRollupInfoByBlockRange" where
  "newResponseRollupInfo err result = \<lparr>rs_err = err, rs_result = result\<rparr>"

subsection \<open>Serving a request\<close>

text \<open>\<open>lenBlocks\<close> is -1 before the rollup information has been requested.\<close>

definition mustRequestLastBlock :: "requestLastBlockMode \<Rightarrow> int \<Rightarrow> u64 \<Rightarrow> bool" where
  "mustRequestLastBlock mode lenBlocks lastBlockRequest =
     (case mode of
        requestLastBlockModeNone \<Rightarrow> False
      | requestLastBlockModeIfNoBlocksInAnswer \<Rightarrow> lenBlocks = 0 \<and> lastBlockRequest \<noteq> latestBlockNumber
      | requestLastBlockModeAlways \<Rightarrow> lastBlockRequest \<noteq> latestBlockNumber)"

type_synonym 'e block_by_number = "u64 \<Rightarrow> 'e + BlockInfo"
type_synonym ('b, 'o, 'e) rollup_info = "u64 \<Rightarrow> u64 option \<Rightarrow> 'e + 'b EthBlock list \<times> 'o"

definition fillLastBlock ::
  "'e block_by_number \<Rightarrow> ('b, 'o) rollupInfoByBlockRangeResult \<Rightarrow> requestRollupInfoByBlockRange \<Rightarrow> bool \<Rightarrow>
   ('b, 'o) rollupInfoByBlockRangeResult \<times> 'e option" where
  "fillLastBlock ethBlockByNumber result request haveExecutedRollupInfo =
     (if lastBlockOfRange result \<noteq> None then (result, None)
      else
        (let lenBlocks = (if haveExecutedRollupInfo then int (length (ri_blocks result)) else - 1)
         in if mustRequestLastBlock (requestLastBlockIfNoBlocksInAnswer request) lenBlocks (toBlock (rq_blockRange request))
            then (case ethBlockByNumber (toBlock (rq_blockRange request)) of
                    Inl e \<Rightarrow> (result, Some e)
                  | Inr lastBlock \<Rightarrow> (result\<lparr>lastBlockOfRange := Some lastBlock\<rparr>, None))
            else (result, None)))"

definition fillRollup ::
  "('b, 'o, 'e) rollup_info \<Rightarrow> ('b, 'o) rollupInfoByBlockRangeResult \<Rightarrow> requestRollupInfoByBlockRange \<Rightarrow>
   ('b, 'o) rollupInfoByBlockRangeResult \<times> 'e option" where
  "fillRollup getRollupInfo result request =
     (let toB = (if toBlock (rq_blockRange request) \<noteq> latestBlockNumber then Some (toBlock (rq_blockRange request)) else None)
      in case getRollupInfo (fromBlock (rq_blockRange request)) toB of
           Inl e \<Rightarrow> (result\<lparr>ri_blocks := []\<rparr>, Some e)
         | Inr (bs, ord) \<Rightarrow> (result\<lparr>ri_blocks := bs, ri_order := ord\<rparr>, None))"

definition fillPreviousBlock ::
  "'e block_by_number \<Rightarrow> ('b, 'o) rollupInfoByBlockRangeResult \<Rightarrow> requestRollupInfoByBlockRange \<Rightarrow>
   ('b, 'o) rollupInfoByBlockRangeResult \<times> 'e option" where
  "fillPreviousBlock ethBlockByNumber result request =
     (if requestPreviousBlock request \<and> fromBlock (rq_blockRange request) > 2
      then (case ethBlockByNumber (fromBlock (rq_blockRange request) - 1) of
              Inl e \<Rightarrow> (result\<lparr>previousBlockOfRange := None\<rparr>, Some e)
            | Inr b \<Rightarrow> (result\<lparr>previousBlockOfRange := Some b\<rparr>, None))
      else (result, None))"

text \<open>
  The order of the four calls matters for the detection of reorganizations: the last block first,
  then the rollup information, then the last block if it is still missing, then the previous
  block.  The L1 chain the client shows at each of the calls is \<open>chain1\<close>, \<dots>, \<open>chain4\<close>.
\<close>

definition executeRequestRollupInfoByBlockRange ::
  "'e block_by_number \<Rightarrow> ('b, 'o, 'e) rollup_info \<Rightarrow> 'e block_by_number \<Rightarrow> 'e block_by_number \<Rightarrow> 'o \<Rightarrow>
   requestRollupInfoByBlockRange \<Rightarrow> ('b, 'o) rollupInfoByBlockRangeResult \<times> 'e option" where
  "executeRequestRollupInfoByBlockRange chain1 chain2 chain3 chain4 noOrder request =
     (let r0 = \<lparr>ri_blockRange = rq_blockRange request, ri_blocks = [], ri_order = noOrder,
                lastBlockOfRange = None, previousBlockOfRange = None\<rparr>
      in case fillLastBlock chain1 r0 request False of
           (r1, Some e) \<Rightarrow> (r1, Some e)
         | (r1, None) \<Rightarrow>
             (case fillRollup chain2 r1 request of
                (r2, Some e) \<Rightarrow> (r2, Some e)
              | (r2, None) \<Rightarrow>
                  (case fillLastBlock chain3 r2 request True of
                     (r3, Some e) \<Rightarrow> (r3, Some e)
                   | (r3, None) \<Rightarrow> fillPreviousBlock chain4 r3 request)))"

subsection \<open>The pool of workers\<close>

record workerEtherman =
  we_status :: ethermanStatusEnum
  typeOfCurrentRequest :: typeOfRequest
  we_request :: "requestRollupInfoByBlockRange option"

definition newWorker :: workerEtherman where
  "newWorker = \<lparr>we_status = ethermanIdle, typeOfCurrentRequest = typeRequestNone, we_request = None\<rparr>"

definition isIdle :: "workerEtherman \<Rightarrow> bool" where
  "isIdle w \<longleftrightarrow> we_status w = ethermanIdle"

definition isBusyUnsafe :: "workerEtherman \<Rightarrow> bool" where
  "isBusyUnsafe w \<longleftrightarrow> we_status w \<noteq> ethermanIdle"

definition worker_setStatus :: "workerEtherman \<Rightarrow> ethermanStatusEnum \<Rightarrow> workerEtherman" where
  "worker_setStatus w status = w\<lparr>we_status := status, typeOfCurrentRequest := typeRequestNone\<rparr>"

definition worker_asyncRequest ::
  "workerEtherman \<Rightarrow> requestRollupInfoByBlockRange \<Rightarrow> workerEtherman \<times> 'e WorkerError option" where
  "worker_asyncRequest w request =
     (if isBusyUnsafe w then (w, Some errWorkerBusy)
      else (w\<lparr>we_status := ethermanWorking, typeOfCurrentRequest := typeRequestRollupInfo, we_request := Some request\<rparr>, None))"

definition worker_requestLastBlock :: "'e + u64 \<Rightarrow> workerEtherman \<Rightarrow> workerEtherman \<times> ('e WorkerError + u64)" where
  "worker_requestLastBlock headerByNumber w =
     (if isBusyUnsafe w then (w, Inl errWorkerBusy)
      else (worker_setStatus w ethermanIdle,
            case headerByNumber of Inl e \<Rightarrow> Inl (errEtherman e) | Inr n \<Rightarrow> Inr n))"

record workers =
  workerForLastBlock :: workerEtherman
  wk_workers :: "workerEtherman list"

definition minimumNumberOfEthermans :: nat where "minimumNumberOfEthermans = 2"

definition newWorkers :: "nat \<Rightarrow> (unit, workers) outcome" where
  "newWorkers numEthermans =
     (if numEthermans < minimumNumberOfEthermans then Panic
      else Ok \<lparr>workerForLastBlock = newWorker, wk_workers = replicate (numEthermans - 1) newWorker\<rparr>)"

definition workers_initialize :: "workers \<Rightarrow> 'e WorkerError option" where
  "workers_initialize w = (if length (wk_workers w) = 0 then Some errRequiredEtherman else None)"

definition howManyRunningWorkers :: "workers \<Rightarrow> nat" where
  "howManyRunningWorkers w = length (filter (\<lambda>x. \<not> isIdle x) (wk_workers w))"

fun idleFrom :: "nat \<Rightarrow> workerEtherman list \<Rightarrow> nat option" where
  "idleFrom i [] = None"
| "idleFrom i (w # ws) = (if isIdle w then Some i else idleFrom (i + 1) ws)"

definition getIdleWorkerUnsafe :: "workers \<Rightarrow> nat option" where
  "getIdleWorkerUnsafe w = idleFrom 0 (wk_workers w)"

definition asyncRequestRollupInfoByBlockRange ::
  "workers \<Rightarrow> requestRollupInfoByBlockRange \<Rightarrow> workers \<times> 'e WorkerError option" where
  "asyncRequestRollupInfoByBlockRange w request =
     (case getIdleWorkerUnsafe w of
        None \<Rightarrow> (w, Some errAllWorkersBusy)
      | Some i \<Rightarrow>
          (case worker_asyncRequest (wk_workers w ! i) request of
             (x, err) \<Rightarrow> (w\<lparr>wk_workers := (wk_workers w)[i := x]\<rparr>, err)))"

text \<open>The end of the goroutine of worker \<open>i\<close>: it is idle again before its response is sent.\<close>

definition worker_finished :: "workers \<Rightarrow> nat \<Rightarrow> workers" where
  "worker_finished w i = w\<lparr>wk_workers := (wk_workers w)[i := worker_setStatus (wk_workers w ! i) ethermanIdle]\<rparr>"

text \<open>Up to \<open>retries\<close> attempts, with the answers of the client in turn; a count of zero does not stop.\<close>

fun requestLastBlockWithRetries :: "('e + u64) list \<Rightarrow> int \<Rightarrow> workers \<Rightarrow> (workers \<times> ('e WorkerError + u64)) option" where
  "requestLastBlockWithRetries [] retries w = None"
| "requestLastBlockWithRetries (a # answers) retries w =
     (case worker_requestLastBlock a (workerForLastBlock w) of
        (x, Inr n) \<Rightarrow> Some (w\<lparr>workerForLastBlock := x\<rparr>, Inr n)
      | (x, Inl e) \<Rightarrow>
          (if retries - 1 = 0 then Some (w\<lparr>workerForLastBlock := x\<rparr>, Inl e)
           else requestLastBlockWithRetries answers (retries - 1) (w\<lparr>workerForLastBlock := x\<rparr>)))"

lemma idleFrom_Some:
  "idleFrom i ws = Some k \<Longrightarrow> i \<le> k \<and> k - i < length ws \<and> isIdle (ws ! (k - i))"
  by (induction i ws rule: idleFrom.induct) (auto split: if_splits simp: nth_Cons' Suc_diff_le less_Suc_eq_le)

lemma idleFrom_None: "idleFrom i ws = None \<longleftrightarrow> (\<forall>w\<in>set ws. \<not> isIdle w)"
  by (induction i ws rule: idleFrom.induct) auto

lemma filter_length_update:
  assumes "i < length xs" "P (xs ! i)" "\<not> P y"
  shows "length (filter P (xs[i := y])) + 1 = length (filter P xs)"
  using assms by (subst (2) id_take_nth_drop[OF assms(1)]) (simp add: upd_conv_take_nth_drop)

text \<open>
  A successful request occupies exactly one more worker, and a request fails exactly when all
  workers are busy.
\<close>

lemma asyncRequest_running:
  assumes "asyncRequestRollupInfoByBlockRange w request = (w', err)"
  shows "(err = None \<longrightarrow> howManyRunningWorkers w' = howManyRunningWorkers w + 1 \<and>
      howManyRunningWorkers w < length (wk_workers w)) \<and>
    (err \<noteq> None \<longrightarrow> w' = w \<and> howManyRunningWorkers w = length (wk_workers w)) \<and>
    length (wk_workers w') = length (wk_workers w)"
proof (cases "getIdleWorkerUnsafe w")
  case None
  then have "\<forall>x\<in>set (wk_workers w). \<not> isIdle x" by (simp add: getIdleWorkerUnsafe_def idleFrom_None)
  then have "howManyRunningWorkers w = length (wk_workers w)" by (simp add: howManyRunningWorkers_def)
  then show ?thesis using assms None by (auto simp: asyncRequestRollupInfoByBlockRange_def)
next
  case (Some i)
  let ?x = "wk_workers w ! i"
  let ?y = "?x\<lparr>we_status := ethermanWorking, typeOfCurrentRequest := typeRequestRollupInfo, we_request := Some request\<rparr>"
  have i: "i < length (wk_workers w)" "isIdle ?x" using Some idleFrom_Some[of 0 "wk_workers w" i] by (auto simp: getIdleWorkerUnsafe_def)
  have w': "w' = w\<lparr>wk_workers := (wk_workers w)[i := ?y]\<rparr>" "err = None"
    using assms Some i(2) by (auto simp: asyncRequestRollupInfoByBlockRange_def worker_asyncRequest_def isBusyUnsafe_def isIdle_def)
  have "length (filter isIdle ((wk_workers w)[i := ?y])) + 1 = length (filter isIdle (wk_workers w))"
    using i by (intro filter_length_update) (simp_all add: isIdle_def)
  moreover have "length (filter isIdle (wk_workers w)) + howManyRunningWorkers w = length (wk_workers w)"
    "length (filter isIdle ((wk_workers w)[i := ?y])) + howManyRunningWorkers w' = length (wk_workers w)"
    using sum_length_filter_compl[of isIdle "wk_workers w"] sum_length_filter_compl[of isIdle "(wk_workers w)[i := ?y]"]
    by (simp_all add: howManyRunningWorkers_def w'(1))
  ultimately have "howManyRunningWorkers w' = howManyRunningWorkers w + 1" "howManyRunningWorkers w < length (wk_workers w)"
    by linarith+
  then show ?thesis using w' by simp
qed

end
