(* ===== verification/L1Producer.thy ===== *)
theory L1Producer
  imports SyncStatus L1Workers
begin

text \<open>
  The producer of the parallel L1 synchronizer (\<open>l1_rollup_info_producer.go\<close>): it hands the ranges
  of the bookkeeping to the workers and sends their responses, ordered by the filter, to the
  consumer.  The clock and the outcome of a request for the L1 head are arguments.  Channels are
  lists; a send waits for room in the code, so the capacity matters only where the code reads it.
\<close>

subsection \<open>State\<close>

datatype producerStatusEnum =
  producerIdle | producerWorking | producerSynchronized | producerNoRunning | producerReseting

datatype producerCmdEnum = producerNop | producerStop | producerReset

record producerCmd =
  pc_cmd :: producerCmdEnum
  param1 :: u64

record ConfigProducer =
  SyncChunkSize :: u64
  TtlOfLastBlockOnL1 :: duration
  TimeOutMainLoop :: duration

definition second :: duration where "second = 1000000000"

record ('b, 'o) L1RollupInfoProducer =
  p_workers :: workers
  p_syncStatus :: syncStatus
  outgoingChannel :: "('b, 'o) L1SyncMessage list"
  outgoingCap :: nat
  timeLastBLockOnL1 :: time
  p_status :: producerStatusEnum
  p_filter :: "('b, 'o) filterToSendOrdererResultsToConsumer"
  p_cfg :: ConfigProducer
  channelCmds :: "producerCmd list"

text \<open>The remaining checks of \<open>normalize\<close> only write warnings.\<close>

definition cfg_normalize :: "ConfigProducer \<Rightarrow> (BlockRangeError, unit) outcome" where
  "cfg_normalize cfg = (if SyncChunkSize cfg = 0 then Panic else Ok ())"

definition NewL1DataRetriever ::
  "ConfigProducer \<Rightarrow> nat \<Rightarrow> nat \<Rightarrow> (BlockRangeError, ('b, 'o) L1RollupInfoProducer) outcome" where
  "NewL1DataRetriever cfg numEthermans cap =
     bind_outcome (cfg_normalize cfg) (\<lambda>_.
     case newWorkers numEthermans of
       Ok ws \<Rightarrow> Ok \<lparr>p_workers = ws, p_syncStatus = newSyncStatus invalidBlockNumber (SyncChunkSize cfg),
                    outgoingChannel = [], outgoingCap = cap, timeLastBLockOnL1 = 0, p_status = producerNoRunning,
                    p_filter = newFilterToSendOrdererResultsToConsumer invalidBlockNumber, p_cfg = cfg,
                    channelCmds = []\<rparr>
     | _ \<Rightarrow> Panic)"

definition sendPackages ::
  "('b, 'o) L1RollupInfoProducer \<Rightarrow> ('b, 'o) L1SyncMessage list \<Rightarrow> ('b, 'o) L1RollupInfoProducer" where
  "sendPackages l pkgs = l\<lparr>outgoingChannel := outgoingChannel l @ pkgs\<rparr>"

definition setStatus :: "('b, 'o) L1RollupInfoProducer \<Rightarrow> producerStatusEnum \<Rightarrow> ('b, 'o) L1RollupInfoProducer" where
  "setStatus l newStatus =
     (let l1 = l\<lparr>p_status := newStatus\<rparr>
      in if p_status l \<noteq> newStatus \<and> newStatus = producerSynchronized
         then sendPackages l1 [newL1SyncMessageControl eventProducerIsFullySynced] else l1)"

definition emptyChannel :: "('b, 'o) L1RollupInfoProducer \<Rightarrow> ('b, 'o) L1RollupInfoProducer" where
  "emptyChannel l = l\<lparr>outgoingChannel := []\<rparr>"

definition producer_Reset :: "('b, 'o) L1RollupInfoProducer \<Rightarrow> u64 \<Rightarrow> ('b, 'o) L1RollupInfoProducer" where
  "producer_Reset l startingBlockNumber =
     (let l1 = emptyChannel (setStatus l producerReseting)
      in l1\<lparr>channelCmds := channelCmds l1 @ [\<lparr>pc_cmd = producerReset, param1 = startingBlockNumber\<rparr>]\<rparr>)"

text \<open>
  \<open>workers.stop\<close> is the method of the decorator around the workers, which clears its own cache of
  call times and does not reach the workers.
\<close>

definition resetUnsafe :: "('b, 'o) L1RollupInfoProducer \<Rightarrow> u64 \<Rightarrow> ('b, 'o) L1RollupInfoProducer" where
  "resetUnsafe l startingBlockNumber =
     (let l1 = setStatus l producerReseting;
          l2 = l1\<lparr>p_syncStatus := ss_Reset (p_syncStatus l1) startingBlockNumber\<rparr>;
          l3 = emptyChannel l2;
          l4 = l3\<lparr>p_filter := filter_Reset (p_filter l3) startingBlockNumber\<rparr>
      in setStatus l4 producerIdle)"

definition producer_Stop :: "('b, 'o) L1RollupInfoProducer \<Rightarrow> ('b, 'o) L1RollupInfoProducer" where
  "producer_Stop l = l\<lparr>channelCmds := channelCmds l @ [\<lparr>pc_cmd = producerStop, param1 = 0\<rparr>]\<rparr>"

definition isProducerRunning :: "('b, 'o) L1RollupInfoProducer \<Rightarrow> bool" where
  "isProducerRunning l \<longleftrightarrow> p_status l \<noteq> producerNoRunning"

definition stopUnsafe :: "('b, 'o) L1RollupInfoProducer \<Rightarrow> ('b, 'o) L1RollupInfoProducer" where
  "stopUnsafe l = setStatus l producerNoRunning"

definition producer_verify :: "('b, 'o) L1RollupInfoProducer \<Rightarrow> SyncStatusError option" where
  "producer_verify l = ss_Verify (p_syncStatus l)"

text \<open>Whether the producer keeps running.\<close>

definition executeCmd :: "('b, 'o) L1RollupInfoProducer \<Rightarrow> producerCmd \<Rightarrow> ('b, 'o) L1RollupInfoProducer \<times> bool" where
  "executeCmd l cmd =
     (case pc_cmd cmd of
        producerStop \<Rightarrow> (stopUnsafe l, False)
      | producerReset \<Rightarrow> (resetUnsafe l (param1 cmd), True)
      | producerNop \<Rightarrow> (l, True))"

definition getNextTimeout :: "time \<Rightarrow> ('b, 'o) L1RollupInfoProducer \<Rightarrow> duration" where
  "getNextTimeout now l =
     (case p_status l of
        producerSynchronized \<Rightarrow> max ((now - timeLastBLockOnL1 l) + TtlOfLastBlockOnL1 (p_cfg l)) second
      | _ \<Rightarrow> TimeOutMainLoop (p_cfg l))"

definition onNewLastBlock :: "time \<Rightarrow> ('b, 'o) L1RollupInfoProducer \<Rightarrow> u64 \<Rightarrow> ('b, 'o) L1RollupInfoProducer" where
  "onNewLastBlock now l lastBlock =
     l\<lparr>p_syncStatus := fst (OnNewLastBlockOnL1 (p_syncStatus l) lastBlock), timeLastBLockOnL1 := now\<rparr>"

definition renewLastBlockOnL1IfNeeded ::
  "time \<Rightarrow> u64 option \<Rightarrow> ('b, 'o) L1RollupInfoProducer \<Rightarrow> ('b, 'o) L1RollupInfoProducer" where
  "renewLastBlockOnL1IfNeeded now lastBlockAnswer l =
     (if now - timeLastBLockOnL1 l > TtlOfLastBlockOnL1 (p_cfg l)
      then (case lastBlockAnswer of None \<Rightarrow> l | Some b \<Rightarrow> onNewLastBlock now l b)
      else l)"

definition canISendNewRequestsUnsafe :: "('b, 'o) L1RollupInfoProducer \<Rightarrow> bool" where
  "canISendNewRequestsUnsafe l \<longleftrightarrow>
     \<not> numItemBlockedInQueue (p_filter l) + length (outgoingChannel l) > outgoingCap l"

definition requestFor :: "syncStatus \<Rightarrow> blockRange \<Rightarrow> requestRollupInfoByBlockRange" where
  "requestFor s br =
     (let isUnsafe = BlockNumberIsInsideUnsafeArea s (fromBlock br)
      in \<lparr>rq_blockRange = br, sleepBefore = 0,
          requestLastBlockIfNoBlocksInAnswer =
            (if isUnsafe then requestLastBlockModeAlways else requestLastBlockModeIfNoBlocksInAnswer),
          requestPreviousBlock = isUnsafe\<rparr>)"

text \<open>The loop of \<open>launchWork\<close>: it ends when there is nothing to request or no idle worker.\<close>

function launchLoop ::
  "bool \<Rightarrow> syncStatus \<Rightarrow> workers \<Rightarrow> nat \<Rightarrow> (BlockRangeError, syncStatus \<times> workers \<times> nat) outcome" where
  "launchLoop allowNewRequests s w launched =
     (case (if allowNewRequests then GetNextRange s else Ok (GetNextRangeOnlyRetries s)) of
        Panic \<Rightarrow> Panic
      | Err e \<Rightarrow> Err e
      | Ok (s1, None) \<Rightarrow> Ok (s1, w, launched)
      | Ok (s1, Some br) \<Rightarrow>
          (case asyncRequestRollupInfoByBlockRange w (requestFor s1 br) :: workers \<times> unit WorkerError option of
             (w1, Some _) \<Rightarrow> Ok (s1, w1, launched)
           | (w1, None) \<Rightarrow>
               (case OnStartedNewWorker s1 br of
                  Panic \<Rightarrow> Panic
                | Err e \<Rightarrow> Err e
                | Ok s2 \<Rightarrow> launchLoop allowNewRequests s2 w1 (launched + 1))))"
  by pat_completeness auto
termination
  by (relation "measure (\<lambda>(allow, s, w, n). length (wk_workers w) - howManyRunningWorkers w)")
    (auto dest!: asyncRequest_running[OF sym])

declare launchLoop.simps [simp del]

definition launchWork :: "('b, 'o) L1RollupInfoProducer \<Rightarrow> (BlockRangeError, ('b, 'o) L1RollupInfoProducer \<times> nat) outcome" where
  "launchWork l =
     bind_outcome (launchLoop (canISendNewRequestsUnsafe l) (p_syncStatus l) (p_workers l) 0) (\<lambda>(s, w, n).
       Ok (l\<lparr>p_syncStatus := s, p_workers := w\<rparr>, n))"

definition onResponseRollupInfo ::
  "('b, 'o) L1RollupInfoProducer \<Rightarrow> ('b, 'o, 'e) responseRollupInfoByBlockRange \<Rightarrow>
   (BlockRangeError, ('b, 'o) L1RollupInfoProducer) outcome" where
  "onResponseRollupInfo l result =
     (if p_status l = producerReseting then Ok l
      else
        (let isOk = (rs_err result = None);
             h = (if isOk then response_getHighestBlockNumberInResponse result else invalidBlockNumber)
         in case rs_result result of
              None \<Rightarrow> Panic
            | Some r \<Rightarrow>
                bind_outcome (OnFinishWorker (p_syncStatus l) (ri_blockRange r) isOk h) (\<lambda>(s, used).
                  let l1 = l\<lparr>p_syncStatus := s\<rparr> in
                  if used \<and> isOk then
                    bind_outcome (newL1SyncMessageData (Some r)) (\<lambda>m.
                      let (f, pkgs) = Filter (p_filter l1) m in Ok (sendPackages (l1\<lparr>p_filter := f\<rparr>) pkgs))
                  else Ok l1)))"

subsection \<open>The main loop\<close>

text \<open>What the \<open>select\<close> of a step receives: a cancellation, the next command, a timeout or a response.\<close>

datatype ('b, 'o, 'e) step_event =
    EvCancel
  | EvCmd
  | EvTimeout
  | EvResponse "('b, 'o, 'e) responseRollupInfoByBlockRange"

definition receive ::
  "('b, 'o) L1RollupInfoProducer \<Rightarrow> ('b, 'o, 'e) step_event \<Rightarrow>
   (BlockRangeError, ('b, 'o) L1RollupInfoProducer \<times> bool) outcome" where
  "receive l ev =
     (case ev of
        EvCancel \<Rightarrow> Ok (l, False)
      | EvCmd \<Rightarrow>
          (case channelCmds l of
             [] \<Rightarrow> Ok (l, True)
           | cmd # cmds \<Rightarrow> Ok (executeCmd (l\<lparr>channelCmds := cmds\<rparr>) cmd))
      | EvTimeout \<Rightarrow> Ok (l, True)
      | EvResponse r \<Rightarrow> bind_outcome (onResponseRollupInfo l r) (\<lambda>l1. Ok (l1, True)))"

definition whenIdle :: "time \<Rightarrow> u64 option \<Rightarrow> ('b, 'o) L1RollupInfoProducer \<Rightarrow> ('b, 'o) L1RollupInfoProducer" where
  "whenIdle now lastBlockAnswer l =
     (let l1 = renewLastBlockOnL1IfNeeded now lastBlockAnswer l
      in if DoesItHaveAllTheNeedDataToWork (p_syncStatus l1) then
           (let l2 = setStatus l1 producerWorking
            in l2\<lparr>channelCmds := channelCmds l2 @ [\<lparr>pc_cmd = producerNop, param1 = 0\<rparr>]\<rparr>)
         else l1)"

definition whenWorking ::
  "time \<Rightarrow> u64 option \<Rightarrow> u64 option \<Rightarrow> ('b, 'o) L1RollupInfoProducer \<Rightarrow> (BlockRangeError, ('b, 'o) L1RollupInfoProducer) outcome" where
  "whenWorking now answer1 answer2 l =
     bind_outcome (launchWork l) (\<lambda>(l1, _).
       let l2 = (if HaveRequiredAllBlocksToBeSynchronized (p_syncStatus l1)
                 then renewLastBlockOnL1IfNeeded now answer1 l1 else l1);
           l3 = (if BlockNumberIsInsideUnsafeArea (p_syncStatus l2) invalidBlockNumber
                 then renewLastBlockOnL1IfNeeded now answer2 l2 else l2)
       in if IsNodeFullySynchronizedWithL1 (p_syncStatus l3) then Ok (setStatus l3 producerSynchronized)
          else bind_outcome (launchWork l3) (\<lambda>(l4, _). Ok l4))"

definition whenSynchronized ::
  "time \<Rightarrow> u64 option \<Rightarrow> ('b, 'o) L1RollupInfoProducer \<Rightarrow> (BlockRangeError, ('b, 'o) L1RollupInfoProducer) outcome" where
  "whenSynchronized now lastBlockAnswer l =
     bind_outcome (launchWork (renewLastBlockOnL1IfNeeded now lastBlockAnswer l)) (\<lambda>(l1, numLaunched).
       Ok (if numLaunched > 0 then setStatus l1 producerWorking else l1))"

definition producer_step ::
  "time \<Rightarrow> u64 option \<Rightarrow> u64 option \<Rightarrow> ('b, 'o) L1RollupInfoProducer \<Rightarrow> ('b, 'o, 'e) step_event \<Rightarrow>
   (BlockRangeError, ('b, 'o) L1RollupInfoProducer \<times> bool) outcome" where
  "producer_step now answer1 answer2 l ev =
     (let l0 = (if p_status l = producerNoRunning then l\<lparr>p_status := producerIdle\<rparr> else l)
      in bind_outcome (receive l0 ev) (\<lambda>(l1, continue).
           if \<not> continue then Ok (l1, False)
           else
             bind_outcome
               (case p_status l1 of
                  producerIdle \<Rightarrow> Ok (whenIdle now answer1 l1)
                | producerWorking \<Rightarrow> whenWorking now answer1 answer2 l1
                | producerSynchronized \<Rightarrow> whenSynchronized now answer1 l1
                | _ \<Rightarrow> Ok l1) (\<lambda>l2. Ok (l2, True))))"

subsection \<open>Histories of the producer\<close>

text \<open>
  A response comes from a worker, so it carries a result, and what it reports is consistent with
  the requested range.  Histories contain no reset command after the one that sets the starting
  point.  \<open>taken\<close> are the messages the consumer has received so far.
\<close>

definition event_ok :: "('b, 'o, 'e) step_event \<Rightarrow> bool" where
  "event_ok ev \<longleftrightarrow>
     (case ev of
        EvResponse r \<Rightarrow>
          (\<exists>x. rs_result r = Some x \<and>
             (rs_err r = None \<longrightarrow> response_ok (ri_blockRange x) (getHighestBlockNumberInResponse x)))
      | _ \<Rightarrow> True)"

definition answer_ok :: "u64 option \<Rightarrow> bool" where
  "answer_ok a \<longleftrightarrow> (\<forall>b. a = Some b \<longrightarrow> small b)"

definition noReset :: "producerCmd list \<Rightarrow> bool" where
  "noReset cmds \<longleftrightarrow> (\<forall>c\<in>set cmds. pc_cmd c \<noteq> producerReset)"

inductive producer_history ::
  "('b, 'o) L1RollupInfoProducer \<Rightarrow> ('b, 'o) L1RollupInfoProducer \<Rightarrow> ('b, 'o) L1SyncMessage list \<Rightarrow> bool"
  for l0 where
  start: "producer_history l0 l0 []"
| step: "producer_history l0 l taken \<Longrightarrow> event_ok (ev :: ('b, 'o, string) step_event) \<Longrightarrow> answer_ok a1 \<Longrightarrow> answer_ok a2 \<Longrightarrow>
    producer_step now a1 a2 l ev = Ok (l', cont) \<Longrightarrow> producer_history l0 l' taken"
| stop: "producer_history l0 l taken \<Longrightarrow> producer_history l0 (producer_Stop l) taken"
| finish: "producer_history l0 l taken \<Longrightarrow>
    producer_history l0 (l\<lparr>p_workers := worker_finished (p_workers l) i\<rparr>) taken"
| consume: "producer_history l0 l taken \<Longrightarrow> outgoingChannel l = m # ms \<Longrightarrow>
    producer_history l0 (l\<lparr>outgoingChannel := ms\<rparr>) (taken @ [m])"

definition producer_inv :: "u64 \<Rightarrow> ('b, 'o) L1RollupInfoProducer \<Rightarrow> ('b, 'o) L1SyncMessage list \<Rightarrow> bool" where
  "producer_inv b0 l taken \<longleftrightarrow>
     (\<exists>D. status_inv b0 (p_syncStatus l) D) \<and> noReset (channelCmds l) \<and>
     chain may_send after_msg b0 (taken @ outgoingChannel l) \<and>
     lastBlockOnSynchronizer (p_filter l) = foldl after_msg b0 (taken @ outgoingChannel l)"

lemma launchLoop_inv:
  assumes "status_inv b0 s D"
  shows "\<exists>s' w' n. launchLoop allow s w launched = Ok (s', w', n) \<and> status_inv b0 s' D"
  using assms
proof (induction allow s w launched rule: launchLoop.induct)
  case (1 allow s w launched)
  obtain s1 res where g: "(if allow then GetNextRange s else Ok (GetNextRangeOnlyRetries s)) = Ok (s1, res)"
    "status_inv b0 s1 D" "\<forall>br. res = Some br \<longrightarrow> br \<in> set (ranges (errorRanges s1)) \<or> fresh_range s1 br"
  proof (cases allow)
    case True
    then show thesis using GetNextRange_inv[OF 1(2)] that by auto
  next
    case False
    obtain t res where r: "getNextRangeOnlyRetriesUnsafe s = (t, res)" by fastforce
    show thesis using that[of t res] False r retries_inv[OF 1(2) r] by (auto simp: GetNextRangeOnlyRetries_def)
  qed
  show ?case
  proof (cases res)
    case None
    then show ?thesis using g by (simp add: launchLoop.simps[of allow s])
  next
    case (Some br)
    obtain w1 err where w: "(asyncRequestRollupInfoByBlockRange w (requestFor s1 br) :: workers \<times> unit WorkerError option) = (w1, err)"
      by fastforce
    show ?thesis
    proof (cases err)
      case (Some e)
      then show ?thesis using g w \<open>res = Some br\<close> by (simp add: launchLoop.simps[of allow s])
    next
      case None
      have "br \<in> set (ranges (errorRanges s1)) \<or> fresh_range s1 br" using g(3) Some by simp
      with g(2) obtain s2 where s2: "OnStartedNewWorker s1 br = Ok s2" "status_inv b0 s2 D"
        by (rule OnStartedNewWorker_inv)
      from 1(1)[OF g(1) refl Some w[symmetric] None s2] show ?thesis
        using g(1) Some w None s2(1) by (simp add: launchLoop.simps[of allow s])
    qed
  qed
qed

lemma launchWork_inv:
  assumes "producer_inv b0 l taken"
  obtains l' n where "launchWork l = Ok (l', n)" "producer_inv b0 l' taken"
proof -
  obtain D where "status_inv b0 (p_syncStatus l) D" using assms by (auto simp: producer_inv_def)
  from launchLoop_inv[OF this, of "canISendNewRequestsUnsafe l" "p_workers l" 0] obtain s' w' n where
    s': "launchLoop (canISendNewRequestsUnsafe l) (p_syncStatus l) (p_workers l) 0 = Ok (s', w', n)" "status_inv b0 s' D"
    by blast
  show thesis
    by (rule that[of "l\<lparr>p_syncStatus := s', p_workers := w'\<rparr>" n])
      (use s' assms in \<open>auto simp: launchWork_def producer_inv_def\<close>)
qed

lemma setStatus_inv: "producer_inv b0 l taken \<Longrightarrow> producer_inv b0 (setStatus l st) taken"
  by (auto simp: producer_inv_def setStatus_def sendPackages_def newL1SyncMessageControl_def Let_def chain_append
      may_send_def after_msg_def)

lemma renew_inv:
  assumes inv: "producer_inv b0 l taken" and ok: "answer_ok a"
  shows "producer_inv b0 (renewLastBlockOnL1IfNeeded now a l) taken"
proof -
  obtain D where D: "status_inv b0 (p_syncStatus l) D" using inv by (auto simp: producer_inv_def)
  have "status_inv b0 (fst (OnNewLastBlockOnL1 (p_syncStatus l) b)) D" if "a = Some b" for b
    using OnNewLastBlockOnL1_inv[OF D, of b] that ok by (metis answer_ok_def prod.collapse)
  then show ?thesis
    using inv by (auto simp: renewLastBlockOnL1IfNeeded_def onNewLastBlock_def producer_inv_def split: option.split)
qed

lemma onResponse_inv:
  assumes inv: "producer_inv b0 l taken" and ok: "event_ok (EvResponse r)"
  obtains l' where "onResponseRollupInfo l r = Ok l'" "producer_inv b0 l' taken"
proof -
  obtain x where x: "rs_result r = Some x"
    "rs_err r = None \<longrightarrow> response_ok (ri_blockRange x) (getHighestBlockNumberInResponse x)"
    using ok by (auto simp: event_ok_def)
  define h where "h = (if rs_err r = None then response_getHighestBlockNumberInResponse r else invalidBlockNumber)"
  have h: "rs_err r = None \<longrightarrow> response_ok (ri_blockRange x) h"
    using x by (simp add: h_def response_getHighestBlockNumberInResponse_def)
  obtain D where D: "status_inv b0 (p_syncStatus l) D" using inv by (auto simp: producer_inv_def)
  obtain s used where s: "OnFinishWorker (p_syncStatus l) (ri_blockRange x) (rs_err r = None) h = Ok (s, used)"
    "status_inv b0 s (if used \<and> rs_err r = None then D \<union> {fromBlock (ri_blockRange x)..h} else D)"
    by (rule OnFinishWorker_inv[OF D h])
  consider (reset) "p_status l = producerReseting"
    | (drop) "p_status l \<noteq> producerReseting" "\<not> used \<or> rs_err r \<noteq> None"
    | (send) "p_status l \<noteq> producerReseting" "used" "rs_err r = None" by blast
  then show thesis
  proof cases
    case reset
    then show thesis using that[of l] inv by (simp add: onResponseRollupInfo_def)
  next
    case drop
    show thesis
      by (rule that[of "l\<lparr>p_syncStatus := s\<rparr>"])
        (use drop s inv x(1) in \<open>auto simp: onResponseRollupInfo_def h_def producer_inv_def\<close>)
  next
    case send
    define m where "m = \<lparr>dataIsValid = True, msg_data = Some x, ctrlIsValid = False, msg_ctrl = \<lparr>ctl_event = eventNone\<rparr>\<rparr>"
    obtain f pkgs where f: "Filter (p_filter l) m = (f, pkgs)" by fastforce
    note c = Filter_correct(2,3)[OF f]
    let ?l = "sendPackages (l\<lparr>p_syncStatus := s, p_filter := f\<rparr>) pkgs"
    have hr: "response_getHighestBlockNumberInResponse r = h" using send by (simp add: h_def)
    have "onResponseRollupInfo l r = Ok ?l"
      using send s(1) x(1) f
      by (simp add: onResponseRollupInfo_def hr newL1SyncMessageData_def m_def[symmetric] Let_def)
    moreover have "producer_inv b0 ?l taken"
      using inv c s(2) by (auto simp: producer_inv_def sendPackages_def chain_append)
    ultimately show thesis by (rule that)
  qed
qed

lemma producer_inv_status: "producer_inv b0 (l\<lparr>p_status := st\<rparr>) taken \<longleftrightarrow> producer_inv b0 l taken"
  by (simp add: producer_inv_def)

lemma producer_inv_cmds:
  "producer_inv b0 (l\<lparr>channelCmds := cs\<rparr>) taken \<longleftrightarrow> noReset cs \<and> producer_inv b0 (l\<lparr>channelCmds := []\<rparr>) taken"
  by (auto simp: producer_inv_def noReset_def)

lemma whenIdle_inv:
  assumes "producer_inv b0 l taken" "answer_ok a"
  shows "producer_inv b0 (whenIdle now a l) taken"
  using setStatus_inv[OF renew_inv[OF assms, of now], of producerWorking] renew_inv[OF assms, of now]
  by (auto simp: whenIdle_def Let_def producer_inv_def noReset_def)

lemma whenWorking_inv:
  assumes inv: "producer_inv b0 l taken" and a: "answer_ok a1" "answer_ok a2"
  obtains l' where "whenWorking now a1 a2 l = Ok l'" "producer_inv b0 l' taken"
proof -
  obtain l1 n1 where l1: "launchWork l = Ok (l1, n1)" "producer_inv b0 l1 taken" by (rule launchWork_inv[OF inv])
  define l2 where "l2 = (if HaveRequiredAllBlocksToBeSynchronized (p_syncStatus l1)
                 then renewLastBlockOnL1IfNeeded now a1 l1 else l1)"
  define l3 where "l3 = (if BlockNumberIsInsideUnsafeArea (p_syncStatus l2) invalidBlockNumber
                 then renewLastBlockOnL1IfNeeded now a2 l2 else l2)"
  have i3: "producer_inv b0 l3 taken" unfolding l3_def l2_def using l1 a by (simp add: renew_inv)
  obtain l4 n4 where l4: "launchWork l3 = Ok (l4, n4)" "producer_inv b0 l4 taken" by (rule launchWork_inv[OF i3])
  have "whenWorking now a1 a2 l =
      Ok (if IsNodeFullySynchronizedWithL1 (p_syncStatus l3) then setStatus l3 producerSynchronized else l4)"
    unfolding whenWorking_def l1(1) by (simp add: l2_def[symmetric] l3_def[symmetric] l4)
  moreover have "producer_inv b0 (setStatus l3 producerSynchronized) taken" using i3 by (rule setStatus_inv)
  ultimately show thesis using l4(2) that by auto
qed

lemma whenSynchronized_inv:
  assumes inv: "producer_inv b0 l taken" and a: "answer_ok a"
  obtains l' where "whenSynchronized now a l = Ok l'" "producer_inv b0 l' taken"
proof -
  obtain l1 n1 where l1: "launchWork (renewLastBlockOnL1IfNeeded now a l) = Ok (l1, n1)" "producer_inv b0 l1 taken"
    by (rule launchWork_inv[OF renew_inv[OF inv a]])
  show thesis
    by (rule that[of "if n1 > 0 then setStatus l1 producerWorking else l1"])
      (use l1 in \<open>auto simp: whenSynchronized_def setStatus_inv\<close>)
qed

lemma receive_inv:
  assumes inv: "producer_inv b0 l taken" and ok: "event_ok ev"
  obtains l' c where "receive l ev = Ok (l', c)" "producer_inv b0 l' taken"
proof (cases ev)
  case EvCancel
  then show thesis using that[of l False] inv by (simp add: receive_def)
next
  case EvTimeout
  then show thesis using that[of l True] inv by (simp add: receive_def)
next
  case (EvResponse r)
  obtain l' where "onResponseRollupInfo l r = Ok l'" "producer_inv b0 l' taken"
    by (rule onResponse_inv[OF inv ok[unfolded EvResponse]])
  then show thesis using that[of l' True] EvResponse by (simp add: receive_def)
next
  case EvCmd
  show thesis
  proof (cases "channelCmds l")
    case Nil
    then show thesis using that[of l True] EvCmd inv by (simp add: receive_def)
  next
    case (Cons c cs)
    have c: "pc_cmd c \<noteq> producerReset" "producer_inv b0 (l\<lparr>channelCmds := cs\<rparr>) taken"
      using inv Cons by (auto simp: producer_inv_def noReset_def)
    show thesis
      by (rule that[of "fst (executeCmd (l\<lparr>channelCmds := cs\<rparr>) c)" "snd (executeCmd (l\<lparr>channelCmds := cs\<rparr>) c)"])
        (use c Cons EvCmd in \<open>auto simp: receive_def executeCmd_def stopUnsafe_def setStatus_inv split: producerCmdEnum.split\<close>)
  qed
qed

lemma producer_step_inv:
  assumes inv: "producer_inv b0 l taken" and ok: "event_ok ev" "answer_ok a1" "answer_ok a2"
  obtains l' c where "producer_step now a1 a2 l ev = Ok (l', c)" "producer_inv b0 l' taken"
proof -
  define l0 where "l0 = (if p_status l = producerNoRunning then l\<lparr>p_status := producerIdle\<rparr> else l)"
  have "producer_inv b0 l0 taken" using inv by (simp add: l0_def producer_inv_status)
  then obtain l1 c where l1: "receive l0 ev = Ok (l1, c)" "producer_inv b0 l1 taken" using ok(1) by (rule receive_inv)
  obtain lw where lw: "whenWorking now a1 a2 l1 = Ok lw" "producer_inv b0 lw taken"
    by (rule whenWorking_inv[OF l1(2) ok(2,3)])
  obtain ls where ls: "whenSynchronized now a1 l1 = Ok ls" "producer_inv b0 ls taken"
    by (rule whenSynchronized_inv[OF l1(2) ok(2)])
  have li: "producer_inv b0 (whenIdle now a1 l1) taken" using l1(2) ok(2) by (rule whenIdle_inv)
  show thesis
    using that[of "if \<not> c then l1 else case p_status l1 of producerIdle \<Rightarrow> whenIdle now a1 l1
        | producerWorking \<Rightarrow> lw | producerSynchronized \<Rightarrow> ls | _ \<Rightarrow> l1" c] l1 lw ls li
    by (cases "p_status l1") (auto simp: producer_step_def l0_def[symmetric] split: if_splits)
qed

lemma producer_history_inv:
  "producer_history l0 l taken \<Longrightarrow> producer_inv b0 l0 [] \<Longrightarrow> producer_inv b0 l taken"
proof (induction rule: producer_history.induct)
  case (step l taken ev a1 a2 now l' cont)
  show ?case using producer_step_inv[OF step.IH[OF step.prems] step.hyps(2-4), of now] step.hyps(5) by (metis outcome.inject(1) prod.inject)
next
  case (stop l taken)
  then show ?case by (auto simp: producer_Stop_def producer_inv_def noReset_def)
next
  case (finish l taken i)
  then show ?case by (simp add: producer_inv_def)
next
  case (consume l taken m ms)
  then show ?case by (auto simp: producer_inv_def)
qed

lemma started_inv:
  assumes "NewL1DataRetriever cfg n cap = Ok p" "small b0" "small (SyncChunkSize cfg)"
  shows "producer_inv b0 (resetUnsafe p b0) []"
proof -
  have p: "p_syncStatus p = newSyncStatus invalidBlockNumber (SyncChunkSize cfg)" "outgoingChannel p = []" "channelCmds p = []"
    using assms(1) by (auto simp: NewL1DataRetriever_def split: outcome.splits)
  have "ss_Reset (p_syncStatus p) b0 = newSyncStatus b0 (SyncChunkSize cfg)"
    by (simp add: p ss_Reset_def newSyncStatus_def)
  then show ?thesis
    using newSyncStatus_inv[OF assms(2,3)] p
    by (auto simp: producer_inv_def resetUnsafe_def setStatus_def emptyChannel_def noReset_def filter_Reset_def Let_def)
qed



text \<open>The state after a step of the main loop.\<close>

definition stepTo ::
  "time \<Rightarrow> u64 option \<Rightarrow> ('b, 'o, string) step_event \<Rightarrow> ('b, 'o) L1RollupInfoProducer \<Rightarrow> ('b, 'o) L1RollupInfoProducer" where
  "stepTo now a ev l = (case producer_step now a a l ev of Ok (l', _) \<Rightarrow> l' | _ \<Rightarrow> l)"

lemma stepTo_history:
  "producer_history l0 l taken \<Longrightarrow> event_ok ev \<Longrightarrow> answer_ok a \<Longrightarrow> producer_history l0 (stepTo now a ev l) taken"
  by (auto simp: stepTo_def split: outcome.split intro: producer_history.step)

text \<open>Two workers get the ranges 100..200 and 201..301; the second one answers first.\<close>

definition sampleCfg :: ConfigProducer where
  "sampleCfg = \<lparr>SyncChunkSize = 100, TtlOfLastBlockOnL1 = 5, TimeOutMainLoop = 5\<rparr>"

definition sampleProducer :: "(unit, unit) L1RollupInfoProducer" where
  "sampleProducer =
     \<lparr>p_workers = \<lparr>workerForLastBlock = newWorker, wk_workers = [newWorker, newWorker]\<rparr>,
      p_syncStatus = newSyncStatus 0 100, outgoingChannel = [], outgoingCap = 10, timeLastBLockOnL1 = 0,
      p_status = producerNoRunning, p_filter = newFilterToSendOrdererResultsToConsumer 0, p_cfg = sampleCfg,
      channelCmds = []\<rparr>"

definition sampleEnd :: "(unit, unit) L1RollupInfoProducer" where
  "sampleEnd = stepTo 14 None (EvResponse \<lparr>rs_err = None, rs_result = Some (sampleResult 100 200)\<rparr>)
     (stepTo 13 None (EvResponse \<lparr>rs_err = None, rs_result = Some (sampleResult 201 301)\<rparr>)
     (stepTo 12 None EvTimeout (stepTo 11 (Some 1000) EvTimeout (resetUnsafe sampleProducer 99))))"

lemma sampleProducer_new: "NewL1DataRetriever sampleCfg 3 10 = Ok sampleProducer"
  by code_simp

lemma sampleEnd_history: "producer_history (resetUnsafe sampleProducer 99) sampleEnd []"
  unfolding sampleEnd_def
  by (intro stepTo_history producer_history.start)
    (simp_all add: event_ok_def answer_ok_def small_def response_ok_def getHighestBlockNumberInResponse_def
      invalidBlockNumber_def latestBlockNumber_def)

lemma sampleEnd_sent:
  "map (map_option ri_blockRange \<circ> msg_data) (outgoingChannel sampleEnd) = [Some (mkRange 100 200), Some (mkRange 201 301)]"
  by code_simp


end
