(* ===== verification/L1Consumer.thy ===== *)
theory L1Consumer
  imports OrderedFilter
begin

text \<open>
  The consumer of the parallel L1 synchronizer (\<open>l1_rollup_info_consumer.go\<close> and its statistics):
  it takes the messages of the producer from a channel and hands their blocks to the
  synchronizer, which is a parameter \<open>process\<close> acting on a world \<open>'w\<close>.  The clock is an argument.
\<close>

subsection \<open>Statistics\<close>

record ConfigConsumer =
  ApplyAfterNumRollupReceived :: int
  AceptableInacctivityTime :: duration

record l1RollupInfoConsumerStatistics =
  numProcessedRollupInfo :: u64
  numProcessedRollupInfoForCheckTime :: u64
  numProcessedBlocks :: u64
  startTime :: time
  timePreviousProcessingDuration :: duration
  startStepTime :: time
  st_cfg :: ConfigConsumer

text \<open>The zero value of a Go time is 0 here.\<close>

definition onStart :: "time \<Rightarrow> l1RollupInfoConsumerStatistics \<Rightarrow> l1RollupInfoConsumerStatistics" where
  "onStart now l = l\<lparr>startTime := now, startStepTime := 0, numProcessedRollupInfoForCheckTime := 0\<rparr>"

definition onStartStep :: "time \<Rightarrow> l1RollupInfoConsumerStatistics \<Rightarrow> l1RollupInfoConsumerStatistics" where
  "onStartStep now l = l\<lparr>startStepTime := now\<rparr>"

definition onReset :: "l1RollupInfoConsumerStatistics \<Rightarrow> l1RollupInfoConsumerStatistics" where
  "onReset l = l\<lparr>numProcessedRollupInfoForCheckTime := 0, startStepTime := 0\<rparr>"

text \<open>The returned text is only logged; the flag is whether it contains the warning.\<close>

definition onStartProcessIncommingRollupInfoData ::
  "time \<Rightarrow> l1RollupInfoConsumerStatistics \<Rightarrow> l1RollupInfoConsumerStatistics \<times> bool" where
  "onStartProcessIncommingRollupInfoData now l =
     (let waitingTimeForData = now - startStepTime l;
          generatedWarning =
            (numProcessedRollupInfoForCheckTime l > of_int (ApplyAfterNumRollupReceived (st_cfg l)) \<and>
             waitingTimeForData > AceptableInacctivityTime (st_cfg l))
      in (l\<lparr>numProcessedRollupInfo := numProcessedRollupInfo l + 1,
            numProcessedRollupInfoForCheckTime := numProcessedRollupInfoForCheckTime l + 1\<rparr>, generatedWarning))"

definition onFinishProcessIncommingRollupInfoData ::
  "l1RollupInfoConsumerStatistics \<Rightarrow> nat \<Rightarrow> duration \<Rightarrow> bool \<Rightarrow> l1RollupInfoConsumerStatistics" where
  "onFinishProcessIncommingRollupInfoData l numBlocks executionTime failed =
     (let l1 = l\<lparr>timePreviousProcessingDuration := executionTime\<rparr>
      in if \<not> failed then l1\<lparr>numProcessedBlocks := numProcessedBlocks l1 + of_nat numBlocks\<rparr> else l1)"

subsection \<open>The consumer\<close>

datatype 'e ConsumerError =
    errContextCanceled
  | errConsumerStopped
  | errConsumerStoppedBecauseIsSynchronized
  | errL1Reorg
  | errSynchronizer 'e

record l1RollupInfoConsumer =
  statistics :: l1RollupInfoConsumerStatistics
  lastEthBlockSynced :: "BlockInfo option"
  lastEthBlockReceived :: "BlockInfo option"
  highestBlockProcessed :: u64

type_synonym ('w, 'b, 'o, 'e) process_block_range = "'w \<Rightarrow> 'b EthBlock list \<Rightarrow> 'o \<Rightarrow> 'w \<times> 'e option"

definition NewL1RollupInfoConsumer :: "time \<Rightarrow> ConfigConsumer \<Rightarrow> l1RollupInfoConsumer" where
  "NewL1RollupInfoConsumer now cfg =
     \<lparr>statistics = \<lparr>numProcessedRollupInfo = 0, numProcessedRollupInfoForCheckTime = 0, numProcessedBlocks = 0,
        startTime = now, timePreviousProcessingDuration = 0, startStepTime = 0, st_cfg = cfg\<rparr>,
      lastEthBlockSynced = None, lastEthBlockReceived = None, highestBlockProcessed = invalidBlockNumber\<rparr>"

definition consumer_Reset :: "l1RollupInfoConsumer \<Rightarrow> u64 \<Rightarrow> l1RollupInfoConsumer" where
  "consumer_Reset l startingBlockNumber =
     l\<lparr>highestBlockProcessed := startingBlockNumber, lastEthBlockSynced := None, statistics := onReset (statistics l)\<rparr>"

definition processIncommingRollupControlData :: "l1ConsumerControl \<Rightarrow> nat \<Rightarrow> 'e ConsumerError option" where
  "processIncommingRollupControlData control itemsInChannel =
     (if ctl_event control = eventStop then Some errConsumerStopped
      else if ctl_event control = eventProducerIsFullySynced \<and> itemsInChannel = 0
      then Some errConsumerStoppedBecauseIsSynchronized
      else None)"

definition checkPreviousBlocks ::
  "('b, 'o) rollupInfoByBlockRangeResult \<Rightarrow> BlockInfo option \<Rightarrow> 'e ConsumerError option" where
  "checkPreviousBlocks rollupInfo cachedBlock =
     (case (cachedBlock, previousBlockOfRange rollupInfo) of
        (Some c, Some p) \<Rightarrow>
          if BlockNumber c = BlockNumber p then
            if BlockHash c \<noteq> BlockHash p then Some errL1Reorg
            else if ParentHash c \<noteq> ParentHash p then Some errL1Reorg
            else None
          else None
      | _ \<Rightarrow> None)"

text \<open>An L1 block without rollup events (\<open>noEvents\<close>) as a block of the etherman package.\<close>

definition convertL1BlockToEthBlock :: "'b \<Rightarrow> BlockInfo \<Rightarrow> 'b EthBlock" where
  "convertL1BlockToEthBlock noEvents fb = \<lparr>eb_info = fb, eb_events = noEvents\<rparr>"

definition convertL1BlockToStateBlock :: "BlockInfo \<Rightarrow> BlockInfo" where
  "convertL1BlockToStateBlock fb =
     \<lparr>BlockNumber = BlockNumber fb, BlockHash = BlockHash fb, ParentHash = ParentHash fb, ReceivedAt = ReceivedAt fb\<rparr>"

definition convertEthmanBlockToStateBlock :: "'b EthBlock \<Rightarrow> BlockInfo" where
  "convertEthmanBlockToStateBlock fb = eb_info fb"

definition processUnsafe ::
  "('w, 'b, 'o, 'e) process_block_range \<Rightarrow> 'b \<Rightarrow> 'w \<Rightarrow> ('b, 'o) rollupInfoByBlockRangeResult \<Rightarrow>
   'w \<times> ('e ConsumerError + BlockInfo option)" where
  "processUnsafe process noEvents w rollupInfo =
     (let blocks = ri_blocks rollupInfo; order = ri_order rollupInfo in
      if length blocks = 0 then
        (case lastBlockOfRange rollupInfo of
           None \<Rightarrow> (w, Inr None)
         | Some lb \<Rightarrow>
             (case process w [convertL1BlockToEthBlock noEvents lb] order of
                (w', Some e) \<Rightarrow> (w', Inl (errSynchronizer e))
              | (w', None) \<Rightarrow> (w', Inr (Some (convertL1BlockToStateBlock lb)))))
      else
        (case process w blocks order of
           (w', Some e) \<Rightarrow> (w', Inl (errSynchronizer e))
         | (w', None) \<Rightarrow> (w', Inr (Some (convertEthmanBlockToStateBlock (last blocks))))))"

definition wrongRange :: "l1RollupInfoConsumer \<Rightarrow> ('b, 'o) rollupInfoByBlockRangeResult \<Rightarrow> bool" where
  "wrongRange l rollupInfo \<longleftrightarrow>
     highestBlockProcessed l \<noteq> invalidBlockNumber \<and>
     highestBlockProcessed l + 1 \<noteq> fromBlock (ri_blockRange rollupInfo)"

definition processIncommingRollupInfoData ::
  "('w, 'b, 'o, 'e) process_block_range \<Rightarrow> 'b \<Rightarrow> time \<Rightarrow> duration \<Rightarrow> l1RollupInfoConsumer \<Rightarrow> 'w \<Rightarrow>
   ('b, 'o) rollupInfoByBlockRangeResult \<Rightarrow> l1RollupInfoConsumer \<times> 'w \<times> 'e ConsumerError option" where
  "processIncommingRollupInfoData process noEvents now executionTime l w rollupInfo =
     (if wrongRange l rollupInfo then (l, w, None)
      else
        (let l1 = l\<lparr>highestBlockProcessed := getHighestBlockNumberInResponse rollupInfo,
                    statistics := fst (onStartProcessIncommingRollupInfoData now (statistics l))\<rparr>
         in case (if lastEthBlockReceived l1 \<noteq> None then checkPreviousBlocks rollupInfo (lastEthBlockReceived l1) else None) of
              Some e \<Rightarrow> (l1, w, Some e)
            | None \<Rightarrow>
                (let l2 = l1\<lparr>lastEthBlockReceived := getHighestBlockReceived rollupInfo\<rparr>;
                     numBlocks = length (ri_blocks rollupInfo)
                 in case processUnsafe process noEvents w rollupInfo of
                      (w', Inl e) \<Rightarrow>
                        (l2\<lparr>statistics := onFinishProcessIncommingRollupInfoData (statistics l2) numBlocks executionTime True\<rparr>,
                         w', Some e)
                    | (w', Inr lastBlockProcessed) \<Rightarrow>
                        (let l3 = (if lastBlockProcessed \<noteq> None then l2\<lparr>lastEthBlockSynced := lastBlockProcessed\<rparr> else l2);
                             st = onFinishProcessIncommingRollupInfoData (statistics l3) numBlocks executionTime False
                         in (l3\<lparr>statistics := st\<lparr>numProcessedBlocks := numProcessedBlocks st + of_nat numBlocks\<rparr>\<rparr>, w', None)))))"

text \<open>
  A step that receives a message, with \<open>itemsInChannel\<close> messages left behind it.  The other branch
  of the \<open>select\<close> is \<open>errContextCanceled\<close>.
\<close>

definition consumer_step ::
  "('w, 'b, 'o, 'e) process_block_range \<Rightarrow> 'b \<Rightarrow> time \<Rightarrow> duration \<Rightarrow> l1RollupInfoConsumer \<Rightarrow> 'w \<Rightarrow>
   ('b, 'o) L1SyncMessage \<Rightarrow> nat \<Rightarrow> l1RollupInfoConsumer \<times> 'w \<times> 'e ConsumerError option" where
  "consumer_step process noEvents now executionTime l w rollupInfo itemsInChannel =
     (let l0 = l\<lparr>statistics := onStartStep now (statistics l)\<rparr>;
          (l1, w1, err) =
            (case (dataIsValid rollupInfo, msg_data rollupInfo) of
               (True, Some r) \<Rightarrow> processIncommingRollupInfoData process noEvents now executionTime l0 w r
             | _ \<Rightarrow> (l0, w, None))
      in if ctrlIsValid rollupInfo
         then (l1, w1, processIncommingRollupControlData (msg_ctrl rollupInfo) itemsInChannel)
         else (l1, w1, err))"

text \<open>
  The loop of \<open>Start\<close> on the messages of the channel; it ends with the error of a step, or, with
  \<open>None\<close>, when it would wait for the next message.  A stop and a full synchronization are not
  errors for the caller.
\<close>

fun consumer_loop ::
  "('w, 'b, 'o, 'e) process_block_range \<Rightarrow> 'b \<Rightarrow> time \<Rightarrow> duration \<Rightarrow> l1RollupInfoConsumer \<Rightarrow> 'w \<Rightarrow>
   ('b, 'o) L1SyncMessage list \<Rightarrow> l1RollupInfoConsumer \<times> 'w \<times> 'e ConsumerError option" where
  "consumer_loop process noEvents now executionTime l w [] = (l, w, None)"
| "consumer_loop process noEvents now executionTime l w (m # ms) =
     (case consumer_step process noEvents now executionTime l w m (length ms) of
        (l1, w1, Some e) \<Rightarrow> (l1, w1, Some e)
      | (l1, w1, None) \<Rightarrow> consumer_loop process noEvents now executionTime l1 w1 ms)"

definition consumer_Start ::
  "('w, 'b, 'o, 'e) process_block_range \<Rightarrow> 'b \<Rightarrow> time \<Rightarrow> duration \<Rightarrow> l1RollupInfoConsumer \<Rightarrow> 'w \<Rightarrow>
   BlockInfo option \<Rightarrow> ('b, 'o) L1SyncMessage list \<Rightarrow> l1RollupInfoConsumer \<times> 'w \<times> 'e ConsumerError option" where
  "consumer_Start process noEvents now executionTime l w lastSynced ms =
     (let l1 = l\<lparr>lastEthBlockSynced := lastSynced\<rparr>;
          l2 = (case lastSynced of
                  Some b \<Rightarrow> if highestBlockProcessed l1 = invalidBlockNumber
                            then l1\<lparr>highestBlockProcessed := BlockNumber b\<rparr> else l1
                | None \<Rightarrow> l1);
          (l3, w3, err) = consumer_loop process noEvents now executionTime (l2\<lparr>statistics := onStart now (statistics l2)\<rparr>) w ms
      in (l3, w3, if err = Some errConsumerStopped \<or> err = Some errConsumerStoppedBecauseIsSynchronized then None else err))"

definition GetLastEthBlockSynced :: "l1RollupInfoConsumer \<Rightarrow> BlockInfo option" where
  "GetLastEthBlockSynced l = lastEthBlockSynced l"

text \<open>\<open>StopAfterProcessChannelQueue\<close> puts a stop message behind the messages of the channel.\<close>

definition StopAfterProcessChannelQueue :: "('b, 'o) L1SyncMessage list \<Rightarrow> ('b, 'o) L1SyncMessage list" where
  "StopAfterProcessChannelQueue ch = ch @ [newL1SyncMessageControl eventStop]"

subsection \<open>The consumer follows the filter\<close>

text \<open>
  The consumer and the filter agree on the position: the highest processed block is the position
  of the filter, or unknown (after an open range without blocks).
\<close>

definition aligned :: "l1RollupInfoConsumer \<Rightarrow> u64 \<Rightarrow> bool" where
  "aligned l p \<longleftrightarrow> highestBlockProcessed l = p \<or> highestBlockProcessed l = invalidBlockNumber"

lemma process_highest:
  assumes "processIncommingRollupInfoData process noEvents now d l w r = (l', w', e)"
  shows "highestBlockProcessed l' =
    (if wrongRange l r then highestBlockProcessed l else getHighestBlockNumberInResponse r)"
  using assms
  by (auto simp: processIncommingRollupInfoData_def Let_def split: option.splits if_splits sum.splits prod.splits)

lemma aligned_accepts:
  assumes "aligned l p" "may_send p m" "dataIsValid m" "msg_data m = Some r"
  shows "\<not> wrongRange l r"
  using assms by (auto simp: aligned_def may_send_def wrongRange_def)

lemma step_aligned:
  assumes "aligned l p" "may_send p m" "consumer_step process noEvents now d l w m n = (l', w', e)"
  shows "aligned l' (after_msg p m)"
proof -
  let ?l0 = "l\<lparr>statistics := onStartStep now (statistics l)\<rparr>"
  have al: "aligned ?l0 p" using assms(1) by (simp add: aligned_def)
  show ?thesis
  proof (cases "dataIsValid m")
    case True
    then obtain r where r: "msg_data m = Some r" using assms(2) by (auto simp: may_send_def)
    obtain l1 w1 e1 where p: "processIncommingRollupInfoData process noEvents now d ?l0 w r = (l1, w1, e1)"
      by (metis prod_cases3)
    have "highestBlockProcessed l1 = getHighestBlockNumberInResponse r"
      using process_highest[OF p] aligned_accepts[OF al assms(2) True r] by simp
    moreover have "l' = l1" using assms(3) True r p by (auto simp: consumer_step_def Let_def split: if_splits)
    ultimately show ?thesis using True r by (auto simp: aligned_def after_msg_def Let_def)
  next
    case False
    then show ?thesis using assms(3) al
      by (auto simp: consumer_step_def Let_def after_msg_def aligned_def split: if_splits option.splits)
  qed
qed

text \<open>What the synchronizer does with a message that is not ignored.\<close>

definition hand_over ::
  "('w, 'b, 'o, 'e) process_block_range \<Rightarrow> 'b \<Rightarrow> 'w \<Rightarrow> ('b, 'o) L1SyncMessage \<Rightarrow> 'w" where
  "hand_over process noEvents w m =
     (if dataIsValid m
      then (case msg_data m of Some r \<Rightarrow> fst (processUnsafe process noEvents w r) | None \<Rightarrow> w)
      else w)"

lemma process_world:
  assumes "processIncommingRollupInfoData process noEvents now d l w r = (l', w', None)" "\<not> wrongRange l r"
  shows "w' = fst (processUnsafe process noEvents w r)"
  using assms
  by (auto simp: processIncommingRollupInfoData_def Let_def split: option.splits if_splits sum.splits prod.splits)

lemma control_only: "msg_data m = Some r \<Longrightarrow> dataIsValid m \<Longrightarrow> \<not> ctrlIsValid m \<Longrightarrow>
  consumer_step process noEvents now d l w m n =
    processIncommingRollupInfoData process noEvents now d (l\<lparr>statistics := onStartStep now (statistics l)\<rparr>) w r"
  by (simp add: consumer_step_def Let_def split: prod.splits)

lemma step_world:
  assumes "aligned l p" "may_send p m" "consumer_step process noEvents now d l w m n = (l', w', None)"
    and "dataIsValid m \<longrightarrow> \<not> ctrlIsValid m"
  shows "w' = hand_over process noEvents w m"
proof (cases "dataIsValid m")
  case True
  then obtain r where r: "msg_data m = Some r" using assms(2) by (auto simp: may_send_def)
  have al: "aligned (l\<lparr>statistics := onStartStep now (statistics l)\<rparr>) p" using assms(1) by (simp add: aligned_def)
  have "processIncommingRollupInfoData process noEvents now d (l\<lparr>statistics := onStartStep now (statistics l)\<rparr>) w r =
      (l', w', None)"
    using control_only[OF r True, of process noEvents now d l w n] assms(3,4) True by simp
  from process_world[OF this aligned_accepts[OF al assms(2) True r]] show ?thesis
    using True r by (simp add: hand_over_def)
next
  case False
  then show ?thesis using assms(3)
    by (auto simp: consumer_step_def Let_def hand_over_def split: if_splits option.splits)
qed

lemma loop_world:
  assumes "aligned l p" "chain may_send after_msg p ms" "\<forall>m\<in>set ms. dataIsValid m \<longrightarrow> \<not> ctrlIsValid m"
    and "consumer_loop process noEvents now d l w ms = (l', w', None)"
  shows "w' = foldl (hand_over process noEvents) w ms \<and> aligned l' (foldl after_msg p ms)"
  using assms
proof (induction ms arbitrary: l w p)
  case (Cons m ms)
  obtain l1 w1 e where st: "consumer_step process noEvents now d l w m (length ms) = (l1, w1, e)"
    by (metis prod_cases3)
  have e: "e = None" using Cons.prems(4) st by (cases e) auto
  have loop: "consumer_loop process noEvents now d l1 w1 ms = (l', w', None)"
    using Cons.prems(4) st e by simp
  have m: "may_send p m" "chain may_send after_msg (after_msg p m) ms" using Cons.prems(2) by auto
  have "w1 = hand_over process noEvents w m"
    using step_world[OF Cons.prems(1) m(1) st[unfolded e]] Cons.prems(3) by simp
  moreover have "aligned l1 (after_msg p m)" by (rule step_aligned[OF Cons.prems(1) m(1) st])
  ultimately show ?case using Cons.IH[OF _ m(2) _ loop] Cons.prems(3) by simp
qed simp

text \<open>
  C19: When the consumer starts at the position of the filter and works through the messages the
  filter sent without an error, the synchronizer is handed the blocks of every data message,
  in the order of the filter and none ignored, and both end at the same position again.
\<close>

theorem consumer_processes_all_filtered:
  assumes "runFilter s ms = (s', outs)" "aligned l (lastBlockOnSynchronizer s)"
    and "\<forall>m\<in>set outs. dataIsValid m \<longrightarrow> \<not> ctrlIsValid m"
    and "consumer_loop process noEvents now d l w outs = (l', w', None)"
  shows "w' = foldl (hand_over process noEvents) w outs \<and> aligned l' (lastBlockOnSynchronizer s')"
  using loop_world[OF assms(2) _ assms(3,4)] fo.run_ordered[OF assms(1)[unfolded runFilter_eq]] by simp

text \<open>A synchronizer that records the block numbers it is handed.\<close>

definition recordBlocks :: "(u64 list, unit, unit, unit) process_block_range" where
  "recordBlocks w bs order = (w @ map (BlockNumber \<circ> eb_info) bs, None)"

theorem consumer_processes_all_filtered_witness:
  "fst (snd (consumer_loop recordBlocks () 0 0 (consumer_Reset (NewL1RollupInfoConsumer 0 undefined) 99) []
     [sampleMsg 100 200, sampleMsg 201 300])) = [200, 300]"
proof -
  let ?l = "consumer_Reset (NewL1RollupInfoConsumer 0 undefined) 99"
  obtain l' w' e where run: "consumer_loop recordBlocks () 0 0 ?l [] [sampleMsg 100 200, sampleMsg 201 300] = (l', w', e)"
    by (metis prod_cases3)
  have "e = None"
    using run by (auto simp: consumer_step_def processIncommingRollupInfoData_def wrongRange_def consumer_Reset_def
        NewL1RollupInfoConsumer_def processUnsafe_def recordBlocks_def checkPreviousBlocks_def
        getHighestBlockNumberInResponse_def latestBlockNumber_def getHighestBlockReceived_def Let_def split: option.splits if_splits)
  then have "w' = foldl (hand_over recordBlocks ()) [] [sampleMsg 100 200, sampleMsg 201 300]"
    using consumer_processes_all_filtered[OF sample_runFilter _ _ run[unfolded \<open>e = None\<close>]]
    by (simp add: aligned_def consumer_Reset_def newFilterToSendOrdererResultsToConsumer_def)
  then have "w' = [200, 300]"
    by (simp add: hand_over_def processUnsafe_def recordBlocks_def convertL1BlockToEthBlock_def)
  then show ?thesis unfolding run by simp
qed

text \<open>The blocks of a successful message are added to the statistics twice.\<close>

lemma processed_blocks_counted_twice:
  assumes "processIncommingRollupInfoData process noEvents now d l w r = (l', w', None)" "\<not> wrongRange l r"
  shows "numProcessedBlocks (statistics l') = numProcessedBlocks (statistics l) + 2 * of_nat (length (ri_blocks r))"
  using assms
  by (auto simp: processIncommingRollupInfoData_def onFinishProcessIncommingRollupInfoData_def
      onStartProcessIncommingRollupInfoData_def Let_def split: option.splits if_splits sum.splits prod.splits)

end
