(* ===== verification/L1Reorg.thy ===== *)
theory L1Reorg
  imports L1Consumer L1Workers
begin

text \<open>
  Detection of L1 reorganizations by workers and consumer together.  The L1 chain changes over
  time: \<open>blk t n\<close> is the canonical block \<open>n\<close> at time \<open>t\<close>.  A worker reads the last block of its
  range first and the block before its range last; the consumer compares the latter with the
  last block of the preceding range.
\<close>

definition chainAt :: "(nat \<Rightarrow> u64 \<Rightarrow> BlockInfo) \<Rightarrow> nat \<Rightarrow> 'e block_by_number" where
  "chainAt blk t n = Inr (blk t n)"

definition unsafeRequest :: "blockRange \<Rightarrow> requestRollupInfoByBlockRange" where
  "unsafeRequest br =
     \<lparr>rq_blockRange = br, sleepBefore = 0, requestLastBlockIfNoBlocksInAnswer = requestLastBlockModeAlways,
      requestPreviousBlock = True\<rparr>"

text \<open>What a request in the unsafe area returns when the client does not fail.\<close>

lemma executeRequest_unsafe:
  assumes "executeRequestRollupInfoByBlockRange (chainAt blk a) roll (chainAt blk c) (chainAt blk d) noOrder
      (unsafeRequest br) = (r, None)"
    and "toBlock br \<noteq> latestBlockNumber" "2 < fromBlock br"
  shows "ri_blockRange r = br" "lastBlockOfRange r = Some (blk a (toBlock br))"
    "previousBlockOfRange r = Some (blk d (fromBlock br - 1))"
  using assms
  by (auto simp: executeRequestRollupInfoByBlockRange_def fillLastBlock_def fillRollup_def fillPreviousBlock_def
      unsafeRequest_def mustRequestLastBlock_def chainAt_def split: sum.splits)

lemma process_reorg:
  assumes "\<not> wrongRange l r" "lastEthBlockReceived l = Some c" "previousBlockOfRange r = Some p"
    and "BlockNumber c = BlockNumber p" "BlockHash c \<noteq> BlockHash p \<or> ParentHash c \<noteq> ParentHash p"
  shows "snd (processIncommingRollupInfoData process noEvents now d l w r) = (w, Some errL1Reorg)"
  using assms by (auto simp: processIncommingRollupInfoData_def checkPreviousBlocks_def Let_def)

lemma process_received:
  assumes "processIncommingRollupInfoData process noEvents now d l w r = (l', w', None)" "\<not> wrongRange l r"
  shows "lastEthBlockReceived l' = getHighestBlockReceived r"
  using assms
  by (auto simp: processIncommingRollupInfoData_def Let_def split: option.splits if_splits sum.splits prod.splits)

lemma process_received_None:
  assumes "snd (snd (processIncommingRollupInfoData process noEvents now d l w r)) = None"
    and "\<not> wrongRange l r" "lastEthBlockReceived l = Some c" "previousBlockOfRange r = Some p"
    and "BlockNumber c = BlockNumber p"
  shows "BlockHash c = BlockHash p \<and> ParentHash c = ParentHash p"
proof (rule ccontr)
  assume "\<not> ?thesis"
  then have "snd (processIncommingRollupInfoData process noEvents now d l w r) = (w, Some errL1Reorg)"
    using assms(2-5) by (intro process_reorg) auto
  then show False using assms(1) by simp
qed

text \<open>
  C20: Two consecutive ranges of the unsafe area are retrieved by two workers, whose calls to the
  L1 node may interleave in any way.  If the last block of the first range, as read by the first
  worker, differs from the one the second worker reads, the consumer refuses the second range
  with \<open>errL1Reorg\<close> before the synchronizer sees it.  If the consumer accepts it, and a block
  that was replaced does not come back, the block between the ranges was the same at every
  moment between the two reads, in particular when either range was read inside that time.
\<close>

theorem reorg_between_ranges_detected:
  assumes r1: "executeRequestRollupInfoByBlockRange (chainAt blk a1) roll1 (chainAt blk c1) (chainAt blk d1) noOrder
      (unsafeRequest br1) = (r1, None)"
    and r2: "executeRequestRollupInfoByBlockRange (chainAt blk a2) roll2 (chainAt blk c2) (chainAt blk d2) noOrder
      (unsafeRequest br2) = (r2, None)"
    and range: "toBlock br1 \<noteq> latestBlockNumber" "toBlock br2 \<noteq> latestBlockNumber" "2 < fromBlock br1"
      "fromBlock br2 = toBlock br1 + 1" "2 < fromBlock br2"
    and number: "\<forall>t n. BlockNumber (blk t n) = n"
    and first: "processIncommingRollupInfoData process noEvents now e1 l w r1 = (l1, w1, None)" "\<not> wrongRange l r1"
  shows "(BlockHash (blk a1 (toBlock br1)) \<noteq> BlockHash (blk d2 (toBlock br1)) \<longrightarrow>
      snd (processIncommingRollupInfoData process noEvents now e2 l1 w1 r2) = (w1, Some errL1Reorg)) \<and>
    (snd (snd (processIncommingRollupInfoData process noEvents now e2 l1 w1 r2)) = None \<and>
     (\<forall>t t' n. BlockHash (blk t n) = BlockHash (blk t' n) \<longrightarrow>
        (\<forall>s. t \<le> s \<and> s \<le> t' \<longrightarrow> BlockHash (blk s n) = BlockHash (blk t n))) \<longrightarrow>
     (\<forall>s. a1 \<le> s \<and> s \<le> d2 \<longrightarrow> BlockHash (blk s (toBlock br1)) = BlockHash (blk a1 (toBlock br1))))"
proof -
  note x1 = executeRequest_unsafe[OF r1 range(1,3)] and x2 = executeRequest_unsafe[OF r2 range(2,5)]
  let ?n = "toBlock br1"
  have rec: "lastEthBlockReceived l1 = Some (blk a1 ?n)"
    using process_received[OF first] x1 by (simp add: getHighestBlockReceived_def)
  have prev: "previousBlockOfRange r2 = Some (blk d2 ?n)" using x2 range(4) by simp
  have hi: "highestBlockProcessed l1 = ?n"
    using process_highest[OF first(1)] first(2) x1 range(1) by (simp add: getHighestBlockNumberInResponse_def)
  have ok: "\<not> wrongRange l1 r2" using hi x2(1) range(4) by (simp add: wrongRange_def)
  have nums: "BlockNumber (blk a1 ?n) = BlockNumber (blk d2 ?n)" using number by simp
  show ?thesis
  proof (intro conjI impI allI)
    assume "BlockHash (blk a1 ?n) \<noteq> BlockHash (blk d2 ?n)"
    then show "snd (processIncommingRollupInfoData process noEvents now e2 l1 w1 r2) = (w1, Some errL1Reorg)"
      by (intro process_reorg[OF ok rec prev nums] disjI1)
  next
    fix s
    assume acc: "snd (snd (processIncommingRollupInfoData process noEvents now e2 l1 w1 r2)) = None \<and>
        (\<forall>t t' n. BlockHash (blk t n) = BlockHash (blk t' n) \<longrightarrow>
          (\<forall>s. t \<le> s \<and> s \<le> t' \<longrightarrow> BlockHash (blk s n) = BlockHash (blk t n)))"
      and s: "a1 \<le> s \<and> s \<le> d2"
    have "BlockHash (blk a1 ?n) = BlockHash (blk d2 ?n)"
      using process_received_None[OF conjunct1[OF acc] ok rec prev nums] by (rule conjunct1)
    then show "BlockHash (blk s ?n) = BlockHash (blk a1 ?n)" using conjunct2[OF acc] s by blast
  qed
qed

text \<open>A reorganization of block 200 between the two reads: its hash is the time of the read.\<close>

definition sampleBlk :: "nat \<Rightarrow> u64 \<Rightarrow> BlockInfo" where
  "sampleBlk t n = \<lparr>BlockNumber = n, BlockHash = (if t < 10 then 1 else 2), ParentHash = 0, ReceivedAt = 0\<rparr>"

definition noEventsRollup :: "(unit, unit, unit) rollup_info" where
  "noEventsRollup f t = Inr ([], ())"

definition sampleRequest :: "nat \<Rightarrow> u64 \<Rightarrow> u64 \<Rightarrow> (unit, unit) rollupInfoByBlockRangeResult" where
  "sampleRequest t f u =
     fst (executeRequestRollupInfoByBlockRange (chainAt sampleBlk t :: unit block_by_number) noEventsRollup (chainAt sampleBlk (t + 2))
       (chainAt sampleBlk (t + 3)) () (unsafeRequest \<lparr>fromBlock = f, toBlock = u\<rparr>))"

definition sampleConsumer :: l1RollupInfoConsumer where
  "sampleConsumer = consumer_Reset (NewL1RollupInfoConsumer 0 \<lparr>ApplyAfterNumRollupReceived = 5, AceptableInacctivityTime = 1\<rparr>) 99"

lemmas reorg_eval = executeRequestRollupInfoByBlockRange_def fillLastBlock_def fillRollup_def fillPreviousBlock_def
  unsafeRequest_def mustRequestLastBlock_def chainAt_def noEventsRollup_def latestBlockNumber_def

theorem reorg_between_ranges_detected_witness:
  "snd (processIncommingRollupInfoData recordBlocks () 0 0
      (fst (processIncommingRollupInfoData recordBlocks () 0 0 sampleConsumer [] (sampleRequest 1 100 200)))
      [200] (sampleRequest 20 201 300)) = ([200], Some errL1Reorg)"
proof -
  have e: "executeRequestRollupInfoByBlockRange (chainAt sampleBlk t :: unit block_by_number) noEventsRollup (chainAt sampleBlk (t + 2))
      (chainAt sampleBlk (t + 3)) () (unsafeRequest \<lparr>fromBlock = f, toBlock = u\<rparr>) = (sampleRequest t f u, None)"
    if "u \<noteq> latestBlockNumber" for t f u
    using that by (simp add: sampleRequest_def reorg_eval)
  obtain l1 where first: "processIncommingRollupInfoData recordBlocks () 0 0 sampleConsumer [] (sampleRequest 1 100 200) =
      (l1, [200], None)"
    by (simp add: processIncommingRollupInfoData_def sampleConsumer_def consumer_Reset_def NewL1RollupInfoConsumer_def
        wrongRange_def sampleRequest_def reorg_eval processUnsafe_def recordBlocks_def convertL1BlockToEthBlock_def
        sampleBlk_def Let_def)
  have nw: "\<not> wrongRange sampleConsumer (sampleRequest 1 100 200)"
    by (simp add: wrongRange_def sampleConsumer_def consumer_Reset_def sampleRequest_def reorg_eval)
  have "snd (processIncommingRollupInfoData recordBlocks () 0 0 l1 [200] (sampleRequest 20 201 300)) =
      ([200], Some errL1Reorg)"
  proof (rule conjunct1[OF reorg_between_ranges_detected, THEN mp, OF e[of 200 1 100] e[of 300 20 201] _ _ _ _ _ _ first nw])
    show "\<forall>t n. BlockNumber (sampleBlk t n) = n" by (simp add: sampleBlk_def)
  qed (simp_all add: latestBlockNumber_def sampleBlk_def)
  then show ?thesis by (simp only: first fst_conv)
qed

end
