(* ===== verification/Hex.thy ===== *)
theory Hex
  imports Prelude
begin

text \<open>
  The hexadecimal helpers of \<open>hex/hex.go\<close>, together with what they use of Go's \<open>encoding/hex\<close>,
  \<open>strconv\<close> and \<open>math/big\<close>.  A string is the list of its bytes.  The theory shows the round
  trips and that \<open>IsValid\<close> accepts exactly the strings \<open>DecodeHex\<close> decodes.
\<close>

subsection \<open>Digits\<close>

definition hexDigit :: "nat \<Rightarrow> char" where
  "hexDigit n = char_of (if n < 10 then n + 48 else n + 87)"

definition fromHexChar :: "char \<Rightarrow> nat option" where
  "fromHexChar c =
     (let n = of_char c in
      if 48 \<le> n \<and> n \<le> 57 then Some (n - 48)
      else if 97 \<le> n \<and> n \<le> 102 then Some (n - 87)
      else if 65 \<le> n \<and> n \<le> 70 then Some (n - 55)
      else None)"

definition BadNibble :: u64 where
  "BadNibble = - 1"

definition DecodeNibble :: "u8 \<Rightarrow> u64" where
  "DecodeNibble b =
     (if 48 \<le> b \<and> b \<le> 57 then ucast (b - 48)
      else if 65 \<le> b \<and> b \<le> 70 then ucast (b - 65 + 10)
      else if 97 \<le> b \<and> b \<le> 102 then ucast (b - 97 + 10)
      else BadNibble)"

lemma fromHexChar_hexDigit [simp]:
  assumes "n < 16"
  shows "fromHexChar (hexDigit n) = Some n"
proof -
  have "of_char (hexDigit n) = (if n < 10 then n + 48 else n + 87)"
    using assms by (simp add: hexDigit_def)
  then show ?thesis using assms by (simp add: fromHexChar_def Let_def)
qed

lemma fromHexChar_less: "fromHexChar c = Some d \<Longrightarrow> d < 16"
  by (auto simp: fromHexChar_def Let_def split: if_splits)

subsection \<open>Byte strings\<close>

datatype HexError = InvalidByteError char | ErrLength

definition EncodeToString :: "bytes \<Rightarrow> string" where
  "EncodeToString bs = concat (map (\<lambda>b. [hexDigit (unat b div 16), hexDigit (unat b mod 16)]) bs)"

definition EncodeToHex :: "bytes \<Rightarrow> string" where
  "EncodeToHex bs = ''0x'' @ EncodeToString bs"

fun DecodeString :: "string \<Rightarrow> HexError + bytes" where
  "DecodeString [] = Inr []"
| "DecodeString [c] = (case fromHexChar c of None \<Rightarrow> Inl (InvalidByteError c) | Some _ \<Rightarrow> Inl ErrLength)"
| "DecodeString (p # q # cs) =
     (case fromHexChar p of
        None \<Rightarrow> Inl (InvalidByteError p)
      | Some a \<Rightarrow>
          (case fromHexChar q of
             None \<Rightarrow> Inl (InvalidByteError q)
           | Some b \<Rightarrow>
               (case DecodeString cs of Inl e \<Rightarrow> Inl e | Inr bs \<Rightarrow> Inr (of_nat (16 * a + b) # bs))))"

definition trimPrefix :: "string \<Rightarrow> string" where
  "trimPrefix s = (if take 2 s = ''0x'' then drop 2 s else s)"

definition DecodeHex :: "string \<Rightarrow> HexError + bytes" where
  "DecodeHex s =
     (let str = trimPrefix s in DecodeString (if odd (length str) then CHR ''0'' # str else str))"

definition MustDecodeHex :: "string \<Rightarrow> (HexError, bytes) outcome" where
  "MustDecodeHex s = (case DecodeHex s of Inl e \<Rightarrow> Panic | Inr bs \<Rightarrow> Ok bs)"

definition IsValid :: "string \<Rightarrow> bool" where
  "IsValid s = list_all (\<lambda>c. fromHexChar c \<noteq> None) (trimPrefix s)"

subsection \<open>Numbers\<close>

fun hexText :: "nat \<Rightarrow> string" where
  "hexText n = (if n < 16 then [hexDigit n] else hexText (n div 16) @ [hexDigit (n mod 16)])"

declare hexText.simps [simp del]

definition EncodeUint64 :: "u64 \<Rightarrow> string" where
  "EncodeUint64 i = ''0x'' @ hexText (unat i)"

definition EncodeBig :: "int \<Rightarrow> string" where
  "EncodeBig x =
     (if x = 0 then ''0x0'' else (if x < 0 then ''-'' else []) @ ''0x'' @ hexText (nat \<bar>x\<bar>))"

fun parseDigits :: "nat \<Rightarrow> string \<Rightarrow> nat option" where
  "parseDigits acc [] = Some acc"
| "parseDigits acc (c # cs) =
     (case fromHexChar c of None \<Rightarrow> None | Some d \<Rightarrow> parseDigits (16 * acc + d) cs)"

text \<open>\<open>big.Int.SetString(str, 16)\<close>: an optional sign and at least one digit; \<open>None\<close> is its failure.\<close>

definition SetString16 :: "string \<Rightarrow> int option" where
  "SetString16 s =
     (let neg = (s \<noteq> [] \<and> hd s = CHR ''-'');
          ds = (if s \<noteq> [] \<and> (hd s = CHR ''-'' \<or> hd s = CHR ''+'') then tl s else s)
      in if ds = [] then None
         else map_option (\<lambda>n. if neg then - int n else int n) (parseDigits 0 ds))"

text \<open>On a failed conversion the value \<open>DecodeBig\<close> returns is not specified.\<close>

definition DecodeBig :: "string \<Rightarrow> int option" where
  "DecodeBig hexNum = SetString16 (trimPrefix hexNum)"

definition DecodeUint64 :: "string \<Rightarrow> u64 option" where
  "DecodeUint64 s = map_option (\<lambda>x. of_nat (nat \<bar>x\<bar>)) (DecodeBig s)"

subsection \<open>Round trips\<close>

lemma DecodeString_EncodeToString [simp]: "DecodeString (EncodeToString bs) = Inr bs"
proof (induction bs)
  case (Cons b bs)
  have "unat b < 256" using unsigned_less[of b, where ?'a = nat] by simp
  then have "unat b div 16 < 16" by linarith
  moreover have "of_nat (16 * (unat b div 16) + unat b mod 16) = b" by simp
  ultimately show ?case using Cons.IH by (simp add: EncodeToString_def del: of_nat_add of_nat_mult)
qed (simp add: EncodeToString_def)

lemma length_EncodeToString [simp]: "length (EncodeToString bs) = 2 * length bs"
  by (induction bs) (simp_all add: EncodeToString_def)

lemma DecodeString_append_bytes:
  "DecodeString (EncodeToString bs @ cs) = (case DecodeString cs of Inl e \<Rightarrow> Inl e | Inr bs' \<Rightarrow> Inr (bs @ bs'))"
proof (induction bs)
  case (Cons b bs)
  have "unat b < 256" using unsigned_less[of b, where ?'a = nat] by simp
  then have "unat b div 16 < 16" by linarith
  moreover have "of_nat (16 * (unat b div 16) + unat b mod 16) = b" by simp
  ultimately show ?case
    using Cons.IH by (simp add: EncodeToString_def del: of_nat_add of_nat_mult split: sum.split)
qed (simp add: EncodeToString_def split: sum.split)

lemma DecodeString_ok_iff:
  assumes "even (length s)"
  shows "(\<exists>bs. DecodeString s = Inr bs) \<longleftrightarrow> list_all (\<lambda>c. fromHexChar c \<noteq> None) s"
  using assms
proof (induction s rule: DecodeString.induct)
  case (3 p q cs)
  show ?case
  proof (cases "fromHexChar p = None \<or> fromHexChar q = None")
    case False
    then obtain a b where ab: "fromHexChar p = Some a" "fromHexChar q = Some b" by auto
    have "(\<exists>bs. DecodeString cs = Inr bs) \<longleftrightarrow> list_all (\<lambda>c. fromHexChar c \<noteq> None) cs"
      using "3.IH"[OF ab] "3.prems" by simp
    then show ?thesis by (auto simp: ab split: sum.splits)
  qed (auto split: option.split)
qed simp_all

lemma parseDigits_append:
  "parseDigits acc (s @ t) = Option.bind (parseDigits acc s) (\<lambda>a. parseDigits a t)"
  by (induction acc s rule: parseDigits.induct) (auto split: option.split)

lemma parseDigits_hexText: "parseDigits 0 (hexText n) = Some n"
proof (induction n rule: hexText.induct)
  case (1 n)
  then show ?case by (cases "n < 16") (simp_all add: hexText.simps[of n] parseDigits_append)
qed

lemma hexText_digits: "list_all (\<lambda>c. fromHexChar c \<noteq> None) (hexText n)"
proof (induction n rule: hexText.induct)
  case (1 n)
  then show ?case by (cases "n < 16") (simp_all add: hexText.simps[of n])
qed

lemma hexText_nonempty [simp]: "hexText n \<noteq> []"
  by (subst hexText.simps) simp

lemma hexText_no_sign: "hd (hexText n) \<noteq> CHR ''-'' \<and> hd (hexText n) \<noteq> CHR ''+''"
proof -
  have "fromHexChar (hd (hexText n)) \<noteq> None"
    using hexText_digits[of n] by (cases "hexText n") auto
  moreover have "fromHexChar CHR ''-'' = None" "fromHexChar CHR ''+'' = None"
    by (simp_all add: fromHexChar_def)
  ultimately show ?thesis by metis
qed

lemma SetString16_hexText: "SetString16 (hexText n) = Some (int n)"
  using hexText_no_sign[of n] by (simp add: SetString16_def Let_def parseDigits_hexText)

lemma trimPrefix_0x [simp]: "trimPrefix (CHR ''0'' # CHR ''x'' # s) = s"
  by (simp add: trimPrefix_def)

text \<open>
  Decoding what the hex helpers encode gives the value back: byte strings through
  \<open>EncodeToHex\<close>, 64-bit integers through \<open>EncodeUint64\<close>, and non-negative big integers through
  \<open>EncodeBig\<close>.
\<close>

lemma hex_roundtrip:
  "DecodeHex (EncodeToHex bs) = Inr bs \<and> DecodeUint64 (EncodeUint64 i) = Some i \<and>
   DecodeBig (EncodeBig (int n)) = Some (int n)"
proof (intro conjI)
  show "DecodeHex (EncodeToHex bs) = Inr bs" by (simp add: DecodeHex_def EncodeToHex_def)
  show "DecodeUint64 (EncodeUint64 i) = Some i"
    by (simp add: DecodeUint64_def EncodeUint64_def DecodeBig_def SetString16_hexText)
  have "parseDigits 0 ''0'' = Some 0" by (simp add: fromHexChar_def)
  then show "DecodeBig (EncodeBig (int n)) = Some (int n)"
    by (simp add: EncodeBig_def DecodeBig_def SetString16_hexText) (simp add: SetString16_def)
qed

text \<open>
  \<open>IsValid\<close> accepts a string exactly when \<open>DecodeHex\<close> can decode it, with or without the
  \<open>0x\<close> prefix and also at odd length.
\<close>

lemma IsValid_iff_decodes: "IsValid s \<longleftrightarrow> (\<exists>bs. DecodeHex s = Inr bs)"
proof -
  let ?t = "if odd (length (trimPrefix s)) then CHR ''0'' # trimPrefix s else trimPrefix s"
  have "even (length ?t)" by simp
  moreover have "fromHexChar CHR ''0'' = Some 0" by (simp add: fromHexChar_def)
  ultimately show ?thesis
    using DecodeString_ok_iff[of ?t] by (auto simp: DecodeHex_def IsValid_def Let_def)
qed

text \<open>The comment of \<open>EncodeBig\<close> says that the sign is ignored; the sign is printed.\<close>

lemma EncodeBig_prints_sign: "EncodeBig (- 255) = ''-0xff''"
  by code_simp

end
