(* ===== verification/Rlp.thy ===== *)
theory Rlp
  imports Prelude
begin

text \<open>
  Recursive length prefix (RLP) coding of lists of byte strings.  The node uses the RLP codec
  of a third-party package; \<open>rlp_codec\<close> states the documented format and round trip the batch
  codec relies on.  The second half gives a reference codec of that format and shows that it
  satisfies the contract, which is where the hypotheses about the package can be seen to hold.
\<close>

subsection \<open>Minimal big-endian integers\<close>

fun minBytes :: "nat \<Rightarrow> bytes" where
  "minBytes n = (if n = 0 then [] else minBytes (n div 256) @ [of_nat (n mod 256)])"

declare minBytes.simps [simp del]

lemma minBytes_0 [simp]: "minBytes 0 = []"
  by (simp add: minBytes.simps)

lemma be_val_append: "be_val (xs @ ys) = be_val xs * 256 ^ length ys + be_val ys"
  by (induction xs) (simp_all add: algebra_simps power_add)

lemma unat_of_nat_u8: "n < 256 \<Longrightarrow> unat (of_nat n :: u8) = n"
  by (simp add: unsigned_of_nat take_bit_nat_eq_self)

lemma be_val_minBytes [simp]: "be_val (minBytes n) = n"
proof (induction n rule: minBytes.induct)
  case (1 n)
  show ?case
  proof (cases "n = 0")
    case False
    then show ?thesis using 1 by (subst minBytes.simps) (simp add: be_val_append unat_of_nat_u8)
  qed simp
qed

lemma minBytes_eq_Nil [simp]: "minBytes n = [] \<longleftrightarrow> n = 0"
  by (subst minBytes.simps) simp

lemma length_minBytes_le: "n < 256 ^ k \<Longrightarrow> length (minBytes n) \<le> k"
proof (induction k arbitrary: n)
  case (Suc k)
  have "n div 256 < 256 ^ k" using Suc.prems by (simp add: div_less_iff_less_mult mult.commute)
  from Suc.IH[OF this] show ?case by (subst minBytes.simps) simp
qed simp

lemma hd_minBytes: "0 < n \<Longrightarrow> hd (minBytes n) \<noteq> 0"
proof (induction n rule: minBytes.induct)
  case (1 n)
  show ?case
  proof (cases "n div 256 = 0")
    case True
    then have "n < 256" by (simp add: div_eq_0_iff)
    then have "unat (of_nat n :: u8) = n" by (rule unat_of_nat_u8)
    then have "(of_nat n :: u8) \<noteq> 0" using 1(2) by (metis less_not_refl unat_0)
    then show ?thesis using 1(2) True \<open>n < 256\<close> by (subst minBytes.simps) simp
  next
    case False
    then have "hd (minBytes (n div 256)) \<noteq> 0" using 1 by simp
    then show ?thesis using 1(2) False by (subst minBytes.simps) (simp add: hd_append)
  qed
qed

subsection \<open>The contract of the codec\<close>

definition list_header :: "nat \<Rightarrow> bytes" where
  "list_header n =
     (if n \<le> 55 then [of_nat (192 + n)]
      else of_nat (247 + length (minBytes n)) # minBytes n)"

locale rlp_codec =
  fixes enc :: "bytes list \<Rightarrow> bytes" and dec :: "bytes \<Rightarrow> bytes list option"
  assumes dec_enc: "length (enc fs) < 2 ^ 63 \<Longrightarrow> dec (enc fs) = Some fs"
    and enc_format: "\<exists>payload. enc fs = list_header (length payload) @ payload"

subsection \<open>A reference codec\<close>

definition rlp_string :: "bytes \<Rightarrow> bytes" where
  "rlp_string bs =
     (if length bs = 1 \<and> unat (hd bs) < 128 then bs
      else if length bs \<le> 55 then of_nat (128 + length bs) # bs
      else of_nat (183 + length (minBytes (length bs))) # minBytes (length bs) @ bs)"

definition rlp_encode :: "bytes list \<Rightarrow> bytes" where
  "rlp_encode fs = (let payload = concat (map rlp_string fs) in list_header (length payload) @ payload)"

text \<open>The size of an item from its header, and the header's own length.\<close>

definition rlp_take :: "nat \<Rightarrow> bytes \<Rightarrow> (bytes \<times> bytes) option" where
  "rlp_take n bs = (if n \<le> length bs then Some (take n bs, drop n bs) else None)"

definition rlp_long :: "nat \<Rightarrow> bytes \<Rightarrow> (nat \<times> bytes) option" where
  "rlp_long k bs =
     (case rlp_take k bs of
        None \<Rightarrow> None
      | Some (l, rest) \<Rightarrow> if l = [] \<or> hd l = 0 \<or> be_val l \<le> 55 then None else Some (be_val l, rest))"

definition rlp_item :: "u8 \<Rightarrow> bytes \<Rightarrow> (bytes \<times> bytes) option" where
  "rlp_item b bs =
     (let n = unat b in
      if n < 128 then Some ([b], bs)
      else if n \<le> 183 then
        (case rlp_take (n - 128) bs of
           None \<Rightarrow> None
         | Some (s, rest) \<Rightarrow> if length s = 1 \<and> unat (hd s) < 128 then None else Some (s, rest))
      else if n \<le> 191 then
        (case rlp_long (n - 183) bs of None \<Rightarrow> None | Some (m, rest) \<Rightarrow> rlp_take m rest)
      else None)"

lemma rlp_take_length: "rlp_take n bs = Some (s, rest) \<Longrightarrow> length rest \<le> length bs"
  by (auto simp: rlp_take_def split: if_splits)

lemma rlp_item_length: "rlp_item b bs = Some (s, rest) \<Longrightarrow> length rest \<le> length bs"
  by (auto simp: rlp_item_def rlp_long_def Let_def split: if_splits option.splits
      dest!: rlp_take_length)

function rlp_items :: "bytes \<Rightarrow> bytes list option" where
  "rlp_items [] = Some []"
| "rlp_items (b # bs) =
     (case rlp_item b bs of
        None \<Rightarrow> None
      | Some (s, rest) \<Rightarrow> (case rlp_items rest of None \<Rightarrow> None | Some ss \<Rightarrow> Some (s # ss)))"
  by pat_completeness auto
termination
  by (relation "measure length") (auto dest: rlp_item_length)

definition rlp_decode :: "bytes \<Rightarrow> bytes list option" where
  "rlp_decode bs =
     (case bs of
        [] \<Rightarrow> None
      | b # rest \<Rightarrow>
          if unat b < 192 then None
          else if unat b \<le> 247 then (if length rest = unat b - 192 then rlp_items rest else None)
          else (case rlp_long (unat b - 247) rest of
                  None \<Rightarrow> None
                | Some (n, payload) \<Rightarrow> if length payload = n then rlp_items payload else None))"

lemma rlp_long_minBytes:
  assumes "55 < n"
  shows "rlp_long (length (minBytes n)) (minBytes n @ rest) = Some (n, rest)"
  using assms hd_minBytes[of n] by (simp add: rlp_long_def rlp_take_def)

lemma length_minBytes_8: "n < 2 ^ 63 \<Longrightarrow> length (minBytes n) \<le> 8"
  using length_minBytes_le[of n 8] by simp

lemma rlp_string_item:
  assumes "length s < 2 ^ 63"
  shows "rlp_string s \<noteq> [] \<and> rlp_item (hd (rlp_string s)) (tl (rlp_string s) @ rest) = Some (s, rest)"
proof -
  consider "length s = 1 \<and> unat (hd s) < 128" | "\<not> (length s = 1 \<and> unat (hd s) < 128)" "length s \<le> 55"
    | "55 < length s" by linarith
  then show ?thesis
  proof cases
    case 1
    then show ?thesis by (cases s) (simp_all add: rlp_string_def rlp_item_def)
  next
    case 2
    have u: "unat (of_nat (128 + length s) :: u8) = 128 + length s" using 2 by (intro unat_of_nat_u8) simp
    have e: "rlp_string s = of_nat (128 + length s) # s" using 2 by (auto simp: rlp_string_def)
    show ?thesis unfolding e using 2 by (simp add: rlp_item_def u[simplified] rlp_take_def)
  next
    case 3
    have k: "length (minBytes (length s)) \<le> 8" "0 < length (minBytes (length s))"
      using length_minBytes_8[OF assms] 3 by auto
    have u: "unat (of_nat (183 + length (minBytes (length s))) :: u8) = 183 + length (minBytes (length s))"
      using k by (intro unat_of_nat_u8) simp
    have e: "rlp_string s = of_nat (183 + length (minBytes (length s))) # minBytes (length s) @ s"
      using 3 by (auto simp: rlp_string_def)
    show ?thesis
      unfolding e using k rlp_long_minBytes[OF 3, of "s @ rest"]
      by (simp add: rlp_item_def u[simplified] rlp_take_def)
  qed
qed

lemma rlp_items_encode:
  "\<forall>s\<in>set fs. length s < 2 ^ 63 \<Longrightarrow> rlp_items (concat (map rlp_string fs)) = Some fs"
proof (induction fs)
  case (Cons s fs)
  note i = rlp_string_item[of s "concat (map rlp_string fs)"]
  obtain b bs where "rlp_string s = b # bs" using i Cons.prems by (cases "rlp_string s") auto
  then show ?case using i Cons by simp
qed simp

lemma rlp_string_length: "length s \<le> length (rlp_string s)"
  by (simp add: rlp_string_def)

lemma rlp_field_length: "s \<in> set fs \<Longrightarrow> length s \<le> length (concat (map rlp_string fs))"
proof (induction fs)
  case (Cons t fs)
  then show ?case using rlp_string_length[of t] by auto
qed simp

lemma rlp_decode_list:
  assumes "length payload < 2 ^ 63"
  shows "rlp_decode (list_header (length payload) @ payload) = rlp_items payload"
proof (cases "length payload \<le> 55")
  case True
  have u: "unat (of_nat (192 + length payload) :: u8) = 192 + length payload" using True by (intro unat_of_nat_u8) simp
  show ?thesis using True by (simp add: list_header_def rlp_decode_def u[simplified])
next
  case False
  let ?m = "minBytes (length payload)"
  have k: "length ?m \<le> 8" "0 < length ?m" using length_minBytes_8[OF assms] False by auto
  have u: "unat (of_nat (247 + length ?m) :: u8) = 247 + length ?m" using k by (intro unat_of_nat_u8) simp
  show ?thesis
    using False k rlp_long_minBytes[of "length payload" payload]
    by (simp add: list_header_def rlp_decode_def u[simplified])
qed

interpretation rlp: rlp_codec rlp_encode rlp_decode
proof
  fix fs
  let ?p = "concat (map rlp_string fs)"
  show "\<exists>payload. rlp_encode fs = list_header (length payload) @ payload"
    unfolding rlp_encode_def Let_def by blast
  assume "length (rlp_encode fs) < 2 ^ 63"
  then have p: "length ?p < 2 ^ 63" by (simp add: rlp_encode_def Let_def)
  then have "\<forall>s\<in>set fs. length s < 2 ^ 63" using rlp_field_length[of _ fs] by (meson le_less_trans)
  from rlp_items_encode[OF this] rlp_decode_list[OF p]
  show "rlp_decode (rlp_encode fs) = Some fs" by (simp add: rlp_encode_def Let_def)
qed

end
