(* ===== verification/BatchCodec.thy ===== *)
theory BatchCodec
  imports Hex Rlp
begin

text \<open>
  The encoding of L2 batches: the transaction lists of the first forks (\<open>state/helper.go\<close>), the
  block structured batches of the Etrog fork (\<open>state/encoding_batch_v2.go\<close>) and the conversion of
  RLP fields to a transaction (\<open>state/transaction.go\<close>).

  The RLP codec (\<open>rlpEnc\<close>, \<open>rlpDec\<close>) and the chain id of a transaction (\<open>chainId\<close>, a function of
  the signature value V) belong to third-party packages and are arguments.  Positions and
  lengths are 64-bit words that wrap as in the code; slicing out of range is \<open>Panic\<close>.
\<close>

subsection \<open>Transactions and batches\<close>

record LegacyTx =
  ltx_Nonce :: u64
  ltx_GasPrice :: int
  ltx_Gas :: u64
  ltx_To :: "address option"
  ltx_Value :: int
  ltx_Data :: bytes
  ltx_V :: int
  ltx_R :: int
  ltx_S :: int

record L2TxRaw =
  l2tx_Tx :: LegacyTx
  EfficiencyPercentage :: u8

record L2BlockRaw =
  DeltaTimestamp :: u32
  IndexL1InfoTree :: u32
  Transactions :: "L2TxRaw list"

record BatchRawV2 =
  Blocks :: "L2BlockRaw list"

record ForcedBatchRawV2 =
  fb_Transactions :: "L2TxRaw list"

datatype CodecError =
    ErrInvalidData
  | ErrInvalidBatchV2
  | ErrInvalidRLP
  | ErrBatchV2DontStartWithChangeL2Block
  | ErrTxTypeNotSupported
  | ErrRlpDecode
  | ErrRlpNegative
  | ErrParseLength
  | ErrHex HexError

definition headerByteLength :: u64 where "headerByteLength = 1"
definition sLength :: u64 where "sLength = 32"
definition rLength :: u64 where "rLength = 32"
definition vLength :: u64 where "vLength = 1"
definition c0 :: u64 where "c0 = 192"
definition shortRlp :: u64 where "shortRlp = 55"
definition f7 :: u64 where "f7 = 247"
definition EfficiencyPercentageByteLength :: u64 where "EfficiencyPercentageByteLength = 1"
definition ether155V :: int where "ether155V = 27"
definition etherPre155V :: int where "etherPre155V = 35"
definition FORKID_DRAGONFRUIT :: u64 where "FORKID_DRAGONFRUIT = 5"
definition FORKID_ETROG :: u64 where "FORKID_ETROG = 7"
definition changeL2Block :: u8 where "changeL2Block = 0x0b"

lemmas codec_consts = headerByteLength_def sLength_def rLength_def vLength_def c0_def shortRlp_def
  f7_def EfficiencyPercentageByteLength_def FORKID_DRAGONFRUIT_def FORKID_ETROG_def

subsection \<open>Encoding transactions\<close>

text \<open>\<open>big.Int.Uint64\<close>: the low 64 bits of the magnitude.\<close>

definition uint64_of :: "int \<Rightarrow> u64" where
  "uint64_of x = of_nat (nat \<bar>x\<bar>)"

definition IsPreEIP155Tx :: "(int \<Rightarrow> int) \<Rightarrow> LegacyTx \<Rightarrow> bool" where
  "IsPreEIP155Tx chainId tx \<longleftrightarrow>
     uint64_of (chainId (ltx_V tx)) = 0 \<and> (uint64_of (ltx_V tx) = 27 \<or> uint64_of (ltx_V tx) = 28)"

definition toField :: "address option \<Rightarrow> bytes" where
  "toField to = (case to of None \<Rightarrow> [] | Some a \<Rightarrow> be_bytes 20 (unat a))"

definition bigText :: "int \<Rightarrow> string" where
  "bigText x = (if x < 0 then ''-'' else []) @ hexText (nat \<bar>x\<bar>)"

definition padLeft :: "nat \<Rightarrow> string \<Rightarrow> string" where
  "padLeft w s = replicate (w - length s) CHR ''0'' @ s"

text \<open>The signature appended to the RLP code: R, S and the parity as 27 or 28, through hex text.\<close>

definition signedTxData :: "bytes \<Rightarrow> int \<Rightarrow> int \<Rightarrow> int \<Rightarrow> string \<Rightarrow> (CodecError, bytes) outcome" where
  "signedTxData txCodedRlp r s newV suffix =
     (case DecodeString (EncodeToString txCodedRlp @ padLeft 64 (bigText r) @ padLeft 64 (bigText s) @
             padLeft 2 (bigText newV) @ suffix) of
        Inl e \<Rightarrow> Err (ErrHex e) | Inr d \<Rightarrow> Ok d)"

definition signOf :: "int \<Rightarrow> int" where
  "signOf v = uint (1 - uint64_of v mod 2)"

definition txFields :: "u64 \<Rightarrow> int \<Rightarrow> u64 \<Rightarrow> address option \<Rightarrow> int \<Rightarrow> bytes \<Rightarrow> bytes list" where
  "txFields nonce gasPrice gas to value data =
     [minBytes (unat nonce), minBytes (nat gasPrice), minBytes (unat gas), toField to,
      minBytes (nat value), data]"

definition prepareRPLTxData ::
  "(bytes list \<Rightarrow> bytes) \<Rightarrow> (int \<Rightarrow> int) \<Rightarrow> LegacyTx \<Rightarrow> (CodecError, bytes) outcome" where
  "prepareRPLTxData rlpEnc chainId tx =
     (let sign = signOf (ltx_V tx);
          chainID = chainId (ltx_V tx);
          pre = IsPreEIP155Tx chainId tx;
          flds = txFields (ltx_Nonce tx) (ltx_GasPrice tx) (ltx_Gas tx) (ltx_To tx) (ltx_Value tx) (ltx_Data tx) @
                   (if pre then [] else [minBytes (nat chainID), minBytes 0, minBytes 0])
      in if ltx_GasPrice tx < 0 \<or> ltx_Value tx < 0 \<or> \<not> pre \<and> chainID < 0 then Err ErrRlpNegative
         else signedTxData (rlpEnc flds) (ltx_R tx) (ltx_S tx) (ether155V + sign) [])"

fun EncodeTransactions ::
  "(bytes list \<Rightarrow> bytes) \<Rightarrow> (int \<Rightarrow> int) \<Rightarrow> u64 \<Rightarrow> LegacyTx list \<Rightarrow> u8 list \<Rightarrow> (CodecError, bytes) outcome" where
  "EncodeTransactions rlpEnc chainId forkID [] pcts = Ok []"
| "EncodeTransactions rlpEnc chainId forkID (tx # txs) pcts =
     bind_outcome (prepareRPLTxData rlpEnc chainId tx) (\<lambda>txData.
     bind_outcome
       (if forkID \<ge> FORKID_DRAGONFRUIT then
          (case pcts of
             [] \<Rightarrow> Panic
           | p # _ \<Rightarrow> (case DecodeHex (hexText (unat p)) of Inl e \<Rightarrow> Err (ErrHex e) | Inr b \<Rightarrow> Ok b))
        else Ok []) (\<lambda>pct.
     bind_outcome (EncodeTransactions rlpEnc chainId forkID txs (tl pcts)) (\<lambda>rest.
     Ok (txData @ pct @ rest))))"

fun EncodeTransactionsWithoutEffectivePercentage ::
  "(bytes list \<Rightarrow> bytes) \<Rightarrow> (int \<Rightarrow> int) \<Rightarrow> LegacyTx list \<Rightarrow> (CodecError, bytes) outcome" where
  "EncodeTransactionsWithoutEffectivePercentage rlpEnc chainId [] = Ok []"
| "EncodeTransactionsWithoutEffectivePercentage rlpEnc chainId (tx # txs) =
     bind_outcome (prepareRPLTxData rlpEnc chainId tx) (\<lambda>txData.
     bind_outcome (EncodeTransactionsWithoutEffectivePercentage rlpEnc chainId txs) (\<lambda>rest.
     Ok (txData @ rest)))"

definition EncodeTransactionWithoutEffectivePercentage ::
  "(bytes list \<Rightarrow> bytes) \<Rightarrow> (int \<Rightarrow> int) \<Rightarrow> LegacyTx \<Rightarrow> (CodecError, bytes) outcome" where
  "EncodeTransactionWithoutEffectivePercentage rlpEnc chainId tx =
     EncodeTransactionsWithoutEffectivePercentage rlpEnc chainId [tx]"

definition EncodeTransaction ::
  "(bytes list \<Rightarrow> bytes) \<Rightarrow> (int \<Rightarrow> int) \<Rightarrow> LegacyTx \<Rightarrow> u8 \<Rightarrow> u64 \<Rightarrow> (CodecError, bytes) outcome" where
  "EncodeTransaction rlpEnc chainId tx effectivePercentage forkID =
     EncodeTransactions rlpEnc chainId forkID [tx] [effectivePercentage]"

definition EncodeUnsignedTransaction ::
  "(bytes list \<Rightarrow> bytes) \<Rightarrow> LegacyTx \<Rightarrow> u64 \<Rightarrow> u64 option \<Rightarrow> u64 \<Rightarrow> (CodecError, bytes) outcome" where
  "EncodeUnsignedTransaction rlpEnc tx chainID forcedNonce forkID =
     (let sign = signOf 0x1c;
          r = 0xa54492cfacf71aef702421b7fbc70636537a7b2fbe5718c5ed970a001bb7756b;
          s = 0x2e9fb27acc75955b898f0b12ec52aa34bf08f01db654374484b80bf12f0d841e;
          nonce = (case forcedNonce of None \<Rightarrow> ltx_Nonce tx | Some n \<Rightarrow> n);
          flds = txFields nonce (ltx_GasPrice tx) (ltx_Gas tx) (ltx_To tx) (ltx_Value tx) (ltx_Data tx) @
                   [minBytes (unat chainID), minBytes 0, minBytes 0]
      in if ltx_GasPrice tx < 0 \<or> ltx_Value tx < 0 then Err ErrRlpNegative
         else signedTxData (rlpEnc flds) r s (ether155V + sign)
                (if forkID < FORKID_DRAGONFRUIT then [] else hexText 255))"

subsection \<open>Decoding transactions\<close>

definition slice :: "bytes \<Rightarrow> u64 \<Rightarrow> u64 \<Rightarrow> (CodecError, bytes) outcome" where
  "slice xs a b =
     (if a \<le> b \<and> unat b \<le> length xs then Ok (take (unat b - unat a) (drop (unat a) xs)) else Panic)"

text \<open>\<open>strconv.ParseUint\<close> of the hex text of some bytes.\<close>

definition parseUint :: "bytes \<Rightarrow> (CodecError, u64) outcome" where
  "parseUint bs =
     (if bs = [] \<or> be_val bs \<ge> 2 ^ 64 then Err ErrParseLength else Ok (of_nat (be_val bs)))"

definition RlpFieldsToLegacyTx ::
  "bytes list \<Rightarrow> bytes \<Rightarrow> bytes \<Rightarrow> bytes \<Rightarrow> (CodecError, LegacyTx) outcome" where
  "RlpFieldsToLegacyTx flds v r s =
     (if length flds < 6 then Err ErrTxTypeNotSupported
      else
        (let txV = (if length flds \<ge> 7
                    then (int (be_val v) - ether155V) + (int (be_val (flds ! 6)) * 2 + etherPre155V)
                    else int (be_val v))
         in Ok \<lparr>ltx_Nonce = of_nat (be_val (flds ! 0)), ltx_GasPrice = int (be_val (flds ! 1)),
                ltx_Gas = of_nat (be_val (flds ! 2)),
                ltx_To = (if flds ! 3 \<noteq> [] then Some (of_nat (be_val (flds ! 3))) else None),
                ltx_Value = int (be_val (flds ! 4)), ltx_Data = flds ! 5,
                ltx_V = txV, ltx_R = int (be_val r), ltx_S = int (be_val s)\<rparr>))"

text \<open>The pieces of a transaction that starts at \<open>pos\<close> and whose signature starts at \<open>dataStart\<close>.\<close>

definition decodeParts ::
  "(bytes \<Rightarrow> bytes list option) \<Rightarrow> CodecError \<Rightarrow> bytes \<Rightarrow> u64 \<Rightarrow> u64 \<Rightarrow> (CodecError, LegacyTx) outcome" where
  "decodeParts rlpDec rlpErr txsData pos dataStart =
     bind_outcome (slice txsData pos dataStart) (\<lambda>txInfo.
     bind_outcome (slice txsData dataStart (dataStart + rLength)) (\<lambda>rData.
     bind_outcome (slice txsData (dataStart + rLength) (dataStart + rLength + sLength)) (\<lambda>sData.
     bind_outcome (slice txsData (dataStart + rLength + sLength) (dataStart + rLength + sLength + vLength)) (\<lambda>vData.
     case rlpDec txInfo of
       None \<Rightarrow> Err rlpErr
     | Some rlpFields \<Rightarrow> RlpFieldsToLegacyTx rlpFields vData rData sData))))"

text \<open>
  The length of the RLP list at \<open>pos\<close> in \<open>DecodeTxs\<close>; \<open>Ok None\<close> is the exit that returns the nil
  error when the length bytes are cut off.
\<close>

definition decodeTxsLength :: "bytes \<Rightarrow> u64 \<Rightarrow> (CodecError, u64 option) outcome" where
  "decodeTxsLength txsData pos =
     bind_outcome (bind_outcome (slice txsData pos (pos + 1)) parseUint) (\<lambda>num.
       if num < c0 then Err ErrInvalidData
       else if num - c0 > shortRlp then
         if pos + 1 + num - f7 > of_nat (length txsData) then Ok None
         else
           bind_outcome (bind_outcome (slice txsData (pos + 1) (pos + 1 + num - f7)) parseUint) (\<lambda>n.
             if n + num < f7 then Err ErrInvalidData else Ok (Some (n + num - f7)))
       else Ok (Some (num - c0)))"

text \<open>One iteration of the loop of \<open>DecodeTxs\<close>: the transaction, its percentage and the new position.\<close>

definition decodeTxAt ::
  "(bytes \<Rightarrow> bytes list option) \<Rightarrow> bytes \<Rightarrow> u64 \<Rightarrow> u64 \<Rightarrow> (CodecError, (LegacyTx \<times> u8 list \<times> u64) option) outcome" where
  "decodeTxAt rlpDec txsData forkID pos =
     bind_outcome (decodeTxsLength txsData pos) (\<lambda>len.
     case len of
       None \<Rightarrow> Ok None
     | Some txLen \<Rightarrow>
         (let endPos0 = pos + txLen + rLength + sLength + vLength + headerByteLength;
              endPos = (if forkID \<ge> FORKID_DRAGONFRUIT then endPos0 + EfficiencyPercentageByteLength else endPos0);
              dataStart = pos + txLen + headerByteLength
          in if endPos > of_nat (length txsData) then Err ErrInvalidData
             else if endPos < pos then Err ErrInvalidData
             else
               bind_outcome
                 (if forkID \<ge> FORKID_DRAGONFRUIT
                  then bind_outcome (slice txsData (dataStart + rLength + sLength + vLength) endPos)
                         (\<lambda>e. if e = [] then Panic else Ok [hd e])
                  else Ok []) (\<lambda>pct.
               bind_outcome (decodeParts rlpDec ErrInvalidData txsData pos dataStart) (\<lambda>tx.
               Ok (Some (tx, pct, endPos))))))"

subsection \<open>Words as positions\<close>

lemma unat_of_nat_u64: "n < 2 ^ 64 \<Longrightarrow> unat (of_nat n :: u64) = n"
  by (simp add: unsigned_of_nat take_bit_nat_eq_self)

lemma of_nat_less_u64: "n < 2 ^ 64 \<Longrightarrow> (w :: u64) > of_nat n \<longleftrightarrow> n < unat w"
  by (simp add: word_less_nat_alt unat_of_nat_u64)

lemma unat_add_1: "unat (w :: u64) + 1 < 2 ^ 64 \<Longrightarrow> unat (w + 1) = unat w + 1"
  by (simp add: unat_word_ariths)

lemma slice_Ok: "slice xs a b = Ok ys \<longleftrightarrow>
  a \<le> b \<and> unat b \<le> length xs \<and> ys = take (unat b - unat a) (drop (unat a) xs)"
  by (auto simp: slice_def)

lemma slice_Ok_length: "slice xs a b = Ok ys \<Longrightarrow> length ys = unat b - unat a"
  by (auto simp: slice_Ok word_le_nat_alt)

text \<open>
  The signature of a transaction takes 65 bytes from \<open>dataStart\<close> on; when all its slices are in
  range nothing wraps.
\<close>

lemma decodeParts_Ok_bounds:
  assumes "decodeParts rlpDec e txsData pos dataStart = Ok tx"
  shows "unat pos \<le> unat dataStart \<and> unat dataStart + 65 \<le> length txsData \<and>
    unat (dataStart + rLength + sLength + vLength) = unat dataStart + 65"
proof -
  have a: "pos \<le> dataStart" "unat (dataStart + rLength) \<le> length txsData" "dataStart \<le> dataStart + rLength"
    and b: "dataStart + rLength \<le> dataStart + rLength + sLength" "unat (dataStart + rLength + sLength) \<le> length txsData"
    and c: "dataStart + rLength + sLength \<le> dataStart + rLength + sLength + vLength"
      "unat (dataStart + rLength + sLength + vLength) \<le> length txsData"
    using assms by (auto simp: decodeParts_def slice_Ok)
  have "unat (dataStart + rLength) = unat dataStart + 32"
    using a(3) unat_plus_simple[of dataStart rLength] by (simp add: rLength_def)
  moreover have "unat (dataStart + rLength + sLength) = unat (dataStart + rLength) + 32"
    using b(1) unat_plus_simple[of "dataStart + rLength" sLength] by (simp add: sLength_def)
  moreover have "unat (dataStart + rLength + sLength + vLength) = unat (dataStart + rLength + sLength) + 1"
    using c(1) unat_plus_simple[of "dataStart + rLength + sLength" vLength] by (simp add: vLength_def)
  ultimately show ?thesis using a(1) c(2) by (simp add: word_le_nat_alt)
qed

lemma decodeTxAt_OkD:
  assumes "decodeTxAt rlpDec txsData forkID pos = Ok (Some (tx, pct, endPos))"
  obtains txLen where "decodeTxsLength txsData pos = Ok (Some txLen)"
    "decodeParts rlpDec ErrInvalidData txsData pos (pos + txLen + headerByteLength) = Ok tx"
    "endPos = (if forkID \<ge> FORKID_DRAGONFRUIT
        then pos + txLen + rLength + sLength + vLength + headerByteLength + EfficiencyPercentageByteLength
        else pos + txLen + rLength + sLength + vLength + headerByteLength)"
    "forkID \<ge> FORKID_DRAGONFRUIT \<longrightarrow>
        (\<exists>ys. slice txsData (pos + txLen + headerByteLength + rLength + sLength + vLength) endPos = Ok ys \<and> ys \<noteq> [])"
proof -
  obtain txLen where l: "decodeTxsLength txsData pos = Ok (Some txLen)"
    using assms by (cases "decodeTxsLength txsData pos") (auto simp: decodeTxAt_def split: option.splits)
  show thesis
  proof (cases "forkID \<ge> FORKID_DRAGONFRUIT")
    case True
    then obtain ys where
      "decodeParts rlpDec ErrInvalidData txsData pos (pos + txLen + headerByteLength) = Ok tx"
      "endPos = pos + txLen + rLength + sLength + vLength + headerByteLength + EfficiencyPercentageByteLength"
      "slice txsData (pos + txLen + headerByteLength + rLength + sLength + vLength) endPos = Ok ys" "ys \<noteq> []"
      using assms by (auto simp: decodeTxAt_def l Let_def simp del: not_less split: if_splits)
    with True show thesis by (intro that[OF l]) auto
  next
    case False
    show thesis
      by (rule that[OF l])
        (use assms False in \<open>auto simp: decodeTxAt_def l Let_def simp del: not_less split: if_splits\<close>)
  qed
qed

lemma decodeTxAt_progress:
  assumes "decodeTxAt rlpDec txsData forkID pos = Ok (Some (tx, pct, endPos))"
  shows "unat pos < unat endPos \<and> unat endPos \<le> length txsData"
proof -
  from assms obtain txLen where
    parts: "decodeParts rlpDec ErrInvalidData txsData pos (pos + txLen + headerByteLength) = Ok tx"
    and e: "endPos = (if forkID \<ge> FORKID_DRAGONFRUIT
        then pos + txLen + rLength + sLength + vLength + headerByteLength + EfficiencyPercentageByteLength
        else pos + txLen + rLength + sLength + vLength + headerByteLength)"
    and p: "forkID \<ge> FORKID_DRAGONFRUIT \<longrightarrow>
        (\<exists>ys. slice txsData (pos + txLen + headerByteLength + rLength + sLength + vLength) endPos = Ok ys \<and> ys \<noteq> [])"
    by (rule decodeTxAt_OkD)
  let ?d = "pos + txLen + headerByteLength"
  note b = decodeParts_Ok_bounds[OF parts]
  have sum: "pos + txLen + rLength + sLength + vLength + headerByteLength = ?d + rLength + sLength + vLength"
    by (simp add: algebra_simps)
  show ?thesis
  proof (cases "forkID \<ge> FORKID_DRAGONFRUIT")
    case True
    then obtain ys where ys: "slice txsData (?d + rLength + sLength + vLength) endPos = Ok ys" "ys \<noteq> []"
      using p by blast
    have "length ys = unat endPos - unat (?d + rLength + sLength + vLength)" by (rule slice_Ok_length[OF ys(1)])
    then show ?thesis using ys b by (auto simp: slice_Ok)
  next
    case False
    then show ?thesis using b e sum by simp
  qed
qed

text \<open>The loop of \<open>DecodeTxs\<close>, with the transactions and percentages found so far.\<close>

function DecodeTxsLoop ::
  "(bytes \<Rightarrow> bytes list option) \<Rightarrow> bytes \<Rightarrow> u64 \<Rightarrow> u64 \<Rightarrow> LegacyTx list \<Rightarrow> u8 list \<Rightarrow>
   (CodecError, LegacyTx list \<times> u8 list) outcome" where
  "DecodeTxsLoop rlpDec txsData forkID pos txs pcts =
     (if pos < of_nat (length txsData) then
        (case decodeTxAt rlpDec txsData forkID pos of
           Panic \<Rightarrow> Panic
         | Err e \<Rightarrow> Err e
         | Ok None \<Rightarrow> Ok ([], [])
         | Ok (Some (tx, pct, endPos)) \<Rightarrow>
             DecodeTxsLoop rlpDec txsData forkID endPos (txs @ [tx]) (pcts @ pct))
      else Ok (txs, pcts))"
  by pat_completeness auto
termination
  by (relation "measure (\<lambda>(rlpDec, txsData, forkID, pos, txs, pcts). length txsData - unat pos)")
    (auto dest: decodeTxAt_progress)

declare DecodeTxsLoop.simps [simp del]

definition DecodeTxs ::
  "(bytes \<Rightarrow> bytes list option) \<Rightarrow> bytes \<Rightarrow> u64 \<Rightarrow> (CodecError, LegacyTx list \<times> u8 list) outcome" where
  "DecodeTxs rlpDec txsData forkID =
     (if length txsData = 0 then Ok ([], []) else DecodeTxsLoop rlpDec txsData forkID 0 [] [])"

subsection \<open>Etrog batches\<close>

unbundle bit_operations_syntax

definition serializeUint32 :: "u32 \<Rightarrow> bytes" where
  "serializeUint32 v = [ucast (drop_bit 24 v), ucast (drop_bit 16 v), ucast (drop_bit 8 v), ucast v]"

definition EncodeBlockHeaderV2 :: "bytes \<Rightarrow> L2BlockRaw \<Rightarrow> bytes" where
  "EncodeBlockHeaderV2 batchData block =
     batchData @ [changeL2Block] @ serializeUint32 (DeltaTimestamp block) @ serializeUint32 (IndexL1InfoTree block)"

definition encodeTxRLP ::
  "(bytes list \<Rightarrow> bytes) \<Rightarrow> (int \<Rightarrow> int) \<Rightarrow> bytes \<Rightarrow> L2TxRaw \<Rightarrow> (CodecError, bytes) outcome" where
  "encodeTxRLP rlpEnc chainId batchData tx =
     bind_outcome (prepareRPLTxData rlpEnc chainId (l2tx_Tx tx)) (\<lambda>rlpTx.
     Ok (batchData @ rlpTx @ [EfficiencyPercentage tx]))"

fun encodeBlockTxs ::
  "(bytes list \<Rightarrow> bytes) \<Rightarrow> (int \<Rightarrow> int) \<Rightarrow> bytes \<Rightarrow> L2TxRaw list \<Rightarrow> (CodecError, bytes) outcome" where
  "encodeBlockTxs rlpEnc chainId batchData [] = Ok batchData"
| "encodeBlockTxs rlpEnc chainId batchData (tx # txs) =
     bind_outcome (encodeTxRLP rlpEnc chainId batchData tx) (\<lambda>d. encodeBlockTxs rlpEnc chainId d txs)"

fun encodeBlocks ::
  "(bytes list \<Rightarrow> bytes) \<Rightarrow> (int \<Rightarrow> int) \<Rightarrow> bytes \<Rightarrow> L2BlockRaw list \<Rightarrow> (CodecError, bytes) outcome" where
  "encodeBlocks rlpEnc chainId batchData [] = Ok batchData"
| "encodeBlocks rlpEnc chainId batchData (block # blocks) =
     bind_outcome (encodeBlockTxs rlpEnc chainId (EncodeBlockHeaderV2 batchData block) (Transactions block))
       (\<lambda>d. encodeBlocks rlpEnc chainId d blocks)"

definition EncodeBatchV2 ::
  "(bytes list \<Rightarrow> bytes) \<Rightarrow> (int \<Rightarrow> int) \<Rightarrow> BatchRawV2 option \<Rightarrow> (CodecError, bytes) outcome" where
  "EncodeBatchV2 rlpEnc chainId batch =
     (case batch of
        None \<Rightarrow> Err ErrInvalidBatchV2
      | Some b \<Rightarrow>
          if length (Blocks b) = 0 then Err ErrInvalidBatchV2
          else encodeBlocks rlpEnc chainId [] (Blocks b))"

definition deserializeUint32 :: "bytes \<Rightarrow> nat \<Rightarrow> (CodecError, nat \<times> u32) outcome" where
  "deserializeUint32 txsData pos =
     (if int (length txsData) - int pos < 4 then Err ErrInvalidBatchV2
      else Ok (pos + 4,
        push_bit 24 (ucast (txsData ! pos)) OR push_bit 16 (ucast (txsData ! (pos + 1))) OR
        push_bit 8 (ucast (txsData ! (pos + 2))) OR ucast (txsData ! (pos + 3))))"

definition decodeBlockHeader :: "bytes \<Rightarrow> nat \<Rightarrow> (CodecError, nat \<times> L2BlockRaw) outcome" where
  "decodeBlockHeader txsData pos =
     bind_outcome (deserializeUint32 txsData pos) (\<lambda>(pos1, deltaTimestamp).
     bind_outcome (deserializeUint32 txsData pos1) (\<lambda>(pos2, indexL1InfoTree).
     Ok (pos2, \<lparr>DeltaTimestamp = deltaTimestamp, IndexL1InfoTree = indexL1InfoTree, Transactions = []\<rparr>)))"

definition decodeRLPListLengthFromOffset :: "bytes \<Rightarrow> nat \<Rightarrow> (CodecError, u64) outcome" where
  "decodeRLPListLengthFromOffset txsData offset =
     (if \<not> offset < length txsData then Panic
      else
        (let txDataLength = of_nat (length txsData);
             num = ucast (txsData ! offset);
             pos64 = of_nat offset;
             lengthInByteOfSize = num - f7
         in if num < c0 then Err ErrInvalidRLP
            else if num - c0 > shortRlp then
              if pos64 + headerByteLength + lengthInByteOfSize > txDataLength then Err ErrInvalidRLP
              else
                bind_outcome
                  (bind_outcome (slice txsData (pos64 + 1) (pos64 + 1 + lengthInByteOfSize)) parseUint)
                  (\<lambda>n. Ok (n + num - f7 + headerByteLength))
            else Ok (num - c0 + headerByteLength)))"

definition decodeTxRLP ::
  "(bytes \<Rightarrow> bytes list option) \<Rightarrow> bytes \<Rightarrow> nat \<Rightarrow> (CodecError, nat \<times> L2TxRaw) outcome" where
  "decodeTxRLP rlpDec txsData offset =
     bind_outcome (decodeRLPListLengthFromOffset txsData offset) (\<lambda>txLen.
       (let endPos = of_nat offset + txLen + rLength + sLength + vLength + EfficiencyPercentageByteLength;
            dataStart = of_nat offset + txLen;
            pctPos = dataStart + rLength + sLength + vLength
        in if endPos > of_nat (length txsData) then Err ErrInvalidBatchV2
           else
             bind_outcome (slice txsData (of_nat offset) endPos) (\<lambda>fullDataTx.
             if \<not> unat pctPos < length txsData then Panic
             else
               bind_outcome (decodeParts rlpDec ErrRlpDecode txsData (of_nat offset) dataStart) (\<lambda>tx.
               Ok (unat endPos, \<lparr>l2tx_Tx = tx, EfficiencyPercentage = txsData ! unat pctPos\<rparr>)))))"

lemma decodeBlockHeader_progress:
  "decodeBlockHeader txsData pos = Ok (pos', b) \<Longrightarrow> pos' = pos + 8 \<and> pos + 8 \<le> length txsData"
  by (auto simp: decodeBlockHeader_def deserializeUint32_def split: if_splits)

lemma decodeRLPListLength_inrange:
  "decodeRLPListLengthFromOffset txsData offset = Ok l \<Longrightarrow> offset < length txsData"
  by (simp add: decodeRLPListLengthFromOffset_def split: if_splits)

lemma decodeTxRLP_OkD:
  assumes "decodeTxRLP rlpDec txsData offset = Ok (pos', tx)"
  obtains txLen where "decodeRLPListLengthFromOffset txsData offset = Ok txLen"
    "decodeParts rlpDec ErrRlpDecode txsData (of_nat offset) (of_nat offset + txLen) = Ok (l2tx_Tx tx)"
    "pos' = unat (of_nat offset + txLen + rLength + sLength + vLength + EfficiencyPercentageByteLength)"
    "unat (of_nat offset + txLen + rLength + sLength + vLength) < length txsData"
proof -
  obtain txLen where l: "decodeRLPListLengthFromOffset txsData offset = Ok txLen"
    using assms by (cases "decodeRLPListLengthFromOffset txsData offset") (simp_all add: decodeTxRLP_def)
  show thesis
    by (rule that[OF l]) (use assms in \<open>auto simp: decodeTxRLP_def l Let_def split: if_splits\<close>)
qed

lemma decodeTxRLP_progress:
  assumes "decodeTxRLP rlpDec txsData offset = Ok (pos', tx)" "length txsData < 2 ^ 64"
  shows "offset < pos' \<and> pos' \<le> length txsData"
proof -
  from assms(1) obtain txLen where
    l: "decodeRLPListLengthFromOffset txsData offset = Ok txLen"
    and parts: "decodeParts rlpDec ErrRlpDecode txsData (of_nat offset) (of_nat offset + txLen) = Ok (l2tx_Tx tx)"
    and e: "pos' = unat (of_nat offset + txLen + rLength + sLength + vLength + EfficiencyPercentageByteLength)"
    and p: "unat (of_nat offset + txLen + rLength + sLength + vLength) < length txsData"
    by (rule decodeTxRLP_OkD)
  note off = decodeRLPListLength_inrange[OF l]
  note b = decodeParts_Ok_bounds[OF parts]
  have "unat (of_nat offset :: u64) = offset" using off assms(2) by (intro unat_of_nat_u64) simp
  moreover have "pos' = Suc (unat (of_nat offset + txLen + rLength + sLength + vLength))"
    unfolding e EfficiencyPercentageByteLength_def using p assms(2) by (subst unat_add_1) simp_all
  ultimately show ?thesis using b p by simp
qed

text \<open>
  The loop of \<open>DecodeBatchV2\<close> with the blocks so far and the current one.  A Go slice has fewer than
  \<open>2 ^ 63\<close> elements, which the loop condition states so that the recursion is well founded.
\<close>

function DecodeBatchV2Loop ::
  "(bytes \<Rightarrow> bytes list option) \<Rightarrow> bytes \<Rightarrow> nat \<Rightarrow> L2BlockRaw list \<Rightarrow> L2BlockRaw option \<Rightarrow>
   (CodecError, BatchRawV2) outcome" where
  "DecodeBatchV2Loop rlpDec txsData pos blocks currentBlock =
     (if pos < length txsData \<and> length txsData < 2 ^ 63 then
        if txsData ! pos = changeL2Block then
          (case decodeBlockHeader txsData (pos + 1) of
             Panic \<Rightarrow> Panic
           | Err e \<Rightarrow> Err e
           | Ok (pos', block) \<Rightarrow>
               DecodeBatchV2Loop rlpDec txsData pos'
                 (case currentBlock of None \<Rightarrow> blocks | Some b \<Rightarrow> blocks @ [b]) (Some block))
        else
          (case currentBlock of
             None \<Rightarrow>
               (case decodeTxRLP rlpDec txsData pos of
                  Panic \<Rightarrow> Panic
                | Err e \<Rightarrow> Err ErrInvalidBatchV2
                | Ok _ \<Rightarrow> Err ErrBatchV2DontStartWithChangeL2Block)
           | Some b \<Rightarrow>
               (case decodeTxRLP rlpDec txsData pos of
                  Panic \<Rightarrow> Panic
                | Err e \<Rightarrow> Err e
                | Ok (pos', tx) \<Rightarrow>
                    DecodeBatchV2Loop rlpDec txsData pos' blocks
                      (Some (b\<lparr>Transactions := Transactions b @ [tx]\<rparr>))))
      else Ok \<lparr>Blocks = (case currentBlock of None \<Rightarrow> blocks | Some b \<Rightarrow> blocks @ [b])\<rparr>)"
  by pat_completeness auto
termination
  by (relation "measure (\<lambda>(rlpDec, txsData, pos, blocks, currentBlock). length txsData - pos)")
    (auto dest: decodeBlockHeader_progress decodeTxRLP_progress)

declare DecodeBatchV2Loop.simps [simp del]

definition DecodeBatchV2 ::
  "(bytes \<Rightarrow> bytes list option) \<Rightarrow> bytes \<Rightarrow> (CodecError, BatchRawV2) outcome" where
  "DecodeBatchV2 rlpDec txsData = DecodeBatchV2Loop rlpDec txsData 0 [] None"

definition DecodeForcedBatchV2 ::
  "(bytes \<Rightarrow> bytes list option) \<Rightarrow> bytes \<Rightarrow> (CodecError, ForcedBatchRawV2) outcome" where
  "DecodeForcedBatchV2 rlpDec txsData =
     bind_outcome (DecodeTxs rlpDec txsData FORKID_ETROG) (\<lambda>(txs, efficiencyPercentages).
       if length efficiencyPercentages \<noteq> length txs then Err ErrInvalidRLP
       else Ok \<lparr>fb_Transactions =
              map2 (\<lambda>tx p. \<lparr>l2tx_Tx = tx, EfficiencyPercentage = p\<rparr>) txs efficiencyPercentages\<rparr>)"

subsection \<open>\<open>DecodeTxs\<close> does not panic\<close>

lemma slice_total:
  "unat a \<le> unat b \<Longrightarrow> unat b \<le> length xs \<Longrightarrow> slice xs a b = Ok (take (unat b - unat a) (drop (unat a) xs))"
  by (simp add: slice_def word_le_nat_alt)

lemma unat_add_u64: "unat (a :: u64) + unat b < 2 ^ 64 \<Longrightarrow> unat (a + b) = unat a + unat b"
  by (simp add: unat_word_ariths)

lemma parts_positions:
  assumes "unat d + 65 < 2 ^ 64"
  shows "unat (d + rLength) = unat d + 32" "unat (d + rLength + sLength) = unat d + 64"
    "unat (d + rLength + sLength + vLength) = unat d + 65"
proof -
  show a: "unat (d + rLength) = unat d + 32"
    using assms unat_add_u64[of d rLength] by (simp add: rLength_def)
  show b: "unat (d + rLength + sLength) = unat d + 64"
    using assms a unat_add_u64[of "d + rLength" sLength] by (simp add: sLength_def)
  show "unat (d + rLength + sLength + vLength) = unat d + 65"
    using assms b unat_add_u64[of "d + rLength + sLength" vLength] by (simp add: vLength_def)
qed

lemma decodeParts_eq:
  assumes "unat pos \<le> unat d" "unat d + 65 \<le> length xs" "length xs < 2 ^ 63"
  shows "decodeParts rlpDec e xs pos d =
    (case rlpDec (take (unat d - unat pos) (drop (unat pos) xs)) of
       None \<Rightarrow> Err e
     | Some fs \<Rightarrow> RlpFieldsToLegacyTx fs (take 1 (drop (unat d + 64) xs)) (take 32 (drop (unat d) xs))
         (take 32 (drop (unat d + 32) xs)))"
proof -
  note p = parts_positions[of d]
  have l: "unat d + 65 < 2 ^ 64" using assms by simp
  show ?thesis
    using assms unfolding decodeParts_def by (simp add: slice_total p[OF l] cong: option.case_cong)
qed

lemma RlpFields_no_panic [simp]: "RlpFieldsToLegacyTx fs v r s \<noteq> Panic"
  by (simp add: RlpFieldsToLegacyTx_def Let_def)

lemma be_val_single [simp]: "be_val [b] = unat b"
  by simp

lemma parseUint_short:
  assumes "bs \<noteq> []" "length bs \<le> 8"
  shows "parseUint bs = Ok (of_nat (be_val bs))"
proof -
  have "be_val bs < 256 ^ length bs" by (rule be_val_less)
  also have "\<dots> \<le> 256 ^ 8" using assms(2) by (intro power_increasing) simp_all
  finally show ?thesis using assms(1) by (simp add: parseUint_def)
qed

text \<open>The length field: in range it is read without panic, and the sum with the signature does not wrap.\<close>

definition listLength :: "bytes \<Rightarrow> nat \<Rightarrow> u64" where
  "listLength xs p = of_nat (be_val (take (unat (xs ! p) - 247) (drop (p + 1) xs)))"

lemma decodeTxsLength_eq:
  assumes "unat pos < length xs" "length xs < 2 ^ 63"
  shows "decodeTxsLength xs pos =
    (let num = unat (xs ! unat pos); n = listLength xs (unat pos)
     in if num < 192 then Err ErrInvalidData
        else if 247 < num then
          if length xs < unat pos + 1 + (num - 247) then Ok None
          else if n + of_nat num < 247 then Err ErrInvalidData else Ok (Some (n + of_nat num - 247))
        else Ok (Some (of_nat num - 192)))"
proof -
  define num where "num = unat (xs ! unat pos)"
  have num: "num < 256" unfolding num_def using unsigned_less[of "xs ! unat pos", where ?'a = nat] by simp
  have p1: "unat (pos + 1) = unat pos + 1" using assms by (intro unat_add_1) simp
  have b: "take (unat (pos + 1) - unat pos) (drop (unat pos) xs) = [xs ! unat pos]"
    using assms(1) by (simp add: p1 take_Suc_conv_app_nth)
  have rd: "bind_outcome (slice xs pos (pos + 1)) parseUint = Ok (of_nat num)"
    using assms(1) b by (simp add: slice_total p1 parseUint_short num_def)
  have un: "unat (of_nat num :: u64) = num" using num by (intro unat_of_nat_u64) simp
  have len: "unat (of_nat (length xs) :: u64) = length xs" using assms(2) by (intro unat_of_nat_u64) simp
  have lt: "(of_nat num :: u64) < c0 \<longleftrightarrow> num < 192" by (simp add: word_less_nat_alt un c0_def)
  show ?thesis
  proof (cases "num < 192")
    case True
    then show ?thesis by (simp add: decodeTxsLength_def rd lt num_def[symmetric])
  next
    case False
    have un0: "unat (of_nat num - c0 :: u64) = num - 192"
      using False un by (subst unat_sub) (simp_all add: c0_def word_le_nat_alt un)
    have gt: "(of_nat num :: u64) - c0 > shortRlp \<longleftrightarrow> 247 < num"
      unfolding word_less_nat_alt un0 using False by (auto simp: shortRlp_def)
    show ?thesis
    proof (cases "247 < num")
      case True
      have e: "unat (pos + 1 + of_nat num - f7) = unat pos + 1 + (num - 247)"
      proof -
        have "unat (pos + 1 + of_nat num) = unat pos + 1 + num"
          using assms num p1 un by (subst unat_add_u64) simp_all
        then show ?thesis using True by (subst unat_sub) (simp_all add: f7_def word_le_nat_alt)
      qed
      have cmp: "pos + 1 + of_nat num - f7 > of_nat (length xs) \<longleftrightarrow> length xs < unat pos + 1 + (num - 247)"
        by (simp only: word_less_nat_alt e len)
      have rd2: "bind_outcome (slice xs (pos + 1) (pos + 1 + of_nat num - f7)) parseUint = Ok (listLength xs (unat pos))"
        if "\<not> length xs < unat pos + 1 + (num - 247)"
        using that True num
        by (simp add: slice_total e p1 parseUint_short listLength_def num_def[symmetric] not_less)
      show ?thesis
        using False True
        by (auto simp: decodeTxsLength_def rd lt gt cmp rd2 num_def[symmetric] f7_def[symmetric] simp del: not_less)
    next
      case nl: False
      then show ?thesis using False
        by (simp add: decodeTxsLength_def rd lt gt num_def[symmetric] c0_def[symmetric] del: not_less)
    qed
  qed
qed

lemma decodeTxsLength_bound:
  assumes "decodeTxsLength xs pos = Ok (Some txLen)" "unat pos < length xs" "length xs < 2 ^ 63"
  shows "unat txLen + 67 < 2 ^ 64"
proof -
  define num where "num = unat (xs ! unat pos)"
  have num: "num < 256" unfolding num_def using unsigned_less[of "xs ! unat pos", where ?'a = nat] by simp
  consider n where "txLen = n + of_nat num - 247" "\<not> n + of_nat num < 247" | "txLen = of_nat num - 192" "192 \<le> num"
    using assms(1) unfolding decodeTxsLength_eq[OF assms(2,3)] num_def[symmetric]
    by (auto simp: Let_def simp del: not_less split: if_splits)
  then show ?thesis
  proof cases
    case 1
    have "unat (n + of_nat num :: u64) < 2 ^ 64" using unsigned_less[of "n + of_nat num :: u64", where ?'a = nat] by simp
    moreover have "247 \<le> unat (n + of_nat num)" using 1(2) by (simp add: word_less_nat_alt not_less)
    ultimately show ?thesis using 1 by (simp add: unat_sub word_le_nat_alt)
  next
    case 2
    have "unat (of_nat num :: u64) = num" using num by (intro unat_of_nat_u64) simp
    then show ?thesis using 2 num by (simp add: unat_sub word_le_nat_alt)
  qed
qed

lemma endPos_positions:
  assumes "unat txLen + K < 2 ^ 64" "\<not> pos + txLen + of_nat K < pos" "K < 2 ^ 64"
  shows "unat (pos + txLen + of_nat K :: u64) = unat pos + unat txLen + K"
proof -
  have k: "unat (of_nat K :: u64) = K" using assms(3) by (rule unat_of_nat_u64)
  have x: "unat (txLen + of_nat K) = unat txLen + K" using assms(1) k by (subst unat_add_u64) simp_all
  have "pos \<le> pos + (txLen + of_nat K)" using assms(2) by (simp add: not_less add.assoc)
  then show ?thesis using x unat_plus_simple[of pos "txLen + of_nat K"] by (simp add: add.assoc)
qed

lemma endPos_sum:
  "pos + txLen + rLength + sLength + vLength + headerByteLength = pos + txLen + of_nat 66"
  "pos + txLen + rLength + sLength + vLength + headerByteLength + EfficiencyPercentageByteLength = pos + txLen + of_nat 67"
  by (simp_all add: codec_consts)

lemma decodeTxAt_eq:
  assumes "unat pos < length xs" "length xs < 2 ^ 63" "decodeTxsLength xs pos = Ok (Some txLen)"
    and "K = (if forkID \<ge> FORKID_DRAGONFRUIT then 67 else 66)"
  shows "decodeTxAt rlpDec xs forkID pos =
    (if length xs < unat pos + unat txLen + K then Err ErrInvalidData
     else bind_outcome (decodeParts rlpDec ErrInvalidData xs pos (pos + txLen + headerByteLength)) (\<lambda>tx.
       Ok (Some (tx, if forkID \<ge> FORKID_DRAGONFRUIT then [xs ! (unat pos + unat txLen + 66)] else [],
                 pos + txLen + of_nat K))))"
proof -
  have bnd: "unat txLen + 67 < 2 ^ 64" by (rule decodeTxsLength_bound[OF assms(3,1,2)])
  have K: "K \<le> 67" using assms(4) by simp
  define endPos where "endPos = pos + txLen + of_nat K"
  have eq: "(if forkID \<ge> FORKID_DRAGONFRUIT
      then pos + txLen + rLength + sLength + vLength + headerByteLength + EfficiencyPercentageByteLength
      else pos + txLen + rLength + sLength + vLength + headerByteLength) = endPos"
    unfolding endPos_sum endPos_def assms(4) by (simp add: EfficiencyPercentageByteLength_def)
  have len: "unat (of_nat (length xs) :: u64) = length xs" using assms(2) by (intro unat_of_nat_u64) simp
  show ?thesis
  proof (cases "endPos > of_nat (length xs) \<or> endPos < pos")
    case True
    have "length xs < unat pos + unat txLen + K"
    proof (rule ccontr)
      assume small: "\<not> ?thesis"
      then have "unat (txLen + of_nat K) = unat txLen + K" "unat (of_nat K :: u64) = K"
        using assms(1,2) K by (simp_all add: unat_add_u64 unat_of_nat_u64)
      then have "unat endPos = unat pos + unat txLen + K"
        unfolding endPos_def add.assoc using small assms(1,2) by (subst unat_add_u64) simp_all
      then show False using True small len by (auto simp: word_less_nat_alt)
    qed
    with True show ?thesis
      unfolding decodeTxAt_def assms(3) by (simp add: Let_def eq) blast
  next
    case False
    have e: "unat endPos = unat pos + unat txLen + K"
      unfolding endPos_def by (rule endPos_positions) (use False bnd K in \<open>auto simp: endPos_def\<close>)
    have le: "unat pos + unat txLen + K \<le> length xs"
      using False len e by (simp add: word_less_nat_alt)
    have pct: "bind_outcome (slice xs (pos + txLen + headerByteLength + rLength + sLength + vLength) endPos)
        (\<lambda>e. if e = [] then Panic else Ok [hd e]) = Ok [xs ! (unat pos + unat txLen + 66)]"
      if "forkID \<ge> FORKID_DRAGONFRUIT"
    proof -
      have k: "K = 67" using that assms(4) by simp
      have "unat (pos + txLen + of_nat 66) = unat pos + unat txLen + 66"
        by (rule endPos_positions) (use bnd e k le assms(2) in \<open>auto simp: word_less_nat_alt endPos_def unat_word_ariths\<close>)
      moreover have "pos + txLen + headerByteLength + rLength + sLength + vLength = pos + txLen + of_nat 66"
        by (simp add: codec_consts)
      ultimately have st: "unat (pos + txLen + headerByteLength + rLength + sLength + vLength) = unat pos + unat txLen + 66"
        by (simp only:)
      have "slice xs (pos + txLen + headerByteLength + rLength + sLength + vLength) endPos =
          Ok (take (unat endPos - (unat pos + unat txLen + 66)) (drop (unat pos + unat txLen + 66) xs))"
        unfolding st[symmetric] by (rule slice_total) (use le k e st in auto)
      then show ?thesis using le k e by (simp add: hd_drop_conv_nth)
    qed
    have cond: "\<not> endPos > of_nat (length xs)" "\<not> endPos < pos" using False by auto
    show ?thesis
    proof (cases "forkID \<ge> FORKID_DRAGONFRUIT")
      case True
      have "pos + txLen + rLength + sLength + vLength + headerByteLength + EfficiencyPercentageByteLength = endPos"
        using eq True by simp
      then show ?thesis
        using le cond True unfolding decodeTxAt_def assms(3)
        by (simp add: Let_def pct[OF True] endPos_def[symmetric])
    next
      case False
      have "pos + txLen + rLength + sLength + vLength + headerByteLength = endPos"
        using eq False by simp
      then show ?thesis
        using le cond False unfolding decodeTxAt_def assms(3) by (simp add: Let_def endPos_def[symmetric])
    qed
  qed
qed

lemma decodeParts_no_panic:
  assumes "unat pos \<le> unat d" "unat d + 65 \<le> length xs" "length xs < 2 ^ 63"
  shows "decodeParts rlpDec e xs pos d \<noteq> Panic"
  using assms by (simp add: decodeParts_eq split: option.split)

lemma unat_dataStart:
  assumes "unat (pos :: u64) + unat txLen + 1 < 2 ^ 64"
  shows "unat (pos + txLen + headerByteLength) = unat pos + unat txLen + 1"
proof -
  have "unat (pos + txLen) = unat pos + unat txLen" using assms by (intro unat_add_u64) simp
  then show ?thesis using assms by (simp add: headerByteLength_def unat_add_1)
qed

lemma decodeTxAt_no_panic:
  assumes "unat pos < length xs" "length xs < 2 ^ 63"
  shows "decodeTxAt rlpDec xs forkID pos \<noteq> Panic"
proof (cases "decodeTxsLength xs pos")
  case (Ok len)
  show ?thesis
  proof (cases len)
    case None
    then show ?thesis using Ok by (simp add: decodeTxAt_def)
  next
    case (Some txLen)
    note eq = decodeTxAt_eq[OF assms Ok[unfolded Some] refl, of rlpDec forkID]
    show ?thesis
    proof (cases "length xs < unat pos + unat txLen + 66")
      case True
      then show ?thesis unfolding eq by auto
    next
      case False
      have d: "unat (pos + txLen + headerByteLength) = unat pos + unat txLen + 1"
        using False assms by (intro unat_dataStart) simp
      have "decodeParts rlpDec ErrInvalidData xs pos (pos + txLen + headerByteLength) \<noteq> Panic"
        by (rule decodeParts_no_panic) (use False assms d in auto)
      then show ?thesis unfolding eq
        by (cases "decodeParts rlpDec ErrInvalidData xs pos (pos + txLen + headerByteLength)") auto
    qed
  qed
next
  case (Err e)
  then show ?thesis by (simp add: decodeTxAt_def)
next
  case Panic
  then show ?thesis using decodeTxsLength_eq[OF assms] by (auto simp: Let_def split: if_splits)
qed

lemma decodeTxAt_pct:
  "decodeTxAt rlpDec xs forkID pos = Ok (Some (tx, pct, endPos)) \<Longrightarrow>
   length pct = (if forkID \<ge> FORKID_DRAGONFRUIT then 1 else 0)"
  by (auto simp: decodeTxAt_def Let_def split: option.splits if_splits)

lemma DecodeTxsLoop_ok:
  assumes "length xs < 2 ^ 63"
  shows "DecodeTxsLoop rlpDec xs forkID pos txs pcts \<noteq> Panic \<and>
    (\<forall>txs' pcts'. DecodeTxsLoop rlpDec xs forkID pos txs pcts = Ok (txs', pcts') \<longrightarrow>
       (if forkID \<ge> FORKID_DRAGONFRUIT then length pcts = length txs else pcts = []) \<longrightarrow>
       (if forkID \<ge> FORKID_DRAGONFRUIT then length pcts' = length txs' else pcts' = []))"
  using assms
proof (induction rlpDec xs forkID pos txs pcts rule: DecodeTxsLoop.induct)
  case (1 rlpDec xs forkID pos txs pcts)
  show ?case
  proof (cases "pos < of_nat (length xs)")
    case False
    then show ?thesis by (simp add: DecodeTxsLoop.simps[of rlpDec xs forkID pos])
  next
    case True
    then have lt: "unat pos < length xs"
      using 1(2) by (simp add: word_less_nat_alt unat_of_nat_u64)
    show ?thesis
    proof (cases "decodeTxAt rlpDec xs forkID pos")
      case (Ok a)
      show ?thesis
      proof (cases a)
        case None
        then show ?thesis using Ok True by (simp add: DecodeTxsLoop.simps[of rlpDec xs forkID pos])
      next
        case (Some r)
        obtain tx pct endPos where r: "r = (tx, pct, endPos)" by (cases r)
        note IH = 1(1)[OF True Ok Some r[symmetric] refl 1(2)]
        have "DecodeTxsLoop rlpDec xs forkID pos txs pcts =
            DecodeTxsLoop rlpDec xs forkID endPos (txs @ [tx]) (pcts @ pct)"
          using Ok True Some r by (simp add: DecodeTxsLoop.simps[of rlpDec xs forkID pos])
        with IH decodeTxAt_pct[of rlpDec xs forkID pos tx pct endPos] Ok Some r show ?thesis by auto
      qed
    qed (use True decodeTxAt_no_panic[OF lt 1(2)] in
        \<open>simp_all add: DecodeTxsLoop.simps[of rlpDec xs forkID pos]\<close>)
  qed
qed



lemma replicate_numerals:
  "replicate 7 x = [x, x, x, x, x, x, x]" "replicate 8 x = [x, x, x, x, x, x, x, x]"
  by (simp_all add: numeral_eq_Suc)

definition wrappedBatch :: bytes where
  "wrappedBatch = [changeL2Block] @ replicate 8 0 @ [0xff] @ replicate 7 0xff @ [0xf6] @ replicate 56 0"

lemma wrappedBatch_unfold:
  "wrappedBatch = [changeL2Block, 0, 0, 0, 0, 0, 0, 0, 0, 0xff, 0xff, 0xff, 0xff, 0xff, 0xff, 0xff, 0xff, 0xf6] @
     replicate 56 0"
  unfolding wrappedBatch_def replicate_numerals by simp

lemma wrappedBatch_nth:
  "length wrappedBatch = 74" "wrappedBatch ! 0 = changeL2Block" "wrappedBatch ! 9 = 0xff"
  by (simp_all add: wrappedBatch_unfold nth_append)

lemma wrappedBatch_zeros:
  "wrappedBatch ! 1 = 0" "wrappedBatch ! 2 = 0" "wrappedBatch ! 3 = 0" "wrappedBatch ! 4 = 0"
  "wrappedBatch ! 5 = 0" "wrappedBatch ! 6 = 0" "wrappedBatch ! 7 = 0" "wrappedBatch ! 8 = 0"
  by (simp_all add: wrappedBatch_unfold nth_append)

lemma wrappedBatch_header:
  "decodeBlockHeader wrappedBatch 1 = Ok (9, \<lparr>DeltaTimestamp = 0, IndexL1InfoTree = 0, Transactions = []\<rparr>)"
  using wrappedBatch_zeros
  by (simp add: decodeBlockHeader_def deserializeUint32_def wrappedBatch_nth(1)
      numeral_2_eq_2[symmetric] numeral_3_eq_3[symmetric])

lemma wrappedBatch_size:
  "slice wrappedBatch 10 18 = Ok [0xff, 0xff, 0xff, 0xff, 0xff, 0xff, 0xff, 0xf6]"
  by (simp add: slice_def wrappedBatch_unfold)

lemma be_val_wrapped: "be_val [0xff, 0xff, 0xff, 0xff, 0xff, 0xff, 0xff, 0xf6] = 2 ^ 64 - 10"
  by simp

lemma wrappedBatch_length: "decodeRLPListLengthFromOffset wrappedBatch 9 = Ok (- 1)"
proof -
  have "parseUint [0xff, 0xff, 0xff, 0xff, 0xff, 0xff, 0xff, 0xf6] = Ok (of_nat (2 ^ 64 - 10))"
    unfolding parseUint_def be_val_wrapped by simp
  then show ?thesis using wrappedBatch_size
    by (simp add: decodeRLPListLengthFromOffset_def wrappedBatch_nth codec_consts)
qed

lemma wrappedBatch_tx: "decodeTxRLP rlpDec wrappedBatch 9 = Panic"
  by (simp add: decodeTxRLP_def wrappedBatch_length wrappedBatch_nth codec_consts slice_def decodeParts_def)

text \<open>
  C12: \<open>DecodeBatchV2\<close> has no such checks.  A batch of one block header followed by a list header
  that announces a length of \<open>2 ^ 64 - 10\<close> bytes makes the end position wrap to a valid one and
  the slice of the transaction run backwards, so that decoding it panics, for every RLP decoder.
\<close>

theorem DecodeBatchV2_panics_on_wrapped_length:
  "DecodeBatchV2 rlpDec
     ([changeL2Block] @ replicate 8 0 @ [0xff] @ replicate 7 0xff @ [0xf6] @ replicate 56 0) = Panic"
proof -
  have "DecodeBatchV2Loop rlpDec wrappedBatch 0 [] None = DecodeBatchV2Loop rlpDec wrappedBatch 9 []
      (Some \<lparr>DeltaTimestamp = 0, IndexL1InfoTree = 0, Transactions = []\<rparr>)"
    by (subst DecodeBatchV2Loop.simps) (simp add: wrappedBatch_nth wrappedBatch_header[simplified])
  moreover have "DecodeBatchV2Loop rlpDec wrappedBatch 9 [] (Some b) = Panic" for b
    by (subst DecodeBatchV2Loop.simps) (simp add: wrappedBatch_nth wrappedBatch_tx changeL2Block_def)
  ultimately show ?thesis unfolding wrappedBatch_def[symmetric] DecodeBatchV2_def by simp
qed

end
