(* ===== verification/Resources.thy ===== *)
theory Resources
  imports Prelude
begin

text \<open>
  The resources of a batch: the ZK counters and the byte size a batch or a transaction
  consumes (\<open>state/types.go\<close>), the limits of a batch (\<open>state/config.go\<close>), and
  the bookkeeping the sequencer does with them (\<open>sequencer/batch.go\<close>).  Receivers
  that the Go code updates in place are returned beside the error.
\<close>

subsection \<open>Data\<close>

record ZKCounters =
  GasUsed :: u64
  UsedKeccakHashes :: u32
  UsedPoseidonHashes :: u32
  UsedPoseidonPaddings :: u32
  UsedMemAligns :: u32
  UsedArithmetics :: u32
  UsedBinaries :: u32
  UsedSteps :: u32
  UsedSha256Hashes_V2 :: u32

record BatchResources =
  ZKCounters :: ZKCounters
  Bytes :: u64

record BatchConstraintsCfg =
  MaxTxsPerBatch :: u64
  MaxBatchBytesSize :: u64
  MaxCumulativeGasUsed :: u64
  MaxKeccakHashes :: u32
  MaxPoseidonHashes :: u32
  MaxPoseidonPaddings :: u32
  MaxMemAligns :: u32
  MaxArithmetics :: u32
  MaxBinaries :: u32
  MaxSteps :: u32
  MaxSHA256Hashes :: u32

datatype ResourceError =
    ZKCounterError string
  | UnderflowZKCounter string
  | ErrBatchResourceBytesUnderflow
  | BatchRemainingResourcesUnderflowError ResourceError

subsection \<open>Operations of \<open>state/types.go\<close>\<close>

definition ZKCounters_SumUp :: "ZKCounters \<Rightarrow> ZKCounters \<Rightarrow> ZKCounters" where
  "ZKCounters_SumUp z other =
     z\<lparr>GasUsed := GasUsed z + GasUsed other,
       UsedKeccakHashes := UsedKeccakHashes z + UsedKeccakHashes other,
       UsedPoseidonHashes := UsedPoseidonHashes z + UsedPoseidonHashes other,
       UsedPoseidonPaddings := UsedPoseidonPaddings z + UsedPoseidonPaddings other,
       UsedMemAligns := UsedMemAligns z + UsedMemAligns other,
       UsedArithmetics := UsedArithmetics z + UsedArithmetics other,
       UsedBinaries := UsedBinaries z + UsedBinaries other,
       UsedSteps := UsedSteps z + UsedSteps other,
       UsedSha256Hashes_V2 := UsedSha256Hashes_V2 z + UsedSha256Hashes_V2 other\<rparr>"

definition ZKCounters_Sub :: "ZKCounters \<Rightarrow> ZKCounters \<Rightarrow> ZKCounters \<times> ResourceError option" where
  "ZKCounters_Sub z other =
     (if GasUsed other > GasUsed z then (z, Some (ZKCounterError ''CumulativeGasUsed''))
      else if UsedKeccakHashes other > UsedKeccakHashes z
        then (z, Some (ZKCounterError ''UsedKeccakHashes''))
      else if UsedPoseidonHashes other > UsedPoseidonHashes z
        then (z, Some (ZKCounterError ''UsedPoseidonHashes''))
      else if UsedPoseidonPaddings other > UsedPoseidonPaddings z
        then (z, Some (UnderflowZKCounter ''UsedPoseidonPaddings''))
      else if UsedMemAligns other > UsedMemAligns z
        then (z, Some (ZKCounterError ''UsedMemAligns''))
      else if UsedArithmetics other > UsedArithmetics z
        then (z, Some (ZKCounterError ''UsedArithmetics''))
      else if UsedBinaries other > UsedBinaries z
        then (z, Some (ZKCounterError ''UsedBinaries''))
      else if UsedSteps other > UsedSteps z
        then (z, Some (ZKCounterError ''UsedSteps''))
      else if UsedSha256Hashes_V2 other > UsedSha256Hashes_V2 z
        then (z, Some (ZKCounterError ''UsedSha256Hashes_V2''))
      else
        (z\<lparr>GasUsed := GasUsed z - GasUsed other,
           UsedKeccakHashes := UsedKeccakHashes z - UsedKeccakHashes other,
           UsedPoseidonHashes := UsedPoseidonHashes z - UsedPoseidonHashes other,
           UsedPoseidonPaddings := UsedPoseidonPaddings z - UsedPoseidonPaddings other,
           UsedMemAligns := UsedMemAligns z - UsedMemAligns other,
           UsedArithmetics := UsedArithmetics z - UsedArithmetics other,
           UsedBinaries := UsedBinaries z - UsedBinaries other,
           UsedSteps := UsedSteps z - UsedSteps other,
           UsedSha256Hashes_V2 := UsedSha256Hashes_V2 z - UsedSha256Hashes_V2 other\<rparr>, None))"

definition BatchResources_Sub ::
  "BatchResources \<Rightarrow> BatchResources \<Rightarrow> BatchResources \<times> ResourceError option" where
  "BatchResources_Sub r other =
     (if Bytes other > Bytes r then (r, Some ErrBatchResourceBytesUnderflow)
      else
        (let bytesBackup = Bytes r;
             r1 = r\<lparr>Bytes := Bytes r - Bytes other\<rparr>;
             (zk, err) = ZKCounters_Sub (ZKCounters r1) (ZKCounters other);
             r2 = r1\<lparr>ZKCounters := zk\<rparr>
         in case err of
              Some e \<Rightarrow>
                (r2\<lparr>Bytes := bytesBackup\<rparr>, Some (BatchRemainingResourcesUnderflowError e))
            | None \<Rightarrow> (r2, None)))"

definition BatchResources_SumUp :: "BatchResources \<Rightarrow> BatchResources \<Rightarrow> BatchResources" where
  "BatchResources_SumUp r other =
     r\<lparr>Bytes := Bytes r + Bytes other,
       ZKCounters := ZKCounters_SumUp (ZKCounters r) (ZKCounters other)\<rparr>"

subsection \<open>Limits: \<open>state/config.go\<close> and \<open>sequencer/batch.go\<close>\<close>

definition IsWithinConstraints :: "BatchConstraintsCfg \<Rightarrow> ZKCounters \<Rightarrow> bool" where
  "IsWithinConstraints c counters \<longleftrightarrow>
     GasUsed counters \<le> MaxCumulativeGasUsed c \<and>
     UsedKeccakHashes counters \<le> MaxKeccakHashes c \<and>
     UsedPoseidonHashes counters \<le> MaxPoseidonHashes c \<and>
     UsedPoseidonPaddings counters \<le> MaxPoseidonPaddings c \<and>
     UsedMemAligns counters \<le> MaxMemAligns c \<and>
     UsedArithmetics counters \<le> MaxArithmetics c \<and>
     UsedBinaries counters \<le> MaxBinaries c \<and>
     UsedSteps counters \<le> MaxSteps c \<and>
     UsedSha256Hashes_V2 counters \<le> MaxSHA256Hashes c"

definition getMaxRemainingResources :: "BatchConstraintsCfg \<Rightarrow> BatchResources" where
  "getMaxRemainingResources c =
     \<lparr>ZKCounters = \<lparr>GasUsed = MaxCumulativeGasUsed c,
                    UsedKeccakHashes = MaxKeccakHashes c,
                    UsedPoseidonHashes = MaxPoseidonHashes c,
                    UsedPoseidonPaddings = MaxPoseidonPaddings c,
                    UsedMemAligns = MaxMemAligns c,
                    UsedArithmetics = MaxArithmetics c,
                    UsedBinaries = MaxBinaries c,
                    UsedSteps = MaxSteps c,
                    UsedSha256Hashes_V2 = MaxSHA256Hashes c\<rparr>,
      Bytes = MaxBatchBytesSize c\<rparr>"

definition getUsedBatchResources ::
  "BatchConstraintsCfg \<Rightarrow> BatchResources \<Rightarrow> BatchResources" where
  "getUsedBatchResources c r =
     (let z = ZKCounters r in
      \<lparr>ZKCounters = \<lparr>GasUsed = MaxCumulativeGasUsed c - GasUsed z,
                     UsedKeccakHashes = MaxKeccakHashes c - UsedKeccakHashes z,
                     UsedPoseidonHashes = MaxPoseidonHashes c - UsedPoseidonHashes z,
                     UsedPoseidonPaddings = MaxPoseidonPaddings c - UsedPoseidonPaddings z,
                     UsedMemAligns = MaxMemAligns c - UsedMemAligns z,
                     UsedArithmetics = MaxArithmetics c - UsedArithmetics z,
                     UsedBinaries = MaxBinaries c - UsedBinaries z,
                     UsedSteps = MaxSteps c - UsedSteps z,
                     UsedSha256Hashes_V2 = MaxSHA256Hashes c - UsedSha256Hashes_V2 z\<rparr>,
       Bytes = MaxBatchBytesSize c - Bytes r\<rparr>)"

definition getConstraintThresholdUint64 :: "u32 \<Rightarrow> u64 \<Rightarrow> u64" where
  "getConstraintThresholdUint64 pct input = (input * ucast pct) div 100"

definition getConstraintThresholdUint32 :: "u32 \<Rightarrow> u32 \<Rightarrow> u32" where
  "getConstraintThresholdUint32 pct input = (input * pct) div 100"

text \<open>
  \<open>isBatchResourcesExhausted\<close> returns the name of the first exhausted resource (the
  source's \<open>resourceDesc\<close>); \<open>None\<close> stands for the result \<open>false\<close>.
\<close>

definition isBatchResourcesExhausted ::
  "u32 \<Rightarrow> BatchConstraintsCfg \<Rightarrow> BatchResources \<Rightarrow> string option" where
  "isBatchResourcesExhausted pct c resources =
     (let zkCounters = ZKCounters resources in
      if Bytes resources \<le> getConstraintThresholdUint64 pct (MaxBatchBytesSize c)
        then Some ''MaxBatchBytesSize''
      else if UsedSteps zkCounters \<le> getConstraintThresholdUint32 pct (MaxSteps c)
        then Some ''MaxSteps''
      else if UsedPoseidonPaddings zkCounters
                \<le> getConstraintThresholdUint32 pct (MaxPoseidonPaddings c)
        then Some ''MaxPoseidonPaddings''
      else if UsedBinaries zkCounters \<le> getConstraintThresholdUint32 pct (MaxBinaries c)
        then Some ''MaxBinaries''
      else if UsedKeccakHashes zkCounters \<le> getConstraintThresholdUint32 pct (MaxKeccakHashes c)
        then Some ''MaxKeccakHashes''
      else if UsedArithmetics zkCounters \<le> getConstraintThresholdUint32 pct (MaxArithmetics c)
        then Some ''MaxArithmetics''
      else if UsedMemAligns zkCounters \<le> getConstraintThresholdUint32 pct (MaxMemAligns c)
        then Some ''MaxMemAligns''
      else if GasUsed zkCounters \<le> getConstraintThresholdUint64 pct (MaxCumulativeGasUsed c)
        then Some ''MaxCumulativeGasUsed''
      else if UsedSha256Hashes_V2 zkCounters
                \<le> getConstraintThresholdUint32 pct (MaxSHA256Hashes c)
        then Some ''MaxSHA256Hashes''
      else None)"

subsection \<open>The resource vector\<close>

text \<open>
  Every law about resources holds component by component.  \<open>dim\<close> names the ten
  components and \<open>rval\<close> reads one of them as a natural number, so that a law is stated
  once for all of them.
\<close>

datatype dim = DBytes | DGas | DKeccak | DPoseidon | DPadding | DMemAlign | DArith | DBinary
  | DSteps | DSha256

fun rval :: "dim \<Rightarrow> BatchResources \<Rightarrow> nat" where
  "rval DBytes r = unat (Bytes r)"
| "rval DGas r = unat (GasUsed (ZKCounters r))"
| "rval DKeccak r = unat (UsedKeccakHashes (ZKCounters r))"
| "rval DPoseidon r = unat (UsedPoseidonHashes (ZKCounters r))"
| "rval DPadding r = unat (UsedPoseidonPaddings (ZKCounters r))"
| "rval DMemAlign r = unat (UsedMemAligns (ZKCounters r))"
| "rval DArith r = unat (UsedArithmetics (ZKCounters r))"
| "rval DBinary r = unat (UsedBinaries (ZKCounters r))"
| "rval DSteps r = unat (UsedSteps (ZKCounters r))"
| "rval DSha256 r = unat (UsedSha256Hashes_V2 (ZKCounters r))"

definition fits :: "BatchResources \<Rightarrow> BatchResources \<Rightarrow> bool" where
  "fits other r \<longleftrightarrow> (\<forall>d. rval d other \<le> rval d r)"

lemma all_dim: "(\<forall>d. P d) \<longleftrightarrow> P DBytes \<and> P DGas \<and> P DKeccak \<and> P DPoseidon \<and> P DPadding \<and>
    P DMemAlign \<and> P DArith \<and> P DBinary \<and> P DSteps \<and> P DSha256"
  by (auto intro: dim.induct)

lemma fits_code [code]:
  "fits other r \<longleftrightarrow> Bytes other \<le> Bytes r \<and>
     GasUsed (ZKCounters other) \<le> GasUsed (ZKCounters r) \<and>
     UsedKeccakHashes (ZKCounters other) \<le> UsedKeccakHashes (ZKCounters r) \<and>
     UsedPoseidonHashes (ZKCounters other) \<le> UsedPoseidonHashes (ZKCounters r) \<and>
     UsedPoseidonPaddings (ZKCounters other) \<le> UsedPoseidonPaddings (ZKCounters r) \<and>
     UsedMemAligns (ZKCounters other) \<le> UsedMemAligns (ZKCounters r) \<and>
     UsedArithmetics (ZKCounters other) \<le> UsedArithmetics (ZKCounters r) \<and>
     UsedBinaries (ZKCounters other) \<le> UsedBinaries (ZKCounters r) \<and>
     UsedSteps (ZKCounters other) \<le> UsedSteps (ZKCounters r) \<and>
     UsedSha256Hashes_V2 (ZKCounters other) \<le> UsedSha256Hashes_V2 (ZKCounters r)"
  unfolding fits_def all_dim by (simp add: word_le_nat_alt)

lemma fits_refl [simp]: "fits r r"
  by (simp add: fits_def)

lemma fits_trans: "fits a b \<Longrightarrow> fits b c \<Longrightarrow> fits a c"
  by (auto simp: fits_def intro: order_trans)

lemma resources_eqI:
  assumes "\<And>d. rval d r = rval d r'"
  shows "r = (r' :: BatchResources)"
proof -
  have "ZKCounters r = ZKCounters r'"
    using assms[of DGas] assms[of DKeccak] assms[of DPoseidon] assms[of DPadding]
      assms[of DMemAlign] assms[of DArith] assms[of DBinary] assms[of DSteps] assms[of DSha256]
    by (intro ZKCounters.equality) (simp_all add: word_unat_eq_iff)
  moreover have "Bytes r = Bytes r'" using assms[of DBytes] by (simp add: word_unat_eq_iff)
  ultimately show ?thesis by (intro BatchResources.equality) simp_all
qed

subsection \<open>Subtraction\<close>

lemma ZKCounters_Sub_None:
  "snd (ZKCounters_Sub z other) = None \<longleftrightarrow>
     \<not> GasUsed other > GasUsed z \<and> \<not> UsedKeccakHashes other > UsedKeccakHashes z \<and>
     \<not> UsedPoseidonHashes other > UsedPoseidonHashes z \<and>
     \<not> UsedPoseidonPaddings other > UsedPoseidonPaddings z \<and>
     \<not> UsedMemAligns other > UsedMemAligns z \<and>
     \<not> UsedArithmetics other > UsedArithmetics z \<and>
     \<not> UsedBinaries other > UsedBinaries z \<and> \<not> UsedSteps other > UsedSteps z \<and>
     \<not> UsedSha256Hashes_V2 other > UsedSha256Hashes_V2 z"
  unfolding ZKCounters_Sub_def by (simp del: not_less)

lemma ZKCounters_Sub_fail: "snd (ZKCounters_Sub z other) \<noteq> None \<Longrightarrow> fst (ZKCounters_Sub z other) = z"
  unfolding ZKCounters_Sub_def by (simp del: not_less split: if_split_asm)

lemma BatchResources_Sub_cases:
  "BatchResources_Sub r other =
     (if Bytes other > Bytes r then (r, Some ErrBatchResourceBytesUnderflow)
      else case snd (ZKCounters_Sub (ZKCounters r) (ZKCounters other)) of
             Some e \<Rightarrow> (r, Some (BatchRemainingResourcesUnderflowError e))
           | None \<Rightarrow> (r\<lparr>Bytes := Bytes r - Bytes other,
                          ZKCounters := fst (ZKCounters_Sub (ZKCounters r) (ZKCounters other))\<rparr>, None))"
  using ZKCounters_Sub_fail[of "ZKCounters r" "ZKCounters other"]
  by (simp add: BatchResources_Sub_def Let_def split_beta split: option.split)

lemma BatchResources_Sub_None:
  "snd (BatchResources_Sub r other) = None \<longleftrightarrow>
     \<not> Bytes other > Bytes r \<and> snd (ZKCounters_Sub (ZKCounters r) (ZKCounters other)) = None"
  unfolding BatchResources_Sub_cases by (simp del: not_less split: option.split)

lemma Sub_fits: "snd (BatchResources_Sub r other) = None \<longleftrightarrow> fits other r"
  unfolding fits_code BatchResources_Sub_None ZKCounters_Sub_None linorder_not_less ..

lemma Sub_fails_unchanged: "\<not> fits other r \<Longrightarrow> fst (BatchResources_Sub r other) = r"
  using Sub_fits[of r other]
  by (cases "Bytes other > Bytes r"; cases "snd (ZKCounters_Sub (ZKCounters r) (ZKCounters other))")
    (simp_all add: BatchResources_Sub_cases)

lemma rval_Sub:
  assumes "fits other r"
  shows "rval d (fst (BatchResources_Sub r other)) = rval d r - rval d other"
proof -
  from assms have n: "\<not> Bytes other > Bytes r"
    "snd (ZKCounters_Sub (ZKCounters r) (ZKCounters other)) = None"
    using Sub_fits[of r other] by (auto simp: BatchResources_Sub_cases split: if_splits option.splits)
  note zk = n(2)[unfolded ZKCounters_Sub_None]
  show ?thesis
    using n(1) zk unfolding BatchResources_Sub_cases ZKCounters_Sub_def
    by (cases d) (simp_all add: unat_sub linorder_not_less leD)
qed

lemma fits_Sub: "fits (fst (BatchResources_Sub r other)) r"
  by (cases "fits other r") (auto simp: fits_def[of "fst _"] rval_Sub Sub_fails_unchanged)

lemma rval_max_used:
  assumes "fits r (getMaxRemainingResources c)"
  shows "rval d (getUsedBatchResources c r) = rval d (getMaxRemainingResources c) - rval d r"
  using assms unfolding fits_code getMaxRemainingResources_def getUsedBatchResources_def Let_def
  by (cases d) (simp_all add: unat_sub)

text \<open>
  \<open>charge\<close> follows one batch: the finalizer subtracts the resources of each executed
  transaction from what remains and keeps the transaction only when the subtraction
  succeeds.  It returns what remains and the resources of the transactions kept.
\<close>

fun charge :: "BatchResources \<Rightarrow> BatchResources list \<Rightarrow> BatchResources \<times> BatchResources list" where
  "charge r [] = (r, [])"
| "charge r (u # us) =
     (case BatchResources_Sub r u of
        (r', None) \<Rightarrow> (fst (charge r' us), u # snd (charge r' us))
      | (r', Some e) \<Rightarrow> charge r' us)"

lemma charge_fits: "fits (fst (charge r us)) r"
  by (induction r us rule: charge.induct)
    (auto split: prod.splits option.splits, (metis fits_Sub fits_trans fst_conv)+)

lemma charge_conserves: "rval d (fst (charge r us)) + (\<Sum>u\<leftarrow>snd (charge r us). rval d u) = rval d r"
proof (induction r us rule: charge.induct)
  case (1 r)
  then show ?case by simp
next
  case (2 r u us)
  show ?case
  proof (cases "fits u r")
    case True
    then obtain r' where r': "BatchResources_Sub r u = (r', None)"
      using Sub_fits[of r u] by (metis prod.collapse)
    have "rval d r' = rval d r - rval d u" "rval d u \<le> rval d r"
      using rval_Sub[OF True] r' True by (auto simp: fits_def)
    with r' 2(1)[OF r'[symmetric] refl] show ?thesis by simp
  next
    case False
    then obtain e where e: "BatchResources_Sub r u = (r, Some e)"
      using Sub_fits[of r u] Sub_fails_unchanged[of u r] by (metis not_None_eq prod.collapse)
    with 2(3)[OF e[symmetric] refl] show ?thesis by simp
  qed
qed

subsection \<open>Properties\<close>

text \<open>
  Subtracting resources is all-or-nothing.  When every component of the request is at
  most what remains, the subtraction succeeds, no component wraps around and adding the
  request back restores the receiver; otherwise an error is returned and the receiver is
  exactly what it was (the source restores the byte count it had already decremented).
\<close>

lemma BatchResources_Sub_all_or_nothing:
  "(fits other r \<longrightarrow>
      snd (BatchResources_Sub r other) = None \<and>
      (\<forall>d. rval d (fst (BatchResources_Sub r other)) = rval d r - rval d other) \<and>
      BatchResources_SumUp (fst (BatchResources_Sub r other)) other = r) \<and>
   (\<not> fits other r \<longrightarrow> (\<exists>e. BatchResources_Sub r other = (r, Some e)))"
proof (intro conjI impI)
  assume f: "fits other r"
  then show "snd (BatchResources_Sub r other) = None" by (simp add: Sub_fits)
  show "\<forall>d. rval d (fst (BatchResources_Sub r other)) = rval d r - rval d other"
    using rval_Sub[OF f] by simp
  show "BatchResources_SumUp (fst (BatchResources_Sub r other)) other = r"
  proof (rule resources_eqI)
    fix d
    have "rval d r < 2 ^ 64" "d \<noteq> DBytes \<and> d \<noteq> DGas \<Longrightarrow> rval d r < 2 ^ 32"
      using unsigned_less[where ?'a = nat, of "GasUsed (ZKCounters r)"]
      by (cases d; simp add: unsigned_less[where ?'a = nat, THEN less_le_trans])+
    then show "rval d (BatchResources_SumUp (fst (BatchResources_Sub r other)) other) = rval d r"
      using rval_Sub[OF f, of d] f[unfolded fits_def, rule_format, of d]
      by (cases d) (simp_all add: BatchResources_SumUp_def ZKCounters_SumUp_def unat_word_ariths)
  qed
next
  assume "\<not> fits other r"
  then show "\<exists>e. BatchResources_Sub r other = (r, Some e)"
    using Sub_fits[of r other] Sub_fails_unchanged[of other r] by (metis not_None_eq prod.collapse)
qed

text \<open>
  C8: resource accounting of a batch.  For any sequence of transactions tried against a fresh
  batch, the resources reported when the batch closes (\<open>getUsedBatchResources\<close> of what
  remains) are, in every component, the exact sum of the accepted transactions' resources,
  and that sum never exceeds the configured limit.
\<close>

theorem batch_accounting_exact:
  "rval d (getUsedBatchResources c (fst (charge (getMaxRemainingResources c) us)))
     = (\<Sum>u\<leftarrow>snd (charge (getMaxRemainingResources c) us). rval d u) \<and>
   (\<Sum>u\<leftarrow>snd (charge (getMaxRemainingResources c) us). rval d u)
     \<le> rval d (getMaxRemainingResources c)"
  using charge_conserves[of d "getMaxRemainingResources c" us]
    rval_max_used[OF charge_fits[of "getMaxRemainingResources c" us], of d]
  by linarith

subsection \<open>The closing threshold\<close>

lemma unat_threshold32:
  assumes "unat input * unat pct < 2 ^ 32"
  shows "unat (getConstraintThresholdUint32 pct input) = unat input * unat pct div 100"
  using assms by (simp add: getConstraintThresholdUint32_def unat_div_distrib unat_word_ariths)

lemma unat_threshold64:
  assumes "unat input * unat pct < 2 ^ 64"
  shows "unat (getConstraintThresholdUint64 pct input) = unat input * unat pct div 100"
proof -
  have "unat (ucast pct :: u64) = unat pct"
    using unsigned_less[where ?'a = nat, of pct] by (simp add: unsigned_ucast_eq take_bit_nat_eq_self)
  with assms show ?thesis
    by (simp add: getConstraintThresholdUint64_def unat_div_distrib unat_word_ariths)
qed

text \<open>
  \<open>no_threshold_overflow\<close>: none of the products \<open>limit * percentage\<close> leaves the
  width it is computed in (64 bits for bytes and gas, 32 bits for the other counters).
\<close>

definition no_threshold_overflow :: "u32 \<Rightarrow> BatchConstraintsCfg \<Rightarrow> bool" where
  "no_threshold_overflow pct c \<longleftrightarrow>
     unat (MaxBatchBytesSize c) * unat pct < 2 ^ 64 \<and>
     unat (MaxCumulativeGasUsed c) * unat pct < 2 ^ 64 \<and>
     unat (MaxKeccakHashes c) * unat pct < 2 ^ 32 \<and>
     unat (MaxPoseidonPaddings c) * unat pct < 2 ^ 32 \<and>
     unat (MaxMemAligns c) * unat pct < 2 ^ 32 \<and>
     unat (MaxArithmetics c) * unat pct < 2 ^ 32 \<and>
     unat (MaxBinaries c) * unat pct < 2 ^ 32 \<and>
     unat (MaxSteps c) * unat pct < 2 ^ 32 \<and>
     unat (MaxSHA256Hashes c) * unat pct < 2 ^ 32"

text \<open>
  The closing test.  When no product overflows, \<open>isBatchResourcesExhausted\<close> answers
  \<open>false\<close> exactly when every resource except the Poseidon hashes has strictly more left
  than the configured percentage of its limit.
\<close>

lemma isBatchResourcesExhausted_None:
  assumes "no_threshold_overflow pct c"
  shows "isBatchResourcesExhausted pct c r = None \<longleftrightarrow>
     (\<forall>d. d \<noteq> DPoseidon \<longrightarrow> rval d (getMaxRemainingResources c) * unat pct div 100 < rval d r)"
proof -
  note o = assms[unfolded no_threshold_overflow_def]
  have "isBatchResourcesExhausted pct c r = None \<longleftrightarrow>
     \<not> Bytes r \<le> getConstraintThresholdUint64 pct (MaxBatchBytesSize c) \<and>
     \<not> UsedSteps (ZKCounters r) \<le> getConstraintThresholdUint32 pct (MaxSteps c) \<and>
     \<not> UsedPoseidonPaddings (ZKCounters r) \<le> getConstraintThresholdUint32 pct (MaxPoseidonPaddings c) \<and>
     \<not> UsedBinaries (ZKCounters r) \<le> getConstraintThresholdUint32 pct (MaxBinaries c) \<and>
     \<not> UsedKeccakHashes (ZKCounters r) \<le> getConstraintThresholdUint32 pct (MaxKeccakHashes c) \<and>
     \<not> UsedArithmetics (ZKCounters r) \<le> getConstraintThresholdUint32 pct (MaxArithmetics c) \<and>
     \<not> UsedMemAligns (ZKCounters r) \<le> getConstraintThresholdUint32 pct (MaxMemAligns c) \<and>
     \<not> GasUsed (ZKCounters r) \<le> getConstraintThresholdUint64 pct (MaxCumulativeGasUsed c) \<and>
     \<not> UsedSha256Hashes_V2 (ZKCounters r) \<le> getConstraintThresholdUint32 pct (MaxSHA256Hashes c)"
    unfolding isBatchResourcesExhausted_def Let_def by (simp del: not_le)
  also have "\<dots> \<longleftrightarrow> (\<forall>d. d \<noteq> DPoseidon \<longrightarrow>
      rval d (getMaxRemainingResources c) * unat pct div 100 < rval d r)"
    unfolding all_dim word_le_nat_alt using o
    by (simp add: getMaxRemainingResources_def unat_threshold32 unat_threshold64 not_le)
      (blast)
  finally show ?thesis .
qed

definition sample_constraints :: BatchConstraintsCfg where
  "sample_constraints =
     \<lparr>MaxTxsPerBatch = 300, MaxBatchBytesSize = 120000, MaxCumulativeGasUsed = 30000000,
      MaxKeccakHashes = 2145, MaxPoseidonHashes = 252357, MaxPoseidonPaddings = 135191,
      MaxMemAligns = 236585, MaxArithmetics = 236585, MaxBinaries = 473170,
      MaxSteps = 7570538, MaxSHA256Hashes = 1596\<rparr>"

text \<open>
  The closing test never looks at the Poseidon hash counter: changing it does not change the
  answer, so a batch with none left is not closed on that account.
\<close>

lemma isBatchResourcesExhausted_ignores_poseidon:
  "isBatchResourcesExhausted pct c (r\<lparr>ZKCounters := (ZKCounters r)\<lparr>UsedPoseidonHashes := x\<rparr>\<rparr>)
     = isBatchResourcesExhausted pct c r"
  by (simp add: isBatchResourcesExhausted_def Let_def)

text \<open>
  The 32-bit product wraps: 90 percent of fifty million is computed as 2050327.
\<close>

lemma threshold32_overflow_example:
  "getConstraintThresholdUint32 90 50000000 = 2050327 \<and>
   unat (50000000 :: u32) * unat (90 :: u32) div 100 = 45000000"
  by (simp add: getConstraintThresholdUint32_def)

end
