(* ===== verification/PoolStorage.thy ===== *)
theory PoolStorage
  imports BatchCodec Resources
begin

text \<open>
  The tables of the pool database and the statements the node runs on them
  (\<open>pool/pgpoolstorage/pgpoolstorage.go\<close>, \<open>pool/transaction.go\<close>).  A table is the list of its rows;
  the primary key of the transaction table is the hash.  The rows of the gas price table are in
  the order of their serial number.  Every statement fails when the database is not available.
  The binary encoding of a transaction is decoded back to the same transaction, so that a row
  holds the transaction itself.
\<close>

subsection \<open>Rows\<close>

datatype TxStatus = TxStatusPending | TxStatusInvalid | TxStatusSelected | TxStatusFailed

record TxStatusUpdateInfo =
  ui_Hash :: hash
  ui_NewStatus :: TxStatus
  ui_IsWIP :: bool
  ui_FailedReason :: "string option"

record PoolTransaction =
  tr_Tx :: LegacyTx
  tr_Type :: u8
  tr_Status :: TxStatus
  tr_ZKCounters :: ZKCounters
  tr_ReceivedAt :: time
  tr_IsWIP :: bool
  tr_IP :: string
  tr_FailedReason :: "string option"

definition zeroCounters :: ZKCounters where
  "zeroCounters = \<lparr>GasUsed = 0, UsedKeccakHashes = 0, UsedPoseidonHashes = 0, UsedPoseidonPaddings = 0, UsedMemAligns = 0,
     UsedArithmetics = 0, UsedBinaries = 0, UsedSteps = 0, UsedSha256Hashes_V2 = 0\<rparr>"

definition NewTransaction :: "time \<Rightarrow> LegacyTx \<Rightarrow> u8 \<Rightarrow> string \<Rightarrow> bool \<Rightarrow> PoolTransaction" where
  "NewTransaction now tx ty ip isWIP =
     \<lparr>tr_Tx = tx, tr_Type = ty, tr_Status = TxStatusPending, tr_ZKCounters = zeroCounters, tr_ReceivedAt = now,
      tr_IsWIP = isWIP, tr_IP = ip, tr_FailedReason = None\<rparr>"

record txRow =
  row_hash :: hash
  row_tx :: PoolTransaction
  row_gas_price :: u64
  row_nonce :: u64
  row_from :: address

record gasPriceRow =
  gp_price :: u64
  gp_l1_price :: u64
  gp_timestamp :: time

record PoolDB =
  db_available :: bool
  db_transaction :: "txRow list"
  db_gas_price :: "gasPriceRow list"
  db_blocked :: "address list"

datatype StorageError = errDatabase | errSender | errNotFound

definition onDB :: "PoolDB \<Rightarrow> 'a \<Rightarrow> (StorageError, 'a) outcome" where
  "onDB db x = (if db_available db then Ok x else Err errDatabase)"

subsection \<open>Transactions\<close>

text \<open>The hash and the sender of a transaction (\<open>tx.Hash\<close>, \<open>GetSender\<close>) are arguments.\<close>

definition upsert :: "txRow \<Rightarrow> txRow list \<Rightarrow> txRow list" where
  "upsert r rows =
     (if \<exists>q\<in>set rows. row_hash q = row_hash r
      then map (\<lambda>q. if row_hash q = row_hash r then r else q) rows else rows @ [r])"

definition st_AddTx ::
  "(LegacyTx \<Rightarrow> hash) \<Rightarrow> (LegacyTx \<Rightarrow> address option) \<Rightarrow> PoolDB \<Rightarrow> PoolTransaction \<Rightarrow> (StorageError, PoolDB) outcome" where
  "st_AddTx txHash sender db tx =
     (case sender (tr_Tx tx) of
        None \<Rightarrow> Err errSender
      | Some fromAddress \<Rightarrow>
          onDB db (db\<lparr>db_transaction := upsert
            \<lparr>row_hash = txHash (tr_Tx tx), row_tx = tx\<lparr>tr_FailedReason := None\<rparr>,
             row_gas_price = uint64_of (ltx_GasPrice (tr_Tx tx)), row_nonce = ltx_Nonce (tr_Tx tx),
             row_from = fromAddress\<rparr> (db_transaction db)\<rparr>))"

definition takeLimit :: "u64 \<Rightarrow> 'a list \<Rightarrow> 'a list" where
  "takeLimit limit xs = (if limit = 0 then xs else take (unat limit) xs)"

text \<open>\<open>ORDER BY gas_price DESC\<close>; rows of equal price keep their order here, SQL leaves it open.\<close>

definition GetTxsByStatus :: "PoolDB \<Rightarrow> TxStatus \<Rightarrow> u64 \<Rightarrow> (StorageError, PoolTransaction list) outcome" where
  "GetTxsByStatus db status limit =
     onDB db (map row_tx (takeLimit limit
       (sort_key (\<lambda>r. - uint (row_gas_price r)) (filter (\<lambda>r. tr_Status (row_tx r) = status) (db_transaction db)))))"

definition GetNonWIPPendingTxs :: "PoolDB \<Rightarrow> (StorageError, PoolTransaction list) outcome" where
  "GetNonWIPPendingTxs db =
     onDB db (map row_tx
       (filter (\<lambda>r. \<not> tr_IsWIP (row_tx r) \<and> tr_Status (row_tx r) = TxStatusPending) (db_transaction db)))"

definition GetPendingTxHashesSince :: "PoolDB \<Rightarrow> time \<Rightarrow> (StorageError, hash list) outcome" where
  "GetPendingTxHashesSince db since =
     onDB db (map row_hash
       (filter (\<lambda>r. tr_Status (row_tx r) = TxStatusPending \<and> tr_ReceivedAt (row_tx r) \<ge> since) (db_transaction db)))"

definition GetTxs :: "PoolDB \<Rightarrow> TxStatus \<Rightarrow> u64 \<Rightarrow> u64 \<Rightarrow> (StorageError, PoolTransaction list) outcome" where
  "GetTxs db filterStatus minGasPrice limit =
     onDB db (map row_tx (take (unat limit)
       (sort_key (\<lambda>r. uint (row_nonce r))
         (filter (\<lambda>r. tr_Status (row_tx r) = filterStatus \<and> row_gas_price r \<ge> minGasPrice) (db_transaction db)))))"

definition CountTransactionsByStatus :: "PoolDB \<Rightarrow> TxStatus list \<Rightarrow> (StorageError, u64) outcome" where
  "CountTransactionsByStatus db status =
     onDB db (of_nat (length (filter (\<lambda>r. tr_Status (row_tx r) \<in> set status) (db_transaction db))))"

definition CountTransactionsByFromAndStatus :: "PoolDB \<Rightarrow> address \<Rightarrow> TxStatus list \<Rightarrow> (StorageError, u64) outcome" where
  "CountTransactionsByFromAndStatus db from status =
     onDB db (of_nat (length (filter (\<lambda>r. row_from r = from \<and> tr_Status (row_tx r) \<in> set status) (db_transaction db))))"

definition updateRow :: "hash \<Rightarrow> (PoolTransaction \<Rightarrow> PoolTransaction) \<Rightarrow> txRow list \<Rightarrow> txRow list" where
  "updateRow h f = map (\<lambda>r. if row_hash r = h then r\<lparr>row_tx := f (row_tx r)\<rparr> else r)"

definition st_UpdateTxStatus :: "PoolDB \<Rightarrow> TxStatusUpdateInfo \<Rightarrow> (StorageError, PoolDB) outcome" where
  "st_UpdateTxStatus db info =
     onDB db (db\<lparr>db_transaction := updateRow (ui_Hash info)
       (\<lambda>t. let t1 = t\<lparr>tr_Status := ui_NewStatus info, tr_IsWIP := ui_IsWIP info\<rparr>
            in case ui_FailedReason info of None \<Rightarrow> t1 | Some reason \<Rightarrow> t1\<lparr>tr_FailedReason := Some reason\<rparr>)
       (db_transaction db)\<rparr>)"

fun st_UpdateTxsStatus :: "PoolDB \<Rightarrow> TxStatusUpdateInfo list \<Rightarrow> (StorageError, PoolDB) outcome" where
  "st_UpdateTxsStatus db [] = Ok db"
| "st_UpdateTxsStatus db (i # is) = bind_outcome (st_UpdateTxStatus db i) (\<lambda>db1. st_UpdateTxsStatus db1 is)"

definition DeleteTransactionsByHashes :: "PoolDB \<Rightarrow> hash list \<Rightarrow> (StorageError, PoolDB) outcome" where
  "DeleteTransactionsByHashes db hashes =
     onDB db (db\<lparr>db_transaction := filter (\<lambda>r. row_hash r \<notin> set hashes) (db_transaction db)\<rparr>)"

definition DeleteFailedTransactionsOlderThan :: "PoolDB \<Rightarrow> time \<Rightarrow> (StorageError, PoolDB) outcome" where
  "DeleteFailedTransactionsOlderThan db date =
     onDB db (db\<lparr>db_transaction :=
       filter (\<lambda>r. \<not> (tr_Status (row_tx r) = TxStatusFailed \<and> tr_ReceivedAt (row_tx r) < date)) (db_transaction db)\<rparr>)"

definition st_IsTxPending :: "PoolDB \<Rightarrow> hash \<Rightarrow> (StorageError, bool) outcome" where
  "st_IsTxPending db h =
     onDB db (\<exists>r\<in>set (db_transaction db). row_hash r = h \<and> tr_Status (row_tx r) = TxStatusPending)"

definition GetTxsByFromAndNonce :: "PoolDB \<Rightarrow> address \<Rightarrow> u64 \<Rightarrow> (StorageError, PoolTransaction list) outcome" where
  "GetTxsByFromAndNonce db from nonce =
     onDB db (map row_tx (filter (\<lambda>r. row_from r = from \<and> row_nonce r = nonce) (db_transaction db)))"

definition rowOf :: "PoolDB \<Rightarrow> hash \<Rightarrow> txRow option" where
  "rowOf db h = find (\<lambda>r. row_hash r = h) (db_transaction db)"

definition GetTxFromAddressFromByHash :: "PoolDB \<Rightarrow> hash \<Rightarrow> (StorageError, address \<times> u64) outcome" where
  "GetTxFromAddressFromByHash db h =
     bind_outcome (onDB db (rowOf db h)) (\<lambda>x. case x of None \<Rightarrow> Err errNotFound | Some r \<Rightarrow> Ok (row_from r, row_nonce r))"

definition GetTxByHash :: "PoolDB \<Rightarrow> hash \<Rightarrow> (StorageError, PoolTransaction) outcome" where
  "GetTxByHash db h =
     bind_outcome (onDB db (rowOf db h)) (\<lambda>x. case x of
        None \<Rightarrow> Err errNotFound
      | Some r \<Rightarrow> Ok ((row_tx r)\<lparr>tr_ZKCounters := zeroCounters, tr_FailedReason := None\<rparr>))"

definition GetTxZkCountersByHash :: "PoolDB \<Rightarrow> hash \<Rightarrow> (StorageError, ZKCounters) outcome" where
  "GetTxZkCountersByHash db h =
     bind_outcome (onDB db (rowOf db h)) (\<lambda>x. case x of None \<Rightarrow> Err errNotFound | Some r \<Rightarrow> Ok (tr_ZKCounters (row_tx r)))"

text \<open>The next nonce of an address; the sum wraps after the largest nonce.\<close>

definition st_GetNonce :: "PoolDB \<Rightarrow> address \<Rightarrow> (StorageError, u64) outcome" where
  "st_GetNonce db a =
     (let ns = map row_nonce (filter (\<lambda>r. row_from r = a \<and>
            (tr_Status (row_tx r) = TxStatusPending \<or> tr_Status (row_tx r) = TxStatusSelected)) (db_transaction db))
      in onDB db (if ns = [] then 0 else Max (set ns) + 1))"

definition MarkWIPTxsAsPending :: "PoolDB \<Rightarrow> (StorageError, PoolDB) outcome" where
  "MarkWIPTxsAsPending db =
     onDB db (db\<lparr>db_transaction := map (\<lambda>r. if tr_IsWIP (row_tx r) then r\<lparr>row_tx := (row_tx r)\<lparr>tr_IsWIP := False\<rparr>\<rparr> else r)
       (db_transaction db)\<rparr>)"

definition st_UpdateTxWIPStatus :: "PoolDB \<Rightarrow> hash \<Rightarrow> bool \<Rightarrow> (StorageError, PoolDB) outcome" where
  "st_UpdateTxWIPStatus db h isWIP =
     onDB db (db\<lparr>db_transaction := updateRow h (\<lambda>t. t\<lparr>tr_IsWIP := isWIP\<rparr>) (db_transaction db)\<rparr>)"

definition GetAllAddressesBlocked :: "PoolDB \<Rightarrow> (StorageError, address list) outcome" where
  "GetAllAddressesBlocked db = onDB db (db_blocked db)"

subsection \<open>Gas prices\<close>

definition st_SetGasPrices :: "time \<Rightarrow> PoolDB \<Rightarrow> u64 \<Rightarrow> u64 \<Rightarrow> (StorageError, PoolDB) outcome" where
  "st_SetGasPrices now db l2GasPrice l1GasPrice =
     onDB db (db\<lparr>db_gas_price := db_gas_price db @ [\<lparr>gp_price = l2GasPrice, gp_l1_price = l1GasPrice, gp_timestamp = now\<rparr>]\<rparr>)"

text \<open>An empty table gives zero prices: the query itself does not report that there are no rows.\<close>

definition st_GetGasPrices :: "PoolDB \<Rightarrow> (StorageError, u64 \<times> u64) outcome" where
  "st_GetGasPrices db =
     onDB db (if db_gas_price db = [] then (0, 0) else (gp_price (last (db_gas_price db)), gp_l1_price (last (db_gas_price db))))"

definition st_DeleteGasPricesHistoryOlderThan :: "PoolDB \<Rightarrow> time \<Rightarrow> (StorageError, PoolDB) outcome" where
  "st_DeleteGasPricesHistoryOlderThan db date =
     onDB db (db\<lparr>db_gas_price := (if db_gas_price db = [] then []
        else filter (\<lambda>g. \<not> gp_timestamp g < date) (butlast (db_gas_price db)) @ [last (db_gas_price db)])\<rparr>)"

definition MinL2GasPriceSince :: "PoolDB \<Rightarrow> time \<Rightarrow> (StorageError, u64) outcome" where
  "MinL2GasPriceSince db timestamp =
     (let ps = map gp_price (filter (\<lambda>g. gp_timestamp g \<ge> timestamp) (db_gas_price db));
          gasPrice = (if ps = [] then 0 else Min (set ps))
      in bind_outcome (onDB db gasPrice) (\<lambda>p. if p = 0 then Err errNotFound else Ok p))"

subsection \<open>The table keeps its key\<close>

definition key_ok :: "PoolDB \<Rightarrow> bool" where
  "key_ok db \<longleftrightarrow> distinct (map row_hash (db_transaction db))"

lemma upsert_hashes:
  "map row_hash (upsert r rows) =
     (if row_hash r \<in> row_hash ` set rows then map row_hash rows else map row_hash rows @ [row_hash r])"
proof -
  have "(\<exists>q\<in>set rows. row_hash q = row_hash r) \<longleftrightarrow> row_hash r \<in> row_hash ` set rows" by (metis image_iff)
  then show ?thesis by (auto simp: upsert_def)
qed

lemma upsert_set:
  "distinct (map row_hash rows) \<Longrightarrow>
   set (upsert r rows) = insert r {q \<in> set rows. row_hash q \<noteq> row_hash r}"
  by (auto simp: upsert_def split: if_splits)

lemma updateRow_hashes [simp]: "map row_hash (updateRow h f rows) = map row_hash rows"
  by (auto simp: updateRow_def)

lemma filter_key: "distinct (map row_hash rows) \<Longrightarrow> distinct (map row_hash (filter P rows))"
  by (simp add: distinct_map_filter)

lemma st_AddTx_key: "key_ok db \<Longrightarrow> st_AddTx txHash sender db tx = Ok db' \<Longrightarrow> key_ok db'"
  by (auto simp: st_AddTx_def onDB_def key_ok_def upsert_hashes split: option.splits if_splits)

end
