(* ===== verification/GoFloat.thy ===== *)
theory GoFloat
  imports Prelude Complex_Main "HOL-Library.Log_Nat"
begin

text \<open>
  Binary floating point as Go uses it, for \<open>float64\<close> and for \<open>big.Float\<close>: a finite number is a
  rational, and an operation rounds the exact result to the nearest number with \<open>p\<close> bits, ties
  to even.  The exponent range is not bounded, so subnormal numbers and overflow of \<open>float64\<close>
  to infinity are outside the model; the numbers the node computes with are gas prices and
  configured factors.
\<close>

subsection \<open>Rounding\<close>

definition roundEven :: "rat \<Rightarrow> int" where
  "roundEven x =
     (let f = \<lfloor>x\<rfloor>; d = x - of_int f
      in if d < 1 / 2 then f else if d > 1 / 2 then f + 1 else if even f then f else f + 1)"

text \<open>The exponent of the leading bit of a positive number.\<close>

definition ilog2 :: "rat \<Rightarrow> int" where
  "ilog2 x =
     (let (n, d) = quotient_of x; k = bitlen n - bitlen d
      in if 2 powi k \<le> x then k else k - 1)"

definition roundTo :: "nat \<Rightarrow> rat \<Rightarrow> rat" where
  "roundTo p x =
     (if x = 0 then 0
      else (let e = ilog2 \<bar>x\<bar> - (int p - 1) in sgn x * (of_int (roundEven (\<bar>x\<bar> / 2 powi e)) * 2 powi e)))"

abbreviation float64_mul :: "rat \<Rightarrow> rat \<Rightarrow> rat" where
  "float64_mul x y \<equiv> roundTo 53 (x * y)"

definition float64_of_u64 :: "u64 \<Rightarrow> rat" where
  "float64_of_u64 x = roundTo 53 (of_int (uint x))"

text \<open>
  The conversion \<open>uint64(f)\<close> truncates; outside the range of \<open>uint64\<close> the language leaves the value
  to the implementation, which is the argument \<open>outOfRange\<close>.
\<close>

definition u64_of_float :: "(rat \<Rightarrow> u64) \<Rightarrow> rat \<Rightarrow> u64" where
  "u64_of_float outOfRange x = (if - 1 < x \<and> x < 2 ^ 64 then word_of_int (if x < 0 then 0 else \<lfloor>x\<rfloor>) else outOfRange x)"

subsection \<open>\<open>big.Float\<close>\<close>

text \<open>A number or an infinity (with its sign), and the precision in bits; the sign of zero is not kept.\<close>

datatype bf_value = Fin rat | Inf bool

record bigFloat =
  bf_prec :: nat
  bf_val :: bf_value

definition bf_SetInt :: "int \<Rightarrow> bigFloat" where
  "bf_SetInt n = \<lparr>bf_prec = max 64 (nat (bitlen \<bar>n\<bar>)), bf_val = Fin (of_int n)\<rparr>"

definition bf_SetUint64 :: "u64 \<Rightarrow> bigFloat" where
  "bf_SetUint64 n = \<lparr>bf_prec = 64, bf_val = Fin (of_int (uint n))\<rparr>"

definition bf_SetFloat64 :: "rat \<Rightarrow> bigFloat" where
  "bf_SetFloat64 x = \<lparr>bf_prec = 53, bf_val = Fin x\<rparr>"

text \<open>\<open>x.Cmp(y) == 1\<close>.\<close>

definition bf_greater :: "bigFloat \<Rightarrow> bigFloat \<Rightarrow> bool" where
  "bf_greater x y \<longleftrightarrow>
     (case (bf_val x, bf_val y) of
        (Fin a, Fin b) \<Rightarrow> a > b
      | (Fin a, Inf neg) \<Rightarrow> neg
      | (Inf neg, Fin b) \<Rightarrow> \<not> neg
      | (Inf neg, Inf neg') \<Rightarrow> \<not> neg \<and> neg')"

text \<open>The operations into a fresh number; \<open>None\<close> is the panic for an undefined result.\<close>

definition bf_Quo :: "bigFloat \<Rightarrow> bigFloat \<Rightarrow> bigFloat option" where
  "bf_Quo x y =
     (let p = max (bf_prec x) (bf_prec y) in
      map_option (\<lambda>v. \<lparr>bf_prec = p, bf_val = v\<rparr>)
       (case (bf_val x, bf_val y) of
          (Fin a, Fin b) \<Rightarrow> if b \<noteq> 0 then Some (Fin (roundTo p (a / b))) else if a = 0 then None else Some (Inf (a < 0))
        | (Fin a, Inf neg) \<Rightarrow> Some (Fin 0)
        | (Inf neg, Fin b) \<Rightarrow> Some (Inf (neg \<noteq> (b < 0)))
        | (Inf neg, Inf neg') \<Rightarrow> None))"

definition bf_Mul :: "bigFloat \<Rightarrow> bigFloat \<Rightarrow> bigFloat option" where
  "bf_Mul x y =
     (let p = max (bf_prec x) (bf_prec y) in
      map_option (\<lambda>v. \<lparr>bf_prec = p, bf_val = v\<rparr>)
       (case (bf_val x, bf_val y) of
          (Fin a, Fin b) \<Rightarrow> Some (Fin (roundTo p (a * b)))
        | (Fin a, Inf neg) \<Rightarrow> if a = 0 then None else Some (Inf (neg \<noteq> (a < 0)))
        | (Inf neg, Fin b) \<Rightarrow> if b = 0 then None else Some (Inf (neg \<noteq> (b < 0)))
        | (Inf neg, Inf neg') \<Rightarrow> Some (Inf (neg \<noteq> neg'))))"

text \<open>\<open>x.Int(z)\<close>: \<open>z\<close> becomes the truncated number and is unchanged for an infinity.\<close>

definition bf_Int :: "bigFloat \<Rightarrow> int \<Rightarrow> int" where
  "bf_Int x z = (case bf_val x of Fin a \<Rightarrow> (if a < 0 then \<lceil>a\<rceil> else \<lfloor>a\<rfloor>) | Inf _ \<Rightarrow> z)"

subsection \<open>Rounding keeps representable bounds\<close>

lemma roundEven_ge: "of_int n \<le> x \<Longrightarrow> n \<le> roundEven x"
proof -
  assume "of_int n \<le> x"
  then have "n \<le> \<lfloor>x\<rfloor>" by (simp add: le_floor_iff)
  then show ?thesis by (auto simp: roundEven_def Let_def)
qed

lemma roundEven_le: "x \<le> of_int n \<Longrightarrow> roundEven x \<le> n"
proof -
  assume x: "x \<le> of_int n"
  show "roundEven x \<le> n"
  proof (cases "x = of_int n")
    case True
    then show ?thesis by (simp add: roundEven_def)
  next
    case False
    then have "\<lfloor>x\<rfloor> + 1 \<le> n" using x by linarith
    then show ?thesis by (auto simp: roundEven_def Let_def)
  qed
qed

lemma bitlen_powi:
  assumes "0 < n"
  shows "2 powi (bitlen n - 1) \<le> (of_int n :: rat)" "(of_int n :: rat) < 2 powi bitlen n"
proof -
  have k: "0 \<le> bitlen n - 1" "0 \<le> bitlen n" using assms bitlen_eq_zero_iff[of n] bitlen_nonneg[of n] by auto
  have "(of_int (2 ^ nat (bitlen n - 1)) :: rat) \<le> of_int n" "(of_int n :: rat) < of_int (2 ^ nat (bitlen n))"
    using bitlen_bounds[OF assms] by (simp_all only: of_int_le_iff of_int_less_iff)
  then show "2 powi (bitlen n - 1) \<le> (of_int n :: rat)" "(of_int n :: rat) < 2 powi bitlen n"
    using k by (simp_all add: power_int_def)
qed

lemma ilog2_bounds:
  assumes "0 < x"
  shows "2 powi ilog2 x \<le> x" "x < 2 powi (ilog2 x + 1)"
proof -
  obtain n d where q: "quotient_of x = (n, d)" by fastforce
  have d: "0 < d" using quotient_of_denom_pos[OF q] .
  have xe: "x = of_int n / of_int d" using quotient_of_div[OF q] .
  have n: "0 < n" using assms d unfolding xe by (simp add: zero_less_divide_iff)
  have bn: "2 powi (bitlen n - 1) \<le> (of_int n :: rat)" "(of_int n :: rat) < 2 powi bitlen n"
    and bd: "2 powi (bitlen d - 1) \<le> (of_int d :: rat)" "(of_int d :: rat) < 2 powi bitlen d"
    using bitlen_powi[OF n] bitlen_powi[OF d] by auto
  define k where "k = bitlen n - bitlen d"
  have "of_int n * 2 powi (bitlen d - 1) < 2 powi bitlen n * (of_int d :: rat)"
    using bn(2) bd(1) n d by (intro mult_less_le_imp_less) auto
  then have up: "x < 2 powi (k + 1)"
    using d by (simp add: xe k_def field_simps power_int_diff power_int_add)
  have "2 powi (bitlen n - 1) * (of_int d :: rat) < of_int n * 2 powi bitlen d"
    using bn(1) bd(2) n d by (intro mult_le_less_imp_less) auto
  then have lo: "2 powi (k - 1) < x"
    using d by (simp add: xe k_def field_simps power_int_diff power_int_add)
  show "2 powi ilog2 x \<le> x" "x < 2 powi (ilog2 x + 1)"
    using up lo by (auto simp: ilog2_def q k_def[symmetric])
qed

lemma roundPos_ge:
  assumes x: "0 < x" "of_int n \<le> x" and n: "0 \<le> n" "n \<le> 2 ^ p" and p: "0 < p"
  shows "of_int n \<le> roundTo p x"
proof -
  define E where "E = ilog2 x"
  define e where "e = E - (int p - 1)"
  note b = ilog2_bounds[OF x(1), folded E_def]
  have r: "roundTo p x = of_int (roundEven (x / 2 powi e)) * 2 powi e"
    using x(1) by (simp add: roundTo_def E_def e_def Let_def)
  have pos: "(0 :: rat) < 2 powi e" by simp
  show ?thesis
  proof (cases "e \<le> 0")
    case True
    have i: "of_int (n * 2 ^ nat (- e)) = (of_int n :: rat) / 2 powi e"
      using True by (simp add: power_int_def power_one_over)
    have "n * 2 ^ nat (- e) \<le> roundEven (x / 2 powi e)"
      by (rule roundEven_ge) (use x(2) pos i in \<open>simp add: divide_right_mono\<close>)
    then have "of_int n / 2 powi e \<le> (of_int (roundEven (x / 2 powi e)) :: rat)"
      unfolding i[symmetric] by (simp only: of_int_le_iff)
    then show ?thesis using pos by (simp add: r field_simps)
  next
    case False
    have "2 powi E = 2 ^ (p - 1) * (2 powi e :: rat)"
      using p by (cases p) (simp_all add: e_def power_int_diff power_int_add)
    then have "of_int (2 ^ (p - 1)) \<le> x / 2 powi e" using b(1) pos by (simp add: field_simps)
    then have "2 ^ (p - 1) \<le> roundEven (x / 2 powi e)" by (rule roundEven_ge)
    then have "2 ^ (p - 1) * 2 powi e \<le> roundTo p x"
      unfolding r by (intro mult_right_mono) (use pos in \<open>auto simp flip: of_int_le_iff\<close>)
    moreover have "(2 :: rat) powi 1 \<le> 2 powi e" using False by (intro power_int_increasing) auto
    then have "(2 :: rat) ^ (p - 1) * 2 \<le> 2 ^ (p - 1) * 2 powi e" by simp
    moreover have "(2 :: rat) ^ (p - 1) * 2 = 2 ^ p" using p by (cases p) auto
    moreover have "(of_int n :: rat) \<le> 2 ^ p" using n(2) by (metis of_int_le_iff of_int_numeral of_int_power)
    ultimately show ?thesis by linarith
  qed
qed

lemma roundPos_le:
  assumes x: "0 < x" "x \<le> of_int n" and n: "n < 2 ^ p" and p: "0 < p"
  shows "roundTo p x \<le> of_int n"
proof -
  define E where "E = ilog2 x"
  define e where "e = E - (int p - 1)"
  note b = ilog2_bounds[OF x(1), folded E_def]
  have r: "roundTo p x = of_int (roundEven (x / 2 powi e)) * 2 powi e"
    using x(1) by (simp add: roundTo_def E_def e_def Let_def)
  have pos: "(0 :: rat) < 2 powi e" by simp
  have "(of_int n :: rat) < of_int (2 ^ p)" using n by (simp only: of_int_less_iff)
  then have "2 powi E < (2 :: rat) powi int p"
    using b(1) x(2) unfolding power_int_of_nat of_int_power of_int_numeral by linarith
  then have "E < int p" using power_int_increasing[of "int p" E "2 :: rat"] by (meson not_le one_le_numeral)
  then have True: "e \<le> 0" by (simp add: e_def)
  have i: "of_int (n * 2 ^ nat (- e)) = (of_int n :: rat) / 2 powi e"
    using True by (simp add: power_int_def power_one_over)
  have "roundEven (x / 2 powi e) \<le> n * 2 ^ nat (- e)"
    by (rule roundEven_le) (use x(2) pos i in \<open>simp add: divide_right_mono\<close>)
  then have "(of_int (roundEven (x / 2 powi e)) :: rat) \<le> of_int n / 2 powi e"
    unfolding i[symmetric] by (simp only: of_int_le_iff)
  then show ?thesis using pos by (simp add: r field_simps)
qed

lemma roundTo_ge:
  assumes "of_int n \<le> x" "0 \<le> n" "n \<le> 2 ^ p" "0 < p"
  shows "of_int n \<le> roundTo p x"
  using assms roundPos_ge[of x n p] by (cases "x = 0") (auto simp: roundTo_def intro: order.strict_trans1)

lemma roundTo_nonneg: "0 \<le> x \<Longrightarrow> 0 < p \<Longrightarrow> 0 \<le> roundTo p x"
  using roundTo_ge[of 0 x p] by simp

lemma roundTo_int [simp]:
  assumes "0 \<le> n" "n < 2 ^ p" "0 < p"
  shows "roundTo p (of_int n) = of_int n"
  using assms roundPos_ge[of "of_int n" n p] roundPos_le[of "of_int n" n p]
  by (cases "n = 0") (auto simp: roundTo_def intro: antisym)

lemma roundEven_near: "\<bar>of_int (roundEven x) - x\<bar> \<le> 1 / 2"
  unfolding roundEven_def Let_def
  using of_int_floor_le[of x] floor_correct[of x] by (auto simp: abs_le_iff split: if_splits)

lemma roundTo_relative:
  assumes x: "0 < x" and p: "0 < p"
  shows "\<bar>roundTo p x - x\<bar> \<le> x / 2 ^ p"
proof -
  define E where "E = ilog2 x"
  define e where "e = E - (int p - 1)"
  have b: "2 powi E \<le> x" using ilog2_bounds[OF x] by (simp add: E_def)
  have r: "roundTo p x = of_int (roundEven (x / 2 powi e)) * 2 powi e"
    using x by (simp add: roundTo_def E_def e_def Let_def)
  have pos: "(0 :: rat) < 2 powi e" by simp
  have E: "2 powi E = 2 ^ (p - 1) * (2 powi e :: rat)"
    using p by (cases p) (simp_all add: e_def power_int_diff power_int_add)
  have "roundTo p x - x = (of_int (roundEven (x / 2 powi e)) - x / 2 powi e) * 2 powi e"
    using pos by (simp add: r field_simps)
  then have "\<bar>roundTo p x - x\<bar> \<le> 1 / 2 * 2 powi e"
    using roundEven_near[of "x / 2 powi e"] pos by (simp add: abs_mult mult_right_mono)
  also have "\<dots> = 2 powi E / 2 ^ p" using p by (cases p) (simp_all add: E)
  also have "\<dots> \<le> x / 2 ^ p" using b by (simp add: divide_right_mono)
  finally show ?thesis .
qed

lemma roundTo_relative64:
  assumes "0 < x" "64 \<le> p"
  shows "roundTo p x \<le> x * (1 + 1 / 2 ^ 64)" "x * (1 - 1 / 2 ^ 64) \<le> roundTo p x"
proof -
  have "(2 :: rat) ^ 64 \<le> 2 ^ p" using assms(2) by (rule power_increasing) simp
  then have "x / 2 ^ p \<le> x / 2 ^ 64" using assms(1) by (intro divide_left_mono) auto
  then have d: "\<bar>roundTo p x - x\<bar> \<le> x / 2 ^ 64" using roundTo_relative[of x p] assms by linarith
  show "roundTo p x \<le> x * (1 + 1 / 2 ^ 64)" "x * (1 - 1 / 2 ^ 64) \<le> roundTo p x"
    using abs_le_D1[OF d] abs_le_D2[OF d]
    unfolding distrib_left right_diff_distrib mult_1_right times_divide_eq_right by linarith+
qed

end
