(* ===== verification/EffectiveGasPrice.thy ===== *)
theory EffectiveGasPrice
  imports GoFloat BatchCodec
begin

text \<open>
  The effective gas price of the pool (\<open>pool/effectivegasprice.go\<close>): the price at which a
  transaction breaks even, the price it is charged, and the percentage byte that the batch
  carries for it.  The sums are \<open>uint64\<close> and wrap; the factors of the configuration are \<open>float64\<close>.
\<close>

subsection \<open>Definitions\<close>

record EffectiveGasPriceCfg =
  egpcfg_Enabled :: bool
  L1GasPriceFactor :: rat
  ByteGasCost :: u64
  ZeroByteGasCost :: u64
  NetProfit :: rat
  BreakEvenFactor :: rat
  FinalDeviationPct :: u64
  L2GasPriceSuggesterFactor :: rat

datatype EgpError = ErrEffectiveGasPriceEmpty | ErrEffectiveGasPriceIsZero | ErrZeroL1GasPrice

record EffectiveGasPrice =
  egp_cfg :: EffectiveGasPriceCfg
  egp_minGasPriceAllowed :: u64

definition NewEffectiveGasPrice :: "EffectiveGasPriceCfg \<Rightarrow> u64 \<Rightarrow> EffectiveGasPrice" where
  "NewEffectiveGasPrice cfg minGasPriceAllowed = \<lparr>egp_cfg = cfg, egp_minGasPriceAllowed = minGasPriceAllowed\<rparr>"

definition IsEnabled :: "EffectiveGasPrice \<Rightarrow> bool" where
  "IsEnabled e = egpcfg_Enabled (egp_cfg e)"

definition GetFinalDeviation :: "EffectiveGasPrice \<Rightarrow> u64" where
  "GetFinalDeviation e = FinalDeviationPct (egp_cfg e)"

definition GetTxAndL2GasPrice ::
  "(rat \<Rightarrow> u64) \<Rightarrow> EffectiveGasPrice \<Rightarrow> int \<Rightarrow> u64 \<Rightarrow> u64 \<Rightarrow> int \<times> u64" where
  "GetTxAndL2GasPrice conv e txGasPrice l1GasPrice l2GasPrice =
     (if \<not> egpcfg_Enabled (egp_cfg e) then
        (let gp = u64_of_float conv (float64_mul (L2GasPriceSuggesterFactor (egp_cfg e)) (float64_of_u64 l1GasPrice))
         in (uint gp, gp))
      else (txGasPrice, l2GasPrice))"

definition l2MinGasPriceOf :: "(rat \<Rightarrow> u64) \<Rightarrow> EffectiveGasPrice \<Rightarrow> u64 \<Rightarrow> u64" where
  "l2MinGasPriceOf conv e l1GasPrice =
     (let m = u64_of_float conv (float64_mul (float64_of_u64 l1GasPrice) (L1GasPriceFactor (egp_cfg e)))
      in if m < egp_minGasPriceAllowed e then egp_minGasPriceAllowed e else m)"

definition totalTxPriceOf :: "(rat \<Rightarrow> u64) \<Rightarrow> EffectiveGasPrice \<Rightarrow> bytes \<Rightarrow> u64 \<Rightarrow> u64 \<Rightarrow> u64" where
  "totalTxPriceOf conv e rawTx txGasUsed l1GasPrice =
     (let txZeroBytes = of_nat (count_list rawTx 0);
          txNonZeroBytes = of_nat (length rawTx) - txZeroBytes + EfficiencyPercentageByteLength
      in txGasUsed * l2MinGasPriceOf conv e l1GasPrice +
         (txNonZeroBytes * ByteGasCost (egp_cfg e) + txZeroBytes * ZeroByteGasCost (egp_cfg e)) * l1GasPrice)"

definition CalculateBreakEvenGasPrice ::
  "(rat \<Rightarrow> u64) \<Rightarrow> EffectiveGasPrice \<Rightarrow> bytes \<Rightarrow> int \<Rightarrow> u64 \<Rightarrow> u64 \<Rightarrow> (EgpError, int) outcome" where
  "CalculateBreakEvenGasPrice conv e rawTx txGasPrice txGasUsed l1GasPrice =
     (if l1GasPrice = 0 then Err ErrZeroL1GasPrice
      else if txGasUsed = 0 then Ok txGasPrice
      else
        (let totalTxPrice = totalTxPriceOf conv e rawTx txGasUsed l1GasPrice
         in Ok (uint (u64_of_float conv (float64_mul (float64_of_u64 (totalTxPrice div txGasUsed)) (NetProfit (egp_cfg e)))))))"

definition CalculateEffectiveGasPrice ::
  "(rat \<Rightarrow> u64) \<Rightarrow> EffectiveGasPrice \<Rightarrow> bytes \<Rightarrow> int \<Rightarrow> u64 \<Rightarrow> u64 \<Rightarrow> u64 \<Rightarrow> (EgpError, int) outcome" where
  "CalculateEffectiveGasPrice conv e rawTx txGasPrice txGasUsed l1GasPrice l2GasPrice =
     bind_outcome (CalculateBreakEvenGasPrice conv e rawTx txGasPrice txGasUsed l1GasPrice) (\<lambda>breakEvenGasPrice.
     let bfL2GasPrice = bf_SetUint64 l2GasPrice;
         bfTxGasPrice = bf_SetInt txGasPrice
     in case (if bf_greater bfTxGasPrice bfL2GasPrice then bf_Quo bfTxGasPrice bfL2GasPrice else Some (bf_SetFloat64 1)) of
          None \<Rightarrow> Panic
        | Some ratioPriority \<Rightarrow>
            (case bf_Mul (bf_SetInt breakEvenGasPrice) ratioPriority of
               None \<Rightarrow> Panic
             | Some bfEffectiveGasPrice \<Rightarrow>
                 (let effectiveGasPrice = bf_Int bfEffectiveGasPrice 0
                  in if effectiveGasPrice = 0 then Err ErrEffectiveGasPriceIsZero else Ok effectiveGasPrice)))"

definition MaxEffectivePercentage :: u8 where "MaxEffectivePercentage = 255"

text \<open>\<open>big.Int.Div\<close> is Euclidean; the divisor is positive whenever it is reached with positive prices.\<close>

definition CalculateEffectiveGasPricePercentage :: "int option \<Rightarrow> int option \<Rightarrow> (EgpError, u8) outcome" where
  "CalculateEffectiveGasPricePercentage gasPrice effectiveGasPrice =
     (case (gasPrice, effectiveGasPrice) of
        (Some g, Some eff) \<Rightarrow>
          if g = 0 \<or> eff = 0 then Err ErrEffectiveGasPriceEmpty
          else if g \<le> eff then Ok MaxEffectivePercentage
          else
            (let b = eff * 256 + g - 1;
                 q = (if g > 0 then b div g else - (b div (- g)));
                 r = q - 1
             in Ok (of_nat (nat \<bar>r\<bar>)))
      | _ \<Rightarrow> Err ErrEffectiveGasPriceEmpty)"

subsection \<open>Properties\<close>

lemma ceil_div_bounds:
  assumes "0 < (g :: int)" "0 < x" "x < g"
  defines "q \<equiv> (x * 256 + g - 1) div g"
  shows "1 \<le> q" "q \<le> 256" "x * 256 \<le> g * q" "g * (q - 1) < x * 256"
proof -
  have m: "g * q + (x * 256 + g - 1) mod g = x * 256 + g - 1" unfolding q_def by simp
  have r: "0 \<le> (x * 256 + g - 1) mod g" "(x * 256 + g - 1) mod g < g" using assms by auto
  show "x * 256 \<le> g * q" "g * (q - 1) < x * 256" using m r by (simp_all add: algebra_simps)
  then show "1 \<le> q" "q \<le> 256"
  proof -
    have "0 < g * q" using \<open>x * 256 \<le> g * q\<close> assms by linarith
    then show "1 \<le> q" using assms(1) by (simp add: zero_less_mult_iff)
    have "g * (q - 1) < g * 256" using \<open>g * (q - 1) < x * 256\<close> assms(3) by linarith
    then show "q \<le> 256" using assms(1) by simp
  qed
qed

text \<open>
  C26: For positive prices the percentage byte \<open>p\<close> always exists.  Charging \<open>(p + 1) / 256\<close> of the
  signed gas price covers the effective gas price, and no smaller byte does; when the effective
  price is not below the signed one the byte is the maximum.
\<close>

theorem CalculateEffectiveGasPricePercentage_least:
  assumes "0 < g" "0 < eff"
  shows "\<exists>p. CalculateEffectiveGasPricePercentage (Some g) (Some eff) = Ok p \<and>
    (if g \<le> eff then p = MaxEffectivePercentage
     else eff * 256 \<le> g * (uint p + 1) \<and> g * uint p < eff * 256)"
proof (cases "g \<le> eff")
  case True
  then show ?thesis using assms by (simp add: CalculateEffectiveGasPricePercentage_def)
next
  case False
  define q where "q = (eff * 256 + g - 1) div g"
  have q: "1 \<le> q" "q \<le> 256" "eff * 256 \<le> g * q" "g * (q - 1) < eff * 256"
    unfolding q_def using False assms by (intro ceil_div_bounds; simp)+
  have "unat (of_nat (nat \<bar>q - 1\<bar>) :: u8) = nat \<bar>q - 1\<bar>"
    using q(1,2) by (simp add: unat_of_nat del: of_nat_nat)
  then have "uint (of_nat (nat \<bar>q - 1\<bar>) :: u8) = q - 1"
    using q(1) by (simp only: uint_nat)
  then show ?thesis
    using False assms q(3,4)
    by (intro exI[of _ "of_nat (nat \<bar>q - 1\<bar>)"])
      (simp add: CalculateEffectiveGasPricePercentage_def Let_def flip: q_def)
qed

theorem CalculateEffectiveGasPricePercentage_least_witness:
  "CalculateEffectiveGasPricePercentage (Some 1000) (Some 500) = Ok 127 \<and> (500 :: int) * 256 \<le> 1000 * (uint (127 :: u8) + 1)"
  using CalculateEffectiveGasPricePercentage_least[of 1000 500]
  by (simp add: CalculateEffectiveGasPricePercentage_def)

lemma bitlen_fits: "0 \<le> n \<Longrightarrow> n < 2 ^ max q (nat (bitlen n))"
proof -
  assume n: "0 \<le> n"
  have "n < 2 ^ nat (bitlen n)" using n bitlen_bounds[of n] by (cases "n = 0") auto
  also have "\<dots> \<le> 2 ^ max q (nat (bitlen n))" by (rule power_increasing) auto
  finally show ?thesis .
qed

lemma floor_between: "of_int n \<le> (x :: rat) \<Longrightarrow> n \<le> \<lfloor>x\<rfloor>"
  by (simp add: le_floor_iff)

lemma bf_greater_iff [simp]: "bf_greater (bf_SetInt t) (bf_SetUint64 l) \<longleftrightarrow> uint l < t"
  unfolding bf_greater_def bf_SetInt_def bf_SetUint64_def by (simp del: of_int_uint)

lemma bf_Quo_eq:
  "bf_Quo (bf_SetInt t) (bf_SetUint64 l) =
     (if l \<noteq> 0 then
        (let p = max (max 64 (nat (bitlen \<bar>t\<bar>))) 64
         in Some \<lparr>bf_prec = p, bf_val = Fin (roundTo p (of_int t / of_int (uint l)))\<rparr>)
      else if t = 0 then None
      else Some \<lparr>bf_prec = max (max 64 (nat (bitlen \<bar>t\<bar>))) 64, bf_val = Inf (t < 0)\<rparr>)"
  unfolding bf_Quo_def bf_SetInt_def bf_SetUint64_def Let_def by (simp del: of_int_uint add: uint_0_iff)

lemma two_roundings:
  fixes b c d r x z :: rat
  assumes "0 \<le> b" "0 \<le> c" "0 \<le> d" "r \<le> x * c" "x * d \<le> r" "z \<le> b * r * c" "b * r * d \<le> z"
  shows "z \<le> b * x * c\<^sup>2" "b * x * d\<^sup>2 \<le> z"
proof -
  have "b * r * c \<le> b * (x * c) * c" "b * (x * d) * d \<le> b * r * d"
    using assms by (auto intro!: mult_right_mono mult_left_mono)
  then show "z \<le> b * x * c\<^sup>2" "b * x * d\<^sup>2 \<le> z"
    using assms(6,7) by (simp_all add: power2_eq_square algebra_simps)
qed

lemma effective_price_above:
  assumes be: "CalculateBreakEvenGasPrice conv e rawTx txGasPrice txGasUsed l1GasPrice = Ok b" and b: "0 \<le> b"
    and l2: "l2GasPrice \<noteq> 0" and above: "uint l2GasPrice < txGasPrice"
  obtains z :: rat where
    "CalculateEffectiveGasPrice conv e rawTx txGasPrice txGasUsed l1GasPrice l2GasPrice =
       (if \<lfloor>z\<rfloor> = 0 then Err ErrEffectiveGasPriceIsZero else Ok \<lfloor>z\<rfloor>)"
    "b = 0 \<longrightarrow> z = 0" "of_int b \<le> z"
    "z \<le> of_int b * (of_int txGasPrice / of_int (uint l2GasPrice)) * (1 + 1 / 2 ^ 64)\<^sup>2"
    "of_int b * (of_int txGasPrice / of_int (uint l2GasPrice)) * (1 - 1 / 2 ^ 64)\<^sup>2 \<le> z"
proof -
  define l where "l = uint l2GasPrice"
  have l: "0 < l" using l2 uint_ge_0[of l2GasPrice] by (simp add: l_def uint_0_iff order.strict_iff_order)
  define p where "p = max (max 64 (nat (bitlen txGasPrice))) 64"
  define p' where "p' = max (max 64 (nat (bitlen b))) p"
  have p: "64 \<le> p" "64 \<le> p'" "0 < p" "0 < p'" by (auto simp: p_def p'_def)
  define x where "x = (of_int txGasPrice / of_int l :: rat)"
  define r where "r = roundTo p x"
  define z where "z = roundTo p' (of_int b * r)"
  have x: "1 < x" using above l by (simp add: x_def l_def del: of_int_uint)
  have r: "1 \<le> r" unfolding r_def using roundTo_ge[of 1 x p] x p(3) by simp
  have y: "of_int b \<le> of_int b * r" using r b by (simp add: mult_le_cancel_left1)
  have "b \<le> 2 ^ p'" using bitlen_fits[of b "max 64 p"] b unfolding p'_def
    by (simp add: max.assoc max.commute max.left_commute less_imp_le)
  then have zb: "of_int b \<le> z" unfolding z_def using y b p by (intro roundTo_ge) auto
  then have z0: "0 \<le> z" using b by (metis of_int_0_le_iff order.trans)
  have res: "CalculateEffectiveGasPrice conv e rawTx txGasPrice txGasUsed l1GasPrice l2GasPrice =
      (if \<lfloor>z\<rfloor> = 0 then Err ErrEffectiveGasPriceIsZero else Ok \<lfloor>z\<rfloor>)"
    using above b be l l2 z0
    by (simp add: CalculateEffectiveGasPrice_def bf_Quo_eq bf_SetInt_def[of b] bf_Mul_def bf_Int_def Let_def
        flip: l_def x_def p_def p'_def r_def z_def del: of_int_uint)
  have rx: "r \<le> x * (1 + 1 / 2 ^ 64)" "x * (1 - 1 / 2 ^ 64) \<le> r"
    unfolding r_def using roundTo_relative64[OF _ p(1), of x] x by auto
  have zr: "z \<le> of_int b * r * (1 + 1 / 2 ^ 64)" "of_int b * r * (1 - 1 / 2 ^ 64) \<le> z"
    unfolding z_def using roundTo_relative64[OF _ p(2), of "of_int b * r"] b r
    by (cases "b = 0"; auto simp: roundTo_def[of _ 0])+
  show thesis
    by (rule that[OF res _ zb]) (use two_roundings[OF _ _ _ rx zr] b in \<open>auto simp: x_def l_def z_def roundTo_def[of _ 0]\<close>)
qed

text \<open>
  With a positive break-even price and a positive suggested price, the effective gas price
  exists and is at least the break-even price.  It equals the break-even price when the
  transaction offers no more than the suggested price; otherwise it is the break-even price times
  the ratio of the two prices, up to the relative error of two roundings to 64 bits and the
  final truncation.  A break-even price of zero is reported as an error, and so is a suggested
  price of zero.
\<close>

lemma CalculateEffectiveGasPrice_bounds:
  assumes "CalculateBreakEvenGasPrice conv e rawTx txGasPrice txGasUsed l1GasPrice = Ok b" "0 \<le> b" "0 < txGasPrice"
  shows "let res = CalculateEffectiveGasPrice conv e rawTx txGasPrice txGasUsed l1GasPrice l2GasPrice;
             ideal = of_int b * (of_int txGasPrice / of_int (uint l2GasPrice)) :: rat
         in (b = 0 \<and> l2GasPrice \<noteq> 0 \<longrightarrow> res = Err ErrEffectiveGasPriceIsZero) \<and>
            (0 < b \<and> l2GasPrice = 0 \<longrightarrow> res = Err ErrEffectiveGasPriceIsZero) \<and>
            (0 < b \<and> l2GasPrice \<noteq> 0 \<longrightarrow>
               (\<exists>eff. res = Ok eff \<and> b \<le> eff \<and>
                  (if txGasPrice \<le> uint l2GasPrice then eff = b
                   else of_int eff \<le> ideal * (1 + 1 / 2 ^ 64)\<^sup>2 \<and> ideal * (1 - 1 / 2 ^ 64)\<^sup>2 < of_int eff + 1)))"
proof (cases "txGasPrice \<le> uint l2GasPrice")
  case True
  have "roundTo (max (max 64 (nat (bitlen b))) 53) (of_int b) = of_int b"
    using assms(2) bitlen_fits[of b 64] by (intro roundTo_int) (auto simp: max_def)
  then show ?thesis
    using True assms
    by (auto simp: CalculateEffectiveGasPrice_def bf_SetInt_def[of b] bf_SetFloat64_def bf_Mul_def bf_Int_def Let_def)
next
  case False
  show ?thesis
  proof (cases "l2GasPrice = 0")
    case True
    then show ?thesis
      using assms by (auto simp: CalculateEffectiveGasPrice_def bf_Quo_eq bf_SetInt_def[of b] bf_Mul_def bf_Int_def Let_def)
  next
    case l2: False
    obtain z :: rat where z: "CalculateEffectiveGasPrice conv e rawTx txGasPrice txGasUsed l1GasPrice l2GasPrice =
          (if \<lfloor>z\<rfloor> = 0 then Err ErrEffectiveGasPriceIsZero else Ok \<lfloor>z\<rfloor>)"
        "b = 0 \<longrightarrow> z = 0" "of_int b \<le> z"
      and bounds: "z \<le> of_int b * (of_int txGasPrice / of_int (uint l2GasPrice)) * (1 + 1 / 2 ^ 64)\<^sup>2"
        "of_int b * (of_int txGasPrice / of_int (uint l2GasPrice)) * (1 - 1 / 2 ^ 64)\<^sup>2 \<le> z"
      by (rule effective_price_above[OF assms(1,2) l2]) (use False in auto)
    have f: "z < of_int \<lfloor>z\<rfloor> + 1" using floor_correct[of z] by simp
    have "b \<le> \<lfloor>z\<rfloor>" using z(3) by (simp add: le_floor_iff)
    moreover note order.trans[OF of_int_floor_le bounds(1)] order.strict_trans1[OF bounds(2) f]
    ultimately show ?thesis unfolding Let_def using z(1,2) False l2 by (auto simp del: of_int_uint)
  qed
qed

text \<open>The default configuration of the node, with factors 1/4 and 1.\<close>

definition sampleEgp :: EffectiveGasPrice where
  "sampleEgp = \<lparr>egp_cfg = \<lparr>egpcfg_Enabled = True, L1GasPriceFactor = 1 / 4, ByteGasCost = 16, ZeroByteGasCost = 4,
     NetProfit = 1, BreakEvenFactor = roundTo 53 (11 / 10), FinalDeviationPct = 10, L2GasPriceSuggesterFactor = 1 / 2\<rparr>,
     egp_minGasPriceAllowed = 1000000000\<rparr>"

lemma sample_breakEven:
  "CalculateBreakEvenGasPrice (\<lambda>_. 0) sampleEgp [0, 1, 2] 20000000000 30000 20000000000 = Ok 5034666666"
  by code_simp

text \<open>The cost of a transaction in exact arithmetic.\<close>

definition txCost :: "(rat \<Rightarrow> u64) \<Rightarrow> EffectiveGasPrice \<Rightarrow> bytes \<Rightarrow> u64 \<Rightarrow> u64 \<Rightarrow> int" where
  "txCost conv e rawTx txGasUsed l1GasPrice =
     uint txGasUsed * uint (l2MinGasPriceOf conv e l1GasPrice) +
     ((int (length rawTx) - int (count_list rawTx 0) + 1) * uint (ByteGasCost (egp_cfg e)) +
      int (count_list rawTx 0) * uint (ZeroByteGasCost (egp_cfg e))) * uint l1GasPrice"

lemma totalTxPriceOf_exact: "totalTxPriceOf conv e rawTx txGasUsed l1GasPrice = word_of_int (txCost conv e rawTx txGasUsed l1GasPrice)"
  by (simp add: totalTxPriceOf_def txCost_def Let_def EfficiencyPercentageByteLength_def)

text \<open>
  When the cost of a transaction (its gas at the minimum price plus its bytes at the L1 price)
  fits in 64 bits, the cost per gas is exactly representable as a \<open>float64\<close>, and the profit margin is
  not below one, the break-even price pays at least the cost per unit of gas.
\<close>

lemma CalculateBreakEvenGasPrice_covers_cost:
  assumes "l1GasPrice \<noteq> 0" "txGasUsed \<noteq> 0" "1 \<le> NetProfit (egp_cfg e)"
    and "txCost conv e rawTx txGasUsed l1GasPrice < 2 ^ 64"
    and "txCost conv e rawTx txGasUsed l1GasPrice div uint txGasUsed < 2 ^ 53"
    and "float64_mul (of_int (txCost conv e rawTx txGasUsed l1GasPrice div uint txGasUsed)) (NetProfit (egp_cfg e)) < 2 ^ 64"
  shows "\<exists>b. CalculateBreakEvenGasPrice conv e rawTx txGasPrice txGasUsed l1GasPrice = Ok b \<and>
    txCost conv e rawTx txGasUsed l1GasPrice div uint txGasUsed \<le> b"
proof -
  let ?c = "txCost conv e rawTx txGasUsed l1GasPrice"
  define q where "q = ?c div uint txGasUsed"
  have "count_list rawTx 0 \<le> length rawTx" by (rule count_le_length)
  then have c0: "0 \<le> ?c" by (simp add: txCost_def)
  then have q0: "0 \<le> q" by (simp add: q_def pos_imp_zdiv_nonneg_iff div_int_pos_iff)
  have "uint (word_of_int ?c :: u64) = ?c" using c0 assms(4) by (simp add: uint_word_of_int)
  then have "uint ((word_of_int ?c :: u64) div txGasUsed) = q" by (simp add: uint_div q_def)
  then have f: "float64_of_u64 (totalTxPriceOf conv e rawTx txGasUsed l1GasPrice div txGasUsed) = of_int q"
    using q0 assms(5) by (simp add: float64_of_u64_def totalTxPriceOf_exact q_def del: of_int_uint)
  define m where "m = float64_mul (of_int q) (NetProfit (egp_cfg e))"
  have "of_int q \<le> of_int q * NetProfit (egp_cfg e)" using q0 assms(3) by (simp add: mult_le_cancel_left1)
  then have m: "of_int q \<le> m" "m < 2 ^ 64"
    unfolding m_def using roundTo_ge[of q _ 53] q0 assms(5,6) by (auto simp: q_def)
  have m0: "0 \<le> m" using m(1) q0 by (metis of_int_0_le_iff order.trans)
  have "\<lfloor>m\<rfloor> < 2 ^ 64" using m(2) by (simp add: floor_less_iff)
  then have "uint (u64_of_float conv m) = \<lfloor>m\<rfloor>"
    using m0 m(2) by (simp add: u64_of_float_def uint_word_of_int)
  moreover have "q \<le> \<lfloor>m\<rfloor>" using m(1) by (simp add: le_floor_iff)
  ultimately show ?thesis
    using assms(1,2) by (auto simp: CalculateBreakEvenGasPrice_def Let_def f simp flip: q_def m_def)
qed

lemma sample_cost: "txCost (\<lambda>_. 0) sampleEgp [0, 1, 2] 30000 20000000000 = 151040000000000"
  by code_simp

text \<open>
  Without the bound the 64-bit sum wraps: at an L1 price of 2500 gwei a transaction of 30 million
  gas breaks even, according to the code, at a sixtieth of its cost.
\<close>

lemma breakEven_wraps:
  "CalculateBreakEvenGasPrice (\<lambda>_. 0) sampleEgp [] 0 30000000 2500000000000 = Ok 10109864209"
  "txCost (\<lambda>_. 0) sampleEgp [] 30000000 2500000000000 div 30000000 = 625001333333"
  by code_simp+

end
