(* ===== verification/RomErrors.thy ===== *)
theory RomErrors
  imports Prelude
begin

text \<open>
  The error codes of the executor's ROM and their Go errors (the ROM part of
  \<open>state/runtime/executor/errors.go\<close>, with the error variables of \<open>state/runtime/runtime.go\<close>).  A
  code is an integer, since the executor may send one the node does not know; a Go error is
  identified by its variable.
\<close>

subsection \<open>Codes and errors\<close>

type_synonym RomError = int

abbreviation (input) ROM_ERROR_UNSPECIFIED :: RomError where "ROM_ERROR_UNSPECIFIED \<equiv> 0"
abbreviation (input) ROM_ERROR_NO_ERROR :: RomError where "ROM_ERROR_NO_ERROR \<equiv> 1"
abbreviation (input) ROM_ERROR_OUT_OF_GAS :: RomError where "ROM_ERROR_OUT_OF_GAS \<equiv> 2"
abbreviation (input) ROM_ERROR_STACK_OVERFLOW :: RomError where "ROM_ERROR_STACK_OVERFLOW \<equiv> 3"
abbreviation (input) ROM_ERROR_STACK_UNDERFLOW :: RomError where "ROM_ERROR_STACK_UNDERFLOW \<equiv> 4"
abbreviation (input) ROM_ERROR_MAX_CODE_SIZE_EXCEEDED :: RomError where "ROM_ERROR_MAX_CODE_SIZE_EXCEEDED \<equiv> 5"
abbreviation (input) ROM_ERROR_CONTRACT_ADDRESS_COLLISION :: RomError where "ROM_ERROR_CONTRACT_ADDRESS_COLLISION \<equiv> 6"
abbreviation (input) ROM_ERROR_EXECUTION_REVERTED :: RomError where "ROM_ERROR_EXECUTION_REVERTED \<equiv> 7"
abbreviation (input) ROM_ERROR_OUT_OF_COUNTERS_STEP :: RomError where "ROM_ERROR_OUT_OF_COUNTERS_STEP \<equiv> 8"
abbreviation (input) ROM_ERROR_OUT_OF_COUNTERS_KECCAK :: RomError where "ROM_ERROR_OUT_OF_COUNTERS_KECCAK \<equiv> 9"
abbreviation (input) ROM_ERROR_OUT_OF_COUNTERS_BINARY :: RomError where "ROM_ERROR_OUT_OF_COUNTERS_BINARY \<equiv> 10"
abbreviation (input) ROM_ERROR_OUT_OF_COUNTERS_MEM :: RomError where "ROM_ERROR_OUT_OF_COUNTERS_MEM \<equiv> 11"
abbreviation (input) ROM_ERROR_OUT_OF_COUNTERS_ARITH :: RomError where "ROM_ERROR_OUT_OF_COUNTERS_ARITH \<equiv> 12"
abbreviation (input) ROM_ERROR_OUT_OF_COUNTERS_PADDING :: RomError where "ROM_ERROR_OUT_OF_COUNTERS_PADDING \<equiv> 13"
abbreviation (input) ROM_ERROR_OUT_OF_COUNTERS_POSEIDON :: RomError where "ROM_ERROR_OUT_OF_COUNTERS_POSEIDON \<equiv> 14"
abbreviation (input) ROM_ERROR_OUT_OF_COUNTERS_SHA :: RomError where "ROM_ERROR_OUT_OF_COUNTERS_SHA \<equiv> 15"
abbreviation (input) ROM_ERROR_INVALID_JUMP :: RomError where "ROM_ERROR_INVALID_JUMP \<equiv> 16"
abbreviation (input) ROM_ERROR_INVALID_OPCODE :: RomError where "ROM_ERROR_INVALID_OPCODE \<equiv> 17"
abbreviation (input) ROM_ERROR_INVALID_STATIC :: RomError where "ROM_ERROR_INVALID_STATIC \<equiv> 18"
abbreviation (input) ROM_ERROR_INVALID_BYTECODE_STARTS_EF :: RomError where "ROM_ERROR_INVALID_BYTECODE_STARTS_EF \<equiv> 19"
abbreviation (input) ROM_ERROR_INTRINSIC_INVALID_SIGNATURE :: RomError where "ROM_ERROR_INTRINSIC_INVALID_SIGNATURE \<equiv> 20"
abbreviation (input) ROM_ERROR_INTRINSIC_INVALID_CHAIN_ID :: RomError where "ROM_ERROR_INTRINSIC_INVALID_CHAIN_ID \<equiv> 21"
abbreviation (input) ROM_ERROR_INTRINSIC_INVALID_NONCE :: RomError where "ROM_ERROR_INTRINSIC_INVALID_NONCE \<equiv> 22"
abbreviation (input) ROM_ERROR_INTRINSIC_INVALID_GAS_LIMIT :: RomError where "ROM_ERROR_INTRINSIC_INVALID_GAS_LIMIT \<equiv> 23"
abbreviation (input) ROM_ERROR_INTRINSIC_INVALID_BALANCE :: RomError where "ROM_ERROR_INTRINSIC_INVALID_BALANCE \<equiv> 24"
abbreviation (input) ROM_ERROR_INTRINSIC_INVALID_BATCH_GAS_LIMIT :: RomError where "ROM_ERROR_INTRINSIC_INVALID_BATCH_GAS_LIMIT \<equiv> 25"
abbreviation (input) ROM_ERROR_INTRINSIC_INVALID_SENDER_CODE :: RomError where "ROM_ERROR_INTRINSIC_INVALID_SENDER_CODE \<equiv> 26"
abbreviation (input) ROM_ERROR_INTRINSIC_TX_GAS_OVERFLOW :: RomError where "ROM_ERROR_INTRINSIC_TX_GAS_OVERFLOW \<equiv> 27"
abbreviation (input) ROM_ERROR_BATCH_DATA_TOO_BIG :: RomError where "ROM_ERROR_BATCH_DATA_TOO_BIG \<equiv> 28"
abbreviation (input) ROM_ERROR_UNSUPPORTED_FORK_ID :: RomError where "ROM_ERROR_UNSUPPORTED_FORK_ID \<equiv> 29"
abbreviation (input) ROM_ERROR_INVALID_RLP :: RomError where "ROM_ERROR_INVALID_RLP \<equiv> 30"
abbreviation (input) ROM_ERROR_INVALID_DECODE_CHANGE_L2_BLOCK :: RomError where "ROM_ERROR_INVALID_DECODE_CHANGE_L2_BLOCK \<equiv> 31"
abbreviation (input) ROM_ERROR_INVALID_NOT_FIRST_TX_CHANGE_L2_BLOCK :: RomError where "ROM_ERROR_INVALID_NOT_FIRST_TX_CHANGE_L2_BLOCK \<equiv> 32"
abbreviation (input) ROM_ERROR_INVALID_TX_CHANGE_L2_BLOCK_LIMIT_TIMESTAMP :: RomError where "ROM_ERROR_INVALID_TX_CHANGE_L2_BLOCK_LIMIT_TIMESTAMP \<equiv> 33"
abbreviation (input) ROM_ERROR_INVALID_TX_CHANGE_L2_BLOCK_MIN_TIMESTAMP :: RomError where "ROM_ERROR_INVALID_TX_CHANGE_L2_BLOCK_MIN_TIMESTAMP \<equiv> 34"

definition ErrCodeROMUnknown :: RomError where "ErrCodeROMUnknown = 2147483647"

datatype runtime_error =
    ErrROMUnspecified | ErrOutOfGas | ErrStackOverflow | ErrStackUnderflow | ErrMaxCodeSizeExceeded
    | ErrContractAddressCollision | ErrExecutionReverted | ErrOutOfCountersStep | ErrOutOfCountersKeccak
    | ErrOutOfCountersBinary | ErrOutOfCountersMemory | ErrOutOfCountersArith | ErrOutOfCountersPadding
    | ErrOutOfCountersPoseidon | ErrInvalidJump | ErrInvalidOpCode | ErrInvalidStatic
    | ErrInvalidByteCodeStartsEF | ErrIntrinsicInvalidSignature | ErrIntrinsicInvalidChainID
    | ErrIntrinsicInvalidNonce | ErrIntrinsicInvalidGasLimit | ErrIntrinsicInvalidBalance
    | ErrIntrinsicInvalidBatchGasLimit | ErrIntrinsicInvalidSenderCode | ErrIntrinsicInvalidTxGasOverflow
    | ErrBatchDataTooBig | ErrUnsupportedForkId | ErrInvalidRLP | ErrInvalidDecodeChangeL2Block
    | ErrInvalidNotFirstTxChangeL2Block | ErrInvalidTxChangeL2BlockLimitTimestamp
    | ErrInvalidTxChangeL2BlockMinTimestamp | ErrROMUnknown | otherError string

definition romErrCases :: "(RomError \<times> runtime_error option) list" where
  "romErrCases =
    [(ROM_ERROR_UNSPECIFIED, Some ErrROMUnspecified),
     (ROM_ERROR_NO_ERROR, None),
     (ROM_ERROR_OUT_OF_GAS, Some ErrOutOfGas),
     (ROM_ERROR_STACK_OVERFLOW, Some ErrStackOverflow),
     (ROM_ERROR_STACK_UNDERFLOW, Some ErrStackUnderflow),
     (ROM_ERROR_MAX_CODE_SIZE_EXCEEDED, Some ErrMaxCodeSizeExceeded),
     (ROM_ERROR_CONTRACT_ADDRESS_COLLISION, Some ErrContractAddressCollision),
     (ROM_ERROR_EXECUTION_REVERTED, Some ErrExecutionReverted),
     (ROM_ERROR_OUT_OF_COUNTERS_STEP, Some ErrOutOfCountersStep),
     (ROM_ERROR_OUT_OF_COUNTERS_KECCAK, Some ErrOutOfCountersKeccak),
     (ROM_ERROR_OUT_OF_COUNTERS_BINARY, Some ErrOutOfCountersBinary),
     (ROM_ERROR_OUT_OF_COUNTERS_MEM, Some ErrOutOfCountersMemory),
     (ROM_ERROR_OUT_OF_COUNTERS_ARITH, Some ErrOutOfCountersArith),
     (ROM_ERROR_OUT_OF_COUNTERS_PADDING, Some ErrOutOfCountersPadding),
     (ROM_ERROR_OUT_OF_COUNTERS_POSEIDON, Some ErrOutOfCountersPoseidon),
     (ROM_ERROR_INVALID_JUMP, Some ErrInvalidJump),
     (ROM_ERROR_INVALID_OPCODE, Some ErrInvalidOpCode),
     (ROM_ERROR_INVALID_STATIC, Some ErrInvalidStatic),
     (ROM_ERROR_INVALID_BYTECODE_STARTS_EF, Some ErrInvalidByteCodeStartsEF),
     (ROM_ERROR_INTRINSIC_INVALID_SIGNATURE, Some ErrIntrinsicInvalidSignature),
     (ROM_ERROR_INTRINSIC_INVALID_CHAIN_ID, Some ErrIntrinsicInvalidChainID),
     (ROM_ERROR_INTRINSIC_INVALID_NONCE, Some ErrIntrinsicInvalidNonce),
     (ROM_ERROR_INTRINSIC_INVALID_GAS_LIMIT, Some ErrIntrinsicInvalidGasLimit),
     (ROM_ERROR_INTRINSIC_INVALID_BALANCE, Some ErrIntrinsicInvalidBalance),
     (ROM_ERROR_INTRINSIC_INVALID_BATCH_GAS_LIMIT, Some ErrIntrinsicInvalidBatchGasLimit),
     (ROM_ERROR_INTRINSIC_INVALID_SENDER_CODE, Some ErrIntrinsicInvalidSenderCode),
     (ROM_ERROR_INTRINSIC_TX_GAS_OVERFLOW, Some ErrIntrinsicInvalidTxGasOverflow),
     (ROM_ERROR_BATCH_DATA_TOO_BIG, Some ErrBatchDataTooBig),
     (ROM_ERROR_UNSUPPORTED_FORK_ID, Some ErrUnsupportedForkId),
     (ROM_ERROR_INVALID_RLP, Some ErrInvalidRLP),
     (ROM_ERROR_INVALID_DECODE_CHANGE_L2_BLOCK, Some ErrInvalidDecodeChangeL2Block),
     (ROM_ERROR_INVALID_NOT_FIRST_TX_CHANGE_L2_BLOCK, Some ErrInvalidNotFirstTxChangeL2Block),
     (ROM_ERROR_INVALID_TX_CHANGE_L2_BLOCK_LIMIT_TIMESTAMP, Some ErrInvalidTxChangeL2BlockLimitTimestamp),
     (ROM_ERROR_INVALID_TX_CHANGE_L2_BLOCK_MIN_TIMESTAMP, Some ErrInvalidTxChangeL2BlockMinTimestamp)]"

definition RomErr :: "RomError \<Rightarrow> runtime_error option" where
  "RomErr errorCode = (case map_of romErrCases errorCode of Some e \<Rightarrow> e | None \<Rightarrow> Some ErrROMUnknown)"

definition RomErrorCode :: "runtime_error option \<Rightarrow> RomError" where
  "RomErrorCode err =
     (case err of
        None \<Rightarrow> ROM_ERROR_NO_ERROR
      | Some ErrOutOfGas \<Rightarrow> ROM_ERROR_OUT_OF_GAS
      | Some ErrStackOverflow \<Rightarrow> ROM_ERROR_STACK_OVERFLOW
      | Some ErrStackUnderflow \<Rightarrow> ROM_ERROR_STACK_UNDERFLOW
      | Some ErrMaxCodeSizeExceeded \<Rightarrow> ROM_ERROR_MAX_CODE_SIZE_EXCEEDED
      | Some ErrContractAddressCollision \<Rightarrow> ROM_ERROR_CONTRACT_ADDRESS_COLLISION
      | Some ErrExecutionReverted \<Rightarrow> ROM_ERROR_EXECUTION_REVERTED
      | Some ErrOutOfCountersStep \<Rightarrow> ROM_ERROR_OUT_OF_COUNTERS_STEP
      | Some ErrOutOfCountersKeccak \<Rightarrow> ROM_ERROR_OUT_OF_COUNTERS_KECCAK
      | Some ErrOutOfCountersBinary \<Rightarrow> ROM_ERROR_OUT_OF_COUNTERS_BINARY
      | Some ErrOutOfCountersMemory \<Rightarrow> ROM_ERROR_OUT_OF_COUNTERS_MEM
      | Some ErrOutOfCountersArith \<Rightarrow> ROM_ERROR_OUT_OF_COUNTERS_ARITH
      | Some ErrOutOfCountersPadding \<Rightarrow> ROM_ERROR_OUT_OF_COUNTERS_PADDING
      | Some ErrOutOfCountersPoseidon \<Rightarrow> ROM_ERROR_OUT_OF_COUNTERS_POSEIDON
      | Some ErrInvalidJump \<Rightarrow> ROM_ERROR_INVALID_JUMP
      | Some ErrInvalidOpCode \<Rightarrow> ROM_ERROR_INVALID_OPCODE
      | Some ErrInvalidStatic \<Rightarrow> ROM_ERROR_INVALID_STATIC
      | Some ErrInvalidByteCodeStartsEF \<Rightarrow> ROM_ERROR_INVALID_BYTECODE_STARTS_EF
      | Some ErrIntrinsicInvalidSignature \<Rightarrow> ROM_ERROR_INTRINSIC_INVALID_SIGNATURE
      | Some ErrIntrinsicInvalidChainID \<Rightarrow> ROM_ERROR_INTRINSIC_INVALID_CHAIN_ID
      | Some ErrIntrinsicInvalidNonce \<Rightarrow> ROM_ERROR_INTRINSIC_INVALID_NONCE
      | Some ErrIntrinsicInvalidGasLimit \<Rightarrow> ROM_ERROR_INTRINSIC_INVALID_GAS_LIMIT
      | Some ErrIntrinsicInvalidBalance \<Rightarrow> ROM_ERROR_INTRINSIC_INVALID_BALANCE
      | Some ErrIntrinsicInvalidBatchGasLimit \<Rightarrow> ROM_ERROR_INTRINSIC_INVALID_BATCH_GAS_LIMIT
      | Some ErrIntrinsicInvalidSenderCode \<Rightarrow> ROM_ERROR_INTRINSIC_INVALID_SENDER_CODE
      | Some ErrIntrinsicInvalidTxGasOverflow \<Rightarrow> ROM_ERROR_INTRINSIC_TX_GAS_OVERFLOW
      | Some ErrBatchDataTooBig \<Rightarrow> ROM_ERROR_BATCH_DATA_TOO_BIG
      | Some ErrUnsupportedForkId \<Rightarrow> ROM_ERROR_UNSUPPORTED_FORK_ID
      | Some ErrInvalidRLP \<Rightarrow> ROM_ERROR_INVALID_RLP
      | Some ErrInvalidDecodeChangeL2Block \<Rightarrow> ROM_ERROR_INVALID_DECODE_CHANGE_L2_BLOCK
      | Some ErrInvalidNotFirstTxChangeL2Block \<Rightarrow> ROM_ERROR_INVALID_NOT_FIRST_TX_CHANGE_L2_BLOCK
      | Some ErrInvalidTxChangeL2BlockLimitTimestamp \<Rightarrow> ROM_ERROR_INVALID_TX_CHANGE_L2_BLOCK_LIMIT_TIMESTAMP
      | Some ErrInvalidTxChangeL2BlockMinTimestamp \<Rightarrow> ROM_ERROR_INVALID_TX_CHANGE_L2_BLOCK_MIN_TIMESTAMP
      | _ \<Rightarrow> ErrCodeROMUnknown)"

definition IsROMOutOfCountersError :: "RomError \<Rightarrow> bool" where
  "IsROMOutOfCountersError error \<longleftrightarrow> error \<ge> ROM_ERROR_OUT_OF_COUNTERS_STEP \<and> error \<le> ROM_ERROR_OUT_OF_COUNTERS_POSEIDON"

definition IsROMOutOfGasError :: "RomError \<Rightarrow> bool" where
  "IsROMOutOfGasError error \<longleftrightarrow> error = ROM_ERROR_OUT_OF_GAS"

definition IsIntrinsicError :: "RomError \<Rightarrow> bool" where
  "IsIntrinsicError error \<longleftrightarrow> error \<ge> ROM_ERROR_INTRINSIC_INVALID_SIGNATURE \<and> error \<le> ROM_ERROR_INTRINSIC_TX_GAS_OVERFLOW"

definition IsInvalidNonceError :: "RomError \<Rightarrow> bool" where
  "IsInvalidNonceError error \<longleftrightarrow> error = ROM_ERROR_INTRINSIC_INVALID_NONCE"

definition IsInvalidBalanceError :: "RomError \<Rightarrow> bool" where
  "IsInvalidBalanceError error \<longleftrightarrow> error = ROM_ERROR_INTRINSIC_INVALID_BALANCE"

definition IsInvalidL2Block :: "RomError \<Rightarrow> bool" where
  "IsInvalidL2Block error \<longleftrightarrow>
     error \<ge> ROM_ERROR_INVALID_DECODE_CHANGE_L2_BLOCK \<and> error \<le> ROM_ERROR_INVALID_TX_CHANGE_L2_BLOCK_MIN_TIMESTAMP"

definition IsOutOfCounterError :: "runtime_error option \<Rightarrow> bool" where
  "IsOutOfCounterError err \<longleftrightarrow>
     err = Some ErrOutOfCountersArith \<or> err = Some ErrOutOfCountersBinary \<or> err = Some ErrOutOfCountersKeccak \<or>
     err = Some ErrOutOfCountersMemory \<or> err = Some ErrOutOfCountersPadding \<or> err = Some ErrOutOfCountersPoseidon \<or>
     err = Some ErrOutOfCountersStep"

subsection \<open>Properties\<close>

text \<open>
  Code and error determine each other: a code that has a case of its own in \<open>RomErr\<close>, other than
  the unspecified one, is given back by \<open>RomErrorCode\<close>, and an error that has a case in
  \<open>RomErrorCode\<close> is given back by \<open>RomErr\<close>.  The test for exhausted counters on codes and the one on
  errors agree on every error.  The unspecified code and the code for exhausted SHA-256 counters,
  which has no case, turn into the unknown code and are not recognized as exhausted counters.
\<close>

lemma RomErr_roundtrip:
  "(c \<in> fst ` set romErrCases - {ROM_ERROR_UNSPECIFIED} \<longrightarrow> RomErrorCode (RomErr c) = c) \<and>
   (RomErrorCode e \<noteq> ErrCodeROMUnknown \<longrightarrow> RomErr (RomErrorCode e) = e) \<and>
   (IsROMOutOfCountersError (RomErrorCode e) \<longleftrightarrow> IsOutOfCounterError e) \<and>
   RomErrorCode (RomErr ROM_ERROR_OUT_OF_COUNTERS_SHA) = ErrCodeROMUnknown \<and>
   \<not> IsOutOfCounterError (RomErr ROM_ERROR_OUT_OF_COUNTERS_SHA) \<and>
   RomErrorCode (RomErr ROM_ERROR_UNSPECIFIED) = ErrCodeROMUnknown"
proof (intro conjI impI)
  assume "c \<in> fst ` set romErrCases - {ROM_ERROR_UNSPECIFIED}"
  then show "RomErrorCode (RomErr c) = c"
    by (auto simp: romErrCases_def RomErr_def RomErrorCode_def)
next
  assume "RomErrorCode e \<noteq> ErrCodeROMUnknown"
  then show "RomErr (RomErrorCode e) = e"
    by (auto simp: romErrCases_def RomErr_def RomErrorCode_def split: option.splits runtime_error.splits)
next
  show "IsROMOutOfCountersError (RomErrorCode e) \<longleftrightarrow> IsOutOfCounterError e"
    by (auto simp: IsROMOutOfCountersError_def IsOutOfCounterError_def RomErrorCode_def ErrCodeROMUnknown_def
        split: option.splits runtime_error.splits)
qed (simp_all add: romErrCases_def RomErr_def RomErrorCode_def IsOutOfCounterError_def)

end
