(* ===== verification/AddrQueue.thy ===== *)
theory AddrQueue
  imports Resources
begin

text \<open>
  The per-sender queue of the sequencer's worker: \<open>sequencer/txtracker.go\<close> and
  \<open>sequencer/addrqueue.go\<close>.

  A \<open>*TxTracker\<close> is shared: the queue of the sender, the sorted list of ready
  transactions and the finalizer hold the same pointer, and an update through one of them is
  seen through the others.  Trackers therefore live in an explicit heap and the structures
  hold references.  Only the operations that write a tracker return a new heap.
  The conversions \<open>common.Hash.String\<close> and \<open>common.Address.String\<close> belong to
  go-ethereum and are parameters (\<open>hstr\<close>, \<open>astr\<close>).
\<close>

subsection \<open>Trackers\<close>

record EffectiveGasPriceLog =
  egp_Enabled :: bool
  egp_ValueFinal :: int
  egp_ValueFirst :: int
  egp_ValueSecond :: int
  egp_FinalDeviation :: int
  egp_MaxDeviation :: int
  egp_GasUsedFirst :: u64
  egp_GasUsedSecond :: u64
  egp_GasPrice :: int
  egp_Percentage :: u8
  egp_Reprocess :: bool
  egp_GasPriceOC :: bool
  egp_BalanceOC :: bool
  egp_L1GasPrice :: u64
  egp_L2GasPrice :: u64
  egp_Error :: string

record TxTracker =
  Hash :: hash
  HashStr :: string
  From :: address
  FromStr :: string
  Nonce :: u64
  Gas :: u64
  GasPrice :: int
  Cost :: int
  txResources :: BatchResources
  RawTx :: bytes
  ReceivedAt :: time
  IP :: string
  FailedReason :: "string option"
  EffectiveGasPrice :: int
  EGPPercentage :: u8
  IsLastExecution :: bool
  EGPLog :: EffectiveGasPriceLog
  L1GasPrice :: u64
  L2GasPrice :: u64
  FlushId :: u64

type_synonym ref = nat
type_synonym heap = "ref \<Rightarrow> TxTracker"

text \<open>What the code reads of go-ethereum's \<open>types.Transaction\<close>.\<close>

record Transaction =
  tx_Hash :: hash
  tx_Nonce :: u64
  tx_Gas :: u64
  tx_GasPrice :: int
  tx_Cost :: int

datatype SeqError =
    ErrDuplicatedNonce
  | ErrIntrinsicInvalidNonce
  | ErrInvalidIP
  | ErrOutOfCounters
  | ErrNoFittingTransaction
  | ErrTransactionsListEmpty
  | ErrGetSender string
  | ErrEncodeTx string
  | ErrGetLastStateRoot string
  | ErrGetNonceByStateRoot string
  | ErrGetBalanceByStateRoot string

definition EfficiencyPercentageByteLength :: u64 where
  "EfficiencyPercentageByteLength = 1"

definition emptyEGPLog :: EffectiveGasPriceLog where
  "emptyEGPLog =
     \<lparr>egp_Enabled = False, egp_ValueFinal = 0, egp_ValueFirst = 0, egp_ValueSecond = 0,
      egp_FinalDeviation = 0, egp_MaxDeviation = 0, egp_GasUsedFirst = 0, egp_GasUsedSecond = 0,
      egp_GasPrice = 0, egp_Percentage = 0, egp_Reprocess = False, egp_GasPriceOC = False,
      egp_BalanceOC = False, egp_L1GasPrice = 0, egp_L2GasPrice = 0, egp_Error = []\<rparr>"

definition newTxTracker ::
  "(Transaction \<Rightarrow> string + address) \<Rightarrow> (Transaction \<Rightarrow> string + bytes) \<Rightarrow> (hash \<Rightarrow> string) \<Rightarrow>
   (address \<Rightarrow> string) \<Rightarrow> time \<Rightarrow> Transaction \<Rightarrow> ZKCounters \<Rightarrow> string \<Rightarrow> SeqError + TxTracker" where
  "newTxTracker GetSender Encode hstr astr now tx counters ip =
     (case GetSender tx of
        Inl e \<Rightarrow> Inl (ErrGetSender e)
      | Inr addr \<Rightarrow>
         (case Encode tx of
            Inl e \<Rightarrow> Inl (ErrEncodeTx e)
          | Inr rawTx \<Rightarrow>
              Inr \<lparr>Hash = tx_Hash tx, HashStr = hstr (tx_Hash tx), From = addr, FromStr = astr addr,
                   Nonce = tx_Nonce tx, Gas = tx_Gas tx, GasPrice = tx_GasPrice tx,
                   Cost = tx_Cost tx,
                   txResources = \<lparr>ZKCounters = counters,
                     Bytes = of_nat (length rawTx) + EfficiencyPercentageByteLength\<rparr>,
                   RawTx = rawTx, ReceivedAt = now, IP = ip, FailedReason = None,
                   EffectiveGasPrice = 0, EGPPercentage = 0, IsLastExecution = False,
                   EGPLog = emptyEGPLog, L1GasPrice = 0, L2GasPrice = 0, FlushId = 0\<rparr>))"

definition updateZKCounters :: "TxTracker \<Rightarrow> ZKCounters \<Rightarrow> TxTracker" where
  "updateZKCounters tx counters =
     tx\<lparr>txResources := (txResources tx)\<lparr>ZKCounters := counters\<rparr>\<rparr>"

subsection \<open>The queue\<close>

record addrQueue =
  aq_from :: address
  fromStr :: string
  currentNonce :: u64
  currentBalance :: int
  readyTx :: "ref option"
  notReadyTxs :: "(u64, ref) fmap"
  forcedTxs :: "hash fset"
  pendingTxsToStore :: "hash fset"

definition newAddrQueue :: "(address \<Rightarrow> string) \<Rightarrow> address \<Rightarrow> u64 \<Rightarrow> int \<Rightarrow> addrQueue" where
  "newAddrQueue astr addr nonce balance =
     \<lparr>aq_from = addr, fromStr = astr addr, currentNonce = nonce, currentBalance = balance,
      readyTx = None, notReadyTxs = fmempty, forcedTxs = {||}, pendingTxsToStore = {||}\<rparr>"

text \<open>The four results of \<open>addTx\<close>.\<close>

record addTxResult =
  newReady :: "ref option"
  prevReady :: "ref option"
  replaced :: "ref option"
  dropReason :: "SeqError option"

definition addTx :: "heap \<Rightarrow> addrQueue \<Rightarrow> ref \<Rightarrow> addrQueue \<times> addTxResult" where
  "addTx h a tx =
     (if currentNonce a = Nonce (h tx) then
        (case readyTx a of
           None \<Rightarrow>
             if currentBalance a \<ge> Cost (h tx)
             then (a\<lparr>readyTx := Some tx\<rparr>,
                   \<lparr>newReady = Some tx, prevReady = None, replaced = None, dropReason = None\<rparr>)
             else (a\<lparr>readyTx := None, notReadyTxs := fmupd (Nonce (h tx)) tx (notReadyTxs a)\<rparr>,
                   \<lparr>newReady = None, prevReady = None, replaced = None, dropReason = None\<rparr>)
         | Some oldReadyTx \<Rightarrow>
             if GasPrice (h tx) \<ge> GasPrice (h oldReadyTx) then
               (let repTx = (if HashStr (h oldReadyTx) \<noteq> HashStr (h tx) then Some oldReadyTx else None)
                in if currentBalance a \<ge> Cost (h tx)
                   then (a\<lparr>readyTx := Some tx\<rparr>,
                         \<lparr>newReady = Some tx, prevReady = Some oldReadyTx, replaced = repTx,
                          dropReason = None\<rparr>)
                   else (a\<lparr>readyTx := None, notReadyTxs := fmupd (Nonce (h tx)) tx (notReadyTxs a)\<rparr>,
                         \<lparr>newReady = None, prevReady = Some oldReadyTx, replaced = repTx,
                          dropReason = None\<rparr>))
             else (a, \<lparr>newReady = None, prevReady = None, replaced = None,
                       dropReason = Some ErrDuplicatedNonce\<rparr>))
      else if currentNonce a > Nonce (h tx) then
        (a, \<lparr>newReady = None, prevReady = None, replaced = None,
             dropReason = Some ErrIntrinsicInvalidNonce\<rparr>)
      else
        (case fmlookup (notReadyTxs a) (Nonce (h tx)) of
           None \<Rightarrow>
             (a\<lparr>notReadyTxs := fmupd (Nonce (h tx)) tx (notReadyTxs a)\<rparr>,
              \<lparr>newReady = None, prevReady = None, replaced = None, dropReason = None\<rparr>)
         | Some nrTx \<Rightarrow>
             if GasPrice (h tx) \<ge> GasPrice (h nrTx) then
               (a\<lparr>notReadyTxs := fmupd (Nonce (h tx)) tx (notReadyTxs a)\<rparr>,
                \<lparr>newReady = None, prevReady = None,
                 replaced = (if HashStr (h nrTx) \<noteq> HashStr (h tx) then Some nrTx else None),
                 dropReason = None\<rparr>)
             else (a, \<lparr>newReady = None, prevReady = None, replaced = None,
                       dropReason = Some ErrDuplicatedNonce\<rparr>)))"

definition addForcedTx :: "addrQueue \<Rightarrow> hash \<Rightarrow> addrQueue" where
  "addForcedTx a txHash = a\<lparr>forcedTxs := finsert txHash (forcedTxs a)\<rparr>"

definition addPendingTxToStore :: "addrQueue \<Rightarrow> hash \<Rightarrow> addrQueue" where
  "addPendingTxToStore a txHash = a\<lparr>pendingTxsToStore := finsert txHash (pendingTxsToStore a)\<rparr>"

text \<open>
  \<open>ExpireTransactions\<close> reads the clock once per transaction: \<open>clock k\<close> is the
  value of the reading made for the entry with nonce \<open>k\<close>, \<open>clockReady\<close> the one made for
  the ready transaction.  \<open>ord\<close> is the order of the map iteration.
\<close>

definition isExpired :: "TxTracker \<Rightarrow> duration \<Rightarrow> time \<Rightarrow> bool" where
  "isExpired tx maxTime now \<longleftrightarrow> ReceivedAt tx + maxTime < now"

fun expireLoop ::
  "heap \<Rightarrow> duration \<Rightarrow> (u64 \<Rightarrow> time) \<Rightarrow> (u64, ref) fmap \<Rightarrow> ref list \<Rightarrow> u64 list \<Rightarrow>
   (u64, ref) fmap \<times> ref list" where
  "expireLoop h maxTime clock m txs [] = (m, txs)"
| "expireLoop h maxTime clock m txs (k # ks) =
     (case fmlookup m k of
        None \<Rightarrow> expireLoop h maxTime clock m txs ks
      | Some txTracker \<Rightarrow>
          if isExpired (h txTracker) maxTime (clock k)
          then expireLoop h maxTime clock (fmdrop (Nonce (h txTracker)) m) (txs @ [txTracker]) ks
          else expireLoop h maxTime clock m txs ks)"

definition ExpireTransactions ::
  "heap \<Rightarrow> duration \<Rightarrow> (u64 \<Rightarrow> time) \<Rightarrow> time \<Rightarrow> u64 list \<Rightarrow> addrQueue \<Rightarrow>
   addrQueue \<times> ref list \<times> ref option" where
  "ExpireTransactions h maxTime clock clockReady ord a =
     (let (m, txs) = expireLoop h maxTime clock (notReadyTxs a) [] ord;
          a1 = a\<lparr>notReadyTxs := m\<rparr>
      in case readyTx a1 of
           None \<Rightarrow> (a1, txs, None)
         | Some r \<Rightarrow>
             if isExpired (h r) maxTime clockReady
             then (a1\<lparr>readyTx := None\<rparr>, txs @ [r], Some r)
             else (a1, txs, None))"

definition aq_IsEmpty :: "addrQueue \<Rightarrow> bool" where
  "aq_IsEmpty a \<longleftrightarrow> readyTx a = None \<and> notReadyTxs a = fmempty \<and> forcedTxs a = {||} \<and>
     pendingTxsToStore a = {||}"

fun deleteLoop :: "heap \<Rightarrow> string \<Rightarrow> (u64, ref) fmap \<Rightarrow> u64 list \<Rightarrow> (u64, ref) fmap" where
  "deleteLoop h s m [] = m"
| "deleteLoop h s m (k # ks) =
     (case fmlookup m k of
        None \<Rightarrow> deleteLoop h s m ks
      | Some txTracker \<Rightarrow>
          if HashStr (h txTracker) = s then deleteLoop h s (fmdrop (Nonce (h txTracker)) m) ks
          else deleteLoop h s m ks)"

definition deleteTx ::
  "heap \<Rightarrow> (hash \<Rightarrow> string) \<Rightarrow> u64 list \<Rightarrow> addrQueue \<Rightarrow> hash \<Rightarrow> addrQueue \<times> ref option" where
  "deleteTx h hstr ord a txHash =
     (case readyTx a of
        Some r \<Rightarrow>
          if HashStr (h r) = hstr txHash then (a\<lparr>readyTx := None\<rparr>, Some r)
          else (a\<lparr>notReadyTxs := deleteLoop h (hstr txHash) (notReadyTxs a) ord\<rparr>, None)
      | None \<Rightarrow> (a\<lparr>notReadyTxs := deleteLoop h (hstr txHash) (notReadyTxs a) ord\<rparr>, None))"

definition deleteForcedTx :: "addrQueue \<Rightarrow> hash \<Rightarrow> addrQueue" where
  "deleteForcedTx a txHash =
     (if txHash |\<in>| forcedTxs a then a\<lparr>forcedTxs := forcedTxs a |-| {|txHash|}\<rparr> else a)"

definition deletePendingTxToStore :: "addrQueue \<Rightarrow> hash \<Rightarrow> addrQueue" where
  "deletePendingTxToStore a txHash =
     (if txHash |\<in>| pendingTxsToStore a
      then a\<lparr>pendingTxsToStore := pendingTxsToStore a |-| {|txHash|}\<rparr> else a)"

text \<open>
  \<open>updateCurrentNonceBalance\<close>: the first loop collects the transactions whose nonce is
  now in the past and marks them as failed (a write to the tracker), the second removes them.
\<close>

definition ErrIntrinsicInvalidNonce_Error :: string where
  "ErrIntrinsicInvalidNonce_Error = ''nonce intrinsic error''"

fun collectOld :: "u64 \<Rightarrow> (u64, ref) fmap \<Rightarrow> heap \<Rightarrow> ref list \<Rightarrow> u64 list \<Rightarrow> heap \<times> ref list" where
  "collectOld cur m h txs [] = (h, txs)"
| "collectOld cur m h txs (k # ks) =
     (case fmlookup m k of
        None \<Rightarrow> collectOld cur m h txs ks
      | Some t \<Rightarrow>
          if Nonce (h t) < cur
          then collectOld cur m (h(t := (h t)\<lparr>FailedReason := Some ErrIntrinsicInvalidNonce_Error\<rparr>))
                 (txs @ [t]) ks
          else collectOld cur m h txs ks)"

text \<open>The stages of \<open>updateCurrentNonceBalance\<close>, in the order the source runs them.\<close>

definition ucnb_balance :: "addrQueue \<Rightarrow> int option \<Rightarrow> addrQueue" where
  "ucnb_balance a balance =
     (case balance of None \<Rightarrow> a | Some b \<Rightarrow> a\<lparr>currentBalance := b\<rparr>)"

definition ucnb_nonce ::
  "heap \<Rightarrow> u64 list \<Rightarrow> addrQueue \<Rightarrow> u64 option \<Rightarrow> heap \<times> addrQueue \<times> ref list" where
  "ucnb_nonce h ord a nonce =
     (case nonce of
        None \<Rightarrow> (h, a, [])
      | Some n \<Rightarrow>
          if currentNonce a \<noteq> n then
            (let (h', del) = collectOld n (notReadyTxs a) h [] ord
             in (h', a\<lparr>currentNonce := n,
                       notReadyTxs := fold (\<lambda>t m. fmdrop (Nonce (h' t)) m) del (notReadyTxs a)\<rparr>,
                 del))
          else (h, a, []))"

definition ucnb_demote :: "heap \<Rightarrow> addrQueue \<Rightarrow> addrQueue \<times> ref option" where
  "ucnb_demote h a =
     (case readyTx a of
        None \<Rightarrow> (a, None)
      | Some r \<Rightarrow>
          if Nonce (h r) \<noteq> currentNonce a \<or> currentBalance a < Cost (h r)
          then (a\<lparr>readyTx := None\<rparr>, Some r) else (a, None))"

definition ucnb_promote :: "heap \<Rightarrow> addrQueue \<Rightarrow> addrQueue" where
  "ucnb_promote h a =
     (case readyTx a of
        Some r \<Rightarrow> a
      | None \<Rightarrow>
          (case fmlookup (notReadyTxs a) (currentNonce a) of
             None \<Rightarrow> a
           | Some nrTx \<Rightarrow>
               if currentBalance a \<ge> Cost (h nrTx)
               then a\<lparr>readyTx := Some nrTx,
                      notReadyTxs := fmdrop (currentNonce a) (notReadyTxs a)\<rparr>
               else a))"

definition ucnb_requeue :: "heap \<Rightarrow> addrQueue \<Rightarrow> ref option \<Rightarrow> addrQueue" where
  "ucnb_requeue h a oldReadyTx =
     (case oldReadyTx of
        None \<Rightarrow> a
      | Some r \<Rightarrow>
          if Nonce (h r) > currentNonce a
          then a\<lparr>notReadyTxs := fmupd (Nonce (h r)) r (notReadyTxs a)\<rparr> else a)"

definition updateCurrentNonceBalance ::
  "heap \<Rightarrow> u64 list \<Rightarrow> addrQueue \<Rightarrow> u64 option \<Rightarrow> int option \<Rightarrow>
   heap \<times> addrQueue \<times> ref option \<times> ref option \<times> ref list" where
  "updateCurrentNonceBalance h ord a nonce balance =
     (let (h1, a1, txsToDelete) = ucnb_nonce h ord (ucnb_balance a balance) nonce;
          (a2, oldReadyTx) = ucnb_demote h1 a1;
          a3 = ucnb_requeue h1 (ucnb_promote h1 a2) oldReadyTx
      in (h1, a3, readyTx a3, oldReadyTx, txsToDelete))"

fun updateCountersLoop :: "heap \<Rightarrow> string \<Rightarrow> ZKCounters \<Rightarrow> (u64, ref) fmap \<Rightarrow> u64 list \<Rightarrow> heap" where
  "updateCountersLoop h s counters m [] = h"
| "updateCountersLoop h s counters m (k # ks) =
     (case fmlookup m k of
        None \<Rightarrow> updateCountersLoop h s counters m ks
      | Some t \<Rightarrow>
          if HashStr (h t) = s then h(t := updateZKCounters (h t) counters)
          else updateCountersLoop h s counters m ks)"

definition aq_UpdateTxZKCounters ::
  "heap \<Rightarrow> (hash \<Rightarrow> string) \<Rightarrow> u64 list \<Rightarrow> addrQueue \<Rightarrow> hash \<Rightarrow> ZKCounters \<Rightarrow> heap" where
  "aq_UpdateTxZKCounters h hstr ord a txHash counters =
     (case readyTx a of
        Some r \<Rightarrow>
          if HashStr (h r) = hstr txHash then h(r := updateZKCounters (h r) counters)
          else updateCountersLoop h (hstr txHash) counters (notReadyTxs a) ord
      | None \<Rightarrow> updateCountersLoop h (hstr txHash) counters (notReadyTxs a) ord)"

subsection \<open>Heap frames\<close>

text \<open>
  No operation of the queue changes the identity, the nonce, the price or the cost of a
  tracker; \<open>same_static\<close> is that frame, and the invariant depends on nothing else.
\<close>

definition same_static :: "heap \<Rightarrow> heap \<Rightarrow> bool" where
  "same_static h h' \<longleftrightarrow> (\<forall>r. HashStr (h' r) = HashStr (h r) \<and> FromStr (h' r) = FromStr (h r) \<and>
     Nonce (h' r) = Nonce (h r) \<and> GasPrice (h' r) = GasPrice (h r) \<and> Cost (h' r) = Cost (h r))"

lemma same_static_refl [simp]: "same_static h h"
  by (simp add: same_static_def)

lemma same_static_trans: "same_static h h' \<Longrightarrow> same_static h' h'' \<Longrightarrow> same_static h h''"
  by (simp add: same_static_def)

lemma same_staticD:
  assumes "same_static h h'"
  shows "HashStr (h' r) = HashStr (h r)" "FromStr (h' r) = FromStr (h r)"
    "Nonce (h' r) = Nonce (h r)" "GasPrice (h' r) = GasPrice (h r)" "Cost (h' r) = Cost (h r)"
  using assms by (simp_all add: same_static_def)

lemma same_static_upd [simp]:
  "same_static h (h(t := (h t)\<lparr>FailedReason := x\<rparr>))"
  "same_static h (h(t := updateZKCounters (h t) counters))"
  by (simp_all add: same_static_def updateZKCounters_def)

lemma collectOld_static: "same_static h (fst (collectOld cur m h txs ks))"
proof (induction ks arbitrary: h txs)
  case (Cons k ks)
  show ?case
    by (auto split: option.split intro: Cons.IH same_static_trans[OF same_static_upd(1) Cons.IH])
qed simp

lemma updateCountersLoop_static: "same_static h (updateCountersLoop h s counters m ks)"
  by (induction ks) (auto split: option.split)

subsection \<open>The invariant of a queue\<close>

definition aq_refs :: "addrQueue \<Rightarrow> ref set" where
  "aq_refs a = set_option (readyTx a) \<union> fmran' (notReadyTxs a)"

definition aq_inv :: "heap \<Rightarrow> addrQueue \<Rightarrow> bool" where
  "aq_inv h a \<longleftrightarrow>
     (\<forall>r. readyTx a = Some r \<longrightarrow> Nonce (h r) = currentNonce a \<and> Cost (h r) \<le> currentBalance a) \<and>
     (\<forall>n r. fmlookup (notReadyTxs a) n = Some r \<longrightarrow> Nonce (h r) = n \<and> currentNonce a \<le> n) \<and>
     (\<forall>r\<in>aq_refs a. FromStr (h r) = fromStr a)"

lemma aq_inv_static: "same_static h h' \<Longrightarrow> aq_inv h' a = aq_inv h a"
  by (simp add: aq_inv_def same_static_def)

lemma aq_invD:
  assumes "aq_inv h a"
  shows "readyTx a = Some r \<Longrightarrow> Nonce (h r) = currentNonce a"
    "readyTx a = Some r \<Longrightarrow> Cost (h r) \<le> currentBalance a"
    "readyTx a = Some r \<Longrightarrow> FromStr (h r) = fromStr a"
    "fmlookup (notReadyTxs a) n = Some r \<Longrightarrow> Nonce (h r) = n"
    "fmlookup (notReadyTxs a) n = Some r \<Longrightarrow> currentNonce a \<le> n"
    "fmlookup (notReadyTxs a) n = Some r \<Longrightarrow> FromStr (h r) = fromStr a"
  using assms by (auto simp: aq_inv_def aq_refs_def fmran'I)

lemma aq_invI [inv_intros]:
  assumes "\<And>r. readyTx a = Some r \<Longrightarrow>
             Nonce (h r) = currentNonce a \<and> Cost (h r) \<le> currentBalance a \<and> FromStr (h r) = fromStr a"
    and "\<And>n r. fmlookup (notReadyTxs a) n = Some r \<Longrightarrow>
             Nonce (h r) = n \<and> currentNonce a \<le> n \<and> FromStr (h r) = fromStr a"
  shows "aq_inv h a"
  unfolding aq_inv_def aq_refs_def using assms by (fastforce elim!: fmran'E)

lemma newAddrQueue_inv [simp]: "aq_inv h (newAddrQueue astr addr nonce balance)"
  by (rule aq_invI) (simp_all add: newAddrQueue_def)

lemma addTx_frame [simp]:
  "currentNonce (fst (addTx h a tx)) = currentNonce a"
  "currentBalance (fst (addTx h a tx)) = currentBalance a"
  "fromStr (fst (addTx h a tx)) = fromStr a"
  "aq_from (fst (addTx h a tx)) = aq_from a"
  "forcedTxs (fst (addTx h a tx)) = forcedTxs a"
  "pendingTxsToStore (fst (addTx h a tx)) = pendingTxsToStore a"
  by (simp_all add: addTx_def Let_def split: option.split)

lemma addTx_inv:
  assumes "aq_inv h a" "FromStr (h tx) = fromStr a"
  shows "aq_inv h (fst (addTx h a tx))"
proof (rule aq_invI)
  fix r assume "readyTx (fst (addTx h a tx)) = Some r"
  then show "Nonce (h r) = currentNonce (fst (addTx h a tx)) \<and>
      Cost (h r) \<le> currentBalance (fst (addTx h a tx)) \<and> FromStr (h r) = fromStr (fst (addTx h a tx))"
    using aq_invD(1-3)[OF assms(1), of r] assms(2)
    by (simp add: addTx_def Let_def split: option.splits if_splits)
next
  fix n r assume "fmlookup (notReadyTxs (fst (addTx h a tx))) n = Some r"
  then show "Nonce (h r) = n \<and> currentNonce (fst (addTx h a tx)) \<le> n \<and>
      FromStr (h r) = fromStr (fst (addTx h a tx))"
    using aq_invD(4-6)[OF assms(1), of n r] assms(2)
    by (simp add: addTx_def Let_def split: option.splits if_splits)
qed

lemma addTx_ready:
  "readyTx (fst (addTx h a tx)) =
     (if dropReason (snd (addTx h a tx)) \<noteq> None then readyTx a
      else if Nonce (h tx) = currentNonce a then newReady (snd (addTx h a tx)) else readyTx a)"
  by (simp add: addTx_def Let_def split: option.split)

subsection \<open>The loops over the not-ready transactions\<close>

text \<open>
  When every entry is stored under its own nonce (\<open>keyed\<close>), the loops that delete while
  they iterate remove exactly the entries that satisfy their test, whatever the order.
\<close>

definition keyed :: "heap \<Rightarrow> (u64, ref) fmap \<Rightarrow> bool" where
  "keyed h m \<longleftrightarrow> (\<forall>k r. fmlookup m k = Some r \<longrightarrow> Nonce (h r) = k)"

lemma keyed_fmdrop: "keyed h m \<Longrightarrow> keyed h (fmdrop k m)"
  by (auto simp: keyed_def split: if_splits)

definition entry_is :: "(u64, ref) fmap \<Rightarrow> (u64 \<Rightarrow> ref \<Rightarrow> bool) \<Rightarrow> u64 \<Rightarrow> bool" where
  "entry_is m P k \<longleftrightarrow> (\<exists>r. fmlookup m k = Some r \<and> P k r)"

lemma entry_is_simps [simp]:
  "fmlookup m k = None \<Longrightarrow> entry_is m P k = False"
  "fmlookup m k = Some r \<Longrightarrow> entry_is m P k = P k r"
  "q \<noteq> k \<Longrightarrow> entry_is (fmdrop k m) P q = entry_is m P q"
  by (auto simp: entry_is_def)

lemma filter_entry_fmdrop:
  "k \<notin> set ks \<Longrightarrow> filter (entry_is (fmdrop k m) P) ks = filter (entry_is m P) ks"
  by (intro filter_cong) (auto simp: entry_is_def split: if_splits)

lemma map_lookup_fmdrop:
  "k \<notin> set ks \<Longrightarrow> map (\<lambda>q. the (fmlookup (fmdrop k m) q)) (filter Q ks)
     = map (\<lambda>q. the (fmlookup m q)) (filter Q ks)"
  by (intro map_cong) auto

lemma fmfilter_drop_Cons:
  assumes "k \<notin> set ks" "entry_is m P k"
  shows "fmfilter (\<lambda>q. \<not> (q \<in> set ks \<and> entry_is (fmdrop k m) P q)) (fmdrop k m)
       = fmfilter (\<lambda>q. \<not> (q \<in> set (k # ks) \<and> entry_is m P q)) m"
  using assms by (intro fmap_ext) auto

lemma expireLoop_eq:
  assumes "keyed h m" "distinct ks" and P_def: "P = (\<lambda>k r. isExpired (h r) maxTime (clock k))"
  shows "expireLoop h maxTime clock m txs ks =
     (fmfilter (\<lambda>q. \<not> (q \<in> set ks \<and> entry_is m P q)) m,
      txs @ map (\<lambda>q. the (fmlookup m q)) (filter (entry_is m P) ks))"
  using assms(1,2)
proof (induction ks arbitrary: m txs)
  case Nil
  have "fmfilter (\<lambda>q. True) m = m" by (intro fmap_ext) simp
  then show ?case by simp
next
  case (Cons k ks)
  show ?case
  proof (cases "entry_is m P k")
    case False
    have "fmfilter (\<lambda>q. \<not> (q \<in> set ks \<and> entry_is m P q)) m
        = fmfilter (\<lambda>q. \<not> (q \<in> set (k # ks) \<and> entry_is m P q)) m"
      using False by (intro fmap_ext) auto
    with Cons False show ?thesis
      by (cases "fmlookup m k") (auto simp: P_def)
  next
    case True
    then obtain t where t: "fmlookup m k = Some t" "P k t" by (auto simp: entry_is_def)
    have k: "k \<notin> set ks" using Cons.prems(2) by simp
    have "Nonce (h t) = k" using Cons.prems(1) t(1) by (simp add: keyed_def)
    then have "expireLoop h maxTime clock m txs (k # ks)
        = expireLoop h maxTime clock (fmdrop k m) (txs @ [t]) ks"
      using t by (simp add: P_def)
    also have "\<dots> = (fmfilter (\<lambda>q. \<not> (q \<in> set ks \<and> entry_is (fmdrop k m) P q)) (fmdrop k m),
      (txs @ [t]) @ map (\<lambda>q. the (fmlookup (fmdrop k m) q)) (filter (entry_is (fmdrop k m) P) ks))"
      using Cons.prems by (intro Cons.IH) (auto intro: keyed_fmdrop)
    also have "\<dots> = (fmfilter (\<lambda>q. \<not> (q \<in> set (k # ks) \<and> entry_is m P q)) m,
      (txs @ [t]) @ map (\<lambda>q. the (fmlookup m q)) (filter (entry_is m P) ks))"
      unfolding filter_entry_fmdrop[OF k] map_lookup_fmdrop[OF k] fmfilter_drop_Cons[OF k True] ..
    finally show ?thesis using t True by simp
  qed
qed

lemma deleteLoop_eq:
  assumes "keyed h m" "distinct ks" and P_def: "P = (\<lambda>k r. HashStr (h r) = s)"
  shows "deleteLoop h s m ks = fmfilter (\<lambda>q. \<not> (q \<in> set ks \<and> entry_is m P q)) m"
  using assms(1,2)
proof (induction ks arbitrary: m)
  case Nil
  have "fmfilter (\<lambda>q. True) m = m" by (intro fmap_ext) simp
  then show ?case by simp
next
  case (Cons k ks)
  show ?case
  proof (cases "entry_is m P k")
    case False
    have "fmfilter (\<lambda>q. \<not> (q \<in> set ks \<and> entry_is m P q)) m
        = fmfilter (\<lambda>q. \<not> (q \<in> set (k # ks) \<and> entry_is m P q)) m"
      using False by (intro fmap_ext) auto
    with Cons False show ?thesis
      by (cases "fmlookup m k") (auto simp: P_def)
  next
    case True
    then obtain t where t: "fmlookup m k = Some t" "P k t" by (auto simp: entry_is_def)
    have "Nonce (h t) = k" using Cons.prems(1) t(1) by (simp add: keyed_def)
    then have "deleteLoop h s m (k # ks) = deleteLoop h s (fmdrop k m) ks"
      using t by (simp add: P_def)
    also have "\<dots> = fmfilter (\<lambda>q. \<not> (q \<in> set ks \<and> entry_is (fmdrop k m) P q)) (fmdrop k m)"
      using Cons.prems by (intro Cons.IH) (auto intro: keyed_fmdrop)
    also have "\<dots> = fmfilter (\<lambda>q. \<not> (q \<in> set (k # ks) \<and> entry_is m P q)) m"
      using Cons.prems(2) by (intro fmfilter_drop_Cons[OF _ True]) simp
    finally show ?thesis .
  qed
qed

lemma collectOld_eq:
  assumes "keyed h m"
  shows "snd (collectOld cur m h txs ks) =
           txs @ map (\<lambda>q. the (fmlookup m q)) (filter (entry_is m (\<lambda>k r. k < cur)) ks)"
  using assms
proof (induction ks arbitrary: h txs)
  case Nil
  then show ?case by simp
next
  case (Cons k ks)
  show ?case
  proof (cases "fmlookup m k")
    case None
    with Cons show ?thesis by simp
  next
    case (Some t)
    let ?h = "h(t := (h t)\<lparr>FailedReason := Some ErrIntrinsicInvalidNonce_Error\<rparr>)"
    have k: "Nonce (h t) = k" and kh: "keyed ?h m"
      using Cons.prems Some by (auto simp: keyed_def)
    have "snd (collectOld cur m ?h (txs @ [t]) ks) =
        (txs @ [t]) @ map (\<lambda>q. the (fmlookup m q)) (filter (entry_is m (\<lambda>k r. k < cur)) ks)"
      using kh by (rule Cons.IH)
    with k Cons.IH[OF Cons.prems] Some show ?thesis by simp
  qed
qed

lemma collectOld_marks:
  "\<lbrakk>t \<in> set (snd (collectOld cur m h txs ks)); t \<notin> set txs \<or>
      FailedReason (h t) = Some ErrIntrinsicInvalidNonce_Error\<rbrakk>
   \<Longrightarrow> FailedReason (fst (collectOld cur m h txs ks) t) = Some ErrIntrinsicInvalidNonce_Error"
proof (induction ks arbitrary: h txs)
  case Nil
  then show ?case by simp
next
  case (Cons k ks)
  then show ?case by (auto split: option.splits if_splits intro!: Cons.IH)
qed

lemma fmlookup_fold_fmdrop:
  "fmlookup (fold (\<lambda>t m. fmdrop (f t) m) ts m) n = (if n \<in> f ` set ts then None else fmlookup m n)"
  by (induction ts arbitrary: m) auto

lemma aq_inv_keyed: "aq_inv h a \<Longrightarrow> keyed h (notReadyTxs a)"
  by (simp add: aq_inv_def keyed_def)

lemma ExpireTransactions_eq:
  assumes "aq_inv h a" "is_range_order (notReadyTxs a) ord"
  shows "fmlookup (notReadyTxs (fst (ExpireTransactions h mt clock cr ord a))) k =
           (case fmlookup (notReadyTxs a) k of
              Some r \<Rightarrow> if isExpired (h r) mt (clock k) then None else Some r
            | None \<Rightarrow> None)"
    and "readyTx (fst (ExpireTransactions h mt clock cr ord a)) =
           (case readyTx a of Some r \<Rightarrow> if isExpired (h r) mt cr then None else Some r | None \<Rightarrow> None)"
    and "set (fst (snd (ExpireTransactions h mt clock cr ord a))) =
           {r. \<exists>k. fmlookup (notReadyTxs a) k = Some r \<and> isExpired (h r) mt (clock k)} \<union>
           {r. readyTx a = Some r \<and> isExpired (h r) mt cr}"
    and "snd (snd (ExpireTransactions h mt clock cr ord a)) =
           (case readyTx a of Some r \<Rightarrow> if isExpired (h r) mt cr then Some r else None | None \<Rightarrow> None)"
proof -
  note eq = expireLoop_eq[OF aq_inv_keyed[OF assms(1)] is_range_orderD(1)[OF assms(2)] refl]
  note ord = is_range_orderD(2)[OF assms(2)]
  show "fmlookup (notReadyTxs (fst (ExpireTransactions h mt clock cr ord a))) k =
           (case fmlookup (notReadyTxs a) k of
              Some r \<Rightarrow> if isExpired (h r) mt (clock k) then None else Some r
            | None \<Rightarrow> None)"
    unfolding ExpireTransactions_def Let_def eq
    by (auto simp: ord entry_is_def split: option.split)
  show "readyTx (fst (ExpireTransactions h mt clock cr ord a)) =
           (case readyTx a of Some r \<Rightarrow> if isExpired (h r) mt cr then None else Some r | None \<Rightarrow> None)"
    "snd (snd (ExpireTransactions h mt clock cr ord a)) =
           (case readyTx a of Some r \<Rightarrow> if isExpired (h r) mt cr then Some r else None | None \<Rightarrow> None)"
    unfolding ExpireTransactions_def Let_def eq by (auto split: option.split)
  show "set (fst (snd (ExpireTransactions h mt clock cr ord a))) =
           {r. \<exists>k. fmlookup (notReadyTxs a) k = Some r \<and> isExpired (h r) mt (clock k)} \<union>
           {r. readyTx a = Some r \<and> isExpired (h r) mt cr}"
    unfolding ExpireTransactions_def Let_def eq
    by (auto simp: ord entry_is_def image_iff split: option.split) force+
qed

lemma ExpireTransactions_frame [simp]:
  "currentNonce (fst (ExpireTransactions h mt clock cr ord a)) = currentNonce a"
  "currentBalance (fst (ExpireTransactions h mt clock cr ord a)) = currentBalance a"
  "fromStr (fst (ExpireTransactions h mt clock cr ord a)) = fromStr a"
  "forcedTxs (fst (ExpireTransactions h mt clock cr ord a)) = forcedTxs a"
  "pendingTxsToStore (fst (ExpireTransactions h mt clock cr ord a)) = pendingTxsToStore a"
  by (simp_all add: ExpireTransactions_def Let_def split_beta split: option.split)

lemma ExpireTransactions_inv:
  assumes "aq_inv h a" "is_range_order (notReadyTxs a) ord"
  shows "aq_inv h (fst (ExpireTransactions h mt clock cr ord a))"
proof (rule aq_invI, goal_cases)
  case (1 r)
  then show ?case
    using aq_invD(1-3)[OF assms(1), of r] ExpireTransactions_eq(2)[OF assms]
    by (simp split: option.splits if_splits)
next
  case (2 n r)
  then show ?case
    using aq_invD(4-6)[OF assms(1), of n r] ExpireTransactions_eq(1)[OF assms, of mt clock cr n]
    by (simp split: option.splits if_splits)
qed

lemma deleteTx_frame [simp]:
  "currentNonce (fst (deleteTx h hstr ord a txHash)) = currentNonce a"
  "currentBalance (fst (deleteTx h hstr ord a txHash)) = currentBalance a"
  "fromStr (fst (deleteTx h hstr ord a txHash)) = fromStr a"
  by (simp_all add: deleteTx_def split: option.split)

lemma deleteTx_ready:
  "readyTx (fst (deleteTx h hstr ord a txHash)) =
     (case readyTx a of Some r \<Rightarrow> if HashStr (h r) = hstr txHash then None else Some r | None \<Rightarrow> None)"
  "snd (deleteTx h hstr ord a txHash) =
     (case readyTx a of Some r \<Rightarrow> if HashStr (h r) = hstr txHash then Some r else None | None \<Rightarrow> None)"
  by (auto simp: deleteTx_def split: option.split)

lemma deleteTx_lookup:
  assumes "aq_inv h a" "is_range_order (notReadyTxs a) ord"
  shows "fmlookup (notReadyTxs (fst (deleteTx h hstr ord a txHash))) k =
     (case fmlookup (notReadyTxs a) k of
        Some r \<Rightarrow> if HashStr (h r) = hstr txHash \<and> snd (deleteTx h hstr ord a txHash) = None
                 then None else Some r
      | None \<Rightarrow> None)"
proof -
  note eq = deleteLoop_eq[OF aq_inv_keyed[OF assms(1)] is_range_orderD(1)[OF assms(2)] refl]
  show ?thesis
    unfolding deleteTx_def eq
    by (auto simp: is_range_orderD(2)[OF assms(2)] entry_is_def split: option.split)
qed

lemma deleteTx_inv:
  assumes "aq_inv h a" "is_range_order (notReadyTxs a) ord"
  shows "aq_inv h (fst (deleteTx h hstr ord a txHash))"
proof (rule aq_invI, goal_cases)
  case (1 r)
  then show ?case
    using aq_invD(1-3)[OF assms(1), of r] by (simp add: deleteTx_ready split: option.splits if_splits)
next
  case (2 n r)
  then show ?case
    using aq_invD(4-6)[OF assms(1), of n r] deleteTx_lookup[OF assms, of hstr txHash n]
    by (simp split: option.splits if_splits)
qed

subsection \<open>Updating nonce and balance\<close>

lemma ucnb_nonce_static: "same_static h (fst (ucnb_nonce h ord a nonce))"
  using collectOld_static[of h _ "notReadyTxs a" "[]" ord]
  by (simp add: ucnb_nonce_def Let_def split_beta split: option.split)

lemma ucnb_nonce_frame:
  assumes "ucnb_nonce h ord a nonce = (h1, a1, del)"
  shows "currentNonce a1 = (case nonce of None \<Rightarrow> currentNonce a | Some n \<Rightarrow> n)"
    "currentBalance a1 = currentBalance a" "readyTx a1 = readyTx a" "fromStr a1 = fromStr a"
    "aq_from a1 = aq_from a" "forcedTxs a1 = forcedTxs a" "pendingTxsToStore a1 = pendingTxsToStore a"
  using assms by (auto simp: ucnb_nonce_def Let_def split_beta split: option.splits if_splits)

lemma ucnb_nonce_lookup:
  assumes "keyed h (notReadyTxs a)" "is_range_order (notReadyTxs a) ord"
    and "\<forall>k r. fmlookup (notReadyTxs a) k = Some r \<longrightarrow> currentNonce a \<le> k"
    and "ucnb_nonce h ord a nonce = (h1, a1, del)"
  shows "fmlookup (notReadyTxs a1) k = (if k < currentNonce a1 then None else fmlookup (notReadyTxs a) k)"
    and "set del = {r. \<exists>k. fmlookup (notReadyTxs a) k = Some r \<and> k < currentNonce a1}"
    and "t \<in> set del \<Longrightarrow> FailedReason (h1 t) = Some ErrIntrinsicInvalidNonce_Error"
proof -
  note ord = is_range_orderD(2)[OF assms(2)]
  let ?n = "currentNonce a1"
  have old: "fmlookup (notReadyTxs a) k = None" if "k < currentNonce a" for k
    using assms(3) that by (cases "fmlookup (notReadyTxs a) k") (auto simp: leD)
  have *: "(\<forall>k. fmlookup (notReadyTxs a1) k = (if k < ?n then None else fmlookup (notReadyTxs a) k)) \<and>
    set del = {r. \<exists>k. fmlookup (notReadyTxs a) k = Some r \<and> k < ?n} \<and>
    (\<forall>t\<in>set del. FailedReason (h1 t) = Some ErrIntrinsicInvalidNonce_Error)"
  proof (cases "nonce = None \<or> nonce = Some (currentNonce a)")
    case True
    with assms(4) have "a1 = a" "del = []" by (auto simp: ucnb_nonce_def)
    with old show ?thesis by auto
  next
    case False
    then obtain n where n: "nonce = Some n" "currentNonce a \<noteq> n" by (cases nonce) auto
    define c where "c = collectOld n (notReadyTxs a) h [] ord"
    have eq: "h1 = fst c" "del = snd c" "?n = n"
      "notReadyTxs a1 = fold (\<lambda>t m. fmdrop (Nonce (fst c t)) m) (snd c) (notReadyTxs a)"
      using assms(4) n by (auto simp: ucnb_nonce_def c_def Let_def split_beta)
    have del: "set (snd c) = {r. \<exists>k. fmlookup (notReadyTxs a) k = Some r \<and> k < n}"
      using collectOld_eq[OF assms(1), of n "[]" ord] ord
      by (force simp: c_def entry_is_def image_iff)
    have nonce: "Nonce (fst c t) = Nonce (h t)" for t
      using same_staticD(3)[OF collectOld_static, of n "notReadyTxs a" h "[]" ord t] by (simp add: c_def)
    have "(\<lambda>t. Nonce (fst c t)) ` set (snd c) = {k. k < n \<and> fmlookup (notReadyTxs a) k \<noteq> None}"
      using assms(1) by (force simp: del nonce keyed_def image_iff)
    then have "fmlookup (notReadyTxs a1) k = (if k < n then None else fmlookup (notReadyTxs a) k)" for k
      by (auto simp: eq(4) fmlookup_fold_fmdrop)
    moreover have "FailedReason (h1 t) = Some ErrIntrinsicInvalidNonce_Error" if "t \<in> set del" for t
      using collectOld_marks[of t n "notReadyTxs a" h "[]" ord] that by (simp add: eq c_def)
    ultimately show ?thesis using del by (simp add: eq)
  qed
  then show "fmlookup (notReadyTxs a1) k = (if k < ?n then None else fmlookup (notReadyTxs a) k)"
    "set del = {r. \<exists>k. fmlookup (notReadyTxs a) k = Some r \<and> k < ?n}"
    "t \<in> set del \<Longrightarrow> FailedReason (h1 t) = Some ErrIntrinsicInvalidNonce_Error"
    by blast+
qed

lemma ucnb_balance_frame [simp]:
  "readyTx (ucnb_balance a b) = readyTx a" "notReadyTxs (ucnb_balance a b) = notReadyTxs a"
  "currentNonce (ucnb_balance a b) = currentNonce a" "fromStr (ucnb_balance a b) = fromStr a"
  "currentBalance (ucnb_balance a b) = (case b of None \<Rightarrow> currentBalance a | Some v \<Rightarrow> v)"
  by (simp_all add: ucnb_balance_def split: option.split)

lemma ucnb_demote_frame:
  assumes "ucnb_demote h a = (a', old)"
  shows "notReadyTxs a' = notReadyTxs a" "currentNonce a' = currentNonce a"
    "currentBalance a' = currentBalance a" "fromStr a' = fromStr a"
    "readyTx a = (case old of Some r \<Rightarrow> Some r | None \<Rightarrow> readyTx a')"
    "old \<noteq> None \<Longrightarrow> readyTx a' = None"
    "readyTx a' = Some r \<Longrightarrow> Nonce (h r) = currentNonce a \<and> Cost (h r) \<le> currentBalance a"
    "old = Some r \<Longrightarrow> readyTx a = Some r"
  using assms by (auto simp: ucnb_demote_def split: option.splits if_splits)

lemma ucnb_promote_frame [simp]:
  "currentNonce (ucnb_promote h a) = currentNonce a"
  "currentBalance (ucnb_promote h a) = currentBalance a"
  "fromStr (ucnb_promote h a) = fromStr a"
  by (simp_all add: ucnb_promote_def split: option.split)

lemma ucnb_requeue_frame [simp]:
  "currentNonce (ucnb_requeue h a old) = currentNonce a"
  "currentBalance (ucnb_requeue h a old) = currentBalance a"
  "fromStr (ucnb_requeue h a old) = fromStr a"
  "readyTx (ucnb_requeue h a old) = readyTx a"
  by (simp_all add: ucnb_requeue_def split: option.split)

lemma ucnb_promote_inv:
  assumes "aq_inv h a"
  shows "aq_inv h (ucnb_promote h a)"
proof (rule aq_invI, goal_cases)
  case (1 r)
  then show ?case
    using aq_invD(1-3)[OF assms, of r] aq_invD(4,6)[OF assms, of "currentNonce a" r]
    by (auto simp: ucnb_promote_def split: option.splits if_splits)
next
  case (2 n r)
  then show ?case
    using aq_invD(4-6)[OF assms, of n r]
    by (auto simp: ucnb_promote_def split: option.splits if_splits)
qed

lemma ucnb_requeue_inv:
  assumes "aq_inv h a" "\<And>r. old = Some r \<Longrightarrow> FromStr (h r) = fromStr a"
  shows "aq_inv h (ucnb_requeue h a old)"
proof (rule aq_invI, goal_cases)
  case (1 r)
  then show ?case using aq_invD(1-3)[OF assms(1), of r] by simp
next
  case (2 n r)
  then show ?case
    using aq_invD(4-6)[OF assms(1), of n r] assms(2)
    by (auto simp: ucnb_requeue_def split: option.splits if_splits)
qed

lemma ucnb_promote_complete:
  assumes "readyTx (ucnb_promote h a) = None"
    and "fmlookup (notReadyTxs (ucnb_promote h a)) (currentNonce a) = Some r"
  shows "currentBalance a < Cost (h r)"
  using assms by (auto simp: ucnb_promote_def split: option.splits if_splits)

lemma ucnb_requeue_lookup_current:
  "fmlookup (notReadyTxs (ucnb_requeue h a old)) (currentNonce a) = fmlookup (notReadyTxs a) (currentNonce a)"
  by (auto simp: ucnb_requeue_def split: option.split)

lemma aq_inv_keyed_balance: "aq_inv h a \<Longrightarrow> keyed h (notReadyTxs (ucnb_balance a b))"
  by (simp add: aq_inv_keyed)

text \<open>The four stages with their intermediate states named, for the proofs below.\<close>

lemma updateCurrentNonceBalance_stages:
  assumes "aq_inv h a" "is_range_order (notReadyTxs a) ord"
    and "updateCurrentNonceBalance h ord a nonce balance = (h', a', newR, oldR, del)"
  obtains a1 a2 where "ucnb_nonce h ord (ucnb_balance a balance) nonce = (h', a1, del)"
    "ucnb_demote h' a1 = (a2, oldR)" "a' = ucnb_requeue h' (ucnb_promote h' a2) oldR"
    "newR = readyTx a'" "same_static h h'" "aq_inv h' a2"
    "\<And>r. oldR = Some r \<Longrightarrow> FromStr (h' r) = fromStr a2"
    "\<And>k. fmlookup (notReadyTxs a2) k =
        (if k < currentNonce a2 then None else fmlookup (notReadyTxs a) k)"
    "set del = {r. \<exists>k. fmlookup (notReadyTxs a) k = Some r \<and> k < currentNonce a2}"
    "\<And>t. t \<in> set del \<Longrightarrow> FailedReason (h' t) = Some ErrIntrinsicInvalidNonce_Error"
    "currentNonce a2 = (case nonce of None \<Rightarrow> currentNonce a | Some n \<Rightarrow> n)"
    "currentBalance a2 = (case balance of None \<Rightarrow> currentBalance a | Some b \<Rightarrow> b)"
    "fromStr a2 = fromStr a"
proof -
  obtain a1 a2 where st: "ucnb_nonce h ord (ucnb_balance a balance) nonce = (h', a1, del)"
    "ucnb_demote h' a1 = (a2, oldR)" "a' = ucnb_requeue h' (ucnb_promote h' a2) oldR"
    "newR = readyTx a'"
    using assms(3) by (auto simp: updateCurrentNonceBalance_def Let_def split_beta prod_eq_iff)
  have stat: "same_static h h'"
    using ucnb_nonce_static[of h ord "ucnb_balance a balance" nonce] st(1) by simp
  have ge: "\<forall>k r. fmlookup (notReadyTxs (ucnb_balance a balance)) k = Some r \<longrightarrow>
      currentNonce (ucnb_balance a balance) \<le> k"
    using aq_invD(5)[OF assms(1)] by simp
  have ro: "is_range_order (notReadyTxs (ucnb_balance a balance)) ord" using assms(2) by simp
  note nl = ucnb_nonce_lookup[OF aq_inv_keyed_balance[OF assms(1)] ro ge st(1)]
  note nf = ucnb_nonce_frame[OF st(1)]
  note df = ucnb_demote_frame[OF st(2)]
  have cn: "currentNonce a2 = (case nonce of None \<Rightarrow> currentNonce a | Some n \<Rightarrow> n)"
    using df(2) nf(1) by (simp split: option.splits)
  have cb: "currentBalance a2 = (case balance of None \<Rightarrow> currentBalance a | Some b \<Rightarrow> b)"
    "fromStr a2 = fromStr a"
    using df(3,4) nf(2,4) by simp_all
  have del: "set del = {r. \<exists>k. fmlookup (notReadyTxs a) k = Some r \<and> k < currentNonce a2}"
    using nl(2) df(2) by simp
  have look: "fmlookup (notReadyTxs a2) k =
      (if k < currentNonce a2 then None else fmlookup (notReadyTxs a) k)" for k
    by (simp add: df(1,2) nl(1))
  have old: "FromStr (h' r) = fromStr a2" if "oldR = Some r" for r
    using df(8)[OF that] nf(3) aq_invD(3)[OF assms(1), of r] same_staticD[OF stat, of r] cb by simp
  have inv: "aq_inv h' a2"
  proof (rule aq_invI, goal_cases)
    case (1 r)
    moreover from this have "readyTx a = Some r"
      using df(5,6) nf(3) by (cases oldR) simp_all
    ultimately show ?case
      using df(7)[of r] aq_invD(3)[OF assms(1), of r] same_staticD[OF stat, of r] cb df(2,3)
      by simp
  next
    case (2 n r)
    then show ?case
      using look[of n] aq_invD(4-6)[OF assms(1), of n r] same_staticD[OF stat, of r] cb
      by (simp add: not_less split: if_splits)
  qed
  show thesis
    by (rule that[OF st stat inv old look del nl(3) cn cb])
qed

lemma updateCurrentNonceBalance_inv:
  assumes "aq_inv h a" "is_range_order (notReadyTxs a) ord"
  shows "aq_inv (fst (updateCurrentNonceBalance h ord a nonce balance))
           (fst (snd (updateCurrentNonceBalance h ord a nonce balance)))"
proof -
  obtain h' a' newR oldR del where eq:
    "updateCurrentNonceBalance h ord a nonce balance = (h', a', newR, oldR, del)"
    by (cases "updateCurrentNonceBalance h ord a nonce balance") auto
  show ?thesis
    by (rule updateCurrentNonceBalance_stages[OF assms eq])
      (auto simp: eq intro!: ucnb_requeue_inv ucnb_promote_inv)
qed

subsection \<open>Every history of operations keeps the invariant\<close>

text \<open>
  The operations of \<open>addrQueue\<close> as a step relation on a heap and a queue.  \<open>alloc\<close> is the
  creation of a tracker by \<open>newTxTracker\<close> at an address the queue does not hold.
\<close>

inductive aq_step :: "heap \<times> addrQueue \<Rightarrow> heap \<times> addrQueue \<Rightarrow> bool" where
  alloc: "r \<notin> aq_refs a \<Longrightarrow> aq_step (h, a) (h(r := t), a)"
| add: "FromStr (h tx) = fromStr a \<Longrightarrow> aq_step (h, a) (h, fst (addTx h a tx))"
| add_forced: "aq_step (h, a) (h, addForcedTx a txHash)"
| add_pending: "aq_step (h, a) (h, addPendingTxToStore a txHash)"
| expire: "is_range_order (notReadyTxs a) ord \<Longrightarrow>
    aq_step (h, a) (h, fst (ExpireTransactions h maxTime clock clockReady ord a))"
| delete: "is_range_order (notReadyTxs a) ord \<Longrightarrow>
    aq_step (h, a) (h, fst (deleteTx h hstr ord a txHash))"
| delete_forced: "aq_step (h, a) (h, deleteForcedTx a txHash)"
| delete_pending: "aq_step (h, a) (h, deletePendingTxToStore a txHash)"
| update: "is_range_order (notReadyTxs a) ord \<Longrightarrow>
    updateCurrentNonceBalance h ord a nonce balance = (h', a', new, old, del) \<Longrightarrow>
    aq_step (h, a) (h', a')"
| counters: "aq_step (h, a) (aq_UpdateTxZKCounters h hstr ord a txHash c, a)"

inductive_cases aq_stepE: "aq_step (h, a) s"

lemma aq_inv_alloc: "aq_inv h a \<Longrightarrow> r \<notin> aq_refs a \<Longrightarrow> aq_inv (h(r := t)) a"
  by (auto simp: aq_inv_def aq_refs_def fmran'I)

lemma aq_inv_sets [simp]:
  "aq_inv h (addForcedTx a x) = aq_inv h a" "aq_inv h (addPendingTxToStore a x) = aq_inv h a"
  "aq_inv h (deleteForcedTx a x) = aq_inv h a" "aq_inv h (deletePendingTxToStore a x) = aq_inv h a"
  by (simp_all add: aq_inv_def aq_refs_def addForcedTx_def addPendingTxToStore_def
      deleteForcedTx_def deletePendingTxToStore_def)

lemma aq_UpdateTxZKCounters_static: "same_static h (aq_UpdateTxZKCounters h hstr ord a txHash c)"
  by (simp add: aq_UpdateTxZKCounters_def updateCountersLoop_static split: option.split)

lemma updateCurrentNonceBalance_invD:
  assumes "updateCurrentNonceBalance h ord a nonce balance = (h', a', new, old, del)"
    "is_range_order (notReadyTxs a) ord" "aq_inv h a"
  shows "aq_inv h' a'"
  using updateCurrentNonceBalance_inv[OF assms(3,2), of nonce balance] assms(1) by simp

lemma aq_step_inv:
  assumes "aq_step (h, a) (h', a')" "aq_inv h a"
  shows "aq_inv h' a'"
  using assms
  by (elim aq_stepE)
    (auto simp: aq_inv_alloc addTx_inv ExpireTransactions_inv deleteTx_inv
      aq_inv_static[OF aq_UpdateTxZKCounters_static] dest: updateCurrentNonceBalance_invD)

lemma aq_steps_inv:
  assumes "aq_step\<^sup>*\<^sup>* s s'" "aq_inv (fst s) (snd s)"
  shows "aq_inv (fst s') (snd s')"
  using assms
proof (induction rule: rtranclp_induct)
  case (step y z)
  then show ?case using aq_step_inv[of "fst y" "snd y" "fst z" "snd z"] by simp
qed

text \<open>
  C5: whatever sequence of operations is run on a freshly created address queue, its ready
  transaction has the account's current nonce and is covered by its current balance, and every
  not-ready transaction is stored under its own nonce, which is not below the current one.
\<close>

theorem addrQueue_ready_is_executable:
  assumes "aq_step\<^sup>*\<^sup>* (h0, newAddrQueue astr addr nonce balance) (h, a)"
  shows "(\<forall>r. readyTx a = Some r \<longrightarrow>
            Nonce (h r) = currentNonce a \<and> Cost (h r) \<le> currentBalance a) \<and>
         (\<forall>n r. fmlookup (notReadyTxs a) n = Some r \<longrightarrow> Nonce (h r) = n \<and> currentNonce a \<le> n)"
  using aq_steps_inv[OF assms] unfolding fst_conv snd_conv by (simp add: aq_inv_def[of h a])

subsection \<open>What an added transaction replaces\<close>

definition slot :: "addrQueue \<Rightarrow> u64 \<Rightarrow> ref option" where
  "slot a n = (case (if n = currentNonce a then readyTx a else None) of
     Some r \<Rightarrow> Some r | None \<Rightarrow> fmlookup (notReadyTxs a) n)"

text \<open>
  \<open>addTx\<close> never lowers a price: a transaction is refused as a duplicate exactly when the
  occupant it competes with (the ready transaction at the current nonce, the stored one at a
  later nonce) pays strictly more, it is refused for its nonce exactly when that is below the
  current one, a refusal changes nothing, and otherwise the transaction is in the queue and a
  replaced transaction has the same nonce, another hash and no higher price.
\<close>

lemma addTx_replacement:
  assumes "aq_inv h a"
    and "addTx h a tx = (a', res)"
    and "occ = (if Nonce (h tx) = currentNonce a then readyTx a
                else fmlookup (notReadyTxs a) (Nonce (h tx)))"
  shows "(dropReason res = Some ErrIntrinsicInvalidNonce \<longleftrightarrow> Nonce (h tx) < currentNonce a) \<and>
    (dropReason res = Some ErrDuplicatedNonce \<longleftrightarrow>
       (\<exists>r. occ = Some r \<and> GasPrice (h tx) < GasPrice (h r))) \<and>
    (dropReason res \<noteq> None \<longrightarrow> a' = a) \<and>
    (dropReason res = None \<longrightarrow> slot a' (Nonce (h tx)) = Some tx) \<and>
    (\<forall>r. replaced res = Some r \<longrightarrow> occ = Some r \<and> Nonce (h r) = Nonce (h tx) \<and>
       HashStr (h r) \<noteq> HashStr (h tx) \<and> GasPrice (h r) \<le> GasPrice (h tx))"
proof -
  have a'res: "a' = fst (addTx h a tx)" "res = snd (addTx h a tx)" using assms(2) by simp_all
  show ?thesis
  proof (cases "Nonce (h tx) = currentNonce a")
    case True
    then have occ: "occ = readyTx a" using assms(3) by simp
    show ?thesis
      by (cases "readyTx a")
        (simp_all add: a'res occ addTx_def slot_def Let_def True aq_invD(1)[OF assms(1)] not_le)
  next
    case False
    then have occ: "occ = fmlookup (notReadyTxs a) (Nonce (h tx))" using assms(3) by simp
    show ?thesis
    proof (cases occ)
      case None
      then show ?thesis
        using False by (auto simp: a'res occ addTx_def slot_def not_less)
    next
      case (Some r)
      with occ have lk: "fmlookup (notReadyTxs a) (Nonce (h tx)) = Some r" by simp
      show ?thesis
        using False aq_invD(4,5)[OF assms(1) lk] by (auto simp: a'res Some lk addTx_def slot_def)
    qed
  qed
qed

subsection \<open>What a nonce or balance update does\<close>

lemma ucnb_promote_refs:
  assumes "fmlookup (notReadyTxs a) k = Some r"
  shows "r \<in> aq_refs (ucnb_promote h a)"
  using assms fmran'I[of "fmdrop (currentNonce a) (notReadyTxs a)" k r]
  by (cases "k = currentNonce a")
    (auto simp: ucnb_promote_def aq_refs_def split: option.split intro: fmran'I)


text \<open>
  The ready transaction of an account whose balance drops below its cost, with the nonce
  unchanged, leaves the queue: it is neither kept as not ready nor reported for deletion.
\<close>

lemma unaffordable_ready_tx_is_lost:
  assumes "aq_inv h a" "is_range_order (notReadyTxs a) ord" "readyTx a = Some r" "b < Cost (h r)"
    and "fmlookup (notReadyTxs a) (currentNonce a) = None"
    and "updateCurrentNonceBalance h ord a None (Some b) = (h', a', newR, oldR, del)"
  shows "r \<notin> aq_refs a' \<and> r \<notin> set del \<and> oldR = Some r"
proof -
  have nonce: "Nonce (h r) = currentNonce a" by (rule aq_invD(1)[OF assms(1,3)])
  have "h' = h" "del = []" "oldR = Some r" and nr: "readyTx a' = None" "notReadyTxs a' = notReadyTxs a"
    using assms(3-6) nonce
    by (auto simp: updateCurrentNonceBalance_def ucnb_balance_def ucnb_nonce_def ucnb_demote_def
        ucnb_promote_def ucnb_requeue_def Let_def)
  moreover have "r \<notin> fmran' (notReadyTxs a)"
    using aq_invD(4)[OF assms(1), of _ r] assms(5) nonce by (auto elim!: fmran'E)
  ultimately show ?thesis by (simp add: aq_refs_def)
qed

subsection \<open>Witnesses\<close>

text \<open>An account at nonce 5 with balance 100, a ready transaction and one of nonce 6.\<close>

definition sampleTracker :: "u64 \<Rightarrow> int \<Rightarrow> int \<Rightarrow> string \<Rightarrow> TxTracker" where
  "sampleTracker nonce price cost s =
     projr (newTxTracker (\<lambda>_. Inr 0) (\<lambda>_. Inr []) (\<lambda>_. s) (\<lambda>_. ''A'') 0
       \<lparr>tx_Hash = 0, tx_Nonce = nonce, tx_Gas = 21000, tx_GasPrice = price, tx_Cost = cost\<rparr>
       \<lparr>GasUsed = 21000, UsedKeccakHashes = 1, UsedPoseidonHashes = 1, UsedPoseidonPaddings = 1,
        UsedMemAligns = 1, UsedArithmetics = 1, UsedBinaries = 1, UsedSteps = 1,
        UsedSha256Hashes_V2 = 1\<rparr> [])"

definition sampleHeap :: heap where
  "sampleHeap = (\<lambda>_. sampleTracker 6 20 30 ''c'')
     (0 := sampleTracker 5 10 50 ''a'', 1 := sampleTracker 6 10 30 ''b'')"

definition sampleQueue :: addrQueue where
  "sampleQueue = fst (addTx sampleHeap
     (fst (addTx sampleHeap (newAddrQueue (\<lambda>_. ''A'') 0 5 100) 0)) 1)"

lemma sampleHeap_simps [simp]:
  "Nonce (sampleHeap r) = (if r = 0 then 5 else 6)"
  "GasPrice (sampleHeap r) = (if r = 0 \<or> r = 1 then 10 else 20)"
  "Cost (sampleHeap r) = (if r = 0 then 50 else 30)"
  "HashStr (sampleHeap r) = (if r = 0 then ''a'' else if r = 1 then ''b'' else ''c'')"
  "FromStr (sampleHeap r) = ''A''"
  by (simp_all add: sampleHeap_def sampleTracker_def newTxTracker_def)

lemma sampleQueue_eq:
  "sampleQueue = \<lparr>aq_from = 0, fromStr = ''A'', currentNonce = 5, currentBalance = 100,
     readyTx = Some 0, notReadyTxs = fmupd 6 1 fmempty, forcedTxs = {||}, pendingTxsToStore = {||}\<rparr>"
  by (simp add: sampleQueue_def newAddrQueue_def addTx_def)

lemma sampleQueue_inv: "aq_inv sampleHeap sampleQueue"
  by (rule aq_invI) (auto simp: sampleQueue_eq split: if_splits)

theorem addrQueue_ready_is_executable_witness:
  "aq_step\<^sup>*\<^sup>* (sampleHeap, newAddrQueue (\<lambda>_. ''A'') 0 5 100) (sampleHeap, sampleQueue) \<and>
   readyTx sampleQueue = Some 0 \<and> Cost (sampleHeap 0) \<le> currentBalance sampleQueue"
proof -
  let ?a0 = "newAddrQueue (\<lambda>_. ''A'') 0 5 100"
  let ?a1 = "fst (addTx sampleHeap ?a0 0)"
  have "aq_step (sampleHeap, ?a0) (sampleHeap, ?a1)" by (rule add) (simp add: newAddrQueue_def)
  moreover have "aq_step (sampleHeap, ?a1) (sampleHeap, sampleQueue)"
    unfolding sampleQueue_def by (rule add) (simp add: newAddrQueue_def)
  ultimately have "aq_step\<^sup>*\<^sup>* (sampleHeap, ?a0) (sampleHeap, sampleQueue)" by simp
  from this addrQueue_ready_is_executable[OF this] show ?thesis by (simp add: sampleQueue_eq)
qed


end
