(* ===== verification/TxSortedList.thy ===== *)
theory TxSortedList
  imports AddrQueue
begin

text \<open>
  The list of ready transactions of the pool worker, ordered by gas price
  (\<open>sequencer/txsorted_list.go\<close>).  The Go map \<open>list\<close> and the slice \<open>sorted\<close> hold the same
  trackers; both operations locate a position by binary search through the map, so that a
  hash missing from the map would dereference a nil pointer (\<open>None\<close>).  The theory shows that
  under the list's invariant this cannot happen, that insertion is the stable insertion by
  descending price and deletion removes exactly the transaction of the given hash.
\<close>

subsection \<open>The list\<close>

record txSortedList =
  sl_list :: "(string, ref) fmap"
  sl_sorted :: "ref list"

definition newTxSortedList :: txSortedList where
  "newTxSortedList = \<lparr>sl_list = fmempty, sl_sorted = []\<rparr>"

definition isGreaterThan :: "TxTracker \<Rightarrow> TxTracker \<Rightarrow> bool" where
  "isGreaterThan tx1 tx2 \<longleftrightarrow> GasPrice tx1 > GasPrice tx2"

definition isGreaterOrEqualThan :: "TxTracker \<Rightarrow> TxTracker \<Rightarrow> bool" where
  "isGreaterOrEqualThan tx1 tx2 \<longleftrightarrow> GasPrice tx1 \<ge> GasPrice tx2"

definition addSort :: "heap \<Rightarrow> txSortedList \<Rightarrow> ref \<Rightarrow> txSortedList option" where
  "addSort h e tx =
     (case go_search (length (sl_sorted e))
             (\<lambda>i. case fmlookup (sl_list e) (HashStr (h (sl_sorted e ! i))) of
                    None \<Rightarrow> None
                  | Some t \<Rightarrow> Some (isGreaterThan (h tx) (h t))) of
        None \<Rightarrow> None
      | Some i \<Rightarrow> Some (e\<lparr>sl_sorted := take i (sl_sorted e) @ tx # drop i (sl_sorted e)\<rparr>))"

definition sl_add :: "heap \<Rightarrow> txSortedList \<Rightarrow> ref \<Rightarrow> (txSortedList \<times> bool) option" where
  "sl_add h e tx =
     (case fmlookup (sl_list e) (HashStr (h tx)) of
        None \<Rightarrow>
          (case addSort h (e\<lparr>sl_list := fmupd (HashStr (h tx)) tx (sl_list e)\<rparr>) tx of
             None \<Rightarrow> None
           | Some e' \<Rightarrow> Some (e', True))
      | Some _ \<Rightarrow> Some (e, False))"

text \<open>The walk down from the first transaction of the same price, over \<open>sorted[i:]\<close>.\<close>

fun deleteScan :: "heap \<Rightarrow> ref \<Rightarrow> ref list \<Rightarrow> nat \<Rightarrow> nat option" where
  "deleteScan h tx [] i = None"
| "deleteScan h tx (x # xs) i =
     (if GasPrice (h x) \<noteq> GasPrice (h tx) then None
      else if HashStr (h x) = HashStr (h tx) then Some i
      else deleteScan h tx xs (i + 1))"

definition sl_delete :: "heap \<Rightarrow> txSortedList \<Rightarrow> ref \<Rightarrow> (txSortedList \<times> bool) option" where
  "sl_delete h e tx0 =
     (case fmlookup (sl_list e) (HashStr (h tx0)) of
        None \<Rightarrow> Some (e, False)
      | Some tx \<Rightarrow>
          (case go_search (length (sl_sorted e))
                  (\<lambda>i. case fmlookup (sl_list e) (HashStr (h (sl_sorted e ! i))) of
                         None \<Rightarrow> None
                       | Some t \<Rightarrow> Some (isGreaterOrEqualThan (h tx) (h t))) of
             None \<Rightarrow> None
           | Some i \<Rightarrow>
               (case deleteScan h tx (drop i (sl_sorted e)) i of
                  None \<Rightarrow> Some (e, False)
                | Some j \<Rightarrow>
                    Some (\<lparr>sl_list = fmdrop (HashStr (h tx)) (sl_list e),
                           sl_sorted = take j (sl_sorted e) @ drop (j + 1) (sl_sorted e)\<rparr>, True))))"

definition sl_getByIndex :: "txSortedList \<Rightarrow> nat \<Rightarrow> ref option" where
  "sl_getByIndex e i = (if i < length (sl_sorted e) then Some (sl_sorted e ! i) else None)"

definition sl_len :: "txSortedList \<Rightarrow> nat" where
  "sl_len e = length (sl_sorted e)"

definition GetSorted :: "txSortedList \<Rightarrow> ref list" where
  "GetSorted e = sl_sorted e"

subsection \<open>The invariant\<close>

definition sl_inv :: "heap \<Rightarrow> txSortedList \<Rightarrow> bool" where
  "sl_inv h e \<longleftrightarrow>
     distinct (map (\<lambda>r. HashStr (h r)) (sl_sorted e)) \<and>
     sorted_wrt (\<lambda>x y. GasPrice (h y) \<le> GasPrice (h x)) (sl_sorted e) \<and>
     (\<forall>s r. fmlookup (sl_list e) s = Some r \<longleftrightarrow> r \<in> set (sl_sorted e) \<and> HashStr (h r) = s)"

lemma newTxSortedList_inv [simp]: "sl_inv h newTxSortedList"
  by (simp add: sl_inv_def newTxSortedList_def)

lemma sl_inv_static: "same_static h h' \<Longrightarrow> sl_inv h' e = sl_inv h e"
  by (simp add: sl_inv_def same_static_def)

lemma sl_invD:
  assumes "sl_inv h e"
  shows "fmlookup (sl_list e) s = Some r \<longleftrightarrow> r \<in> set (sl_sorted e) \<and> HashStr (h r) = s"
    and "fmlookup (sl_list e) s = None \<longleftrightarrow> s \<notin> (\<lambda>r. HashStr (h r)) ` set (sl_sorted e)"
    and "i < length (sl_sorted e) \<Longrightarrow>
           fmlookup (sl_list e) (HashStr (h (sl_sorted e ! i))) = Some (sl_sorted e ! i)"
    and "distinct (map (\<lambda>r. HashStr (h r)) (sl_sorted e))"
    and "sorted_wrt (\<lambda>x y. GasPrice (h y) \<le> GasPrice (h x)) (sl_sorted e)"
proof -
  show lk: "fmlookup (sl_list e) s = Some r \<longleftrightarrow> r \<in> set (sl_sorted e) \<and> HashStr (h r) = s" for s r
    using assms by (simp add: sl_inv_def)
  show "fmlookup (sl_list e) s = None \<longleftrightarrow> s \<notin> (\<lambda>r. HashStr (h r)) ` set (sl_sorted e)"
  proof (cases "fmlookup (sl_list e) s")
    case None
    then show ?thesis using lk[of s] by auto
  next
    case (Some a)
    then show ?thesis using lk[of s a] by auto
  qed
qed (use assms in \<open>auto simp: sl_inv_def\<close>)

lemma sl_inv_hash_inj:
  assumes "sl_inv h e" "x \<in> set (sl_sorted e)" "y \<in> set (sl_sorted e)" "HashStr (h x) = HashStr (h y)"
  shows "x = y"
  using sl_invD(1)[OF assms(1), of "HashStr (h x)" x] sl_invD(1)[OF assms(1), of "HashStr (h x)" y]
    assms(2-4) by simp

text \<open>On a list sorted by descending price a test that only gets easier as the price falls
  splits the list at the index the binary search returns.\<close>

lemma split_at_filter:
  assumes "r \<le> length xs" "\<forall>k<r. \<not> P (xs ! k)" "\<forall>k. r \<le> k \<and> k < length xs \<longrightarrow> P (xs ! k)"
  shows "take r xs = filter (\<lambda>x. \<not> P x) xs" "drop r xs = filter P xs"
proof -
  have t: "\<forall>x\<in>set (take r xs). \<not> P x" using assms(2) by (auto simp: in_set_conv_nth)
  have d: "\<forall>x\<in>set (drop r xs). P x"
    using assms(1,3) by (fastforce simp: in_set_conv_nth)
  have "filter Q xs = filter Q (take r xs) @ filter Q (drop r xs)" for Q
    by (metis append_take_drop_id filter_append)
  then show "take r xs = filter (\<lambda>x. \<not> P x) xs" "drop r xs = filter P xs"
    using t d by (simp_all add: filter_id_conv filter_empty_conv)
qed

lemma sorted_search:
  assumes "sl_inv h e" "\<And>x y. P x \<Longrightarrow> GasPrice (h y) \<le> GasPrice (h x) \<Longrightarrow> P y"
    and "\<And>i. i < length (sl_sorted e) \<Longrightarrow> f i = Some (P (sl_sorted e ! i))"
  obtains i where "go_search (length (sl_sorted e)) f = Some i" "i \<le> length (sl_sorted e)"
    "take i (sl_sorted e) = filter (\<lambda>x. \<not> P x) (sl_sorted e)" "drop i (sl_sorted e) = filter P (sl_sorted e)"
proof -
  have mono: "P (sl_sorted e ! l)" if "k \<le> l" "l < length (sl_sorted e)" "P (sl_sorted e ! k)" for k l
  proof (cases "k = l")
    case False
    then have "GasPrice (h (sl_sorted e ! l)) \<le> GasPrice (h (sl_sorted e ! k))"
      using sorted_wrt_nth_less[OF sl_invD(5)[OF assms(1)], of k l] that by simp
    then show ?thesis using assms(2) that(3) by blast
  qed (use that in simp)
  obtain r where r: "go_search (length (sl_sorted e)) f = Some r" "r \<le> length (sl_sorted e)"
    "\<forall>k<r. \<not> P (sl_sorted e ! k)"
    "\<forall>k. r \<le> k \<and> k < length (sl_sorted e) \<longrightarrow> P (sl_sorted e ! k)"
    by (rule go_search_correct[of "length (sl_sorted e)" f "\<lambda>i. P (sl_sorted e ! i)"])
      (use assms(3) mono in blast)+
  show thesis
    by (rule that[OF r(1,2) split_at_filter[where P = P, OF r(2-4)]])
qed

subsection \<open>Insertion\<close>

definition cheaper :: "heap \<Rightarrow> ref \<Rightarrow> ref \<Rightarrow> bool" where
  "cheaper h tx x \<longleftrightarrow> GasPrice (h x) < GasPrice (h tx)"

text \<open>The reference insertion: behind every transaction that pays at least as much.\<close>

definition price_insert :: "heap \<Rightarrow> ref \<Rightarrow> ref list \<Rightarrow> ref list" where
  "price_insert h tx xs = filter (\<lambda>x. \<not> cheaper h tx x) xs @ tx # filter (cheaper h tx) xs"

lemma set_price_insert [simp]: "set (price_insert h tx xs) = insert tx (set xs)"
  by (auto simp: price_insert_def)

lemma price_insert_sorted:
  assumes "sorted_wrt (\<lambda>x y. GasPrice (h y) \<le> GasPrice (h x)) xs"
  shows "sorted_wrt (\<lambda>x y. GasPrice (h y) \<le> GasPrice (h x)) (price_insert h tx xs)"
  using assms by (auto simp: price_insert_def sorted_wrt_append cheaper_def sorted_wrt_filter)

lemma price_insert_distinct:
  assumes "distinct (map (\<lambda>r. HashStr (h r)) xs)" "HashStr (h tx) \<notin> (\<lambda>r. HashStr (h r)) ` set xs"
  shows "distinct (map (\<lambda>r. HashStr (h r)) (price_insert h tx xs))"
  using assms by (auto simp: price_insert_def distinct_map inj_on_def)

lemma sl_add_new:
  assumes "sl_inv h e" "HashStr (h tx) \<notin> (\<lambda>r. HashStr (h r)) ` set (sl_sorted e)"
  shows "sl_add h e tx =
    Some (\<lparr>sl_list = fmupd (HashStr (h tx)) tx (sl_list e),
           sl_sorted = price_insert h tx (sl_sorted e)\<rparr>, True)"
proof -
  define f where "f = (\<lambda>i. case fmlookup (fmupd (HashStr (h tx)) tx (sl_list e))
      (HashStr (h (sl_sorted e ! i))) of
      None \<Rightarrow> None | Some t \<Rightarrow> Some (isGreaterThan (h tx) (h t)))"
  have f: "f i = Some (cheaper h tx (sl_sorted e ! i))" if "i < length (sl_sorted e)" for i
  proof -
    have "HashStr (h tx) \<noteq> HashStr (h (sl_sorted e ! i))"
      using assms(2) nth_mem[OF that] by force
    then show ?thesis using sl_invD(3)[OF assms(1) that] by (simp add: f_def cheaper_def isGreaterThan_def)
  qed
  obtain i where "go_search (length (sl_sorted e)) f = Some i"
    "take i (sl_sorted e) = filter (\<lambda>x. \<not> cheaper h tx x) (sl_sorted e)"
    "drop i (sl_sorted e) = filter (cheaper h tx) (sl_sorted e)"
    by (rule sorted_search[OF assms(1), of "cheaper h tx" f]) (use f in \<open>auto simp: cheaper_def\<close>)
  then show ?thesis
    using sl_invD(2)[OF assms(1), of "HashStr (h tx)"] assms(2)
    by (simp add: sl_add_def addSort_def f_def price_insert_def)
qed

lemma sl_add_old:
  assumes "sl_inv h e" "HashStr (h tx) \<in> (\<lambda>r. HashStr (h r)) ` set (sl_sorted e)"
  shows "sl_add h e tx = Some (e, False)"
  using sl_invD(2)[OF assms(1), of "HashStr (h tx)"] assms(2)
  by (cases "fmlookup (sl_list e) (HashStr (h tx))") (auto simp: sl_add_def)

lemma sl_inv_insert:
  assumes "sl_inv h e" "HashStr (h tx) \<notin> (\<lambda>r. HashStr (h r)) ` set (sl_sorted e)"
  shows "sl_inv h \<lparr>sl_list = fmupd (HashStr (h tx)) tx (sl_list e),
                   sl_sorted = price_insert h tx (sl_sorted e)\<rparr>"
  using price_insert_distinct[OF sl_invD(4)[OF assms(1)] assms(2)]
    price_insert_sorted[OF sl_invD(5)[OF assms(1)], of tx] sl_invD(1)[OF assms(1)] assms(2)
  by (auto simp: sl_inv_def image_iff)

subsection \<open>Deletion\<close>

lemma deleteScan_found:
  assumes "\<forall>x\<in>set ps. GasPrice (h x) = GasPrice (h tx) \<and> HashStr (h x) \<noteq> HashStr (h tx)"
  shows "deleteScan h tx (ps @ tx # qs) i = Some (i + length ps)"
  using assms by (induction ps arbitrary: i) auto

lemma sl_delete_present:
  assumes "sl_inv h e" "tx \<in> set (sl_sorted e)" "HashStr (h tx0) = HashStr (h tx)"
  shows "sl_delete h e tx0 =
    Some (\<lparr>sl_list = fmdrop (HashStr (h tx)) (sl_list e), sl_sorted = removeAll tx (sl_sorted e)\<rparr>, True)"
proof -
  let ?s = "sl_sorted e"
  define P where "P x \<longleftrightarrow> GasPrice (h x) \<le> GasPrice (h tx)" for x
  define f where "f = (\<lambda>i. case fmlookup (sl_list e) (HashStr (h (?s ! i))) of
      None \<Rightarrow> None | Some t \<Rightarrow> Some (isGreaterOrEqualThan (h tx) (h t)))"
  have f: "f i = Some (P (?s ! i))" if "i < length ?s" for i
    using sl_invD(3)[OF assms(1) that] by (simp add: f_def P_def isGreaterOrEqualThan_def)
  obtain i where i: "go_search (length ?s) f = Some i" "i \<le> length ?s"
    "take i ?s = filter (\<lambda>x. \<not> P x) ?s" "drop i ?s = filter P ?s"
    by (rule sorted_search[OF assms(1), of P f]) (use f in \<open>auto simp: P_def\<close>)
  have "tx \<in> set (drop i ?s)" using assms(2) by (simp add: i(4) P_def)
  then obtain ps qs where d: "drop i ?s = ps @ tx # qs" "tx \<notin> set ps" by (meson split_list_first)
  obtain ts where ts: "take i ?s = ts" "length ts = i" using i(2) by simp
  have s: "?s = ts @ ps @ tx # qs" by (metis append_take_drop_id d(1) ts(1))
  have "GasPrice (h x) = GasPrice (h tx) \<and> HashStr (h x) \<noteq> HashStr (h tx)" if "x \<in> set ps" for x
  proof -
    have "x \<in> set (filter P ?s)" using that by (simp add: i(4)[symmetric] d(1))
    moreover have "GasPrice (h tx) \<le> GasPrice (h x)"
      using sl_invD(5)[OF assms(1)] that unfolding s by (simp add: sorted_wrt_append)
    ultimately show ?thesis
      using sl_inv_hash_inj[OF assms(1), of x tx] assms(2) that d(2) by (auto simp: P_def)
  qed
  then have scan: "deleteScan h tx (drop i ?s) i = Some (i + length ps)"
    unfolding d(1) by (intro deleteScan_found) blast
  have "distinct ?s" using sl_invD(4)[OF assms(1)] by (simp add: distinct_map)
  then have rem: "removeAll tx ?s = ts @ ps @ qs"
    unfolding s by simp
  have cut: "take (i + length ps) ?s = ts @ ps" "drop (i + length ps + 1) ?s = qs"
    unfolding s by (simp_all add: ts(2)[symmetric])
  have "fmlookup (sl_list e) (HashStr (h tx0)) = Some tx"
    using sl_invD(1)[OF assms(1)] assms(2,3) by simp
  then show ?thesis
    using i(1) scan cut rem by (simp add: sl_delete_def f_def)
qed

lemma sl_delete_absent:
  assumes "sl_inv h e" "HashStr (h tx0) \<notin> (\<lambda>r. HashStr (h r)) ` set (sl_sorted e)"
  shows "sl_delete h e tx0 = Some (e, False)"
  using sl_invD(2)[OF assms(1), of "HashStr (h tx0)"] assms(2) by (simp add: sl_delete_def)

lemma sl_inv_remove:
  assumes "sl_inv h e" "tx \<in> set (sl_sorted e)"
  shows "sl_inv h \<lparr>sl_list = fmdrop (HashStr (h tx)) (sl_list e), sl_sorted = removeAll tx (sl_sorted e)\<rparr>"
proof -
  have "r = tx \<longleftrightarrow> HashStr (h r) = HashStr (h tx)" if "r \<in> set (sl_sorted e)" for r
    using sl_inv_hash_inj[OF assms(1) that assms(2)] by blast
  then have "fmlookup (fmdrop (HashStr (h tx)) (sl_list e)) s = Some r \<longleftrightarrow>
      r \<in> set (removeAll tx (sl_sorted e)) \<and> HashStr (h r) = s" for s r
    using sl_invD(1)[OF assms(1), of s r] by (simp add: fmlookup_drop) blast
  then show ?thesis
    using sl_invD(4,5)[OF assms(1)]
    by (simp add: sl_inv_def removeAll_filter_not_eq distinct_map_filter sorted_wrt_filter)
qed

subsection \<open>The interface the worker relies on\<close>

text \<open>
  \<open>price_list\<close> is the contract of the ready list towards the worker: on states that satisfy
  \<open>inv\<close>, \<open>add\<close> and \<open>del\<close> do not panic, keep \<open>inv\<close>, and change the set of trackers in the
  list as a set keyed by transaction hash.
\<close>

definition hashes :: "heap \<Rightarrow> ref set \<Rightarrow> string set" where
  "hashes h R = (\<lambda>r. HashStr (h r)) ` R"

locale price_list =
  fixes inv :: "heap \<Rightarrow> 's \<Rightarrow> bool"
    and items :: "'s \<Rightarrow> ref set"
    and add :: "heap \<Rightarrow> 's \<Rightarrow> ref \<Rightarrow> ('s \<times> bool) option"
    and del :: "heap \<Rightarrow> 's \<Rightarrow> ref \<Rightarrow> ('s \<times> bool) option"
  assumes add_spec: "inv h e \<Longrightarrow> \<exists>e'. add h e tx = Some (e', HashStr (h tx) \<notin> hashes h (items e)) \<and>
      inv h e' \<and> items e' = (if HashStr (h tx) \<in> hashes h (items e) then items e else insert tx (items e))"
    and del_spec: "inv h e \<Longrightarrow> \<exists>e'. del h e tx = Some (e', HashStr (h tx) \<in> hashes h (items e)) \<and>
      inv h e' \<and> items e' = {r \<in> items e. HashStr (h r) \<noteq> HashStr (h tx)}"
    and inv_inj: "inv h e \<Longrightarrow> inj_on (\<lambda>r. HashStr (h r)) (items e)"
    and inv_frame: "same_static h h' \<Longrightarrow> inv h' e = inv h e"
begin

text \<open>The worker's update of the ready list: drop the previous ready transaction, then add
  the new one.\<close>

definition swap :: "heap \<Rightarrow> 's \<Rightarrow> ref option \<Rightarrow> ref option \<Rightarrow> 's option" where
  "swap h e old new =
     Option.bind (case old of None \<Rightarrow> Some e | Some r \<Rightarrow> map_option fst (del h e r))
       (\<lambda>e1. case new of None \<Rightarrow> Some e1 | Some r \<Rightarrow> map_option fst (add h e1 r))"

lemma del_items:
  assumes "inv h e" "r \<in> items e"
  shows "\<exists>e'. del h e r = Some (e', True) \<and> inv h e' \<and> items e' = items e - {r}"
proof -
  have "{x \<in> items e. HashStr (h x) \<noteq> HashStr (h r)} = items e - {r}"
    using inv_inj[OF assms(1)] assms(2) by (auto simp: inj_on_def)
  then show ?thesis using del_spec[OF assms(1), of r] assms(2) by (auto simp: hashes_def)
qed

lemma add_items:
  assumes "inv h e" "HashStr (h tx) \<in> hashes h (items e) \<Longrightarrow> tx \<in> items e"
  shows "\<exists>e' b. add h e tx = Some (e', b) \<and> inv h e' \<and> items e' = insert tx (items e)"
  using add_spec[OF assms(1), of tx] assms(2) by (auto simp: insert_absorb split: if_splits)

lemma swap_items:
  assumes "inv h e" "set_option old \<subseteq> items e"
    and "\<And>r. new = Some r \<Longrightarrow> HashStr (h r) \<in> hashes h (items e - set_option old) \<Longrightarrow>
           r \<in> items e - set_option old"
  shows "\<exists>e'. swap h e old new = Some e' \<and> inv h e' \<and>
           items e' = (items e - set_option old) \<union> set_option new"
proof -
  obtain e1 where e1: "(case old of None \<Rightarrow> Some e | Some r \<Rightarrow> map_option fst (del h e r)) = Some e1"
    "inv h e1" "items e1 = items e - set_option old"
    using del_items[OF assms(1)] assms(1,2) by (cases old) fastforce+
  show ?thesis
    using add_items[OF e1(2)] assms(3) e1 by (cases new) (fastforce simp: swap_def)+
qed

end

lemma set_removeAll_hash:
  assumes "sl_inv h e" "tx \<in> set (sl_sorted e)"
  shows "set (removeAll tx (sl_sorted e)) = {r \<in> set (sl_sorted e). HashStr (h r) \<noteq> HashStr (h tx)}"
  using sl_inv_hash_inj[OF assms(1) _ assms(2)] by auto

lemma sl_add_spec:
  assumes "sl_inv h e"
  shows "\<exists>e'. sl_add h e tx = Some (e', HashStr (h tx) \<notin> hashes h (set (sl_sorted e))) \<and> sl_inv h e' \<and>
    set (sl_sorted e') = (if HashStr (h tx) \<in> hashes h (set (sl_sorted e)) then set (sl_sorted e)
                          else insert tx (set (sl_sorted e)))"
proof (cases "HashStr (h tx) \<in> hashes h (set (sl_sorted e))")
  case True
  then show ?thesis using sl_add_old[OF assms] assms by (simp add: hashes_def)
next
  case False
  then show ?thesis using sl_add_new[OF assms] sl_inv_insert[OF assms] by (simp add: hashes_def)
qed

lemma sl_delete_spec:
  assumes "sl_inv h e"
  shows "\<exists>e'. sl_delete h e tx = Some (e', HashStr (h tx) \<in> hashes h (set (sl_sorted e))) \<and> sl_inv h e' \<and>
    set (sl_sorted e') = {r \<in> set (sl_sorted e). HashStr (h r) \<noteq> HashStr (h tx)}"
proof (cases "HashStr (h tx) \<in> hashes h (set (sl_sorted e))")
  case True
  then obtain r where r: "r \<in> set (sl_sorted e)" "HashStr (h tx) = HashStr (h r)"
    by (auto simp: hashes_def)
  show ?thesis
    using sl_delete_present[OF assms r] sl_inv_remove[OF assms r(1)] set_removeAll_hash[OF assms r(1)] r True
    by simp
next
  case False
  then have "{r \<in> set (sl_sorted e). HashStr (h r) \<noteq> HashStr (h tx)} = set (sl_sorted e)"
    by (auto simp: hashes_def image_iff)
  with False show ?thesis using sl_delete_absent[OF assms, of tx] assms by (simp add: hashes_def)
qed

interpretation sl: price_list sl_inv "\<lambda>e. set (sl_sorted e)" sl_add sl_delete
proof unfold_locales
  show "inj_on (\<lambda>r. HashStr (h r)) (set (sl_sorted e))" if "sl_inv h e" for h e
    using sl_inv_hash_inj[OF that] by (auto simp: inj_on_def)
qed (simp_all add: sl_add_spec sl_delete_spec sl_inv_static)

subsection \<open>Properties of the sorted list\<close>

text \<open>
  C7: on a list that satisfies its invariant \<open>add\<close> never dereferences a missing entry; a new
  hash is inserted exactly behind all transactions that pay at least as much and before all
  cheaper ones (so equal prices keep their arrival order), a known hash changes nothing, and
  the list stays sorted by descending price with one entry per hash.
\<close>

theorem txSortedList_add_stable:
  assumes "sl_inv h e"
  shows "\<exists>e' b. sl_add h e tx = Some (e', b) \<and> sl_inv h e' \<and>
    (b \<longleftrightarrow> HashStr (h tx) \<notin> hashes h (set (sl_sorted e))) \<and>
    sl_sorted e' = (if b then filter (\<lambda>x. GasPrice (h tx) \<le> GasPrice (h x)) (sl_sorted e) @ tx #
                           filter (\<lambda>x. GasPrice (h x) < GasPrice (h tx)) (sl_sorted e)
                    else sl_sorted e)"
proof (cases "HashStr (h tx) \<in> hashes h (set (sl_sorted e))")
  case True
  then show ?thesis
    using sl_add_old[OF assms, of tx] assms
    by (intro exI[of _ e] exI[of _ False]) (simp add: hashes_def)
next
  case False
  then show ?thesis
    using sl_add_new[OF assms, of tx] sl_inv_insert[OF assms, of tx]
    by (intro exI conjI[rotated] exI[of _ True])
      (auto simp: hashes_def price_insert_def cheaper_def[abs_def] not_less)
qed

text \<open>
  On a list that satisfies its invariant \<open>delete\<close> never dereferences a missing entry and
  never takes one of its two error exits: it removes exactly the transaction of the given
  hash, keeps the order of the others, and reports whether there was one.
\<close>

lemma txSortedList_delete_exact:
  assumes "sl_inv h e"
  shows "\<exists>e'. sl_delete h e tx = Some (e', HashStr (h tx) \<in> hashes h (set (sl_sorted e))) \<and>
    sl_inv h e' \<and>
    sl_sorted e' = filter (\<lambda>x. HashStr (h x) \<noteq> HashStr (h tx)) (sl_sorted e)"
proof (cases "HashStr (h tx) \<in> hashes h (set (sl_sorted e))")
  case True
  then obtain r where r: "r \<in> set (sl_sorted e)" "HashStr (h tx) = HashStr (h r)"
    by (auto simp: hashes_def)
  have "removeAll r (sl_sorted e) = filter (\<lambda>x. HashStr (h x) \<noteq> HashStr (h tx)) (sl_sorted e)"
    unfolding removeAll_filter_not_eq r(2)
    by (rule filter_cong) (use sl_inv_hash_inj[OF assms _ r(1)] in auto)
  then show ?thesis
    using sl_delete_present[OF assms r] sl_inv_remove[OF assms r(1)] True by simp
next
  case False
  then have "filter (\<lambda>x. HashStr (h x) \<noteq> HashStr (h tx)) (sl_sorted e) = sl_sorted e"
    by (auto simp: hashes_def filter_id_conv image_iff)
  with False show ?thesis using sl_delete_absent[OF assms, of tx] assms by (simp add: hashes_def)
qed

text \<open>
  Deleting a transaction right after adding it under a new hash restores the list.
\<close>

lemma txSortedList_add_delete:
  assumes "sl_inv h e" "HashStr (h tx) \<notin> hashes h (set (sl_sorted e))"
    and "sl_add h e tx = Some (e1, b)"
  shows "sl_delete h e1 tx = Some (e, True)"
proof -
  note new = assms(2)[unfolded hashes_def]
  have e1: "e1 = \<lparr>sl_list = fmupd (HashStr (h tx)) tx (sl_list e), sl_sorted = price_insert h tx (sl_sorted e)\<rparr>"
    using sl_add_new[OF assms(1) new] assms(3) by simp
  have "removeAll tx (price_insert h tx (sl_sorted e)) = sl_sorted e"
  proof -
    let ?P = "\<lambda>x. \<not> cheaper h tx x"
    obtain i where "take i (sl_sorted e) = filter ?P (sl_sorted e)"
      "drop i (sl_sorted e) = filter (cheaper h tx) (sl_sorted e)"
      by (rule sorted_search[OF assms(1), of "cheaper h tx" "\<lambda>i. Some (cheaper h tx (sl_sorted e ! i))"])
        (auto simp: cheaper_def)
    then have "filter ?P (sl_sorted e) @ filter (cheaper h tx) (sl_sorted e) = sl_sorted e"
      by (metis append_take_drop_id)
    moreover have "tx \<notin> set (sl_sorted e)" using new by auto
    ultimately show ?thesis by (simp add: price_insert_def removeAll_id)
  qed
  moreover have "fmdrop (HashStr (h tx)) (sl_list e) = sl_list e"
    using sl_invD(2)[OF assms(1), of "HashStr (h tx)"] new by (intro fmap_ext) auto
  ultimately show ?thesis
    using sl_delete_present[OF sl_inv_insert[OF assms(1) new], of tx tx] by (simp add: e1 fmdrop_fmupd_same)
qed

subsection \<open>Witnesses\<close>

definition sampleList :: txSortedList where
  "sampleList = \<lparr>sl_list = fmupd ''b'' 1 (fmupd ''c'' 2 fmempty), sl_sorted = [2, 1]\<rparr>"

lemma sampleList_inv: "sl_inv sampleHeap sampleList"
  by (auto simp: sl_inv_def sampleList_def)

theorem txSortedList_add_stable_witness:
  "sl_inv sampleHeap sampleList \<and>
   (\<exists>e'. sl_add sampleHeap sampleList 0 = Some (e', True) \<and> sl_sorted e' = [2, 1, 0])"
  using txSortedList_add_stable[OF sampleList_inv, of 0] sampleList_inv
  by (auto simp: hashes_def sampleList_def)

end
