(* ===== verification/BestFit.thy ===== *)
theory BestFit
  imports TxSortedList
begin

text \<open>
  The concurrent search of \<open>Worker.GetBestFittingTx\<close> (\<open>sequencer/worker.go\<close>): one goroutine per
  CPU walks the sorted list with stride \<open>nGoRoutines\<close>, and all of them share \<open>foundAt\<close> and
  \<open>tx\<close> under a lock.  Every critical section is one atomic step of one goroutine; an
  execution is the list of the goroutines that take the steps, so that the theorems hold for
  every interleaving the scheduler may choose.
\<close>

subsection \<open>The goroutines\<close>

text \<open>
  The program counter of a goroutine: at the loop head with index \<open>i\<close>, past the early-exit
  test of index \<open>i\<close>, holding a fitting candidate at index \<open>i\<close>, or returned.
\<close>

datatype bf_pc = LoopHead nat | Candidate nat | Commit nat | Returned

record bf_state =
  foundAt :: int
  bf_tx :: "ref option"
  pcs :: "nat \<Rightarrow> bf_pc"
  bresources :: "nat \<Rightarrow> BatchResources"

definition bf_init :: "BatchResources \<Rightarrow> bf_state" where
  "bf_init resources =
     \<lparr>foundAt = -1, bf_tx = None, pcs = LoopHead, bresources = (\<lambda>_. resources)\<rparr>"

definition bf_step :: "nat \<Rightarrow> heap \<Rightarrow> ref list \<Rightarrow> nat \<Rightarrow> bf_state \<Rightarrow> bf_state" where
  "bf_step nGoRoutines h txs t st =
     (case pcs st t of
        LoopHead i \<Rightarrow>
          if i < length txs then
            if foundAt st \<noteq> -1 \<and> int i > foundAt st
            then st\<lparr>pcs := (pcs st)(t := Returned)\<rparr>
            else st\<lparr>pcs := (pcs st)(t := Candidate i)\<rparr>
          else st\<lparr>pcs := (pcs st)(t := Returned)\<rparr>
      | Candidate i \<Rightarrow>
          (let (r, err) = BatchResources_Sub (bresources st t) (txResources (h (txs ! i)));
               st' = st\<lparr>bresources := (bresources st)(t := r)\<rparr>
           in case err of
                Some _ \<Rightarrow> st'\<lparr>pcs := (pcs st)(t := LoopHead (i + nGoRoutines))\<rparr>
              | None \<Rightarrow> st'\<lparr>pcs := (pcs st)(t := Commit i)\<rparr>)
      | Commit i \<Rightarrow>
          (if foundAt st = -1 \<or> foundAt st > int i
           then st\<lparr>foundAt := int i, bf_tx := Some (txs ! i), pcs := (pcs st)(t := Returned)\<rparr>
           else st\<lparr>pcs := (pcs st)(t := Returned)\<rparr>)
      | Returned \<Rightarrow> st)"

definition bf_run :: "nat \<Rightarrow> heap \<Rightarrow> ref list \<Rightarrow> nat list \<Rightarrow> bf_state \<Rightarrow> bf_state" where
  "bf_run nGoRoutines h txs sched st = fold (bf_step nGoRoutines h txs) sched st"

text \<open>\<open>wg.Wait()\<close> lets the caller continue once every goroutine has returned; \<open>None\<close> is a
  schedule at whose end it still waits.\<close>

definition all_returned :: "nat \<Rightarrow> bf_state \<Rightarrow> bool" where
  "all_returned n st \<longleftrightarrow> list_all (\<lambda>t. pcs st t = Returned) [0..<n]"

definition GetBestFittingTx ::
  "nat \<Rightarrow> nat list \<Rightarrow> heap \<Rightarrow> txSortedList \<Rightarrow> BatchResources \<Rightarrow> (SeqError + ref) option" where
  "GetBestFittingTx nGoRoutines sched h e resources =
     (if sl_len e = 0 then Some (Inl ErrTransactionsListEmpty)
      else
        (let st = bf_run nGoRoutines h (GetSorted e) sched (bf_init resources)
         in if all_returned nGoRoutines st then
              if foundAt st \<noteq> -1 then Some (Inr (the (bf_tx st)))
              else Some (Inl ErrNoFittingTransaction)
            else None))"

subsection \<open>The invariant of the search\<close>

definition fits_at :: "heap \<Rightarrow> ref list \<Rightarrow> BatchResources \<Rightarrow> nat \<Rightarrow> bool" where
  "fits_at h txs res i \<longleftrightarrow> fits (txResources (h (txs ! i))) res"

text \<open>\<open>passed n f t i\<close>: goroutine \<open>t\<close> has seen all its indices below \<open>i\<close> and none fits.\<close>

definition passed :: "nat \<Rightarrow> (nat \<Rightarrow> bool) \<Rightarrow> nat \<Rightarrow> nat \<Rightarrow> bool" where
  "passed n f t i \<longleftrightarrow> i mod n = t \<and> (\<forall>k<i. k mod n = t \<longrightarrow> \<not> f k)"

fun thread_ok :: "nat \<Rightarrow> (nat \<Rightarrow> bool) \<Rightarrow> nat \<Rightarrow> int \<Rightarrow> nat \<Rightarrow> bf_pc \<Rightarrow> bool" where
  "thread_ok n f len fa t (LoopHead i) \<longleftrightarrow> passed n f t i"
| "thread_ok n f len fa t (Candidate i) \<longleftrightarrow> passed n f t i \<and> i < len"
| "thread_ok n f len fa t (Commit i) \<longleftrightarrow> passed n f t i \<and> i < len \<and> f i"
| "thread_ok n f len fa t Returned \<longleftrightarrow>
     (\<forall>k<len. k mod n = t \<and> f k \<longrightarrow> fa \<noteq> -1 \<and> fa \<le> int k)"

definition bf_inv :: "nat \<Rightarrow> heap \<Rightarrow> ref list \<Rightarrow> BatchResources \<Rightarrow> bf_state \<Rightarrow> bool" where
  "bf_inv n h txs res st \<longleftrightarrow>
     (foundAt st = -1 \<or> (\<exists>j<length txs. fits_at h txs res j \<and> foundAt st = int j \<and>
        bf_tx st = Some (txs ! j))) \<and>
     (\<forall>t<n. thread_ok n (fits_at h txs res) (length txs) (foundAt st) t (pcs st t)) \<and>
     (\<forall>t<n. (\<forall>i. pcs st t \<noteq> Commit i) \<and> pcs st t \<noteq> Returned \<longrightarrow> bresources st t = res)"

lemma bf_init_inv: "bf_inv n h txs res (bf_init res)"
  by (auto simp: bf_inv_def bf_init_def passed_def)

lemma bf_invD:
  assumes "bf_inv n h txs res st" "t < n"
  shows "thread_ok n (fits_at h txs res) (length txs) (foundAt st) t (pcs st t)"
  using assms by (simp add: bf_inv_def)

lemma passed_le: "passed n f t i \<Longrightarrow> k mod n = t \<Longrightarrow> f k \<Longrightarrow> int i \<le> int k"
  by (cases "k < i") (auto simp: passed_def)

lemma passed_next:
  assumes "passed n f t i" "\<not> f i" "0 < n"
  shows "passed n f t (i + n)"
proof -
  have "k \<le> i" if "k < i + n" "k mod n = t" for k
  proof (rule ccontr)
    assume "\<not> k \<le> i"
    then have "0 < k - i" "k - i < n" using that(1) by auto
    moreover have "n dvd k - i"
      using assms(1) that(2) \<open>\<not> k \<le> i\<close> mod_eq_dvd_iff_nat[of i k n] by (simp add: passed_def)
    ultimately show False by (simp add: nat_dvd_not_less)
  qed
  then show ?thesis
    using assms by (auto simp: passed_def le_less)
qed

lemma thread_ok_mono:
  assumes "thread_ok n f len fa t pc" "fa' \<noteq> -1" "fa = -1 \<or> fa' \<le> fa"
  shows "thread_ok n f len fa' t pc"
  using assms by (cases pc) fastforce+

text \<open>Only the stepping goroutine changes its program counter and its copy of the resources.\<close>

lemma bf_inv_update:
  assumes "bf_inv n h txs res st" "t < n"
    and "thread_ok n (fits_at h txs res) (length txs) (foundAt st) t pc"
    and "(\<forall>i. pc \<noteq> Commit i) \<and> pc \<noteq> Returned \<longrightarrow> r = res"
  shows "bf_inv n h txs res (st\<lparr>bresources := (bresources st)(t := r), pcs := (pcs st)(t := pc)\<rparr>)"
  using assms by (auto simp: bf_inv_def)

lemma bf_inv_pc:
  assumes "bf_inv n h txs res st" "t < n"
    and "thread_ok n (fits_at h txs res) (length txs) (foundAt st) t pc"
    and "(\<forall>i. pc \<noteq> Commit i) \<and> pc \<noteq> Returned \<longrightarrow> bresources st t = res"
  shows "bf_inv n h txs res (st\<lparr>pcs := (pcs st)(t := pc)\<rparr>)"
  using bf_inv_update[OF assms] by simp

lemma bf_inv_commit:
  assumes "bf_inv n h txs res st" "t < n" "pcs st t = Commit i"
    and "foundAt st = -1 \<or> int i < foundAt st"
  shows "bf_inv n h txs res
    (st\<lparr>foundAt := int i, bf_tx := Some (txs ! i), pcs := (pcs st)(t := Returned)\<rparr>)"
proof -
  have c: "passed n (fits_at h txs res) t i" "i < length txs" "fits_at h txs res i"
    using assms(1-3) by (auto simp: bf_inv_def)
  have "thread_ok n (fits_at h txs res) (length txs) (int i) u (pcs st u)" if "u < n" for u
    using assms(4) by (intro thread_ok_mono[OF bf_invD[OF assms(1) that]]) auto
  then show ?thesis
    using assms(1,2) c passed_le[OF c(1)] by (auto simp: bf_inv_def)
qed

lemma bf_step_inv:
  assumes inv: "bf_inv n h txs res st" and t: "t < n"
  shows "bf_inv n h txs res (bf_step n h txs t st)"
proof (cases "pcs st t")
  case (LoopHead i)
  then have p: "passed n (fits_at h txs res) t i" "bresources st t = res"
    using inv t by (auto simp: bf_inv_def)
  show ?thesis
  proof (cases "i < length txs \<and> \<not> (foundAt st \<noteq> -1 \<and> int i > foundAt st)")
    case True
    then show ?thesis
      using LoopHead p bf_inv_pc[OF inv t, of "Candidate i"] by (auto simp: bf_step_def)
  next
    case False
    have "foundAt st \<noteq> -1 \<and> foundAt st \<le> int k" if "k < length txs" "k mod n = t" "fits_at h txs res k" for k
      using passed_le[OF p(1) that(2,3)] that(1) False by auto
    then have "thread_ok n (fits_at h txs res) (length txs) (foundAt st) t Returned" by simp
    from bf_inv_pc[OF inv t this] show ?thesis
      using LoopHead False by (auto simp: bf_step_def)
  qed
next
  case (Candidate i)
  then have p: "passed n (fits_at h txs res) t i" "i < length txs" "bresources st t = res"
    using inv t by (auto simp: bf_inv_def)
  let ?s = "BatchResources_Sub res (txResources (h (txs ! i)))"
  show ?thesis
  proof (cases "fits_at h txs res i")
    case True
    then have "snd ?s = None" by (simp add: fits_at_def Sub_fits)
    then show ?thesis
      using Candidate p True bf_inv_update[OF inv t, of "Commit i" "fst ?s"]
      by (simp add: bf_step_def split_beta Let_def)
  next
    case False
    then have "snd ?s \<noteq> None" "fst ?s = res" by (simp_all add: fits_at_def Sub_fits Sub_fails_unchanged)
    then show ?thesis
      using Candidate p passed_next[OF p(1) False] t bf_inv_update[OF inv t, of "LoopHead (i + n)" res]
      by (auto simp: bf_step_def split_beta Let_def)
  qed
next
  case (Commit i)
  then have p: "passed n (fits_at h txs res) t i" "i < length txs" "fits_at h txs res i"
    using inv t by (auto simp: bf_inv_def)
  show ?thesis
  proof (cases "foundAt st = -1 \<or> int i < foundAt st")
    case True
    then show ?thesis using Commit bf_inv_commit[OF inv t Commit True] by (auto simp: bf_step_def)
  next
    case False
    have "foundAt st \<le> int k" if "k mod n = t" "fits_at h txs res k" for k
      using passed_le[OF p(1) that] False by simp
    then have "thread_ok n (fits_at h txs res) (length txs) (foundAt st) t Returned" using False by simp
    from bf_inv_pc[OF inv t this] show ?thesis
      using Commit False by (auto simp: bf_step_def)
  qed
qed (simp add: bf_step_def inv)

lemma bf_run_inv:
  assumes "bf_inv n h txs res st" "\<forall>t\<in>set sched. t < n"
  shows "bf_inv n h txs res (bf_run n h txs sched st)"
  using assms by (induction sched arbitrary: st) (auto simp: bf_run_def bf_step_inv)

subsection \<open>Every goroutine returns\<close>

fun bf_measure :: "nat \<Rightarrow> bf_pc \<Rightarrow> nat" where
  "bf_measure len (LoopHead i) = 2 * (len - i) + 2"
| "bf_measure len (Candidate i) = 2 * (len - i) + 1"
| "bf_measure len (Commit i) = 1"
| "bf_measure len Returned = 0"

lemma bf_step_other [simp]: "u \<noteq> t \<Longrightarrow> pcs (bf_step n h txs t st) u = pcs st u"
  by (auto simp: bf_step_def Let_def split_beta split: bf_pc.split option.split)

lemma bf_measure_zero [simp]: "bf_measure len pc = 0 \<longleftrightarrow> pc = Returned"
  by (cases pc) auto

lemma bf_step_measure:
  assumes "bf_inv n h txs res st" "t < n"
  shows "bf_measure (length txs) (pcs (bf_step n h txs t st) t) \<le> bf_measure (length txs) (pcs st t) - 1"
proof (cases "pcs st t")
  case (Candidate i)
  with assms have "i < length txs" by (auto simp: bf_inv_def)
  with Candidate \<open>t < n\<close> show ?thesis
    by (auto simp: bf_step_def Let_def split_beta split: option.split)
qed (auto simp: bf_step_def)

lemma bf_run_measure:
  assumes "bf_inv n h txs res st" "\<forall>u\<in>set sched. u < n" "t < n"
  shows "bf_measure (length txs) (pcs (bf_run n h txs sched st) t)
    \<le> bf_measure (length txs) (pcs st t) - count_list sched t"
  using assms
proof (induction sched arbitrary: st)
  case (Cons u sched)
  have "bf_measure (length txs) (pcs (bf_run n h txs sched (bf_step n h txs u st)) t)
    \<le> bf_measure (length txs) (pcs (bf_step n h txs u st) t) - count_list sched t"
    using Cons.IH[OF bf_step_inv[OF Cons.prems(1)]] Cons.prems by simp
  moreover have "bf_measure (length txs) (pcs (bf_step n h txs u st) t)
    \<le> bf_measure (length txs) (pcs st t) - (if u = t then 1 else 0)"
    using bf_step_measure[OF Cons.prems(1,3)] by auto
  ultimately show ?case by (auto simp: bf_run_def)
qed (simp add: bf_run_def)

subsection \<open>Properties of the search\<close>

lemma enough_steps_return:
  assumes "\<forall>t\<in>set sched. t < n" "\<forall>t<n. 2 * sl_len e + 2 \<le> count_list sched t"
  shows "all_returned n (bf_run n h (GetSorted e) sched (bf_init res))"
proof -
  let ?txs = "sl_sorted e"
  have "pcs (bf_run n h ?txs sched (bf_init res)) t = Returned" if "t < n" for t
  proof -
    have "bf_measure (length ?txs) (pcs (bf_init res) t) \<le> 2 * sl_len e + 2"
      by (simp add: bf_init_def sl_len_def)
    with bf_run_measure[OF bf_init_inv assms(1) that, where h = h and txs = ?txs and res = res]
      assms(2) that
    have "bf_measure (length ?txs) (pcs (bf_run n h ?txs sched (bf_init res)) t) = 0" by fastforce
    then show ?thesis by simp
  qed
  then show ?thesis
    by (simp add: all_returned_def list_all_iff GetSorted_def)
qed

text \<open>
  C4: every goroutine of \<open>GetBestFittingTx\<close> returns after at most \<open>2 * len + 2\<close> of its own
  steps, whatever the others do, so a schedule that gives each of them that many steps makes
  the call return.
\<close>

theorem GetBestFittingTx_returns:
  assumes "\<forall>t\<in>set sched. t < n" "\<forall>t<n. 2 * sl_len e + 2 \<le> count_list sched t"
  shows "\<exists>result. GetBestFittingTx n sched h e res = Some result"
  using enough_steps_return[OF assms] by (simp add: GetBestFittingTx_def Let_def)

lemma first_fit_result:
  assumes "0 < n" "\<forall>t\<in>set sched. t < n"
    and "GetBestFittingTx n sched h e res = Some result"
  shows "result = (if sl_sorted e = [] then Inl ErrTransactionsListEmpty
     else case find (\<lambda>r. fits (txResources (h r)) res) (sl_sorted e) of
            None \<Rightarrow> Inl ErrNoFittingTransaction | Some r \<Rightarrow> Inr r)"
proof (cases "sl_sorted e = []")
  case True
  then show ?thesis using assms(3) by (simp add: GetBestFittingTx_def sl_len_def)
next
  case False
  let ?txs = "sl_sorted e" and ?f = "fits_at h (sl_sorted e) res"
  define st where "st = bf_run n h ?txs sched (bf_init res)"
  have inv: "bf_inv n h ?txs res st" unfolding st_def by (rule bf_run_inv[OF bf_init_inv assms(2)])
  have ret: "all_returned n st" and
    result: "result = (if foundAt st \<noteq> -1 then Inr (the (bf_tx st)) else Inl ErrNoFittingTransaction)"
    using assms(3) False by (auto simp: GetBestFittingTx_def sl_len_def GetSorted_def st_def Let_def
        split: if_splits)
  have least: "foundAt st \<noteq> -1 \<and> foundAt st \<le> int k" if "k < length ?txs" "?f k" for k
  proof -
    have "k mod n < n" using assms(1) by simp
    with ret bf_invD[OF inv this] that show ?thesis by (auto simp: all_returned_def list_all_iff)
  qed
  show ?thesis
  proof (cases "foundAt st = -1")
    case True
    with least have "find (\<lambda>r. fits (txResources (h r)) res) ?txs = None"
      by (auto simp: find_None_iff in_set_conv_nth fits_at_def)
    then show ?thesis using False True result by simp
  next
    case nf: False
    then obtain j where j: "j < length ?txs" "?f j" "foundAt st = int j" "bf_tx st = Some (?txs ! j)"
      using inv by (auto simp: bf_inv_def)
    have "\<not> ?f k" if "k < j" for k
      using least[of k] j(1,3) that by auto
    then have "find (\<lambda>r. fits (txResources (h r)) res) ?txs = Some (?txs ! j)"
      unfolding find_Some_iff using j(1,2) by (intro exI[of _ j]) (auto simp: fits_at_def)
    then show ?thesis using False nf result j by simp
  qed
qed

lemma first_fit_found:
  assumes "0 < n" "\<forall>t\<in>set sched. t < n" "GetBestFittingTx n sched h e res = Some (Inr r)"
  shows "find (\<lambda>r. fits (txResources (h r)) res) (sl_sorted e) = Some r"
  using first_fit_result[OF assms] by (auto split: if_splits option.splits)

text \<open>
  C2: whatever the interleaving, when \<open>GetBestFittingTx\<close> returns a transaction it is the first
  one of the sorted list whose resources fit, and it reports that none fits only when none
  does; an empty list is its own error.
\<close>

theorem GetBestFittingTx_first_fit:
  assumes "0 < n" "\<forall>t\<in>set sched. t < n"
    and "GetBestFittingTx n sched h e res = Some result"
  shows "result = (if sl_sorted e = [] then Inl ErrTransactionsListEmpty
     else case find (\<lambda>r. fits (txResources (h r)) res) (sl_sorted e) of
            None \<Rightarrow> Inl ErrNoFittingTransaction | Some r \<Rightarrow> Inr r)"
  by (rule first_fit_result[OF assms])

subsection \<open>Witnesses\<close>

definition sampleResources :: "u64 \<Rightarrow> BatchResources" where
  "sampleResources gas =
     \<lparr>ZKCounters = (ZKCounters (txResources (sampleHeap 0)))\<lparr>GasUsed := gas\<rparr>, Bytes = 1\<rparr>"

lemma sample_fits:
  "fits (txResources (sampleHeap r)) (sampleResources gas) \<longleftrightarrow> 21000 \<le> gas"
  by (simp add: fits_code sampleResources_def sampleHeap_def sampleTracker_def newTxTracker_def
      EfficiencyPercentageByteLength_def)

theorem GetBestFittingTx_returns_witness:
  "list_all (\<lambda>t. t < 1) (replicate 6 (0::nat)) \<and> 2 * sl_len sampleList + 2 \<le> count_list (replicate 6 0) 0 \<and>
   (\<exists>result. GetBestFittingTx 1 (replicate 6 0) sampleHeap sampleList (sampleResources 30000) = Some result)"
  using GetBestFittingTx_returns[of "replicate 6 0" 1 sampleList sampleHeap "sampleResources 30000"]
  by (simp add: sl_len_def sampleList_def eval_nat_numeral)

theorem GetBestFittingTx_first_fit_witness:
  "GetBestFittingTx 1 (replicate 6 0) sampleHeap sampleList (sampleResources 30000) = Some (Inr 2) \<and>
   GetBestFittingTx 1 (replicate 6 0) sampleHeap sampleList (sampleResources 20000) =
     Some (Inl ErrNoFittingTransaction)"
proof -
  have "\<exists>result. GetBestFittingTx 1 (replicate 6 0) sampleHeap sampleList (sampleResources gas) = Some result" for gas
    using enough_steps_return[of "replicate 6 0" 1 sampleList]
    by (simp add: GetBestFittingTx_def Let_def sl_len_def sampleList_def eval_nat_numeral)
  then show ?thesis
    using GetBestFittingTx_first_fit[of 1 "replicate 6 0" sampleHeap sampleList "sampleResources 30000"]
      GetBestFittingTx_first_fit[of 1 "replicate 6 0" sampleHeap sampleList "sampleResources 20000"]
    by (fastforce simp: sample_fits sampleList_def)
qed

end
