(* ===== verification/Worker.thy ===== *)
theory Worker
  imports BestFit
begin

text \<open>
  The pool worker of the sequencer (\<open>sequencer/worker.go\<close>): the address queues by sender, the
  sorted list of ready transactions, and the operations the sequencer and the finalizer call
  under the worker's mutex.  \<open>AddTxTracker\<close> is given by its critical sections, because it
  releases the mutex while it reads the account from the state.

  The state service, the IP parser and the printers of hashes and addresses are arguments.
  The iteration order over a queue's not-ready map is \<open>qord\<close>, that over the pool and over
  the touched addresses an explicit list.  \<open>None\<close> is a nil dereference inside the sorted list.
\<close>

subsection \<open>The worker and its operations\<close>

record Worker =
  pool :: "(string, addrQueue) fmap"
  wk_sorted :: txSortedList
  batchConstraints :: BatchConstraintsCfg

record stateInterface =
  GetLastStateRoot :: "string + hash"
  GetNonceByStateRoot :: "address \<Rightarrow> hash \<Rightarrow> string + int"
  GetBalanceByStateRoot :: "address \<Rightarrow> hash \<Rightarrow> string + int"

record InfoReadWrite =
  irw_Address :: address
  irw_Nonce :: "u64 option"
  irw_Balance :: "int option"

definition NewWorker :: "BatchConstraintsCfg \<Rightarrow> Worker" where
  "NewWorker constraints =
     \<lparr>pool = fmempty, wk_sorted = newTxSortedList, batchConstraints = constraints\<rparr>"

definition IsValidIP :: "(string \<Rightarrow> bool) \<Rightarrow> string \<Rightarrow> bool" where
  "IsValidIP parseIP ip \<longleftrightarrow> ip \<noteq> [] \<and> parseIP ip"

definition AddTxTracker_check :: "(string \<Rightarrow> bool) \<Rightarrow> Worker \<Rightarrow> TxTracker \<Rightarrow> SeqError option" where
  "AddTxTracker_check parseIP w tx =
     (if IP tx \<noteq> [] \<and> \<not> IsValidIP parseIP (IP tx) then Some ErrInvalidIP
      else if \<not> IsWithinConstraints (batchConstraints w) (ZKCounters (txResources tx))
      then Some ErrOutOfCounters else None)"

text \<open>Without the mutex: the account is read from the last state root.\<close>

definition AddTxTracker_newQueue ::
  "stateInterface \<Rightarrow> (address \<Rightarrow> string) \<Rightarrow> TxTracker \<Rightarrow> SeqError + addrQueue" where
  "AddTxTracker_newQueue st astr tx =
     (case GetLastStateRoot st of
        Inl e \<Rightarrow> Inl (ErrGetLastStateRoot e)
      | Inr root \<Rightarrow>
          (case GetNonceByStateRoot st (From tx) root of
             Inl e \<Rightarrow> Inl (ErrGetNonceByStateRoot e)
           | Inr nonce \<Rightarrow>
               (case GetBalanceByStateRoot st (From tx) root of
                  Inl e \<Rightarrow> Inl (ErrGetBalanceByStateRoot e)
                | Inr balance \<Rightarrow> Inr (newAddrQueue astr (From tx) (word_of_int nonce) balance))))"

text \<open>The update of the sorted list shared by \<open>AddTxTracker\<close> and \<open>applyAddressUpdate\<close>.\<close>

definition updateSorted :: "heap \<Rightarrow> txSortedList \<Rightarrow> ref option \<Rightarrow> ref option \<Rightarrow> txSortedList option" where
  "updateSorted h e prevReadyTx newReadyTx =
     Option.bind (case prevReadyTx of None \<Rightarrow> Some e | Some r \<Rightarrow> map_option fst (sl_delete h e r))
       (\<lambda>e1. case newReadyTx of None \<Rightarrow> Some e1 | Some r \<Rightarrow> map_option fst (sl_add h e1 r))"

definition AddTxTracker_add ::
  "heap \<Rightarrow> Worker \<Rightarrow> addrQueue \<Rightarrow> ref \<Rightarrow> (Worker \<times> ref option \<times> SeqError option) option" where
  "AddTxTracker_add h w addr tx =
     (let (addr', res) = addTx h addr tx;
          w' = w\<lparr>pool := fmupd (FromStr (h tx)) addr' (pool w)\<rparr>
      in if dropReason res \<noteq> None then Some (w', replaced res, dropReason res)
         else map_option (\<lambda>e. (w'\<lparr>wk_sorted := e\<rparr>, replaced res, None))
                (updateSorted h (wk_sorted w') (prevReady res) (newReady res)))"

definition AddTxTracker ::
  "(string \<Rightarrow> bool) \<Rightarrow> stateInterface \<Rightarrow> (address \<Rightarrow> string) \<Rightarrow> heap \<Rightarrow> Worker \<Rightarrow> ref \<Rightarrow>
   (Worker \<times> ref option \<times> SeqError option) option" where
  "AddTxTracker parseIP st astr h w tx =
     (case AddTxTracker_check parseIP w (h tx) of
        Some err \<Rightarrow> Some (w, None, Some err)
      | None \<Rightarrow>
          (case fmlookup (pool w) (FromStr (h tx)) of
             Some addr \<Rightarrow> AddTxTracker_add h w addr tx
           | None \<Rightarrow>
               (case AddTxTracker_newQueue st astr (h tx) of
                  Inl err \<Rightarrow> Some (w, None, Some err)
                | Inr addr \<Rightarrow>
                    AddTxTracker_add h (w\<lparr>pool := fmupd (FromStr (h tx)) addr (pool w)\<rparr>) addr tx)))"

definition applyAddressUpdate ::
  "(address \<Rightarrow> string) \<Rightarrow> (addrQueue \<Rightarrow> u64 list) \<Rightarrow> heap \<Rightarrow> Worker \<Rightarrow> address \<Rightarrow> u64 option \<Rightarrow>
   int option \<Rightarrow> (heap \<times> Worker \<times> ref option \<times> ref option \<times> ref list) option" where
  "applyAddressUpdate astr qord h w from fromNonce fromBalance =
     (case fmlookup (pool w) (astr from) of
        None \<Rightarrow> Some (h, w, None, None, [])
      | Some a \<Rightarrow>
          (let (h', a', newReadyTx, prevReadyTx, txsToDelete) =
                 updateCurrentNonceBalance h (qord a) a fromNonce fromBalance
           in map_option
                (\<lambda>e. (h', w\<lparr>pool := fmupd (astr from) a' (pool w), wk_sorted := e\<rparr>,
                      newReadyTx, prevReadyTx, txsToDelete))
                (updateSorted h' (wk_sorted w) prevReadyTx newReadyTx)))"

text \<open>The loop over the touched addresses other than the sender.\<close>

fun updateTouched ::
  "(address \<Rightarrow> string) \<Rightarrow> (addrQueue \<Rightarrow> u64 list) \<Rightarrow> address \<Rightarrow> (address, InfoReadWrite) fmap \<Rightarrow>
   heap \<Rightarrow> Worker \<Rightarrow> ref list \<Rightarrow> address list \<Rightarrow> (heap \<times> Worker \<times> ref list) option" where
  "updateTouched astr qord from touched h w txs [] = Some (h, w, txs)"
| "updateTouched astr qord from touched h w txs (addr # addrs) =
     (case fmlookup touched addr of
        None \<Rightarrow> updateTouched astr qord from touched h w txs addrs
      | Some info \<Rightarrow>
          if addr \<noteq> from then
            Option.bind (applyAddressUpdate astr qord h w addr None (irw_Balance info))
              (\<lambda>(h', w', _, _, del). updateTouched astr qord from touched h' w' (txs @ del) addrs)
          else updateTouched astr qord from touched h w txs addrs)"

definition UpdateAfterSingleSuccessfulTxExecution ::
  "(address \<Rightarrow> string) \<Rightarrow> (addrQueue \<Rightarrow> u64 list) \<Rightarrow> address list \<Rightarrow> heap \<Rightarrow> Worker \<Rightarrow> address \<Rightarrow>
   (address, InfoReadWrite) fmap \<Rightarrow> (heap \<times> Worker \<times> ref list) option" where
  "UpdateAfterSingleSuccessfulTxExecution astr qord ord h w from touchedAddresses =
     (case fmlookup touchedAddresses from of
        None \<Rightarrow> updateTouched astr qord from touchedAddresses h w [] ord
      | Some t \<Rightarrow>
          Option.bind (applyAddressUpdate astr qord h w from (irw_Nonce t) (irw_Balance t))
            (\<lambda>(h', w', _, _, del). updateTouched astr qord from touchedAddresses h' w' del ord))"

definition MoveTxToNotReady ::
  "(address \<Rightarrow> string) \<Rightarrow> (addrQueue \<Rightarrow> u64 list) \<Rightarrow> heap \<Rightarrow> Worker \<Rightarrow> hash \<Rightarrow> address \<Rightarrow> u64 option \<Rightarrow>
   int option \<Rightarrow> (heap \<times> Worker \<times> ref list) option" where
  "MoveTxToNotReady astr qord h w txHash from actualNonce actualBalance =
     map_option (\<lambda>(h', w', _, _, txsToDelete). (h', w', txsToDelete))
       (applyAddressUpdate astr qord h w from actualNonce actualBalance)"

definition DeleteTx ::
  "(hash \<Rightarrow> string) \<Rightarrow> (address \<Rightarrow> string) \<Rightarrow> (addrQueue \<Rightarrow> u64 list) \<Rightarrow> heap \<Rightarrow> Worker \<Rightarrow> hash \<Rightarrow>
   address \<Rightarrow> Worker option" where
  "DeleteTx hstr astr qord h w txHash addr =
     (case fmlookup (pool w) (astr addr) of
        None \<Rightarrow> Some w
      | Some a \<Rightarrow>
          (let (a', deletedReadyTx) = deleteTx h hstr (qord a) a txHash;
               w' = w\<lparr>pool := fmupd (astr addr) a' (pool w)\<rparr>
           in case deletedReadyTx of
                None \<Rightarrow> Some w'
              | Some r \<Rightarrow> map_option (\<lambda>(e, _). w'\<lparr>wk_sorted := e\<rparr>) (sl_delete h (wk_sorted w') r)))"

text \<open>The operations that only touch one queue, found by its address.\<close>

definition onQueue :: "(address \<Rightarrow> string) \<Rightarrow> (addrQueue \<Rightarrow> addrQueue) \<Rightarrow> Worker \<Rightarrow> address \<Rightarrow> Worker" where
  "onQueue astr f w addr =
     (case fmlookup (pool w) (astr addr) of
        None \<Rightarrow> w | Some a \<Rightarrow> w\<lparr>pool := fmupd (astr addr) (f a) (pool w)\<rparr>)"

definition DeleteForcedTx :: "(address \<Rightarrow> string) \<Rightarrow> Worker \<Rightarrow> hash \<Rightarrow> address \<Rightarrow> Worker" where
  "DeleteForcedTx astr w txHash addr = onQueue astr (\<lambda>a. deleteForcedTx a txHash) w addr"

definition AddPendingTxToStore :: "(address \<Rightarrow> string) \<Rightarrow> Worker \<Rightarrow> hash \<Rightarrow> address \<Rightarrow> Worker" where
  "AddPendingTxToStore astr w txHash addr = onQueue astr (\<lambda>a. addPendingTxToStore a txHash) w addr"

definition AddForcedTx :: "(address \<Rightarrow> string) \<Rightarrow> Worker \<Rightarrow> hash \<Rightarrow> address \<Rightarrow> Worker" where
  "AddForcedTx astr w txHash addr = onQueue astr (\<lambda>a. addForcedTx a txHash) w addr"

definition DeletePendingTxToStore :: "(address \<Rightarrow> string) \<Rightarrow> Worker \<Rightarrow> hash \<Rightarrow> address \<Rightarrow> Worker" where
  "DeletePendingTxToStore astr w txHash addr = onQueue astr (\<lambda>a. deletePendingTxToStore a txHash) w addr"

definition UpdateTxZKCounters ::
  "(hash \<Rightarrow> string) \<Rightarrow> (address \<Rightarrow> string) \<Rightarrow> (addrQueue \<Rightarrow> u64 list) \<Rightarrow> heap \<Rightarrow> Worker \<Rightarrow> hash \<Rightarrow>
   address \<Rightarrow> ZKCounters \<Rightarrow> heap" where
  "UpdateTxZKCounters hstr astr qord h w txHash addr counters =
     (case fmlookup (pool w) (astr addr) of
        None \<Rightarrow> h | Some a \<Rightarrow> aq_UpdateTxZKCounters h hstr (qord a) a txHash counters)"

text \<open>One iteration of the worker's \<open>ExpireTransactions\<close>, for the queue at key \<open>s\<close>.\<close>

definition expireQueue ::
  "(addrQueue \<Rightarrow> u64 list) \<Rightarrow> heap \<Rightarrow> duration \<Rightarrow> (string \<Rightarrow> u64 \<Rightarrow> time) \<Rightarrow> (string \<Rightarrow> time) \<Rightarrow> string \<Rightarrow>
   Worker \<Rightarrow> (Worker \<times> ref list) option" where
  "expireQueue qord h maxTime clock clockReady s w =
     (case fmlookup (pool w) s of
        None \<Rightarrow> Some (w, [])
      | Some a \<Rightarrow>
          (let (a', subTxs, prevReadyTx) = ExpireTransactions h maxTime (clock s) (clockReady s) (qord a) a;
               w1 = w\<lparr>pool := fmupd s a' (pool w)\<rparr>
           in map_option
                (\<lambda>e. (w1\<lparr>wk_sorted := e,
                         pool := (if aq_IsEmpty a' then fmdrop (fromStr a') (pool w1) else pool w1)\<rparr>, subTxs))
                (case prevReadyTx of None \<Rightarrow> Some (wk_sorted w1)
                 | Some r \<Rightarrow> map_option fst (sl_delete h (wk_sorted w1) r))))"

fun w_ExpireTransactions ::
  "(addrQueue \<Rightarrow> u64 list) \<Rightarrow> heap \<Rightarrow> duration \<Rightarrow> (string \<Rightarrow> u64 \<Rightarrow> time) \<Rightarrow> (string \<Rightarrow> time) \<Rightarrow>
   string list \<Rightarrow> Worker \<Rightarrow> ref list \<Rightarrow> (Worker \<times> ref list) option" where
  "w_ExpireTransactions qord h maxTime clock clockReady [] w txs = Some (w, txs)"
| "w_ExpireTransactions qord h maxTime clock clockReady (s # ss) w txs =
     Option.bind (expireQueue qord h maxTime clock clockReady s w)
       (\<lambda>(w', subTxs). w_ExpireTransactions qord h maxTime clock clockReady ss w' (txs @ subTxs))"

subsection \<open>The invariant of the worker\<close>

definition ready_refs :: "Worker \<Rightarrow> ref set" where
  "ready_refs w = {r. \<exists>s a. fmlookup (pool w) s = Some a \<and> readyTx a = Some r}"

definition worker_refs :: "Worker \<Rightarrow> ref set" where
  "worker_refs w = {r. \<exists>s a. fmlookup (pool w) s = Some a \<and> r \<in> aq_refs a}"

text \<open>
  \<open>sender\<close> is the recovery of the sender from a transaction: equal hashes have equal senders.
\<close>

definition hash_sender :: "(string \<Rightarrow> string) \<Rightarrow> heap \<Rightarrow> bool" where
  "hash_sender sender h \<longleftrightarrow> (\<forall>r. FromStr (h r) = sender (HashStr (h r)))"

definition worker_inv :: "(string \<Rightarrow> string) \<Rightarrow> heap \<Rightarrow> Worker \<Rightarrow> bool" where
  "worker_inv sender h w \<longleftrightarrow>
     hash_sender sender h \<and>
     (\<forall>s a. fmlookup (pool w) s = Some a \<longrightarrow> fromStr a = s \<and> aq_inv h a) \<and>
     sl_inv h (wk_sorted w) \<and>
     set (sl_sorted (wk_sorted w)) = ready_refs w"

definition valid_qord :: "(addrQueue \<Rightarrow> u64 list) \<Rightarrow> bool" where
  "valid_qord qord \<longleftrightarrow> (\<forall>a. is_range_order (notReadyTxs a) (qord a))"

lemma hash_sender_static: "same_static h h' \<Longrightarrow> hash_sender sender h' = hash_sender sender h"
  by (simp add: hash_sender_def same_static_def)

lemma worker_inv_static: "same_static h h' \<Longrightarrow> worker_inv sender h' w = worker_inv sender h w"
  by (simp add: worker_inv_def hash_sender_static aq_inv_static sl_inv_static)

lemma worker_invD:
  assumes "worker_inv sender h w"
  shows "FromStr (h r) = sender (HashStr (h r))"
    and "fmlookup (pool w) s = Some a \<Longrightarrow> fromStr a = s"
    and "fmlookup (pool w) s = Some a \<Longrightarrow> aq_inv h a"
    and "sl_inv h (wk_sorted w)" and "set (sl_sorted (wk_sorted w)) = ready_refs w"
  using assms by (simp_all add: worker_inv_def hash_sender_def)

lemma NewWorker_inv: "hash_sender sender h \<Longrightarrow> worker_inv sender h (NewWorker c)"
  by (simp add: worker_inv_def NewWorker_def ready_refs_def) (simp add: newTxSortedList_def)

definition slot_ready :: "Worker \<Rightarrow> string \<Rightarrow> ref set" where
  "slot_ready w s = (case fmlookup (pool w) s of None \<Rightarrow> {} | Some a \<Rightarrow> set_option (readyTx a))"

lemma ready_refs_upd:
  "ready_refs (w\<lparr>pool := fmupd s a (pool w)\<rparr>) = ready_refs (w\<lparr>pool := fmdrop s (pool w)\<rparr>) \<union> set_option (readyTx a)"
  by (auto simp: ready_refs_def split: if_splits)

lemma ready_refs_split:
  "ready_refs w = ready_refs (w\<lparr>pool := fmdrop s (pool w)\<rparr>) \<union> slot_ready w s"
  by (auto simp: ready_refs_def slot_ready_def split: if_splits option.splits)

lemma ready_refs_from:
  assumes "worker_inv sender h w"
  shows "r \<in> slot_ready w s \<Longrightarrow> FromStr (h r) = s"
    and "r \<in> ready_refs (w\<lparr>pool := fmdrop s (pool w)\<rparr>) \<Longrightarrow> FromStr (h r) \<noteq> s"
  using worker_invD(2,3)[OF assms] aq_invD(3)
  by (fastforce simp: slot_ready_def ready_refs_def split: option.splits if_splits)+

text \<open>
  The step shared by all operations: one queue changes, and its ready transaction changes by
  dropping \<open>prev\<close> and taking \<open>new\<close>, which is what the sorted list is told.
\<close>

lemma worker_replace:
  assumes inv: "worker_inv sender h w" and q: "aq_inv h a'" "fromStr a' = s"
    and prev: "set_option prev \<subseteq> slot_ready w s"
    and new: "set_option (readyTx a') = (slot_ready w s - set_option prev) \<union> set_option new"
  shows "\<exists>e. updateSorted h (wk_sorted w) prev new = Some e \<and>
    worker_inv sender h (w\<lparr>pool := fmupd s a' (pool w), wk_sorted := e\<rparr>)"
proof -
  let ?others = "ready_refs (w\<lparr>pool := fmdrop s (pool w)\<rparr>)"
  have items: "set (sl_sorted (wk_sorted w)) = ?others \<union> slot_ready w s"
    using worker_invD(5)[OF inv] ready_refs_split[of w s] by simp
  have disj: "?others \<inter> slot_ready w s = {}" using ready_refs_from[OF inv] by blast
  have newhash: "r \<in> set (sl_sorted (wk_sorted w)) - set_option prev"
    if r: "new = Some r" and hs: "HashStr (h r) \<in> hashes h (set (sl_sorted (wk_sorted w)) - set_option prev)" for r
  proof -
    obtain x where x: "x \<in> set (sl_sorted (wk_sorted w)) - set_option prev" "HashStr (h x) = HashStr (h r)"
      using hs unfolding hashes_def image_iff Bex_def by (blast intro: sym)
    have ra: "readyTx a' = Some r" using new r by (cases "readyTx a'") auto
    then have "FromStr (h x) = s"
      using worker_invD(1)[OF inv, of x] worker_invD(1)[OF inv, of r] x(2) aq_invD(3)[OF q(1)] q(2) by simp
    then have "x \<in> slot_ready w s - set_option prev"
      using x(1) items ready_refs_from(2)[OF inv] by blast
    then have "x \<in> set_option (readyTx a')" unfolding new by blast
    then have "x = r" using ra by simp
    with x(1) show ?thesis by simp
  qed
  have "\<exists>e. sl.swap h (wk_sorted w) prev new = Some e \<and> sl_inv h e \<and>
    set (sl_sorted e) = (set (sl_sorted (wk_sorted w)) - set_option prev) \<union> set_option new"
  proof (rule sl.swap_items[OF worker_invD(4)[OF inv]])
    show "set_option prev \<subseteq> set (sl_sorted (wk_sorted w))" using prev items by blast
  qed (rule newhash)
  then obtain e where e: "updateSorted h (wk_sorted w) prev new = Some e" "sl_inv h e"
    "set (sl_sorted e) = (set (sl_sorted (wk_sorted w)) - set_option prev) \<union> set_option new"
    unfolding updateSorted_def sl.swap_def by blast
  have "set (sl_sorted e) = ?others \<union> set_option (readyTx a')"
    using e(3) items disj prev new by blast
  then have "worker_inv sender h (w\<lparr>pool := fmupd s a' (pool w), wk_sorted := e\<rparr>)"
    using inv q e(2) ready_refs_upd[where w = w and s = s and a = a'] by (simp add: worker_inv_def ready_refs_def)
  with e(1) show ?thesis by blast
qed

subsection \<open>Every operation keeps the invariant and does not panic\<close>

lemma addTx_ready_change:
  "dropReason (snd (addTx h a tx)) = None \<longrightarrow>
     set_option (prevReady (snd (addTx h a tx))) \<subseteq> set_option (readyTx a) \<and>
     set_option (readyTx (fst (addTx h a tx))) =
      (set_option (readyTx a) - set_option (prevReady (snd (addTx h a tx)))) \<union>
      set_option (newReady (snd (addTx h a tx)))"
  by (auto simp: addTx_def Let_def split: option.split)

lemma addTx_drop_unchanged: "dropReason (snd (addTx h a tx)) \<noteq> None \<longrightarrow> fst (addTx h a tx) = a"
  by (simp add: addTx_def Let_def split: option.split)

lemma AddTxTracker_add_inv:
  assumes inv: "worker_inv sender h w" and a: "fmlookup (pool w) (FromStr (h tx)) = Some a"
  shows "\<exists>w' rep err. AddTxTracker_add h w a tx = Some (w', rep, err) \<and> worker_inv sender h w'"
proof -
  define a' res where "a' = fst (addTx h a tx)" and "res = snd (addTx h a tx)"
  note eq = a'_def[symmetric] res_def[symmetric]
  have q: "aq_inv h a'" "fromStr a' = FromStr (h tx)"
    using worker_invD(2,3)[OF inv a] by (simp_all add: a'_def addTx_inv)
  have sr: "slot_ready w (FromStr (h tx)) = set_option (readyTx a)" by (simp add: slot_ready_def a)
  show ?thesis
  proof (cases "dropReason res")
    case None
    then obtain e where "updateSorted h (wk_sorted w) (prevReady res) (newReady res) = Some e"
      "worker_inv sender h (w\<lparr>pool := fmupd (FromStr (h tx)) a' (pool w), wk_sorted := e\<rparr>)"
      using worker_replace[OF inv q, of "prevReady res" "newReady res"]
        addTx_ready_change[of h a tx] by (auto simp: sr a'_def res_def)
    then show ?thesis using None by (simp add: AddTxTracker_add_def split_beta eq)
  next
    case (Some err)
    then have "a' = a" by (simp add: a'_def res_def addTx_drop_unchanged)
    moreover have "fmupd (FromStr (h tx)) a (pool w) = pool w"
      using a by (intro fmap_ext) auto
    ultimately show ?thesis using Some inv by (simp add: AddTxTracker_add_def split_beta eq)
  qed
qed

lemma worker_inv_new_queue:
  assumes inv: "worker_inv sender h w" and "fmlookup (pool w) s = None"
    and "aq_inv h a" "fromStr a = s" "readyTx a = None"
  shows "worker_inv sender h (w\<lparr>pool := fmupd s a (pool w)\<rparr>)"
  using worker_replace[OF inv assms(3,4), of None None] assms(2,5)
  by (auto simp: slot_ready_def updateSorted_def)

lemma AddTxTracker_inv:
  assumes inv: "worker_inv sender h w" and fs: "FromStr (h tx) = astr (From (h tx))"
  shows "\<exists>w' rep err. AddTxTracker parseIP st astr h w tx = Some (w', rep, err) \<and> worker_inv sender h w'"
proof (cases "AddTxTracker_check parseIP w (h tx)")
  case None
  show ?thesis
  proof (cases "fmlookup (pool w) (FromStr (h tx))")
    case (Some a)
    then show ?thesis using AddTxTracker_add_inv[OF inv Some] None by (simp add: AddTxTracker_def)
  next
    case nf: None
    show ?thesis
    proof (cases "AddTxTracker_newQueue st astr (h tx)")
      case (Inl err)
      then show ?thesis using None nf inv by (simp add: AddTxTracker_def)
    next
      case (Inr a)
      then have "aq_inv h a" "fromStr a = FromStr (h tx)" "readyTx a = None"
        using fs by (auto simp: AddTxTracker_newQueue_def split: sum.splits) (auto simp: newAddrQueue_def)
      from AddTxTracker_add_inv[OF worker_inv_new_queue[OF inv nf this]] Inr None nf
      show ?thesis by (simp add: AddTxTracker_def)
    qed
  qed
qed (use inv in \<open>simp add: AddTxTracker_def\<close>)

lemma update_ready_change:
  assumes "aq_inv h a" "is_range_order (notReadyTxs a) ord"
    and "updateCurrentNonceBalance h ord a nonce balance = (h', a', newR, oldR, del)"
  shows "same_static h h' \<and> aq_inv h' a' \<and> fromStr a' = fromStr a \<and>
    set_option oldR \<subseteq> set_option (readyTx a) \<and>
    set_option (readyTx a') = (set_option (readyTx a) - set_option oldR) \<union> set_option newR"
  using updateCurrentNonceBalance_stages[OF assms]
proof cases
  case (1 a1 a2)
  have ra: "readyTx a1 = readyTx a" using ucnb_nonce_frame(3)[OF 1(1)] by simp
  have "set_option (readyTx a) - set_option oldR \<subseteq> set_option (readyTx a')"
    using ucnb_demote_frame(5)[OF 1(2)] ra 1(3)
    by (cases oldR) (auto simp: ucnb_promote_def split: option.split)
  moreover have "set_option oldR \<subseteq> set_option (readyTx a)"
    using ucnb_demote_frame(8)[OF 1(2)] ra by (cases oldR) auto
  ultimately show ?thesis
    using 1(3-5,13) updateCurrentNonceBalance_invD[OF assms(3,2,1)] by auto
qed

lemma applyAddressUpdate_inv:
  assumes inv: "worker_inv sender h w" and "valid_qord qord"
  shows "\<exists>h' w' newR oldR del. applyAddressUpdate astr qord h w from nonce balance =
    Some (h', w', newR, oldR, del) \<and> same_static h h' \<and> worker_inv sender h' w'"
proof (cases "fmlookup (pool w) (astr from)")
  case None
  then show ?thesis using inv by (simp add: applyAddressUpdate_def)
next
  case (Some a)
  obtain h' a' newR oldR del where eq:
    "updateCurrentNonceBalance h (qord a) a nonce balance = (h', a', newR, oldR, del)"
    by (cases "updateCurrentNonceBalance h (qord a) a nonce balance") auto
  have ro: "is_range_order (notReadyTxs a) (qord a)" using assms(2) by (simp add: valid_qord_def)
  note ch = update_ready_change[OF worker_invD(3)[OF inv Some] ro eq]
  have inv': "worker_inv sender h' w" using ch inv worker_inv_static by blast
  have sr: "slot_ready w (astr from) = set_option (readyTx a)" by (simp add: slot_ready_def Some)
  obtain e where "updateSorted h' (wk_sorted w) oldR newR = Some e"
    "worker_inv sender h' (w\<lparr>pool := fmupd (astr from) a' (pool w), wk_sorted := e\<rparr>)"
    using worker_replace[OF inv', of a' "astr from" oldR newR] ch worker_invD(2)[OF inv Some] sr by auto
  then show ?thesis using ch by (simp add: applyAddressUpdate_def Some eq)
qed

lemma updateTouched_inv:
  assumes "worker_inv sender h w" "valid_qord qord"
  shows "\<exists>h' w' del. updateTouched astr qord from touched h w txs addrs = Some (h', w', del) \<and>
    worker_inv sender h' w'"
  using assms(1)
proof (induction addrs arbitrary: h w txs)
  case (Cons addr addrs)
  show ?case
  proof (cases "fmlookup touched addr")
    case (Some info)
    obtain h' w' newR oldR del where
      "applyAddressUpdate astr qord h w addr None (irw_Balance info) = Some (h', w', newR, oldR, del)"
      "worker_inv sender h' w'"
      using applyAddressUpdate_inv[OF Cons.prems assms(2)] by blast
    then show ?thesis using Cons.IH[of h' w' "txs @ del"] Cons.IH[OF Cons.prems] Some by simp
  qed (use Cons in simp)
qed simp

lemma UpdateAfter_inv:
  assumes "worker_inv sender h w" "valid_qord qord"
  shows "\<exists>h' w' del. UpdateAfterSingleSuccessfulTxExecution astr qord ord h w from touched =
    Some (h', w', del) \<and> worker_inv sender h' w'"
proof (cases "fmlookup touched from")
  case None
  then show ?thesis
    using updateTouched_inv[OF assms] by (simp add: UpdateAfterSingleSuccessfulTxExecution_def)
next
  case (Some t)
  obtain h' w' newR oldR del where
    "applyAddressUpdate astr qord h w from (irw_Nonce t) (irw_Balance t) = Some (h', w', newR, oldR, del)"
    "worker_inv sender h' w'"
    using applyAddressUpdate_inv[OF assms] by blast
  then show ?thesis
    using updateTouched_inv[OF _ assms(2), of sender h' w'] Some
    by (simp add: UpdateAfterSingleSuccessfulTxExecution_def)
qed

lemma MoveTxToNotReady_inv:
  assumes "worker_inv sender h w" "valid_qord qord"
  shows "\<exists>h' w' del. MoveTxToNotReady astr qord h w txHash from nonce balance = Some (h', w', del) \<and>
    worker_inv sender h' w'"
proof -
  obtain h' w' newR oldR del where
    "applyAddressUpdate astr qord h w from nonce balance = Some (h', w', newR, oldR, del)"
    "worker_inv sender h' w'"
    using applyAddressUpdate_inv[OF assms] by blast
  then show ?thesis by (simp add: MoveTxToNotReady_def)
qed

text \<open>A queue that gives up \<open>prev\<close>, the case of deletion and of expiry.\<close>

lemma worker_release:
  assumes inv: "worker_inv sender h w" and a: "fmlookup (pool w) s = Some a"
    and q: "aq_inv h a'" "fromStr a' = fromStr a"
    and "set_option prev \<subseteq> set_option (readyTx a)"
    and "set_option (readyTx a') = set_option (readyTx a) - set_option prev"
  shows "\<exists>e. (case prev of None \<Rightarrow> Some (wk_sorted w) | Some r \<Rightarrow> map_option fst (sl_delete h (wk_sorted w) r)) = Some e \<and>
    worker_inv sender h (w\<lparr>pool := fmupd s a' (pool w), wk_sorted := e\<rparr>)"
proof -
  have "fromStr a' = s" using worker_invD(2)[OF inv a] q(2) by simp
  from worker_replace[OF inv q(1) this, of prev None] assms(5,6) a show ?thesis
    by (auto simp: slot_ready_def updateSorted_def split: bind_splits)
qed

lemma deleteTx_ready_change:
  "set_option (snd (deleteTx h hstr ord a txHash)) \<subseteq> set_option (readyTx a)"
  "set_option (readyTx (fst (deleteTx h hstr ord a txHash))) =
     set_option (readyTx a) - set_option (snd (deleteTx h hstr ord a txHash))"
  by (auto simp: deleteTx_ready split: option.splits if_splits)

lemma DeleteTx_inv:
  assumes inv: "worker_inv sender h w" and "valid_qord qord"
  shows "\<exists>w'. DeleteTx hstr astr qord h w txHash addr = Some w' \<and> worker_inv sender h w'"
proof (cases "fmlookup (pool w) (astr addr)")
  case None
  then show ?thesis using inv by (simp add: DeleteTx_def)
next
  case (Some a)
  have ro: "is_range_order (notReadyTxs a) (qord a)" using assms(2) by (simp add: valid_qord_def)
  define d where "d = deleteTx h hstr (qord a) a txHash"
  have "aq_inv h (fst d)" "fromStr (fst d) = fromStr a"
    using deleteTx_inv[OF worker_invD(3)[OF inv Some] ro] by (simp_all add: d_def)
  from worker_release[OF inv Some this deleteTx_ready_change[of h hstr "qord a" a txHash, folded d_def]]
  show ?thesis
    by (auto simp: DeleteTx_def Some d_def[symmetric] split_beta split: option.splits)
qed

lemma onQueue_inv:
  assumes inv: "worker_inv sender h w"
    and f: "\<And>a. readyTx (f a) = readyTx a" "\<And>a. fromStr (f a) = fromStr a" "\<And>a. aq_inv h (f a) = aq_inv h a"
  shows "worker_inv sender h (onQueue astr f w addr)"
proof (cases "fmlookup (pool w) (astr addr)")
  case None
  then show ?thesis using inv by (simp add: onQueue_def)
next
  case (Some a)
  have "aq_inv h (f a)" using worker_invD(3)[OF inv Some] f(3) by simp
  from worker_release[OF inv Some this f(2), of None] show ?thesis
    by (simp add: onQueue_def Some f(1))
qed

lemma queue_sets_frame [simp]:
  "readyTx (addForcedTx a x) = readyTx a" "fromStr (addForcedTx a x) = fromStr a"
  "readyTx (addPendingTxToStore a x) = readyTx a" "fromStr (addPendingTxToStore a x) = fromStr a"
  "readyTx (deleteForcedTx a x) = readyTx a" "fromStr (deleteForcedTx a x) = fromStr a"
  "readyTx (deletePendingTxToStore a x) = readyTx a" "fromStr (deletePendingTxToStore a x) = fromStr a"
  by (simp_all add: addForcedTx_def addPendingTxToStore_def deleteForcedTx_def deletePendingTxToStore_def)

lemma worker_sets_inv:
  assumes "worker_inv sender h w"
  shows "worker_inv sender h (DeleteForcedTx astr w txHash addr)"
    "worker_inv sender h (AddPendingTxToStore astr w txHash addr)"
    "worker_inv sender h (AddForcedTx astr w txHash addr)"
    "worker_inv sender h (DeletePendingTxToStore astr w txHash addr)"
  by (simp_all add: DeleteForcedTx_def AddPendingTxToStore_def AddForcedTx_def
      DeletePendingTxToStore_def onQueue_inv[OF assms])

lemma UpdateTxZKCounters_inv:
  "worker_inv sender h w \<Longrightarrow> worker_inv sender (UpdateTxZKCounters hstr astr qord h w txHash addr c) w"
  by (simp add: UpdateTxZKCounters_def worker_inv_static[OF aq_UpdateTxZKCounters_static] split: option.split)

lemma worker_inv_drop:
  assumes inv: "worker_inv sender h w" and "fmlookup (pool w) s = Some a" "readyTx a = None"
  shows "worker_inv sender h (w\<lparr>pool := fmdrop s (pool w)\<rparr>)"
  using inv ready_refs_split[of w s] assms(2,3) by (simp add: worker_inv_def slot_ready_def)

lemma expire_ready_change:
  assumes "aq_inv h a" "is_range_order (notReadyTxs a) ord"
    and "ExpireTransactions h mt clock cr ord a = (a', txs, prev)"
  shows "set_option prev \<subseteq> set_option (readyTx a)"
    "set_option (readyTx a') = set_option (readyTx a) - set_option prev"
    "aq_inv h a'" "fromStr a' = fromStr a"
  using ExpireTransactions_eq(2,4)[OF assms(1,2), of mt clock cr] ExpireTransactions_inv[OF assms(1,2), of mt clock cr]
    ExpireTransactions_frame(3)[of h mt clock cr ord a] assms(3)
  by (auto split: option.splits if_splits)

lemma expireQueue_inv:
  assumes inv: "worker_inv sender h w" and "valid_qord qord"
  shows "\<exists>w' txs. expireQueue qord h mt clock cr s w = Some (w', txs) \<and> worker_inv sender h w'"
proof (cases "fmlookup (pool w) s")
  case None
  then show ?thesis using inv by (simp add: expireQueue_def)
next
  case (Some a)
  have ro: "is_range_order (notReadyTxs a) (qord a)" using assms(2) by (simp add: valid_qord_def)
  obtain a' txs prev where eq: "ExpireTransactions h mt (clock s) (cr s) (qord a) a = (a', txs, prev)"
    by (cases "ExpireTransactions h mt (clock s) (cr s) (qord a) a") auto
  note ch = expire_ready_change[OF worker_invD(3)[OF inv Some] ro eq]
  have fs: "fromStr a' = s" using ch(4) worker_invD(2)[OF inv Some] by simp
  obtain e where e: "(case prev of None \<Rightarrow> Some (wk_sorted w) | Some r \<Rightarrow> map_option fst (sl_delete h (wk_sorted w) r)) = Some e"
    "worker_inv sender h (w\<lparr>pool := fmupd s a' (pool w), wk_sorted := e\<rparr>)"
    using worker_release[OF inv Some ch(3,4,1,2)] by blast
  have "worker_inv sender h (w\<lparr>wk_sorted := e, pool := fmupd s a' (pool w)\<rparr>)"
    using e(2) by (simp add: worker_inv_def ready_refs_def)
  moreover have "worker_inv sender h (w\<lparr>wk_sorted := e, pool := fmdrop s (fmupd s a' (pool w))\<rparr>)"
    if "aq_IsEmpty a'"
    using worker_inv_drop[OF e(2), of s a'] that by (simp add: aq_IsEmpty_def)
  ultimately show ?thesis
    using e(1) by (cases "aq_IsEmpty a'") (simp_all add: expireQueue_def Some eq fs Let_def cong: option.case_cong)
qed

lemma w_ExpireTransactions_inv:
  assumes "worker_inv sender h w" "valid_qord qord"
  shows "\<exists>w' txs'. w_ExpireTransactions qord h mt clock cr ss w txs = Some (w', txs') \<and> worker_inv sender h w'"
  using assms(1)
proof (induction ss arbitrary: w txs)
  case (Cons s ss)
  then obtain w1 t1 where "expireQueue qord h mt clock cr s w = Some (w1, t1)" "worker_inv sender h w1"
    using expireQueue_inv[OF _ assms(2)] by blast
  then show ?case using Cons.IH[of w1 "txs @ t1"] by simp
qed simp

subsection \<open>Histories of operations\<close>

text \<open>
  The worker's operations as steps on the heap and the worker, each run to completion under the
  mutex; \<open>w_alloc\<close> is \<open>NewTxTracker\<close> at an unused address.  An operation that panics has no step.
\<close>

inductive worker_step ::
  "(string \<Rightarrow> string) \<Rightarrow> (address \<Rightarrow> string) \<Rightarrow> heap \<times> Worker \<Rightarrow> heap \<times> Worker \<Rightarrow> bool"
  for sender astr where
  w_alloc: "r \<notin> worker_refs w \<Longrightarrow> FromStr t = sender (HashStr t) \<Longrightarrow>
    worker_step sender astr (h, w) (h(r := t), w)"
| w_add: "FromStr (h tx) = astr (From (h tx)) \<Longrightarrow>
    AddTxTracker parseIP st astr h w tx = Some (w', rep, err) \<Longrightarrow> worker_step sender astr (h, w) (h, w')"
| w_update: "valid_qord qord \<Longrightarrow>
    UpdateAfterSingleSuccessfulTxExecution astr qord ord h w from touched = Some (h', w', del) \<Longrightarrow>
    worker_step sender astr (h, w) (h', w')"
| w_move: "valid_qord qord \<Longrightarrow>
    MoveTxToNotReady astr qord h w txHash from nonce balance = Some (h', w', del) \<Longrightarrow>
    worker_step sender astr (h, w) (h', w')"
| w_delete: "valid_qord qord \<Longrightarrow> DeleteTx hstr astr qord h w txHash addr = Some w' \<Longrightarrow>
    worker_step sender astr (h, w) (h, w')"
| w_delete_forced: "worker_step sender astr (h, w) (h, DeleteForcedTx astr w txHash addr)"
| w_counters: "worker_step sender astr (h, w) (UpdateTxZKCounters hstr astr qord h w txHash addr c, w)"
| w_add_pending: "worker_step sender astr (h, w) (h, AddPendingTxToStore astr w txHash addr)"
| w_add_forced: "worker_step sender astr (h, w) (h, AddForcedTx astr w txHash addr)"
| w_delete_pending: "worker_step sender astr (h, w) (h, DeletePendingTxToStore astr w txHash addr)"
| w_expire: "valid_qord qord \<Longrightarrow> w_ExpireTransactions qord h mt clock cr pord w [] = Some (w', txs) \<Longrightarrow>
    worker_step sender astr (h, w) (h, w')"

inductive_cases worker_stepE: "worker_step sender astr (h, w) s"

lemma worker_inv_alloc:
  assumes inv: "worker_inv sender h w" and r: "r \<notin> worker_refs w" and t: "FromStr t = sender (HashStr t)"
  shows "worker_inv sender (h(r := t)) w"
proof -
  have aq: "aq_inv (h(r := t)) a" if "fmlookup (pool w) s = Some a" for s a
    using worker_invD(3)[OF inv that] r that by (intro aq_inv_alloc) (auto simp: worker_refs_def)
  have "r \<notin> ready_refs w" using r by (fastforce simp: worker_refs_def ready_refs_def aq_refs_def)
  then have "r \<notin> set (sl_sorted (wk_sorted w))" using worker_invD(5)[OF inv] by simp
  then have "\<forall>x\<in>set (sl_sorted (wk_sorted w)). (h(r := t)) x = h x" by auto
  then have "sl_inv (h(r := t)) (wk_sorted w)"
    using worker_invD(4)[OF inv] unfolding sl_inv_def
    by (auto cong: map_cong simp: sorted_wrt_iff_nth_less)
  then show ?thesis using inv aq t by (simp add: worker_inv_def hash_sender_def)
qed

lemma worker_ops_invD:
  assumes "worker_inv sender h w"
  shows "FromStr (h tx) = astr (From (h tx)) \<Longrightarrow>
      AddTxTracker parseIP st astr h w tx = Some (w', rep, err) \<Longrightarrow> worker_inv sender h w'"
    and "valid_qord qord \<Longrightarrow>
      UpdateAfterSingleSuccessfulTxExecution astr qord ord h w from touched = Some (h', w', del) \<Longrightarrow>
      worker_inv sender h' w'"
    and "valid_qord qord \<Longrightarrow>
      MoveTxToNotReady astr qord h w txHash from nonce balance = Some (h', w', del) \<Longrightarrow> worker_inv sender h' w'"
    and "valid_qord qord \<Longrightarrow> DeleteTx hstr astr qord h w txHash addr = Some w' \<Longrightarrow> worker_inv sender h w'"
    and "valid_qord qord \<Longrightarrow> w_ExpireTransactions qord h mt clock cr pord w txs = Some (w', txs') \<Longrightarrow>
      worker_inv sender h w'"
  using AddTxTracker_inv[OF assms, of tx astr parseIP st] UpdateAfter_inv[OF assms, of qord astr ord "from" touched]
    MoveTxToNotReady_inv[OF assms, of qord astr txHash "from" nonce balance]
    DeleteTx_inv[OF assms, of qord hstr astr txHash addr]
    w_ExpireTransactions_inv[OF assms, of qord mt clock cr pord txs]
  by auto

lemma worker_step_inv:
  assumes "worker_step sender astr (h, w) (h', w')" "worker_inv sender h w"
  shows "worker_inv sender h' w'"
  using assms(1)
  by (elim worker_stepE)
    (use assms(2) in \<open>auto simp: worker_inv_alloc worker_sets_inv UpdateTxZKCounters_inv
       dest: worker_ops_invD[OF assms(2)]\<close>)

lemma worker_steps_inv:
  assumes "(worker_step sender astr)\<^sup>*\<^sup>* s s'" "worker_inv sender (fst s) (snd s)"
  shows "worker_inv sender (fst s') (snd s')"
  using assms
proof (induction rule: rtranclp_induct)
  case (step y z)
  then show ?case using worker_step_inv[of sender astr "fst y" "snd y" "fst z" "snd z"] by simp
qed

subsection \<open>Properties of the worker\<close>

text \<open>
  C1: after any sequence of worker operations the sorted list holds exactly the ready
  transactions of all address queues, each once, by descending gas price, and each of them
  belongs to the queue of its sender, has that account's current nonce and is covered by its
  balance.
\<close>

theorem worker_sorted_list_exact:
  assumes "hash_sender sender h0"
    and "(worker_step sender astr)\<^sup>*\<^sup>* (h0, NewWorker c) (h, w)"
  shows "set (sl_sorted (wk_sorted w)) = ready_refs w \<and>
    distinct (map (\<lambda>r. HashStr (h r)) (sl_sorted (wk_sorted w))) \<and>
    sorted_wrt (\<lambda>x y. GasPrice (h y) \<le> GasPrice (h x)) (sl_sorted (wk_sorted w)) \<and>
    (\<forall>r\<in>set (sl_sorted (wk_sorted w)). \<exists>a. fmlookup (pool w) (FromStr (h r)) = Some a \<and>
       readyTx a = Some r \<and> Nonce (h r) = currentNonce a \<and> Cost (h r) \<le> currentBalance a)"
proof -
  have inv: "worker_inv sender h w"
    using worker_steps_inv[OF assms(2)] NewWorker_inv[OF assms(1)] by simp
  have "\<exists>a. fmlookup (pool w) (FromStr (h r)) = Some a \<and> readyTx a = Some r \<and>
      Nonce (h r) = currentNonce a \<and> Cost (h r) \<le> currentBalance a" if rr: "r \<in> ready_refs w" for r
  proof -
    obtain s a where a: "fmlookup (pool w) s = Some a" "readyTx a = Some r"
      using rr by (auto simp: ready_refs_def)
    note q = worker_invD(3)[OF inv a(1)]
    have "FromStr (h r) = s" using aq_invD(3)[OF q a(2)] worker_invD(2)[OF inv a(1)] by simp
    then show ?thesis using a aq_invD(1,2)[OF q a(2)] by auto
  qed
  then show ?thesis using worker_invD(5)[OF inv] sl_invD(4,5)[OF worker_invD(4)[OF inv]] by simp
qed

text \<open>
  No worker operation dereferences a missing entry of the sorted list, in any state that
  operations can reach.
\<close>

lemma worker_never_panics:
  assumes "hash_sender sender h0" "(worker_step sender astr)\<^sup>*\<^sup>* (h0, NewWorker c) (h, w)"
    and "valid_qord qord" "FromStr (h tx) = astr (From (h tx))"
  shows "AddTxTracker parseIP st astr h w tx \<noteq> None \<and>
    UpdateAfterSingleSuccessfulTxExecution astr qord ord h w addr touched \<noteq> None \<and>
    MoveTxToNotReady astr qord h w txHash addr nonce balance \<noteq> None \<and>
    DeleteTx hstr astr qord h w txHash addr \<noteq> None \<and>
    w_ExpireTransactions qord h mt clock cr pord w [] \<noteq> None"
proof -
  have inv: "worker_inv sender h w"
    using worker_steps_inv[OF assms(2)] NewWorker_inv[OF assms(1)] by simp
  show ?thesis
    using AddTxTracker_inv[OF inv, of tx astr parseIP st]
      UpdateAfter_inv[OF inv assms(3), of astr ord addr touched]
      MoveTxToNotReady_inv[OF inv assms(3), of astr txHash addr nonce balance]
      DeleteTx_inv[OF inv assms(3), of hstr astr txHash addr]
      w_ExpireTransactions_inv[OF inv assms(3), of mt clock cr pord "[]"] assms(4)
    by auto
qed

text \<open>
  C3: whatever the interleaving of its goroutines, \<open>GetBestFittingTx\<close> answers with a ready
  transaction that fits the remaining batch resources and pays at least as much as every other
  ready transaction that fits.
\<close>

theorem GetBestFittingTx_best_price:
  assumes "worker_inv sender h w" "0 < n" "\<forall>t\<in>set sched. t < n"
    and "GetBestFittingTx n sched h (wk_sorted w) res = Some (Inr r)"
  shows "r \<in> ready_refs w \<and> fits (txResources (h r)) res \<and>
    (\<forall>r'\<in>ready_refs w. fits (txResources (h r')) res \<longrightarrow> GasPrice (h r') \<le> GasPrice (h r))"
proof -
  let ?txs = "sl_sorted (wk_sorted w)"
  have "find (\<lambda>r. fits (txResources (h r)) res) ?txs = Some r"
    using first_fit_found[OF assms(2-4)] .
  then obtain j where j: "j < length ?txs" "fits (txResources (h (?txs ! j))) res" "r = ?txs ! j"
    "\<forall>k<j. \<not> fits (txResources (h (?txs ! k))) res"
    by (auto simp: find_Some_iff)
  have "GasPrice (h r') \<le> GasPrice (h r)" if r': "r' \<in> set ?txs" "fits (txResources (h r')) res" for r'
  proof -
    obtain k where k: "k < length ?txs" "r' = ?txs ! k" using r'(1) by (auto simp: in_set_conv_nth)
    then have "j \<le> k" using j(4) r'(2) by (auto simp: not_less[symmetric])
    then show ?thesis
      using sorted_wrt_nth_less[OF sl_invD(5)[OF worker_invD(4)[OF assms(1)]], of j k] k j(3)
      by (cases "j = k") auto
  qed
  then show ?thesis using j(1-3) worker_invD(5)[OF assms(1)] by auto
qed

text \<open>
  \<open>AddTxTracker\<close> releases the mutex while it reads the account, and then stores its new queue
  without looking again: when another call created the queue in between, that queue and its
  transactions are overwritten, while its ready transaction stays in the sorted list.
\<close>

lemma AddTxTracker_race_loses_queue:
  assumes inv: "worker_inv sender h w" and a: "fmlookup (pool w) (FromStr (h tx)) = Some a"
    and r: "readyTx a = Some r" "r \<noteq> tx"
    and new: "readyTx a1 = None" "dropReason (snd (addTx h a1 tx)) = None"
    and add: "AddTxTracker_add h (w\<lparr>pool := fmupd (FromStr (h tx)) a1 (pool w)\<rparr>) a1 tx = Some (w', rep, err)"
  shows "r \<in> set (sl_sorted (wk_sorted w')) \<and> r \<notin> ready_refs w'"
proof -
  define s where "s = FromStr (h tx)"
  have res: "prevReady (snd (addTx h a1 tx)) = None"
    using addTx_ready_change[of h a1 tx] new by (cases "prevReady (snd (addTx h a1 tx))") auto
  have rdy: "readyTx (fst (addTx h a1 tx)) \<noteq> Some r"
    using new(1) r(2) by (auto simp: addTx_def Let_def split: if_splits option.splits)
  obtain e where e: "updateSorted h (wk_sorted w) None (newReady (snd (addTx h a1 tx))) = Some e"
    and w': "w' = w\<lparr>pool := fmupd s (fst (addTx h a1 tx)) (pool w), wk_sorted := e\<rparr>"
    using add new(2) res by (auto simp: AddTxTracker_add_def split_beta Let_def s_def)
  have "set (sl_sorted (wk_sorted w)) \<subseteq> set (sl_sorted e)"
  proof (cases "newReady (snd (addTx h a1 tx))")
    case None
    with e show ?thesis by (simp add: updateSorted_def)
  next
    case (Some x)
    with e sl_add_spec[OF worker_invD(4)[OF inv], of x] show ?thesis
      by (auto simp: updateSorted_def split: if_splits)
  qed
  moreover have "r \<in> ready_refs w" using a r(1) by (auto simp: ready_refs_def)
  moreover have "FromStr (h r) = s"
    using aq_invD(3)[OF worker_invD(3)[OF inv a] r(1)] worker_invD(2)[OF inv a] by (simp add: s_def)
  moreover have "FromStr (h r) \<noteq> s" if "r \<in> ready_refs w'"
  proof -
    have "ready_refs w' = ready_refs (w\<lparr>pool := fmupd s (fst (addTx h a1 tx)) (pool w)\<rparr>)"
      by (simp add: w' ready_refs_def)
    then show ?thesis
      using that rdy ready_refs_from(2)[OF inv, of r s] by (auto simp: ready_refs_upd)
  qed
  ultimately show ?thesis using worker_invD(5)[OF inv] by (auto simp: w')
qed

subsection \<open>Witnesses\<close>

definition sampleState :: stateInterface where
  "sampleState = \<lparr>GetLastStateRoot = Inr 0, GetNonceByStateRoot = (\<lambda>_ _. Inr 5),
     GetBalanceByStateRoot = (\<lambda>_ _. Inr 100)\<rparr>"

definition sampleWorker :: Worker where
  "sampleWorker = \<lparr>pool = fmupd ''A'' (fst (addTx sampleHeap (newAddrQueue (\<lambda>_. ''A'') 0 5 100) 0)) fmempty,
     wk_sorted = \<lparr>sl_list = fmupd ''a'' 0 fmempty, sl_sorted = [0]\<rparr>,
     batchConstraints = sample_constraints\<rparr>"

definition sampleOrder :: "addrQueue \<Rightarrow> u64 list" where
  "sampleOrder a = sorted_list_of_fset (fmdom (notReadyTxs a))"

lemma sampleOrder_valid: "valid_qord sampleOrder"
  by (simp add: valid_qord_def is_range_order_def sampleOrder_def)
    (simp add: sorted_list_of_fset.rep_eq)

lemma sample_hash_sender: "hash_sender (\<lambda>_. ''A'') sampleHeap"
  by (simp add: hash_sender_def)

lemma sampleWorker_step:
  "worker_step (\<lambda>_. ''A'') (\<lambda>_. ''A'') (sampleHeap, NewWorker sample_constraints) (sampleHeap, sampleWorker)"
proof (rule w_add)
  have "IP (sampleHeap 0) = []" "ZKCounters (txResources (sampleHeap 0)) =
    \<lparr>GasUsed = 21000, UsedKeccakHashes = 1, UsedPoseidonHashes = 1, UsedPoseidonPaddings = 1,
     UsedMemAligns = 1, UsedArithmetics = 1, UsedBinaries = 1, UsedSteps = 1, UsedSha256Hashes_V2 = 1\<rparr>"
    "From (sampleHeap 0) = 0"
    by (simp_all add: sampleHeap_def sampleTracker_def newTxTracker_def)
  then show "AddTxTracker (\<lambda>_. True) sampleState (\<lambda>_. ''A'') sampleHeap (NewWorker sample_constraints) 0 =
      Some (sampleWorker, None, None)"
    by (simp add: AddTxTracker_def AddTxTracker_check_def NewWorker_def AddTxTracker_newQueue_def
        sampleState_def AddTxTracker_add_def newAddrQueue_def addTx_def updateSorted_def sl_add_def
        newTxSortedList_def addSort_def go_search_def go_search_loop.simps sampleWorker_def
        IsWithinConstraints_def sample_constraints_def Let_def)
qed simp

lemma sampleWorker_steps:
  "(worker_step (\<lambda>_. ''A'') (\<lambda>_. ''A''))\<^sup>*\<^sup>* (sampleHeap, NewWorker sample_constraints) (sampleHeap, sampleWorker)"
  using sampleWorker_step by (rule r_into_rtranclp)

theorem worker_sorted_list_exact_witness:
  "hash_sender (\<lambda>_. ''A'') sampleHeap \<and>
   (worker_step (\<lambda>_. ''A'') (\<lambda>_. ''A''))\<^sup>*\<^sup>* (sampleHeap, NewWorker sample_constraints) (sampleHeap, sampleWorker) \<and>
   ready_refs sampleWorker = {0}"
  using worker_sorted_list_exact[OF sample_hash_sender sampleWorker_steps]
    sample_hash_sender sampleWorker_steps
  by (simp add: sampleWorker_def)

lemma sampleWorker_inv: "worker_inv (\<lambda>_. ''A'') sampleHeap sampleWorker"
  using worker_step_inv[OF sampleWorker_step NewWorker_inv[OF sample_hash_sender]] .

theorem GetBestFittingTx_best_price_witness:
  "worker_inv (\<lambda>_. ''A'') sampleHeap sampleWorker \<and>
   GetBestFittingTx 1 (replicate 4 0) sampleHeap (wk_sorted sampleWorker) (sampleResources 30000) = Some (Inr 0) \<and>
   0 \<in> ready_refs sampleWorker"
proof -
  have "all_returned 1 (bf_run 1 sampleHeap (GetSorted (wk_sorted sampleWorker)) (replicate 4 0)
      (bf_init (sampleResources 30000)))"
    by (rule enough_steps_return) (simp_all add: sl_len_def sampleWorker_def eval_nat_numeral)
  then have "\<exists>result. GetBestFittingTx 1 (replicate 4 0) sampleHeap (wk_sorted sampleWorker)
      (sampleResources 30000) = Some result"
    by (simp add: GetBestFittingTx_def Let_def)
  then obtain result where
    "GetBestFittingTx 1 (replicate 4 0) sampleHeap (wk_sorted sampleWorker) (sampleResources 30000) = Some result"
    by blast
  with first_fit_result[OF _ _ this]
  have eq: "GetBestFittingTx 1 (replicate 4 0) sampleHeap (wk_sorted sampleWorker) (sampleResources 30000) = Some (Inr 0)"
    by (simp add: sampleWorker_def sample_fits)
  then show ?thesis
    using GetBestFittingTx_best_price[OF sampleWorker_inv _ _ eq] sampleWorker_inv by simp
qed

end
