(* ===== verification/Pool.thy ===== *)
theory Pool
  imports PoolStorage EffectiveGasPrice RomErrors Worker
begin

text \<open>
  The transaction pool (\<open>pool/pool.go\<close>): admission of a transaction, its pre-execution, the test of
  its gas price and its storage, and the refreshed data the pool keeps in memory.  The state of
  the chain, the executor, the signature scheme and the accessors of the Ethereum library are
  arguments.
\<close>

subsection \<open>Interfaces\<close>

text \<open>What the pool uses of the Ethereum library and of the language.\<close>

record library =
  lib_hash :: "LegacyTx \<Rightarrow> hash"
  lib_chainId :: "int \<Rightarrow> int"
  lib_cost :: "LegacyTx \<Rightarrow> int"
  lib_sender :: "LegacyTx \<Rightarrow> address option"
  lib_ValidateSignatureValues :: "u8 \<Rightarrow> int \<Rightarrow> int \<Rightarrow> bool"
  lib_rlp :: "bytes list \<Rightarrow> bytes"
  lib_parseIP :: "string \<Rightarrow> bool"
  lib_conv :: "rat \<Rightarrow> u64"

record ProcessTransactionResponse =
  ptr_RomError :: "runtime_error option"
  ptr_GasUsed :: u64

record ProcessBatchResponse =
  pbr_UsedZkCounters :: ZKCounters
  pbr_IsExecutorLevelError :: bool
  pbr_BlockResponses :: "ProcessTransactionResponse list list"

text \<open>The answers of the state; \<open>None\<close> is an error.\<close>

record stateInterface =
  st_GetLastL2Block :: "hash option"
  st_GetNonce_at :: "address \<Rightarrow> hash \<Rightarrow> u64 option"
  st_GetBalance :: "address \<Rightarrow> hash \<Rightarrow> int option"
  st_PreProcessTransaction :: "LegacyTx \<Rightarrow> ProcessBatchResponse option \<times> runtime_error option"

datatype PoolError =
    ErrInvalidIP | ErrInvalidSender | ErrInvalidChainID | ErrTxTypeNotSupported | ErrOversizedData | ErrNegativeValue
  | ErrBlockedSender | ErrNonceTooLow | ErrNonceTooHigh | ErrTxPoolOverflow | ErrGasPrice | ErrInsufficientFunds
  | ErrIntrinsicGas | ErrGasUintOverflow | ErrAlreadyKnown | ErrReplaceUnderpriced | ErrGasLimit
  | ErrEffectiveGasPriceGasPriceTooLow | errDataSize | errChainID | errNodeOutOfCounters
  | errRuntime runtime_error | errAddTx PoolError | errEgp EgpError | errState | errStorage StorageError

subsection \<open>The pool\<close>

record GasPrices =
  L2GasPrice :: u64
  L1GasPrice :: u64

record PoolConfig =
  MaxTxBytesSize :: u64
  MaxTxDataBytesSize :: int
  DefaultMinGasPriceAllowed :: u64
  MinAllowedGasPriceInterval :: duration
  AccountQueue :: u64
  GlobalQueue :: u64
  cfg_EffectiveGasPrice :: EffectiveGasPriceCfg
  cfg_ForkID :: u64

record Pool =
  pl_storage :: PoolDB
  pl_chainID :: u64
  pl_cfg :: PoolConfig
  pl_batchConstraintsCfg :: BatchConstraintsCfg
  blockedAddresses :: "address fset"
  minSuggestedGasPrice :: "int option"
  startTimestamp :: time
  gasPrices :: GasPrices
  effectiveGasPrice :: EffectiveGasPrice

record preExecutionResponse =
  usedZkCounters :: ZKCounters
  isExecutorLevelError :: bool
  OOCError :: "PoolError option"
  OOGError :: "PoolError option"
  isReverted :: bool
  txResponse :: "ProcessTransactionResponse option"

definition liftStorage :: "(StorageError, 'a) outcome \<Rightarrow> (PoolError, 'a) outcome" where
  "liftStorage r = (case r of Ok a \<Rightarrow> Ok a | Err e \<Rightarrow> Err (errStorage e) | Panic \<Rightarrow> Panic)"

definition GetGasPrices :: "Pool \<Rightarrow> (PoolError, GasPrices) outcome" where
  "GetGasPrices p =
     bind_outcome (liftStorage (st_GetGasPrices (pl_storage p))) (\<lambda>(l2, l1). Ok \<lparr>L2GasPrice = l2, L1GasPrice = l1\<rparr>)"

definition refreshGasPrices :: "Pool \<Rightarrow> Pool" where
  "refreshGasPrices p = (case GetGasPrices p of Ok g \<Rightarrow> p\<lparr>gasPrices := g\<rparr> | _ \<Rightarrow> p)"

definition NewPool :: "time \<Rightarrow> PoolConfig \<Rightarrow> BatchConstraintsCfg \<Rightarrow> PoolDB \<Rightarrow> u64 \<Rightarrow> Pool" where
  "NewPool now cfg batchConstraintsCfg s chainID =
     refreshGasPrices
       \<lparr>pl_storage = s, pl_chainID = chainID, pl_cfg = cfg, pl_batchConstraintsCfg = batchConstraintsCfg,
        blockedAddresses = {||}, minSuggestedGasPrice = Some (sint (DefaultMinGasPriceAllowed cfg)), startTimestamp = now,
        gasPrices = \<lparr>L2GasPrice = 0, L1GasPrice = 0\<rparr>,
        effectiveGasPrice = NewEffectiveGasPrice (cfg_EffectiveGasPrice cfg) (DefaultMinGasPriceAllowed cfg)\<rparr>"

text \<open>Addresses no longer in the table are removed after the new ones have been added.\<close>

definition refreshBlockedAddresses :: "Pool \<Rightarrow> Pool" where
  "refreshBlockedAddresses p =
     (case GetAllAddressesBlocked (pl_storage p) of
        Ok blocked \<Rightarrow>
          (let blockedMap = fset_of_list blocked;
               added = blockedAddresses p |\<union>| blockedMap;
               unblocked = ffilter (\<lambda>a. a |\<notin>| blockedMap) added
           in p\<lparr>blockedAddresses := added |-| unblocked\<rparr>)
      | _ \<Rightarrow> p)"

definition tryUpdateMinSuggestedGasPrice :: "Pool \<Rightarrow> u64 \<Rightarrow> Pool" where
  "tryUpdateMinSuggestedGasPrice p price =
     (if minSuggestedGasPrice p = None \<or> uint64_of (the (minSuggestedGasPrice p)) \<noteq> price
      then p\<lparr>minSuggestedGasPrice := Some (uint price)\<rparr> else p)"

definition pollMinSuggestedGasPrice :: "time \<Rightarrow> Pool \<Rightarrow> Pool" where
  "pollMinSuggestedGasPrice now p =
     (let fromTimestamp = max (now - MinAllowedGasPriceInterval (pl_cfg p)) (startTimestamp p)
      in case MinL2GasPriceSince (pl_storage p) fromTimestamp of
           Ok l2GasPrice \<Rightarrow> tryUpdateMinSuggestedGasPrice p l2GasPrice
         | _ \<Rightarrow> p)"

subsection \<open>Validation\<close>

definition CheckSignature :: "library \<Rightarrow> LegacyTx \<Rightarrow> bool" where
  "CheckSignature lib tx \<longleftrightarrow>
     (let chainID = uint64_of (lib_chainId lib (ltx_V tx));
          plainV = (if chainID \<noteq> 0 then ucast (uint64_of (ltx_V tx) - 35 - 2 * chainID) else 0)
      in lib_ValidateSignatureValues lib plainV (ltx_R tx) (ltx_S tx))"

definition txDataNonZeroGas :: u64 where "txDataNonZeroGas = 16"
definition txGasContractCreation :: u64 where "txGasContractCreation = 53000"
definition txGas :: u64 where "txGas = 21000"
definition txDataZeroGas :: u64 where "txDataZeroGas = 4"

definition IntrinsicGas :: "LegacyTx \<Rightarrow> (PoolError, u64) outcome" where
  "IntrinsicGas tx =
     (let gas = (if ltx_To tx = None then txGasContractCreation else txGas);
          dataLen = of_nat (length (ltx_Data tx)) :: u64
      in if dataLen > 0 then
           (let nz = of_nat (length (filter (\<lambda>b. b \<noteq> 0) (ltx_Data tx)))
            in if (- 1 - gas) div txDataNonZeroGas < nz then Err ErrGasUintOverflow
               else
                 (let gas1 = gas + nz * txDataNonZeroGas;
                      z = dataLen - nz
                  in if (- 1 - gas1) div txDataZeroGas < z then Err ErrGasUintOverflow
                     else Ok (gas1 + z * txDataZeroGas)))
         else Ok gas)"

definition checkTxFieldCompatibilityWithExecutor :: "library \<Rightarrow> Pool \<Rightarrow> LegacyTx \<Rightarrow> PoolError option" where
  "checkTxFieldCompatibilityWithExecutor lib p tx =
     (if int (length (ltx_Data tx)) > MaxTxDataBytesSize (pl_cfg p) then Some errDataSize
      else if lib_chainId lib (ltx_V tx) > 2 ^ 64 - 1 then Some errChainID else None)"

text \<open>The loop over the stored transactions of the same sender and nonce.\<close>

fun checkReplacement :: "library \<Rightarrow> LegacyTx \<Rightarrow> PoolTransaction list \<Rightarrow> PoolError option" where
  "checkReplacement lib tx [] = None"
| "checkReplacement lib tx (old # olds) =
     (if tr_Status old = TxStatusInvalid \<or> tr_Status old = TxStatusFailed then checkReplacement lib tx olds
      else
        (let oldTxPrice = ltx_GasPrice (tr_Tx old) * uint (ltx_Gas (tr_Tx old));
             txPrice = ltx_GasPrice tx * uint (ltx_Gas tx)
         in if lib_hash lib (tr_Tx old) = lib_hash lib tx then Some ErrAlreadyKnown
            else if oldTxPrice > txPrice then Some ErrReplaceUnderpriced
            else checkReplacement lib tx olds))"

definition assert_outcome :: "bool \<Rightarrow> 'e \<Rightarrow> ('e, unit) outcome" where
  "assert_outcome b e = (if b then Ok () else Err e)"

definition answer :: "'a option \<Rightarrow> (PoolError, 'a) outcome" where
  "answer x = (case x of None \<Rightarrow> Err errState | Some a \<Rightarrow> Ok a)"

text \<open>The checks on the transaction alone; they end with its sender.\<close>

definition validateForm :: "library \<Rightarrow> Pool \<Rightarrow> PoolTransaction \<Rightarrow> (PoolError, address) outcome" where
  "validateForm lib p poolTx =
     (let tx = tr_Tx poolTx; txChainID = uint64_of (lib_chainId lib (ltx_V tx)) in
      bind_outcome (assert_outcome (\<not> (tr_IP poolTx \<noteq> [] \<and> \<not> IsValidIP (lib_parseIP lib) (tr_IP poolTx))) ErrInvalidIP) (\<lambda>_.
      bind_outcome (assert_outcome (CheckSignature lib tx) ErrInvalidSender) (\<lambda>_.
      bind_outcome (assert_outcome (\<not> (txChainID \<noteq> pl_chainID p \<and> txChainID \<noteq> 0)) ErrInvalidChainID) (\<lambda>_.
      bind_outcome (assert_outcome (tr_Type poolTx = 0) ErrTxTypeNotSupported) (\<lambda>_.
      bind_outcome (assert_outcome (\<not> (txChainID = 0 \<and> \<not> IsPreEIP155Tx (lib_chainId lib) tx)) ErrInvalidSender) (\<lambda>_.
      case lib_sender lib tx of
        None \<Rightarrow> Err ErrInvalidSender
      | Some from \<Rightarrow>
          (case EncodeTransaction (lib_rlp lib) (lib_chainId lib) tx 0xFF (cfg_ForkID (pl_cfg p)) of
             Panic \<Rightarrow> Panic
           | Err _ \<Rightarrow> Err ErrTxTypeNotSupported
           | Ok decodedTx \<Rightarrow>
               bind_outcome (assert_outcome (\<not> of_nat (length decodedTx) > MaxTxBytesSize (pl_cfg p)) ErrOversizedData) (\<lambda>_.
               bind_outcome (assert_outcome (\<not> ltx_Value tx < 0) ErrNegativeValue) (\<lambda>_.
               Ok from)))))))))"

text \<open>The checks against the account, the pool and the gas prices.\<close>

definition validateAccount :: "library \<Rightarrow> stateInterface \<Rightarrow> Pool \<Rightarrow> LegacyTx \<Rightarrow> address \<Rightarrow> (PoolError, unit) outcome" where
  "validateAccount lib st p tx from =
     bind_outcome (assert_outcome (from |\<notin>| blockedAddresses p) ErrBlockedSender) (\<lambda>_.
     bind_outcome (answer (st_GetLastL2Block st)) (\<lambda>root.
     bind_outcome (answer (st_GetNonce_at st from root)) (\<lambda>currentNonce.
     bind_outcome (assert_outcome (\<not> ltx_Nonce tx < currentNonce) ErrNonceTooLow) (\<lambda>_.
     bind_outcome (assert_outcome (\<not> (AccountQueue (pl_cfg p) > 0 \<and>
        ltx_Nonce tx > currentNonce + AccountQueue (pl_cfg p) - 1)) ErrNonceTooHigh) (\<lambda>_.
     bind_outcome
       (if GlobalQueue (pl_cfg p) > 0 then
          bind_outcome (liftStorage (CountTransactionsByStatus (pl_storage p) [TxStatusPending])) (\<lambda>txCount.
          assert_outcome (\<not> txCount \<ge> GlobalQueue (pl_cfg p)) ErrTxPoolOverflow)
        else Ok ()) (\<lambda>_.
     case minSuggestedGasPrice p of
       None \<Rightarrow> Panic
     | Some minPrice \<Rightarrow>
         bind_outcome (assert_outcome (\<not> ltx_GasPrice tx < minPrice) ErrGasPrice) (\<lambda>_.
         bind_outcome (answer (st_GetBalance st from root)) (\<lambda>balance.
         assert_outcome (\<not> balance < lib_cost lib tx) ErrInsufficientFunds))))))))"

definition validateTx :: "library \<Rightarrow> stateInterface \<Rightarrow> Pool \<Rightarrow> PoolTransaction \<Rightarrow> (PoolError, unit) outcome" where
  "validateTx lib st p poolTx =
     (let tx = tr_Tx poolTx in
      bind_outcome (validateForm lib p poolTx) (\<lambda>from.
      bind_outcome (validateAccount lib st p tx from) (\<lambda>_.
      bind_outcome (IntrinsicGas tx) (\<lambda>intrGas.
      bind_outcome (assert_outcome (\<not> ltx_Gas tx < intrGas) ErrIntrinsicGas) (\<lambda>_.
      bind_outcome (liftStorage (GetTxsByFromAndNonce (pl_storage p) from (ltx_Nonce tx))) (\<lambda>oldTxs.
      case checkReplacement lib tx oldTxs of
        Some e \<Rightarrow> Err e
      | None \<Rightarrow>
          (case checkTxFieldCompatibilityWithExecutor lib p tx of Some e \<Rightarrow> Err e | None \<Rightarrow> Ok ())))))))"

subsection \<open>Pre-execution and storage\<close>

definition ValidateBreakEvenGasPrice :: "library \<Rightarrow> Pool \<Rightarrow> LegacyTx \<Rightarrow> u64 \<Rightarrow> GasPrices \<Rightarrow> (PoolError, unit) outcome" where
  "ValidateBreakEvenGasPrice lib p tx preExecutionGasUsed prices =
     (let (txGasPrice, l2GasPrice) =
            GetTxAndL2GasPrice (lib_conv lib) (effectiveGasPrice p) (ltx_GasPrice tx) (L1GasPrice prices) (L2GasPrice prices);
          enabled = egpcfg_Enabled (cfg_EffectiveGasPrice (pl_cfg p))
      in case CalculateBreakEvenGasPrice (lib_conv lib) (effectiveGasPrice p) (ltx_Data tx) txGasPrice
                preExecutionGasUsed (L1GasPrice prices) of
           Panic \<Rightarrow> Panic
         | Err e \<Rightarrow> if enabled then Err (errEgp e) else Ok ()
         | Ok breakEvenGasPrice \<Rightarrow>
             (case bf_Mul (bf_SetInt breakEvenGasPrice) (bf_SetFloat64 (BreakEvenFactor (cfg_EffectiveGasPrice (pl_cfg p)))) of
                None \<Rightarrow> Panic
              | Some tmpFactor \<Rightarrow>
                  (let breakEvenGasPriceWithFactor = bf_Int tmpFactor 0;
                       reject = (breakEvenGasPriceWithFactor > txGasPrice \<and> txGasPrice < uint l2GasPrice)
                   in if enabled \<and> reject then Err ErrEffectiveGasPriceGasPriceTooLow else Ok ())))"

definition firstTxResponse :: "ProcessBatchResponse \<Rightarrow> (PoolError, ProcessTransactionResponse) outcome" where
  "firstTxResponse r =
     (case pbr_BlockResponses r of
        [] \<Rightarrow> Panic
      | txs # _ \<Rightarrow> (case txs of [] \<Rightarrow> Panic | t # _ \<Rightarrow> Ok t))"

definition preExecuteFailed ::
  "ProcessBatchResponse option \<Rightarrow> runtime_error \<Rightarrow> preExecutionResponse \<Rightarrow>
   (PoolError, preExecutionResponse \<times> PoolError option) outcome" where
  "preExecuteFailed processBatchResponse err response =
     (let isOOC = IsROMOutOfCountersError (RomErrorCode (Some err)); isOOG = (err = ErrOutOfGas)
      in if \<not> isOOC \<and> \<not> isOOG then Ok (response, Some (errRuntime err))
         else
           (let r1 = (if isOOC then response\<lparr>OOCError := Some (errRuntime err)\<rparr> else response);
                r2 = (if isOOG then r1\<lparr>OOGError := Some (errRuntime err)\<rparr> else r1)
            in case processBatchResponse of
                 None \<Rightarrow> Panic
               | Some pbr \<Rightarrow>
                   if pbr_BlockResponses pbr \<noteq> [] then
                     bind_outcome (firstTxResponse pbr) (\<lambda>t.
                     Ok (r2\<lparr>usedZkCounters := pbr_UsedZkCounters pbr, txResponse := Some t\<rparr>, None))
                   else Ok (r2, None)))"

text \<open>
  The error of the transaction is copied into the response; \<open>err\<close> is nil here, since the call itself
  succeeded.
\<close>

definition checkRomError ::
  "Pool \<Rightarrow> ProcessBatchResponse \<Rightarrow> ProcessTransactionResponse \<Rightarrow> PoolError option \<Rightarrow> preExecutionResponse \<Rightarrow>
   preExecutionResponse" where
  "checkRomError p pbr t err r =
     (case ptr_RomError t of
        Some errorToCheck \<Rightarrow>
          (let s1 = r\<lparr>isReverted := (errorToCheck = ErrExecutionReverted)\<rparr>;
               s2 = (if IsROMOutOfCountersError (RomErrorCode (Some errorToCheck)) then s1\<lparr>OOCError := err\<rparr> else s1)
           in if errorToCheck = ErrOutOfGas then s2\<lparr>OOGError := err\<rparr> else s2)
      | None \<Rightarrow>
          if \<not> IsWithinConstraints (pl_batchConstraintsCfg p) (pbr_UsedZkCounters pbr)
          then r\<lparr>OOCError := Some errNodeOutOfCounters\<rparr> else r)"

definition preExecuteTx ::
  "stateInterface \<Rightarrow> Pool \<Rightarrow> LegacyTx \<Rightarrow> (PoolError, preExecutionResponse \<times> PoolError option) outcome" where
  "preExecuteTx st p tx =
     (let response = \<lparr>usedZkCounters = zeroCounters, isExecutorLevelError = False, OOCError = None, OOGError = None,
                      isReverted = False, txResponse = None\<rparr>;
          (processBatchResponse, err) = st_PreProcessTransaction st tx
      in case err of
           Some e \<Rightarrow> preExecuteFailed processBatchResponse e response
         | None \<Rightarrow>
             (case processBatchResponse of
                None \<Rightarrow> Panic
              | Some pbr \<Rightarrow>
                  if pbr_BlockResponses pbr \<noteq> [] then
                    bind_outcome (firstTxResponse pbr) (\<lambda>t.
                    Ok ((checkRomError p pbr t None (response\<lparr>isExecutorLevelError := pbr_IsExecutorLevelError pbr\<rparr>))
                          \<lparr>usedZkCounters := pbr_UsedZkCounters pbr, txResponse := Some t\<rparr>, None))
                  else Ok (response, None)))"

text \<open>\<open>Ok db\<close> is a nil error with the database after the call.\<close>

definition StoreTx ::
  "library \<Rightarrow> stateInterface \<Rightarrow> time \<Rightarrow> Pool \<Rightarrow> LegacyTx \<Rightarrow> u8 \<Rightarrow> string \<Rightarrow> bool \<Rightarrow> (PoolError, PoolDB) outcome" where
  "StoreTx lib st now p tx ty ip isWIP =
     bind_outcome (preExecuteTx st p tx) (\<lambda>(resp, err).
     if err = Some (errRuntime ErrIntrinsicInvalidBatchGasLimit) then Err ErrGasLimit
     else if isExecutorLevelError resp then (case err of Some e \<Rightarrow> Err e | None \<Rightarrow> Ok (pl_storage p))
     else
       case err of
         Some e \<Rightarrow> Err e
       | None \<Rightarrow>
           (case OOCError resp of
              Some e \<Rightarrow> Err (errAddTx e)
            | None \<Rightarrow>
                bind_outcome (GetGasPrices p) (\<lambda>prices.
                case txResponse resp of
                  None \<Rightarrow> Panic
                | Some t \<Rightarrow>
                    bind_outcome (ValidateBreakEvenGasPrice lib p tx (ptr_GasUsed t) prices) (\<lambda>_.
                    liftStorage (st_AddTx (lib_hash lib) (lib_sender lib) (pl_storage p)
                      ((NewTransaction now tx ty ip isWIP)\<lparr>tr_ZKCounters := usedZkCounters resp\<rparr>))))))"

definition AddTx ::
  "library \<Rightarrow> stateInterface \<Rightarrow> time \<Rightarrow> Pool \<Rightarrow> LegacyTx \<Rightarrow> u8 \<Rightarrow> string \<Rightarrow> (PoolError, PoolDB) outcome" where
  "AddTx lib st now p tx ty ip =
     bind_outcome (validateTx lib st p (NewTransaction now tx ty ip False)) (\<lambda>_. StoreTx lib st now p tx ty ip False)"

subsection \<open>Access to the storage\<close>

definition GetPendingTxs :: "Pool \<Rightarrow> u64 \<Rightarrow> (PoolError, PoolTransaction list) outcome" where
  "GetPendingTxs p limit = liftStorage (GetTxsByStatus (pl_storage p) TxStatusPending limit)"

definition GetSelectedTxs :: "Pool \<Rightarrow> u64 \<Rightarrow> (PoolError, PoolTransaction list) outcome" where
  "GetSelectedTxs p limit = liftStorage (GetTxsByStatus (pl_storage p) TxStatusSelected limit)"

definition pool_UpdateTxStatus ::
  "Pool \<Rightarrow> hash \<Rightarrow> TxStatus \<Rightarrow> bool \<Rightarrow> string option \<Rightarrow> (PoolError, PoolDB) outcome" where
  "pool_UpdateTxStatus p h newStatus isWIP failedReason =
     liftStorage (st_UpdateTxStatus (pl_storage p)
       \<lparr>ui_Hash = h, ui_NewStatus = newStatus, ui_IsWIP = isWIP, ui_FailedReason = failedReason\<rparr>)"

definition CountPendingTransactions :: "Pool \<Rightarrow> (PoolError, u64) outcome" where
  "CountPendingTransactions p = liftStorage (CountTransactionsByStatus (pl_storage p) [TxStatusPending])"

definition DeleteReorgedTransactions :: "library \<Rightarrow> Pool \<Rightarrow> LegacyTx list \<Rightarrow> (PoolError, PoolDB) outcome" where
  "DeleteReorgedTransactions lib p txs = liftStorage (DeleteTransactionsByHashes (pl_storage p) (map (lib_hash lib) txs))"

definition GetL1AndL2GasPrice :: "Pool \<Rightarrow> u64 \<times> u64" where
  "GetL1AndL2GasPrice p = (L1GasPrice (gasPrices p), L2GasPrice (gasPrices p))"

end
