(* ===== verification/BatchRoundTrip.thy ===== *)
theory BatchRoundTrip
  imports BatchCodec
begin

text \<open>
  Round trips of the batch codec of \<open>BatchCodec\<close>: the bytes the encoders produce (through hex
  text with padding, as \<open>prepareRPLTxData\<close> does), the position arithmetic of the decoders on
  these bytes, and the theorems that decoding what was encoded gives back the transactions and
  the batch.  The lemmas about decoding are proved once in the locale \<open>rlp_codec\<close>.
\<close>

subsection \<open>Padded hex text\<close>

lemma be_bytes_Suc: "be_bytes (Suc k) n = be_bytes k (n div 256) @ [of_nat n]"
proof (rule nth_equalityI)
  fix i assume "i < length (be_bytes (Suc k) n)"
  then have i: "i \<le> k" by simp
  show "be_bytes (Suc k) n ! i = (be_bytes k (n div 256) @ [of_nat n]) ! i"
  proof (cases "i = k")
    case False
    with i have "k - i = Suc (k - 1 - i)" "i < k" by auto
    then show ?thesis by (simp add: be_bytes_def nth_append div_mult2_eq)
  qed (simp add: be_bytes_def nth_append del: upt_Suc)
qed simp

lemma be_val_be_bytes: "n < 256 ^ k \<Longrightarrow> be_val (be_bytes k n) = n"
proof (induction k arbitrary: n)
  case (Suc k)
  have "n div 256 < 256 ^ k" using Suc.prems by (simp add: div_less_iff_less_mult mult.commute)
  moreover have "unat (of_nat n :: u8) = n mod 256" by (simp add: unsigned_of_nat take_bit_eq_mod)
  ultimately show ?case using Suc.IH by (simp add: be_bytes_Suc be_val_append)
qed (simp add: be_bytes_def)

lemma length_hexText_le: "n < 16 ^ w \<Longrightarrow> 0 < w \<Longrightarrow> length (hexText n) \<le> w"
proof (induction w arbitrary: n)
  case (Suc w)
  show ?case
  proof (cases "n < 16")
    case False
    then have "w \<noteq> 0" using Suc.prems by (cases w) auto
    moreover have "n div 16 < 16 ^ w" using Suc.prems by (simp add: div_less_iff_less_mult mult.commute)
    ultimately show ?thesis using False Suc.IH by (subst hexText.simps) simp
  qed (simp add: hexText.simps)
qed simp

lemma hexDigit_0: "hexDigit 0 = CHR ''0''"
  by (simp add: hexDigit_def char_of_eq_iff)

lemma padLeft_hexText_Suc:
  assumes "0 < w" "n < 16 ^ Suc w"
  shows "padLeft (Suc w) (hexText n) = padLeft w (hexText (n div 16)) @ [hexDigit (n mod 16)]"
proof (cases "n < 16")
  case True
  with assms(1) show ?thesis
    by (cases w) (simp_all add: hexDigit_0 padLeft_def hexText.simps replicate_append_same)
next
  case False
  then show ?thesis using assms by (subst hexText.simps) (simp add: padLeft_def)
qed

lemma EncodeToString_append: "EncodeToString (xs @ ys) = EncodeToString xs @ EncodeToString ys"
  by (simp add: EncodeToString_def)

lemma EncodeToString_byte:
  "n < 256 \<Longrightarrow> EncodeToString [of_nat n] = [hexDigit (n div 16), hexDigit (n mod 16)]"
  by (simp add: EncodeToString_def unat_of_nat_u8)

lemma hexText_16: "n < 256 \<Longrightarrow> 16 \<le> n \<Longrightarrow> hexText n = [hexDigit (n div 16), hexDigit (n mod 16)]"
  by (subst hexText.simps, subst hexText.simps) simp

lemma padLeft_2_hexText: "n < 256 \<Longrightarrow> padLeft 2 (hexText n) = EncodeToString [of_nat n]"
proof (cases "n < 16")
  case True
  then show ?thesis by (simp add: hexDigit_0 padLeft_def hexText.simps EncodeToString_byte)
qed (simp add: hexText_16 EncodeToString_byte padLeft_def)

text \<open>The \<open>%0ws\<close> padding of the hex text of a number is the hex text of its fixed-width bytes.\<close>

lemma padLeft_hexText:
  "n < 256 ^ Suc k \<Longrightarrow> padLeft (2 * Suc k) (hexText n) = EncodeToString (be_bytes (Suc k) n)"
proof (induction k arbitrary: n)
  case 0
  then show ?case by (simp add: padLeft_2_hexText be_bytes_def)
next
  case (Suc k)
  have d: "n div 256 < 256 ^ Suc k" using Suc.prems by (simp add: div_less_iff_less_mult mult.commute)
  have p: "(16 :: nat) ^ (2 * m) = 256 ^ m" for m by (simp add: power_mult)
  have n: "n < 16 ^ Suc (Suc (2 * Suc k))" using Suc.prems p[of "Suc (Suc k)"] by simp
  then have n': "n div 16 < 16 ^ Suc (2 * Suc k)" by (simp add: div_less_iff_less_mult mult.commute)
  have "padLeft (2 * Suc (Suc k)) (hexText n) =
      padLeft (2 * Suc k) (hexText (n div 256)) @ [hexDigit (n div 16 mod 16), hexDigit (n mod 16)]"
    using padLeft_hexText_Suc[of "Suc (2 * Suc k)" n] padLeft_hexText_Suc[of "2 * Suc k" "n div 16"] n n'
    by (simp add: div_mult2_eq[symmetric])
  also have "[hexDigit (n div 16 mod 16), hexDigit (n mod 16)] = EncodeToString [of_nat n]"
  proof -
    have m: "unat (of_nat n :: u8) = n mod 256" by (simp add: unsigned_of_nat take_bit_eq_mod)
    have "n mod 256 div 16 = n div 16 mod 16" "n mod 256 mod 16 = n mod 16"
      using mod_mult2_eq[of n 16 16] by (simp_all add: mod_mod_cancel)
    then show ?thesis by (simp add: EncodeToString_def m)
  qed
  finally show ?case using Suc.IH[OF d] by (simp add: be_bytes_Suc[of "Suc k"] EncodeToString_append)
qed

subsection \<open>One transaction\<close>

text \<open>
  What the chain id function of the transaction package is documented to compute from the
  signature value V (EIP-155), and the transactions that have a code: non-negative amounts, a
  signature of 32-byte values and a V of one of the two forms.
\<close>

definition eip155 :: "(int \<Rightarrow> int) \<Rightarrow> bool" where
  "eip155 chainId \<longleftrightarrow> chainId 27 = 0 \<and> chainId 28 = 0 \<and>
     (\<forall>c\<ge>0. chainId (35 + 2 * c) = c \<and> chainId (36 + 2 * c) = c)"

definition wf_tx :: "LegacyTx \<Rightarrow> bool" where
  "wf_tx tx \<longleftrightarrow> 0 \<le> ltx_GasPrice tx \<and> 0 \<le> ltx_Value tx \<and> 0 \<le> ltx_R tx \<and> ltx_R tx < 2 ^ 256 \<and>
     0 \<le> ltx_S tx \<and> ltx_S tx < 2 ^ 256 \<and> (ltx_V tx = 27 \<or> ltx_V tx = 28 \<or> 35 \<le> ltx_V tx)"

definition parity :: "LegacyTx \<Rightarrow> nat" where
  "parity tx = (if odd (ltx_V tx) then 0 else 1)"

definition isPre :: "LegacyTx \<Rightarrow> bool" where
  "isPre tx \<longleftrightarrow> ltx_V tx < 35"

definition codedFields :: "LegacyTx \<Rightarrow> bytes list" where
  "codedFields tx =
     txFields (ltx_Nonce tx) (ltx_GasPrice tx) (ltx_Gas tx) (ltx_To tx) (ltx_Value tx) (ltx_Data tx) @
       (if isPre tx then [] else [minBytes (nat ((ltx_V tx - 35) div 2)), [], []])"

definition sigBytes :: "LegacyTx \<Rightarrow> bytes" where
  "sigBytes tx = be_bytes 32 (nat (ltx_R tx)) @ be_bytes 32 (nat (ltx_S tx)) @ [of_nat (27 + parity tx)]"

lemma length_sigBytes [simp]: "length (sigBytes tx) = 65"
  by (simp add: sigBytes_def)

lemma odd_uint64_of: "odd (uint64_of v) \<longleftrightarrow> odd v"
  unfolding uint64_of_def by (metis even_of_nat_iff abs_ge_zero even_nat_iff dvd_abs_iff)

lemma signOf_eq: "signOf v = (if odd v then 0 else 1)"
  using odd_uint64_of[of v] by (auto simp: signOf_def mod_2_eq_odd)

lemma chainId_wf:
  assumes "wf_tx tx" "eip155 chainId"
  shows "chainId (ltx_V tx) = (if isPre tx then 0 else (ltx_V tx - 35) div 2)"
proof (cases "isPre tx")
  case True
  then show ?thesis using assms by (auto simp: wf_tx_def eip155_def isPre_def)
next
  case False
  define c where "c = (ltx_V tx - 35) div 2"
  have c: "0 \<le> c" "ltx_V tx = 35 + 2 * c \<or> ltx_V tx = 36 + 2 * c" using False by (auto simp: c_def isPre_def)
  then have "chainId (ltx_V tx) = c" using assms(2) by (auto simp: eip155_def)
  with False show ?thesis by (simp add: c_def)
qed

lemma IsPre_wf:
  assumes "wf_tx tx" "eip155 chainId"
  shows "IsPreEIP155Tx chainId tx \<longleftrightarrow> isPre tx"
proof (cases "isPre tx")
  case True
  then show ?thesis using chainId_wf[OF assms] assms(1)
    by (auto simp: IsPreEIP155Tx_def isPre_def wf_tx_def uint64_of_def)
next
  case False
  define c where "c = (ltx_V tx - 35) div 2"
  have c: "0 \<le> c" "ltx_V tx = 35 + 2 * c \<or> ltx_V tx = 36 + 2 * c" using False by (auto simp: c_def isPre_def)
  have "uint64_of (ltx_V tx) = 35 + 2 * uint64_of c \<or> uint64_of (ltx_V tx) = 36 + 2 * uint64_of c"
    using c by (auto simp: uint64_of_def nat_add_distrib nat_mult_distrib)
  then have "uint64_of c = 0 \<longrightarrow> uint64_of (ltx_V tx) = 35 \<or> uint64_of (ltx_V tx) = 36" by auto
  then show ?thesis using chainId_wf[OF assms] False by (auto simp: IsPreEIP155Tx_def c_def)
qed

lemma signedTxData_eq:
  assumes "wf_tx tx"
  shows "signedTxData e (ltx_R tx) (ltx_S tx) (ether155V + signOf (ltx_V tx)) [] = Ok (e @ sigBytes tx)"
proof -
  have big: "padLeft 64 (bigText x) = EncodeToString (be_bytes 32 (nat x))" if "0 \<le> x" "x < 2 ^ 256" for x
    using that padLeft_hexText[of "nat x" 31] by (simp add: bigText_def)
  have v: "padLeft 2 (bigText (ether155V + signOf (ltx_V tx))) = EncodeToString [of_nat (27 + parity tx)]"
    using padLeft_2_hexText[of 27] padLeft_2_hexText[of 28]
    by (cases "odd (ltx_V tx)") (simp_all add: bigText_def ether155V_def signOf_eq parity_def)
  show ?thesis
    using assms unfolding signedTxData_def v
    by (simp add: big wf_tx_def EncodeToString_append[symmetric] sigBytes_def del: append_assoc)
qed

lemma prepareRPLTxData_wf:
  assumes "wf_tx tx" "eip155 chainId"
  shows "prepareRPLTxData rlpEnc chainId tx = Ok (rlpEnc (codedFields tx) @ sigBytes tx)"
  using assms chainId_wf[OF assms] IsPre_wf[OF assms]
  by (auto simp: prepareRPLTxData_def Let_def signedTxData_eq codedFields_def wf_tx_def isPre_def)

lemma RlpFieldsToLegacyTx_codedFields:
  assumes "wf_tx tx"
  shows "RlpFieldsToLegacyTx (codedFields tx) [of_nat (27 + parity tx)]
    (be_bytes 32 (nat (ltx_R tx))) (be_bytes 32 (nat (ltx_S tx))) = Ok tx"
proof -
  have a: "be_val (be_bytes 20 (unat (a :: address))) = unat a" for a
    using unsigned_less[of a, where ?'a = nat] by (intro be_val_be_bytes) simp
  have rs: "be_val (be_bytes 32 (nat x)) = nat x" if "0 \<le> x" "x < 2 ^ 256" for x
    using that by (intro be_val_be_bytes) simp
  have v: "be_val [of_nat (27 + parity tx)] = 27 + parity tx"
    by (simp add: parity_def)
  have to: "toField t \<noteq> [] \<Longrightarrow> Some (of_nat (be_val (toField t))) = t" "toField t = [] \<Longrightarrow> None = t" for t
  proof -
    have "be_bytes 20 (unat x) \<noteq> []" for x :: address using length_be_bytes[of 20 "unat x"] by fastforce
    then show "toField t \<noteq> [] \<Longrightarrow> Some (of_nat (be_val (toField t))) = t" "toField t = [] \<Longrightarrow> None = t"
      using a by (auto simp: toField_def split: option.splits)
  qed
  have d: "even v \<Longrightarrow> 36 + (v - 35) div 2 * 2 = v" for v :: int by presburger
  have V: "(if isPre tx then 27 + int (parity tx) else int (parity tx) + ((ltx_V tx - 35) div 2 * 2 + 35)) = ltx_V tx"
    using assms d[of "ltx_V tx"] by (auto simp: isPre_def parity_def wf_tx_def)
  show ?thesis
  proof (cases "isPre tx")
    case True
    then show ?thesis using assms V unfolding RlpFieldsToLegacyTx_def v
      by (auto simp: codedFields_def txFields_def rs wf_tx_def intro!: LegacyTx.equality to)
  next
    case False
    have "0 \<le> (ltx_V tx - 35) div 2" using False by (simp add: isPre_def)
    then show ?thesis using assms V False unfolding RlpFieldsToLegacyTx_def v
      by (auto simp: codedFields_def txFields_def rs wf_tx_def ether155V_def etherPre155V_def
          intro!: LegacyTx.equality to)
  qed
qed

subsection \<open>The length of a coded list\<close>

lemma decodeRLPListLength_eq:
  assumes "p < length xs" "length xs < 2 ^ 63"
  shows "decodeRLPListLengthFromOffset xs p =
    (let num = unat (xs ! p); n = listLength xs p
     in if num < 192 then Err ErrInvalidRLP
        else if 247 < num then
          if length xs < p + 1 + (num - 247) then Err ErrInvalidRLP else Ok (n + of_nat num - 247 + 1)
        else Ok (of_nat num - 192 + 1))"
proof -
  define num where "num = unat (xs ! p)"
  have num: "num < 256" unfolding num_def using unsigned_less[of "xs ! p", where ?'a = nat] by simp
  have uc: "(ucast (xs ! p) :: u64) = of_nat num" by (simp add: num_def)
  have un: "unat (of_nat num :: u64) = num" using num by (intro unat_of_nat_u64) simp
  have up: "unat (of_nat p :: u64) = p" using assms by (intro unat_of_nat_u64) simp
  have p1: "unat (of_nat p + 1 :: u64) = p + 1" using assms up by (subst unat_add_1) simp_all
  have len: "unat (of_nat (length xs) :: u64) = length xs" using assms(2) by (intro unat_of_nat_u64) simp
  have lt: "(of_nat num :: u64) < c0 \<longleftrightarrow> num < 192" by (simp add: word_less_nat_alt un c0_def)
  show ?thesis
  proof (cases "num < 192")
    case True
    then show ?thesis using assms(1) by (simp add: decodeRLPListLengthFromOffset_def uc lt num_def[symmetric])
  next
    case False
    have un0: "unat (of_nat num - c0 :: u64) = num - 192"
      using False un by (subst unat_sub) (simp_all add: c0_def word_le_nat_alt un)
    have gt: "(of_nat num :: u64) - c0 > shortRlp \<longleftrightarrow> 247 < num"
      unfolding word_less_nat_alt un0 using False by (auto simp: shortRlp_def)
    show ?thesis
    proof (cases "247 < num")
      case True
      have u7: "unat (of_nat num - f7 :: u64) = num - 247"
        using True un by (subst unat_sub) (simp_all add: f7_def word_le_nat_alt un)
      have e: "unat (of_nat p + 1 + (of_nat num - f7) :: u64) = p + 1 + (num - 247)"
        using assms num p1 u7 by (subst unat_add_u64) simp_all
      have cmp: "of_nat p + headerByteLength + (of_nat num - f7) > (of_nat (length xs) :: u64) \<longleftrightarrow>
          length xs < p + 1 + (num - 247)"
        by (simp only: word_less_nat_alt headerByteLength_def e len)
      have rd: "bind_outcome (slice xs (of_nat p + 1) (of_nat p + 1 + (of_nat num - f7))) parseUint = Ok (listLength xs p)"
        if "\<not> length xs < p + 1 + (num - 247)"
        using that True num
        by (simp add: slice_total e p1 parseUint_short listLength_def num_def[symmetric] not_less)
      show ?thesis
        using False True assms(1) unfolding decodeRLPListLengthFromOffset_def uc Let_def num_def[symmetric]
        by (simp add: lt gt cmp rd del: not_less bind_outcome_eq_Ok) (simp add: f7_def headerByteLength_def)
    next
      case nl: False
      then show ?thesis using False assms(1)
        unfolding decodeRLPListLengthFromOffset_def uc Let_def num_def[symmetric]
        by (simp add: lt gt c0_def[symmetric] headerByteLength_def[symmetric] del: not_less)
    qed
  qed
qed

lemma list_header_at:
  assumes "xs = pre @ list_header (length payload) @ payload @ rest" "length xs < 2 ^ 63" "p = length pre"
  shows "decodeRLPListLengthFromOffset xs p = Ok (of_nat (length (list_header (length payload) @ payload)))"
    and "unat pos = p \<Longrightarrow>
      decodeTxsLength xs pos = Ok (Some (of_nat (length (list_header (length payload) @ payload) - 1)))"
proof -
  define n where "n = length payload"
  have n63: "n < 2 ^ 63" using assms(1,2) by (simp add: n_def)
  have ne: "list_header n \<noteq> []" by (simp add: list_header_def)
  have lt: "p < length xs" using assms ne by (auto simp: n_def)
  note eqs = decodeRLPListLength_eq[OF lt assms(2)]
  have "decodeRLPListLengthFromOffset xs p = Ok (of_nat (length (list_header n @ payload))) \<and>
    (\<forall>pos. unat pos = p \<longrightarrow> decodeTxsLength xs pos = Ok (Some (of_nat (length (list_header n @ payload) - 1))))"
  proof (cases "n \<le> 55")
    case True
    have "xs ! p = of_nat (192 + n)" using True by (simp add: assms list_header_def n_def[symmetric] nth_append)
    then have "unat (xs ! p) = 192 + n" using True unat_of_nat_u8[of "192 + n"] by simp
    then show ?thesis using True lt assms(2) by (auto simp: eqs decodeTxsLength_eq list_header_def Let_def n_def[symmetric])
  next
    case False
    define k where "k = length (minBytes n)"
    have k: "0 < k" "k \<le> 8" using False length_minBytes_8[OF n63] by (auto simp: k_def)
    have xs: "xs = pre @ of_nat (247 + k) # minBytes n @ payload @ rest"
      using False by (simp add: assms list_header_def n_def[symmetric] k_def)
    have h: "unat (xs ! p) = 247 + k" using k unat_of_nat_u8[of "247 + k"] by (simp add: xs assms(3))
    have l: "listLength xs p = of_nat n" unfolding listLength_def h by (simp add: xs assms(3) k_def)
    have len: "p + 1 + k \<le> length xs" by (simp add: xs assms(3) k_def)
    have big: "\<not> (of_nat n + (247 + of_nat k) :: u64) < 247"
    proof -
      have u: "unat (of_nat n :: u64) = n" "unat (of_nat (247 + k) :: u64) = 247 + k"
        using n63 k by (intro unat_of_nat_u64; simp)+
      have "unat (of_nat n + of_nat (247 + k) :: u64) = n + (247 + k)"
        using n63 k by (subst unat_add_u64) (simp_all only: u, simp)
      then show ?thesis by (simp add: word_less_nat_alt)
    qed
    show ?thesis
      using k len big lt assms(2) False
      by (auto simp: eqs decodeTxsLength_eq h l Let_def list_header_def n_def[symmetric] k_def[symmetric])
  qed
  then show "decodeRLPListLengthFromOffset xs p = Ok (of_nat (length (list_header (length payload) @ payload)))"
    and "unat pos = p \<Longrightarrow>
      decodeTxsLength xs pos = Ok (Some (of_nat (length (list_header (length payload) @ payload) - 1)))"
    unfolding n_def by blast+
qed

subsection \<open>Decoding what was encoded\<close>

definition txBytes :: "(bytes list \<Rightarrow> bytes) \<Rightarrow> LegacyTx \<Rightarrow> bytes" where
  "txBytes enc tx = enc (codedFields tx) @ sigBytes tx"

definition pctBytes :: "u64 \<Rightarrow> u8 \<Rightarrow> bytes" where
  "pctBytes forkID p = (if forkID \<ge> FORKID_DRAGONFRUIT then [p] else [])"

lemma wrap_sum: "unat pos = p \<Longrightarrow> pos = (of_nat p :: u64)"
  by auto

context rlp_codec
begin

lemma enc_nonempty: "enc fs \<noteq> []"
  using enc_format[of fs] by (auto simp: list_header_def)

lemma decodeParts_at:
  assumes "xs = pre @ txBytes enc tx @ rest" "length xs < 2 ^ 63" "wf_tx tx"
    and "unat pos = length pre" "unat d = length pre + length (enc (codedFields tx))"
  shows "decodeParts dec e xs pos d = Ok tx"
proof -
  let ?c = "enc (codedFields tx)"
  have "length ?c < 2 ^ 63" using assms(1,2) by (simp add: txBytes_def)
  then have "dec ?c = Some (codedFields tx)" by (rule dec_enc)
  moreover have "unat d + 65 \<le> length xs" using assms by (simp add: txBytes_def)
  ultimately show ?thesis
    using assms(2,4,5) RlpFieldsToLegacyTx_codedFields[OF assms(3)]
    by (subst decodeParts_eq) (simp_all add: assms(1) txBytes_def sigBytes_def)
qed

lemma decodeRLPListLength_at:
  assumes "xs = pre @ txBytes enc tx @ rest" "length xs < 2 ^ 63"
  shows "decodeRLPListLengthFromOffset xs (length pre) = Ok (of_nat (length (enc (codedFields tx))))"
    and "unat pos = length pre \<Longrightarrow>
      decodeTxsLength xs pos = Ok (Some (of_nat (length (enc (codedFields tx)) - 1)))"
    and "192 \<le> unat (xs ! length pre)"
proof -
  obtain payload where p: "enc (codedFields tx) = list_header (length payload) @ payload" using enc_format by blast
  have xs: "xs = pre @ list_header (length payload) @ payload @ (sigBytes tx @ rest)"
    by (simp add: assms(1) txBytes_def p)
  note at = list_header_at[OF xs assms(2) refl]
  show "decodeRLPListLengthFromOffset xs (length pre) = Ok (of_nat (length (enc (codedFields tx))))"
    and "unat pos = length pre \<Longrightarrow>
      decodeTxsLength xs pos = Ok (Some (of_nat (length (enc (codedFields tx)) - 1)))"
    using at by (simp_all add: p)
  have "length pre < length xs" using enc_nonempty[of "codedFields tx"] by (simp add: assms(1) txBytes_def)
  from decodeRLPListLength_eq[OF this assms(2)] show "192 \<le> unat (xs ! length pre)"
    using at(1) by (auto simp: Let_def split: if_splits)
qed

lemma decodeTxRLP_at:
  assumes "xs = pre @ txBytes enc tx @ [p] @ rest" "length xs < 2 ^ 63" "wf_tx tx"
  shows "decodeTxRLP dec xs (length pre) =
    Ok (length pre + length (txBytes enc tx) + 1, \<lparr>l2tx_Tx = tx, EfficiencyPercentage = p\<rparr>)"
proof -
  define n where "n = length (enc (codedFields tx))"
  have tot: "length pre + n + 66 \<le> length xs" by (simp add: assms(1) txBytes_def n_def)
  have xs: "xs = pre @ txBytes enc tx @ ([p] @ rest)" by (simp add: assms(1))
  have u: "unat (of_nat (length pre + m) :: u64) = length pre + m" if "m \<le> n + 66" for m
    using that tot assms(2) by (intro unat_of_nat_u64) simp
  have start: "(of_nat (length pre) :: u64) + of_nat n = of_nat (length pre + n)"
    "of_nat (length pre + n) + rLength + sLength + vLength = (of_nat (length pre + (n + 65)) :: u64)"
    "of_nat (length pre + (n + 65)) + EfficiencyPercentageByteLength = (of_nat (length pre + (n + 66)) :: u64)"
    by (simp_all add: codec_consts)
  have len: "unat (of_nat (length xs) :: u64) = length xs" using assms(2) by (intro unat_of_nat_u64) simp
  have le: "\<not> (of_nat (length pre + (n + 66)) :: u64) > of_nat (length xs)"
    unfolding word_less_nat_alt u[OF order_refl] len using tot by simp
  have sl: "slice xs (of_nat (length pre)) (of_nat (length pre + (n + 66))) = Ok (take (n + 66) (drop (length pre) xs))"
    using tot u[of 0] u[of "n + 66"] by (subst slice_total) simp_all
  have parts: "decodeParts dec ErrRlpDecode xs (of_nat (length pre)) (of_nat (length pre + n)) = Ok tx"
    by (rule decodeParts_at[OF xs assms(2,3)]) (use u[of 0] u[of n] in \<open>simp_all add: n_def\<close>)
  have pct: "xs ! (length pre + (n + 65)) = p" by (simp add: assms(1) txBytes_def n_def nth_append)
  show ?thesis
    unfolding decodeTxRLP_def decodeRLPListLength_at(1)[OF xs assms(2)] n_def[symmetric]
    unfolding Let_def bind_outcome.simps start
    using tot le u[of "n + 65"] u[of "n + 66"]
    by (simp add: sl parts pct txBytes_def n_def[symmetric] del: of_nat_add not_less)
qed

lemma decodeTxAt_at:
  assumes "xs = pre @ txBytes enc tx @ pctBytes forkID p @ rest" "length xs < 2 ^ 63" "wf_tx tx"
  shows "decodeTxAt dec xs forkID (of_nat (length pre)) =
    Ok (Some (tx, pctBytes forkID p, of_nat (length (pre @ txBytes enc tx @ pctBytes forkID p))))"
proof -
  define n where "n = length (enc (codedFields tx)) - 1"
  have n: "length (enc (codedFields tx)) = n + 1" using enc_nonempty[of "codedFields tx"] by (cases "enc (codedFields tx)") (auto simp: n_def)
  have tot: "length pre + n + 66 + length (pctBytes forkID p) \<le> length xs" by (simp add: assms(1) txBytes_def n)
  have xs: "xs = pre @ txBytes enc tx @ (pctBytes forkID p @ rest)" by (simp add: assms(1))
  have u: "unat (of_nat (length pre + m) :: u64) = length pre + m" if "m \<le> n + 66" for m
    using that tot assms(2) by (intro unat_of_nat_u64) simp
  have un: "unat (of_nat n :: u64) = n" using tot assms(2) by (intro unat_of_nat_u64) simp
  have pos: "unat (of_nat (length pre) :: u64) = length pre" using u[of 0] by simp
  have ds: "(of_nat (length pre) :: u64) + of_nat n + headerByteLength = of_nat (length pre + (n + 1))"
    by (simp add: headerByteLength_def)
  have parts: "decodeParts dec ErrInvalidData xs (of_nat (length pre)) (of_nat (length pre) + of_nat n + headerByteLength) = Ok tx"
    unfolding ds by (rule decodeParts_at[OF xs assms(2,3)]) (use u[of 0] u[of "n + 1"] in \<open>simp_all add: n\<close>)
  have lt: "unat (of_nat (length pre) :: u64) < length xs" using tot pos by simp
  have len: "decodeTxsLength xs (of_nat (length pre)) = Ok (Some (of_nat n))"
    using decodeRLPListLength_at(2)[OF xs assms(2) pos] by (simp add: n)
  have pct: "forkID \<ge> FORKID_DRAGONFRUIT \<Longrightarrow> xs ! (length pre + n + 66) = p"
    by (simp add: assms(1) txBytes_def n pctBytes_def nth_append)
  show ?thesis
    unfolding decodeTxAt_eq[OF lt assms(2) len refl] un pos parts
    using tot pct by (auto simp: pctBytes_def txBytes_def n add_ac)
qed

end

subsection \<open>Lists of transactions\<close>

definition txsBytes :: "(bytes list \<Rightarrow> bytes) \<Rightarrow> u64 \<Rightarrow> LegacyTx list \<Rightarrow> u8 list \<Rightarrow> bytes" where
  "txsBytes enc forkID txs pcts = concat (map2 (\<lambda>tx p. txBytes enc tx @ pctBytes forkID p) txs pcts)"

lemma DecodeHex_hexText: "DecodeHex (hexText (unat (p :: u8))) = Inr [p]"
proof -
  have p: "unat p < 256" using unsigned_less[of p, where ?'a = nat] by simp
  have "hexDigit n \<noteq> CHR ''x''" if "n < 16" for n
    using fromHexChar_hexDigit[OF that] by (auto simp: fromHexChar_def Let_def)
  then have t: "trimPrefix (hexText (unat p)) = hexText (unat p)"
    using p by (cases "unat p < 16") (auto simp: trimPrefix_def hexText_16 hexText.simps)
  have "DecodeString (padLeft 2 (hexText (unat p))) = Inr [p]"
    using padLeft_2_hexText[OF p] by simp
  moreover have "padLeft 2 (hexText (unat p)) =
      (if odd (length (hexText (unat p))) then CHR ''0'' # hexText (unat p) else hexText (unat p))"
    using p by (cases "unat p < 16") (simp_all add: padLeft_def hexText_16 hexText.simps)
  ultimately show ?thesis by (simp add: DecodeHex_def t)
qed

lemma EncodeTransactions_wf:
  assumes "eip155 chainId" "\<forall>tx\<in>set txs. wf_tx tx" "length pcts = length txs"
  shows "EncodeTransactions rlpEnc chainId forkID txs pcts = Ok (txsBytes rlpEnc forkID txs pcts)"
  using assms(2,3)
proof (induction txs arbitrary: pcts)
  case (Cons tx txs)
  then obtain p ps where "pcts = p # ps" by (cases pcts) auto
  with Cons assms(1) show ?case
    by (auto simp: prepareRPLTxData_wf DecodeHex_hexText txsBytes_def txBytes_def pctBytes_def)
qed (simp add: txsBytes_def)

context rlp_codec
begin

lemma DecodeTxsLoop_at:
  assumes "xs = pre @ txsBytes enc forkID txs pcts @ rest" "length xs < 2 ^ 63" "\<forall>tx\<in>set txs. wf_tx tx"
    and "length pcts = length txs"
  shows "DecodeTxsLoop dec xs forkID (of_nat (length pre)) ts ps =
    DecodeTxsLoop dec xs forkID (of_nat (length (pre @ txsBytes enc forkID txs pcts))) (ts @ txs)
      (ps @ (if forkID \<ge> FORKID_DRAGONFRUIT then pcts else []))"
  using assms
proof (induction txs arbitrary: pre pcts ts ps)
  case Nil
  then show ?case by (simp add: txsBytes_def)
next
  case (Cons tx txs)
  then obtain p qs where pcts: "pcts = p # qs" "length qs = length txs" by (cases pcts) auto
  let ?pre = "pre @ txBytes enc tx @ pctBytes forkID p"
  have xs: "xs = pre @ txBytes enc tx @ pctBytes forkID p @ txsBytes enc forkID txs qs @ rest"
    and xs': "xs = ?pre @ txsBytes enc forkID txs qs @ rest"
    using Cons.prems(1) by (simp_all add: pcts txsBytes_def)
  have wf: "wf_tx tx" "\<forall>t\<in>set txs. wf_tx t" using Cons.prems(3) by auto
  have l: "length pre < length xs" using enc_nonempty[of "codedFields tx"] by (simp add: xs txBytes_def)
  have "(of_nat (length pre) :: u64) < of_nat (length xs)"
    using l Cons.prems(2) by (simp add: word_less_nat_alt unat_of_nat_u64)
  then have "DecodeTxsLoop dec xs forkID (of_nat (length pre)) ts ps =
      DecodeTxsLoop dec xs forkID (of_nat (length ?pre)) (ts @ [tx]) (ps @ pctBytes forkID p)"
    using decodeTxAt_at[OF xs Cons.prems(2) wf(1)] by (simp add: DecodeTxsLoop.simps[of dec xs forkID "of_nat (length pre)"])
  also have "\<dots> = DecodeTxsLoop dec xs forkID (of_nat (length (?pre @ txsBytes enc forkID txs qs))) ((ts @ [tx]) @ txs)
      ((ps @ pctBytes forkID p) @ (if forkID \<ge> FORKID_DRAGONFRUIT then qs else []))"
    by (rule Cons.IH[OF xs' Cons.prems(2) wf(2) pcts(2)])
  finally show ?case by (simp add: pcts pctBytes_def txsBytes_def)
qed

lemma DecodeTxsLoop_end:
  "length xs < 2 ^ 63 \<Longrightarrow> DecodeTxsLoop dec xs forkID (of_nat (length xs)) ts ps = Ok (ts, ps)"
  by (simp add: DecodeTxsLoop.simps)

lemma txsBytes_eq_Nil: "length pcts = length txs \<Longrightarrow> txsBytes enc forkID txs pcts = [] \<Longrightarrow> txs = []"
  using enc_nonempty by (cases txs; cases pcts) (auto simp: txsBytes_def txBytes_def)

lemma DecodeTxs_txsBytes:
  assumes "length (txsBytes enc forkID txs pcts) < 2 ^ 63" "\<forall>tx\<in>set txs. wf_tx tx" "length pcts = length txs"
  shows "DecodeTxs dec (txsBytes enc forkID txs pcts) forkID =
    Ok (txs, if forkID \<ge> FORKID_DRAGONFRUIT then pcts else [])"
proof (cases "txsBytes enc forkID txs pcts = []")
  case True
  then show ?thesis using assms(3) txsBytes_eq_Nil[OF assms(3) True] by (simp add: DecodeTxs_def)
next
  case False
  then show ?thesis
    using DecodeTxsLoop_at[of _ "[]" forkID txs pcts "[]" "[]" "[]"] DecodeTxsLoop_end assms
    by (simp add: DecodeTxs_def)
qed

lemma DecodeTxs_truncated:
  assumes "length (txsBytes enc forkID txs pcts) + 1 < 2 ^ 63" "\<forall>tx\<in>set txs. wf_tx tx" "length pcts = length txs"
    and "247 < unat b"
  shows "DecodeTxs dec (txsBytes enc forkID txs pcts @ [b]) forkID = Ok ([], [])"
proof -
  let ?d = "txsBytes enc forkID txs pcts" and ?xs = "txsBytes enc forkID txs pcts @ [b]"
  have u: "unat (of_nat (length ?d) :: u64) = length ?d" using assms(1) by (intro unat_of_nat_u64) simp
  have lt: "(of_nat (length ?d) :: u64) < of_nat (length ?xs)"
    using assms(1) by (subst word_less_nat_alt, subst (1 2) unat_of_nat_u64) simp_all
  have "decodeTxsLength ?xs (of_nat (length ?d)) = Ok None"
    using assms(1,4) by (subst decodeTxsLength_eq) (simp_all add: u Let_def)
  then have "DecodeTxsLoop dec ?xs forkID (of_nat (length ?d)) ts ps = Ok ([], [])" for ts ps
    using lt by (simp add: DecodeTxsLoop.simps decodeTxAt_def)
  then show ?thesis
    using DecodeTxsLoop_at[of ?xs "[]" forkID txs pcts "[b]" "[]" "[]"] assms
    by (simp add: DecodeTxs_def)
qed

end

subsection \<open>Blocks\<close>

definition l2txBytes :: "(bytes list \<Rightarrow> bytes) \<Rightarrow> L2TxRaw \<Rightarrow> bytes" where
  "l2txBytes enc t = txBytes enc (l2tx_Tx t) @ [EfficiencyPercentage t]"

definition blockBytes :: "(bytes list \<Rightarrow> bytes) \<Rightarrow> L2BlockRaw \<Rightarrow> bytes" where
  "blockBytes enc b = EncodeBlockHeaderV2 [] b @ concat (map (l2txBytes enc) (Transactions b))"

definition wf_block :: "L2BlockRaw \<Rightarrow> bool" where
  "wf_block b \<longleftrightarrow> (\<forall>t\<in>set (Transactions b). wf_tx (l2tx_Tx t))"

lemma encodeBlockTxs_wf:
  assumes "eip155 chainId" "\<forall>t\<in>set txs. wf_tx (l2tx_Tx t)"
  shows "encodeBlockTxs enc chainId d txs = Ok (d @ concat (map (l2txBytes enc) txs))"
  using assms(2)
  by (induction txs arbitrary: d) (simp_all add: encodeTxRLP_def prepareRPLTxData_wf assms(1) l2txBytes_def txBytes_def)

lemma encodeBlocks_wf:
  assumes "eip155 chainId" "\<forall>b\<in>set bs. wf_block b"
  shows "encodeBlocks enc chainId d bs = Ok (d @ concat (map (blockBytes enc) bs))"
  using assms(2)
  by (induction bs arbitrary: d)
    (simp_all add: wf_block_def encodeBlockTxs_wf assms(1) blockBytes_def EncodeBlockHeaderV2_def)

lemma length_serializeUint32 [simp]: "length (serializeUint32 v) = 4"
  by (simp add: serializeUint32_def)

lemma deserializeUint32_at:
  assumes "xs = pre @ serializeUint32 v @ rest" "p = length pre"
  shows "deserializeUint32 xs p = Ok (p + 4, v)"
proof -
  have "push_bit 24 (ucast (ucast (drop_bit 24 v) :: u8)) OR push_bit 16 (ucast (ucast (drop_bit 16 v) :: u8)) OR
      push_bit 8 (ucast (ucast (drop_bit 8 v) :: u8)) OR ucast (ucast v :: u8) = v"
    (is "?w = v")
  proof (rule bit_word_eqI)
    fix n :: nat
    assume "n < LENGTH(32)"
    then consider "n < 8" | "8 \<le> n" "n < 16" | "16 \<le> n" "n < 24" | "24 \<le> n" "n < 32" by fastforce
    then show "bit ?w n \<longleftrightarrow> bit v n" by cases (simp_all add: bit_simps less_diff_conv2)
  qed
  then show ?thesis
    by (simp add: deserializeUint32_def assms serializeUint32_def nth_append numeral_eq_Suc)
qed


text \<open>The first byte of a coded transaction is a list header, never the mark of a block.\<close>

context rlp_codec
begin

lemma DecodeBatchV2Loop_txs:
  assumes "xs = pre @ concat (map (l2txBytes enc) txs) @ rest" "length xs < 2 ^ 63"
    and "\<forall>t\<in>set txs. wf_tx (l2tx_Tx t)"
  shows "DecodeBatchV2Loop dec xs (length pre) bs (Some b) =
    DecodeBatchV2Loop dec xs (length (pre @ concat (map (l2txBytes enc) txs))) bs
      (Some (b\<lparr>Transactions := Transactions b @ txs\<rparr>))"
  using assms
proof (induction txs arbitrary: pre b)
  case (Cons t txs)
  let ?pre = "pre @ l2txBytes enc t"
  have xs: "xs = pre @ txBytes enc (l2tx_Tx t) @ [EfficiencyPercentage t] @ concat (map (l2txBytes enc) txs) @ rest"
    and xs': "xs = ?pre @ concat (map (l2txBytes enc) txs) @ rest"
    using Cons.prems(1) by (simp_all add: l2txBytes_def[of enc t])
  have wf: "wf_tx (l2tx_Tx t)" "\<forall>u\<in>set txs. wf_tx (l2tx_Tx u)" using Cons.prems(3) by auto
  have "192 \<le> unat (xs ! length pre)"
    by (rule decodeRLPListLength_at(3)[OF xs Cons.prems(2)])
  then have mark: "xs ! length pre \<noteq> changeL2Block" by (auto simp: changeL2Block_def)
  have l: "length pre < length xs" by (simp add: xs)
  have t: "\<lparr>l2tx_Tx = l2tx_Tx t, EfficiencyPercentage = EfficiencyPercentage t\<rparr> = t" by simp
  have "DecodeBatchV2Loop dec xs (length pre) bs (Some b) =
      DecodeBatchV2Loop dec xs (length ?pre) bs (Some (b\<lparr>Transactions := Transactions b @ [t]\<rparr>))"
    using decodeTxRLP_at[OF xs Cons.prems(2) wf(1)] mark l Cons.prems(2) t
    by (subst DecodeBatchV2Loop.simps) (simp add: l2txBytes_def[of enc t])
  also have "\<dots> = DecodeBatchV2Loop dec xs (length (?pre @ concat (map (l2txBytes enc) txs))) bs
      (Some (b\<lparr>Transactions := Transactions b @ [t]\<rparr>
        \<lparr>Transactions := Transactions (b\<lparr>Transactions := Transactions b @ [t]\<rparr>) @ txs\<rparr>))"
    by (rule Cons.IH[OF xs' Cons.prems(2) wf(2)])
  finally show ?case by simp
qed simp

lemma decodeBlockHeader_at:
  assumes "xs = pre @ EncodeBlockHeaderV2 [] b @ rest"
  shows "xs ! length pre = changeL2Block"
    and "decodeBlockHeader xs (length pre + 1) = Ok (length pre + 9, b\<lparr>Transactions := []\<rparr>)"
proof -
  show "xs ! length pre = changeL2Block" by (simp add: assms EncodeBlockHeaderV2_def)
  have "deserializeUint32 xs (length pre + 1) = Ok (length pre + 1 + 4, DeltaTimestamp b)"
    by (rule deserializeUint32_at[of _ "pre @ [changeL2Block]"]) (simp_all add: assms EncodeBlockHeaderV2_def)
  moreover have "deserializeUint32 xs (length pre + 5) = Ok (length pre + 5 + 4, IndexL1InfoTree b)"
    by (rule deserializeUint32_at[of _ "pre @ [changeL2Block] @ serializeUint32 (DeltaTimestamp b)"])
      (simp_all add: assms EncodeBlockHeaderV2_def)
  ultimately show "decodeBlockHeader xs (length pre + 1) = Ok (length pre + 9, b\<lparr>Transactions := []\<rparr>)"
    by (simp add: decodeBlockHeader_def add.commute)
qed

lemma DecodeBatchV2Loop_blocks:
  assumes "xs = pre @ concat (map (blockBytes enc) bs)" "length xs < 2 ^ 63" "\<forall>b\<in>set bs. wf_block b"
  shows "DecodeBatchV2Loop dec xs (length pre) done cur =
    Ok \<lparr>Blocks = (case cur of None \<Rightarrow> done | Some b \<Rightarrow> done @ [b]) @ bs\<rparr>"
  using assms
proof (induction bs arbitrary: pre "done" cur)
  case Nil
  then show ?case by (subst DecodeBatchV2Loop.simps) (simp split: option.split)
next
  case (Cons b bs)
  let ?d = "case cur of None \<Rightarrow> done | Some b \<Rightarrow> done @ [b]"
  let ?txs = "concat (map (l2txBytes enc) (Transactions b))"
  have xs: "xs = pre @ EncodeBlockHeaderV2 [] b @ ?txs @ concat (map (blockBytes enc) bs)"
    and xs1: "xs = (pre @ EncodeBlockHeaderV2 [] b) @ ?txs @ concat (map (blockBytes enc) bs)"
    and xs2: "xs = ((pre @ EncodeBlockHeaderV2 [] b) @ ?txs) @ concat (map (blockBytes enc) bs)"
    using Cons.prems(1) by (simp_all add: blockBytes_def[of enc b])
  have len: "length (pre @ EncodeBlockHeaderV2 [] b) = length pre + 9" by (simp add: EncodeBlockHeaderV2_def)
  have lt: "length pre < length xs" by (simp add: xs EncodeBlockHeaderV2_def)
  have wf: "\<forall>t\<in>set (Transactions b). wf_tx (l2tx_Tx t)" "\<forall>c\<in>set bs. wf_block c"
    using Cons.prems(3) by (auto simp: wf_block_def)
  have "DecodeBatchV2Loop dec xs (length pre) done cur =
      DecodeBatchV2Loop dec xs (length (pre @ EncodeBlockHeaderV2 [] b)) ?d (Some (b\<lparr>Transactions := []\<rparr>))"
    unfolding len using decodeBlockHeader_at[OF xs] lt Cons.prems(2)
    by (subst DecodeBatchV2Loop.simps) simp
  also have "\<dots> = DecodeBatchV2Loop dec xs (length ((pre @ EncodeBlockHeaderV2 [] b) @ ?txs)) ?d (Some b)"
    using DecodeBatchV2Loop_txs[OF xs1 Cons.prems(2) wf(1), of ?d "b\<lparr>Transactions := []\<rparr>"] by simp
  also have "\<dots> = Ok \<lparr>Blocks = (?d @ [b]) @ bs\<rparr>"
    using Cons.IH[OF xs2 Cons.prems(2) wf(2), of ?d "Some b"] by simp
  finally show ?case by simp
qed

end

subsection \<open>Round trips\<close>

definition batchBytes :: "(bytes list \<Rightarrow> bytes) \<Rightarrow> BatchRawV2 \<Rightarrow> bytes" where
  "batchBytes enc batch = concat (map (blockBytes enc) (Blocks batch))"

text \<open>
  A chain id function with the documented behaviour, a transaction of chain 1101 and a batch of
  two blocks, on which the theorems below are applied.
\<close>

definition deriveChainId :: "int \<Rightarrow> int" where
  "deriveChainId v = (if v = 27 \<or> v = 28 then 0 else (v - 35) div 2)"

definition sampleTx :: LegacyTx where
  "sampleTx = \<lparr>ltx_Nonce = 7, ltx_GasPrice = 1000, ltx_Gas = 21000, ltx_To = Some 0xabc, ltx_Value = 5,
     ltx_Data = [1, 2], ltx_V = 2238, ltx_R = 11, ltx_S = 12\<rparr>"

definition sampleBatch :: BatchRawV2 where
  "sampleBatch = \<lparr>Blocks =
     [\<lparr>DeltaTimestamp = 3, IndexL1InfoTree = 1, Transactions = [\<lparr>l2tx_Tx = sampleTx, EfficiencyPercentage = 255\<rparr>]\<rparr>,
      \<lparr>DeltaTimestamp = 9, IndexL1InfoTree = 0, Transactions = []\<rparr>]\<rparr>"

lemma eip155_deriveChainId: "eip155 deriveChainId"
  by (auto simp: eip155_def deriveChainId_def)

lemma wf_sampleTx: "wf_tx sampleTx"
  by (simp add: wf_tx_def sampleTx_def)

lemma length_sampleTx: "length (txBytes rlp_encode sampleTx) < 200"
  by (simp add: txBytes_def rlp_encode_def codedFields_def isPre_def sampleTx_def txFields_def toField_def
      rlp_string_def list_header_def minBytes.simps)

text \<open>
  C9: Decoding an encoded Etrog batch gives back its blocks, with every timestamp delta, L1 info
  index, transaction field, signature and efficiency percentage, for every RLP codec that meets
  its contract and every batch of at least one block whose transactions have a code.
\<close>

theorem EncodeBatchV2_DecodeBatchV2:
  assumes "rlp_codec rlpEnc rlpDec" "eip155 chainId"
    and "Blocks batch \<noteq> []" "\<forall>b\<in>set (Blocks batch). wf_block b"
    and "length (batchBytes rlpEnc batch) < 2 ^ 63"
  shows "EncodeBatchV2 rlpEnc chainId (Some batch) = Ok (batchBytes rlpEnc batch) \<and>
    DecodeBatchV2 rlpDec (batchBytes rlpEnc batch) = Ok batch"
  using assms rlp_codec.DecodeBatchV2Loop_blocks[OF assms(1), of _ "[]" "Blocks batch" "[]" None]
  by (simp add: EncodeBatchV2_def encodeBlocks_wf DecodeBatchV2_def batchBytes_def)

theorem EncodeBatchV2_DecodeBatchV2_witness:
  "EncodeBatchV2 rlp_encode deriveChainId (Some sampleBatch) = Ok (batchBytes rlp_encode sampleBatch) \<and>
   DecodeBatchV2 rlp_decode (batchBytes rlp_encode sampleBatch) = Ok sampleBatch"
proof (rule EncodeBatchV2_DecodeBatchV2[OF rlp.rlp_codec_axioms eip155_deriveChainId])
  show "length (batchBytes rlp_encode sampleBatch) < 2 ^ 63"
    using length_sampleTx
    by (simp add: batchBytes_def sampleBatch_def blockBytes_def EncodeBlockHeaderV2_def l2txBytes_def)
qed (simp_all add: sampleBatch_def wf_block_def wf_sampleTx)

text \<open>
  C10: Decoding an encoded list of transactions gives back the transactions, and from the
  Dragonfruit fork on the effective percentages.
\<close>

theorem EncodeTransactions_DecodeTxs:
  assumes "rlp_codec rlpEnc rlpDec" "eip155 chainId"
    and "\<forall>tx\<in>set txs. wf_tx tx" "length pcts = length txs"
    and "length (txsBytes rlpEnc forkID txs pcts) < 2 ^ 63"
  shows "EncodeTransactions rlpEnc chainId forkID txs pcts = Ok (txsBytes rlpEnc forkID txs pcts) \<and>
    DecodeTxs rlpDec (txsBytes rlpEnc forkID txs pcts) forkID =
      Ok (txs, if forkID \<ge> FORKID_DRAGONFRUIT then pcts else [])"
  using assms rlp_codec.DecodeTxs_txsBytes[OF assms(1), of forkID txs pcts]
  by (simp add: EncodeTransactions_wf)

theorem EncodeTransactions_DecodeTxs_witness:
  "EncodeTransactions rlp_encode deriveChainId 5 [sampleTx] [128] = Ok (txsBytes rlp_encode 5 [sampleTx] [128]) \<and>
   DecodeTxs rlp_decode (txsBytes rlp_encode 5 [sampleTx] [128]) 5 = Ok ([sampleTx], [128])"
  using EncodeTransactions_DecodeTxs[OF rlp.rlp_codec_axioms eip155_deriveChainId, of "[sampleTx]" "[128]" 5]
    wf_sampleTx length_sampleTx
  by (simp add: txsBytes_def pctBytes_def codec_consts)

text \<open>
  C13: When the bytes after a list of valid transactions announce a long RLP list and end there,
  \<open>DecodeTxs\<close> returns the nil error together with an empty list, so that the valid
  transactions before the cut are lost without a report.
\<close>

theorem DecodeTxs_truncated_is_silent:
  assumes "rlp_codec rlpEnc rlpDec" "\<forall>tx\<in>set txs. wf_tx tx" "length pcts = length txs"
    and "length (txsBytes rlpEnc forkID txs pcts) + 1 < 2 ^ 63" "247 < unat b"
  shows "DecodeTxs rlpDec (txsBytes rlpEnc forkID txs pcts @ [b]) forkID = Ok ([], [])"
  by (rule rlp_codec.DecodeTxs_truncated[OF assms(1)]) (use assms in auto)

theorem DecodeTxs_truncated_is_silent_witness:
  "DecodeTxs rlp_decode (txsBytes rlp_encode 5 [sampleTx] [128] @ [0xf8]) 5 = Ok ([], [])"
  using DecodeTxs_truncated_is_silent[OF rlp.rlp_codec_axioms, of "[sampleTx]" "[128]" 5 "0xf8"]
    wf_sampleTx length_sampleTx
  by (simp add: txsBytes_def pctBytes_def codec_consts)

end
