(* ===== verification/PoolAdmission.thy ===== *)
theory PoolAdmission
  imports Pool BatchRoundTrip
begin

text \<open>
  What the pool guarantees of a transaction it admits, what it stores, and where its error paths
  do not do what they announce.
\<close>

subsection \<open>Intrinsic gas\<close>

lemma assert_outcome_Ok [simp]: "assert_outcome b e = Ok u \<longleftrightarrow> b"
  by (simp add: assert_outcome_def)

lemma answer_Ok [simp]: "answer x = Ok a \<longleftrightarrow> x = Some a"
  by (cases x) (auto simp: answer_def)

lemma liftStorage_Ok [simp]: "liftStorage r = Ok a \<longleftrightarrow> r = Ok a"
  by (cases r) (auto simp: liftStorage_def)

definition intrinsic :: "LegacyTx \<Rightarrow> nat" where
  "intrinsic tx = (if ltx_To tx = None then 53000 else 21000) +
     16 * length (filter (\<lambda>b. b \<noteq> 0) (ltx_Data tx)) + 4 * length (filter (\<lambda>b. b = 0) (ltx_Data tx))"

lemma IntrinsicGas_exact:
  assumes "length (ltx_Data tx) < 2 ^ 56"
  shows "\<exists>g. IntrinsicGas tx = Ok g \<and> unat g = intrinsic tx"
proof -
  let ?d = "ltx_Data tx"
  define nz where "nz = length (filter (\<lambda>b. b \<noteq> 0) ?d)"
  define z where "z = length (filter (\<lambda>b. b = 0) ?d)"
  define g where "g = (if ltx_To tx = None then 53000 else 21000 :: nat)"
  have len: "length ?d = nz + z" using sum_length_filter_compl[of "\<lambda>b. b \<noteq> 0" ?d] by (simp add: nz_def z_def)
  have b: "nz < 2 ^ 56" "z < 2 ^ 56" "g \<le> 53000" using assms len by (auto simp: g_def)
  have w: "unat (of_nat k :: u64) = k" if "k < 2 ^ 64" for k
    using that by (simp only: unat_of_nat) simp
  have m: "unat (- 1 - of_nat k :: u64) = 2 ^ 64 - 1 - k" if "k < 2 ^ 62" for k
    proof -
    have "unat (- 1 :: u64) = 2 ^ 64 - 1" by (simp add: unsigned_minus_1_eq_mask mask_eq_exp_minus_1)
    then show ?thesis using that by (subst unat_sub) (simp_all add: word_le_nat_alt w)
  qed
  define g1 where "g1 = g + nz * 16"
  have g1: "g1 < 2 ^ 61" using b by (simp add: g1_def)
  have c1: "\<not> (- 1 - of_nat g :: u64) div 16 < of_nat nz"
    using b by (simp add: word_less_nat_alt unat_div m w)
  have c2: "\<not> (- 1 - of_nat g1 :: u64) div 4 < of_nat z"
    using b g1 by (simp add: word_less_nat_alt unat_div m w)
  have gw: "(if ltx_To tx = None then txGasContractCreation else txGas) = of_nat g"
    by (simp add: g_def txGasContractCreation_def txGas_def)
  have e1: "of_nat g + of_nat nz * 16 = (of_nat g1 :: u64)" by (simp add: g1_def)
  have "IntrinsicGas tx = Ok (of_nat (g1 + z * 4))"
  proof (cases "length ?d = 0")
    case True
    then show ?thesis using len by (simp add: IntrinsicGas_def gw g1_def Let_def)
  next
    case False
    have "(0 :: u64) < of_nat (length ?d)" using False assms by (simp add: word_less_nat_alt w)
    moreover have "(of_nat (length ?d) - of_nat nz :: u64) = of_nat z" using len by simp
    ultimately show ?thesis
      using c1 c2 unfolding IntrinsicGas_def gw Let_def txDataNonZeroGas_def txDataZeroGas_def nz_def[symmetric]
      by (simp add: e1)
  qed
  moreover have "unat (of_nat (g1 + z * 4) :: u64) = g1 + z * 4" using b g1 by (intro w) simp
  ultimately show ?thesis by (simp add: intrinsic_def g1_def g_def nz_def z_def)
qed

subsection \<open>Admission\<close>

lemma validateForm_Ok:
  assumes "validateForm lib p poolTx = Ok addr"
  shows "lib_sender lib (tr_Tx poolTx) = Some addr" "CheckSignature lib (tr_Tx poolTx)" "tr_Type poolTx = 0"
    "0 \<le> ltx_Value (tr_Tx poolTx)"
    "uint64_of (lib_chainId lib (ltx_V (tr_Tx poolTx))) = pl_chainID p \<or> IsPreEIP155Tx (lib_chainId lib) (tr_Tx poolTx)"
    "\<exists>d. EncodeTransaction (lib_rlp lib) (lib_chainId lib) (tr_Tx poolTx) 0xFF (cfg_ForkID (pl_cfg p)) = Ok d \<and>
       of_nat (length d) \<le> MaxTxBytesSize (pl_cfg p)"
  using assms by (auto simp: validateForm_def Let_def split: option.splits outcome.splits)

lemma validateAccount_Ok:
  assumes "validateAccount lib st p tx addr = Ok ()"
  obtains root n bal m where
    "addr |\<notin>| blockedAddresses p" "st_GetLastL2Block st = Some root" "st_GetNonce_at st addr root = Some n"
    "n \<le> ltx_Nonce tx"
    "AccountQueue (pl_cfg p) = 0 \<or> ltx_Nonce tx \<le> n + AccountQueue (pl_cfg p) - 1"
    "minSuggestedGasPrice p = Some m" "m \<le> ltx_GasPrice tx"
    "st_GetBalance st addr root = Some bal" "lib_cost lib tx \<le> bal"
  using assms
  by (auto simp: validateAccount_def not_less word_neq_0_conv split: option.splits if_splits)

lemma checkReplacement_None:
  "checkReplacement lib tx olds = None \<Longrightarrow> old \<in> set olds \<Longrightarrow> tr_Status old \<noteq> TxStatusInvalid \<Longrightarrow>
   tr_Status old \<noteq> TxStatusFailed \<Longrightarrow>
   lib_hash lib (tr_Tx old) \<noteq> lib_hash lib tx \<and>
   ltx_GasPrice (tr_Tx old) * uint (ltx_Gas (tr_Tx old)) \<le> ltx_GasPrice tx * uint (ltx_Gas tx)"
  by (induction olds) (auto simp: Let_def not_less split: if_splits)

text \<open>
  C23: A transaction that passes \<open>validateTx\<close> is a signed legacy transaction for this chain (or one
  from before replay protection) whose sender is not blocked; its nonce is not below the
  account's and inside the queue of the account; the balance covers its cost; it offers at
  least the minimum price and the exact intrinsic gas; and no stored transaction of the same
  sender and nonce that may still be executed is the same one or pays more.
\<close>

theorem validateTx_sound:
  assumes "validateTx lib st p poolTx = Ok ()" "tr_Tx poolTx = tx"
  shows "\<exists>addr root n bal m.
    lib_sender lib tx = Some addr \<and> CheckSignature lib tx \<and> tr_Type poolTx = 0 \<and> addr |\<notin>| blockedAddresses p \<and>
    (uint64_of (lib_chainId lib (ltx_V tx)) = pl_chainID p \<or> IsPreEIP155Tx (lib_chainId lib) tx) \<and>
    st_GetLastL2Block st = Some root \<and> st_GetNonce_at st addr root = Some n \<and> n \<le> ltx_Nonce tx \<and>
    (AccountQueue (pl_cfg p) \<noteq> 0 \<longrightarrow> ltx_Nonce tx \<le> n + AccountQueue (pl_cfg p) - 1) \<and>
    st_GetBalance st addr root = Some bal \<and> lib_cost lib tx \<le> bal \<and>
    minSuggestedGasPrice p = Some m \<and> m \<le> ltx_GasPrice tx \<and>
    (length (ltx_Data tx) < 2 ^ 56 \<longrightarrow> intrinsic tx \<le> unat (ltx_Gas tx)) \<and>
    (\<forall>r\<in>set (db_transaction (pl_storage p)).
       row_from r = addr \<and> row_nonce r = ltx_Nonce tx \<and> tr_Status (row_tx r) \<noteq> TxStatusInvalid \<and>
       tr_Status (row_tx r) \<noteq> TxStatusFailed \<longrightarrow>
       lib_hash lib (tr_Tx (row_tx r)) \<noteq> lib_hash lib tx \<and>
       ltx_GasPrice (tr_Tx (row_tx r)) * uint (ltx_Gas (tr_Tx (row_tx r))) \<le> ltx_GasPrice tx * uint (ltx_Gas tx))"
proof -
  obtain addr g olds where f: "validateForm lib p poolTx = Ok addr" "validateAccount lib st p tx addr = Ok ()"
    and g: "IntrinsicGas tx = Ok g" "\<not> ltx_Gas tx < g"
    and o: "GetTxsByFromAndNonce (pl_storage p) addr (ltx_Nonce tx) = Ok olds" "checkReplacement lib tx olds = None"
    using assms by (auto simp: validateTx_def Let_def split: option.splits)
  note v = validateForm_Ok[OF f(1), unfolded assms(2)]
  have ig: "length (ltx_Data tx) < 2 ^ 56 \<longrightarrow> intrinsic tx \<le> unat (ltx_Gas tx)"
    using IntrinsicGas_exact[of tx] g by (auto simp: word_less_nat_alt)
  have olds: "olds = map row_tx (filter (\<lambda>r. row_from r = addr \<and> row_nonce r = ltx_Nonce tx) (db_transaction (pl_storage p)))"
    using o(1) by (simp add: GetTxsByFromAndNonce_def onDB_def split: if_splits)
  have rep: "\<forall>r\<in>set (db_transaction (pl_storage p)).
       row_from r = addr \<and> row_nonce r = ltx_Nonce tx \<and> tr_Status (row_tx r) \<noteq> TxStatusInvalid \<and>
       tr_Status (row_tx r) \<noteq> TxStatusFailed \<longrightarrow>
       lib_hash lib (tr_Tx (row_tx r)) \<noteq> lib_hash lib tx \<and>
       ltx_GasPrice (tr_Tx (row_tx r)) * uint (ltx_Gas (tr_Tx (row_tx r))) \<le> ltx_GasPrice tx * uint (ltx_Gas tx)"
    using checkReplacement_None[OF o(2)] by (simp add: olds)
  show ?thesis
    by (rule validateAccount_Ok[OF f(2)]) (use v ig rep in blast)
qed

subsection \<open>Storage\<close>

definition executorLevelError :: "stateInterface \<Rightarrow> LegacyTx \<Rightarrow> bool" where
  "executorLevelError st tx \<longleftrightarrow>
     (case st_PreProcessTransaction st tx of
        (Some pbr, None) \<Rightarrow> pbr_BlockResponses pbr \<noteq> [] \<and> pbr_IsExecutorLevelError pbr
      | _ \<Rightarrow> False)"

lemma preExecuteFailed_level:
  "preExecuteFailed pbr e r = Ok (resp, err) \<Longrightarrow> isExecutorLevelError resp = isExecutorLevelError r"
  by (auto simp: preExecuteFailed_def Let_def split: option.splits if_splits)

lemma checkRomError_level [simp]:
  "isExecutorLevelError (checkRomError p pbr t err r) = isExecutorLevelError r"
  by (simp add: checkRomError_def Let_def split: option.split)

lemma preExecuteTx_level:
  assumes "preExecuteTx st p tx = Ok (resp, err)"
  shows "isExecutorLevelError resp \<longleftrightarrow> executorLevelError st tx" "isExecutorLevelError resp \<longrightarrow> err = None"
proof -
  obtain pbr e where pre: "st_PreProcessTransaction st tx = (pbr, e)" by fastforce
  have "(isExecutorLevelError resp \<longleftrightarrow> executorLevelError st tx) \<and> (isExecutorLevelError resp \<longrightarrow> err = None)"
  proof (cases e)
    case (Some e')
    then have "\<not> isExecutorLevelError resp"
      using assms pre by (auto simp: preExecuteTx_def Let_def dest!: preExecuteFailed_level)
    moreover have "\<not> executorLevelError st tx" using pre Some by (simp add: executorLevelError_def split: option.split)
    ultimately show ?thesis by simp
  next
    case None
    then obtain r where r: "pbr = Some r" using assms pre by (cases pbr) (simp_all add: preExecuteTx_def)
    show ?thesis
    proof (cases "pbr_BlockResponses r = []")
      case True
      then show ?thesis using assms pre None r by (auto simp: preExecuteTx_def executorLevelError_def)
    next
      case False
      obtain t where t: "firstTxResponse r = Ok t" using assms pre None r False by (auto simp: preExecuteTx_def)
      show ?thesis
        using assms pre None r False t
        by (auto simp: preExecuteTx_def executorLevelError_def)
    qed
  qed
  then show "isExecutorLevelError resp \<longleftrightarrow> executorLevelError st tx" "isExecutorLevelError resp \<longrightarrow> err = None" by auto
qed

lemma rowOf_upsert: "find (\<lambda>q. row_hash q = row_hash r) (upsert r rows) = Some r"
proof -
  have "\<exists>q\<in>set rows. row_hash q = row_hash r \<Longrightarrow>
      find (\<lambda>q. row_hash q = row_hash r) (map (\<lambda>q. if row_hash q = row_hash r then r else q) rows) = Some r"
    by (induction rows) auto
  moreover have "\<not> (\<exists>q\<in>set rows. row_hash q = row_hash r) \<Longrightarrow> find (\<lambda>q. row_hash q = row_hash r) (rows @ [r]) = Some r"
    by (induction rows) auto
  ultimately show ?thesis by (auto simp: upsert_def)
qed

lemma find_upsert [simp]: "row_hash r = h \<Longrightarrow> find (\<lambda>q. row_hash q = h) (upsert r rows) = Some r"
  using rowOf_upsert by blast

lemma st_AddTx_Ok:
  assumes "st_AddTx txHash sender db t = Ok db'"
  obtains addr where "sender (tr_Tx t) = Some addr"
    "db' = db\<lparr>db_transaction := upsert \<lparr>row_hash = txHash (tr_Tx t), row_tx = t\<lparr>tr_FailedReason := None\<rparr>,
       row_gas_price = uint64_of (ltx_GasPrice (tr_Tx t)), row_nonce = ltx_Nonce (tr_Tx t), row_from = addr\<rparr> (db_transaction db)\<rparr>"
  using assms by (auto simp: st_AddTx_def onDB_def split: option.splits if_splits)

text \<open>
  C24: When \<open>AddTx\<close> returns no error, either the executor failed on the pre-execution, and then nothing
  has been stored although the caller is told that the transaction was accepted, or the pool
  holds exactly one row for the transaction, pending and under its sender and nonce, every other
  row is unchanged and hashes stay unique.
\<close>

theorem AddTx_stores:
  assumes "key_ok (pl_storage p)" "AddTx lib st now p tx ty ip = Ok db'"
  shows "if executorLevelError st tx then db' = pl_storage p
    else (\<exists>row. row_hash row = lib_hash lib tx \<and> tr_Tx (row_tx row) = tx \<and> tr_Status (row_tx row) = TxStatusPending \<and>
            lib_sender lib tx = Some (row_from row) \<and> row_nonce row = ltx_Nonce tx \<and> key_ok db' \<and>
            rowOf db' (lib_hash lib tx) = Some row \<and> db_gas_price db' = db_gas_price (pl_storage p) \<and>
            set (db_transaction db') =
              insert row {q \<in> set (db_transaction (pl_storage p)). row_hash q \<noteq> lib_hash lib tx})"
proof -
  obtain resp err where pre: "preExecuteTx st p tx = Ok (resp, err)"
    and rest: "StoreTx lib st now p tx ty ip False = Ok db'"
    using assms(2) by (auto simp: AddTx_def StoreTx_def)
  note lvl = preExecuteTx_level[OF pre]
  show ?thesis
  proof (cases "executorLevelError st tx")
    case True
    then show ?thesis using rest lvl by (auto simp: StoreTx_def pre split: if_splits)
  next
    case False
    let ?t = "(NewTransaction now tx ty ip False)\<lparr>tr_ZKCounters := usedZkCounters resp\<rparr>"
    have add: "st_AddTx (lib_hash lib) (lib_sender lib) (pl_storage p) ?t = Ok db'"
      using rest lvl False by (auto simp: StoreTx_def pre split: if_splits option.splits)
    obtain addr where f: "lib_sender lib (tr_Tx ?t) = Some addr"
      "db' = (pl_storage p)\<lparr>db_transaction := upsert \<lparr>row_hash = lib_hash lib (tr_Tx ?t), row_tx = ?t\<lparr>tr_FailedReason := None\<rparr>,
         row_gas_price = uint64_of (ltx_GasPrice (tr_Tx ?t)), row_nonce = ltx_Nonce (tr_Tx ?t), row_from = addr\<rparr>
         (db_transaction (pl_storage p))\<rparr>"
      by (rule st_AddTx_Ok[OF add])
    define row where "row = \<lparr>row_hash = lib_hash lib (tr_Tx ?t), row_tx = ?t\<lparr>tr_FailedReason := None\<rparr>,
         row_gas_price = uint64_of (ltx_GasPrice (tr_Tx ?t)), row_nonce = ltx_Nonce (tr_Tx ?t), row_from = addr\<rparr>"
    have row: "row_hash row = lib_hash lib tx" "tr_Tx (row_tx row) = tx" "tr_Status (row_tx row) = TxStatusPending"
      "row_nonce row = ltx_Nonce tx" "row_from row = addr"
      by (simp_all add: row_def NewTransaction_def)
    have db': "db' = (pl_storage p)\<lparr>db_transaction := upsert row (db_transaction (pl_storage p))\<rparr>"
      using f(2) by (simp add: row_def)
    have "set (db_transaction db') = insert row {q \<in> set (db_transaction (pl_storage p)). row_hash q \<noteq> lib_hash lib tx}"
      using upsert_set[of "db_transaction (pl_storage p)" row] assms(1) by (simp add: db' key_ok_def row)
    moreover have "rowOf db' (lib_hash lib tx) = Some row"
      using rowOf_upsert[of row] by (simp add: rowOf_def db' row)
    moreover have "key_ok db'" using assms(1) add by (rule st_AddTx_key)
    moreover have "lib_sender lib tx = Some (row_from row)" using f(1) by (simp add: row NewTransaction_def)
    ultimately show ?thesis using False row db' by (auto intro!: exI[of _ row])
  qed
qed


subsection \<open>A sample\<close>

definition sampleLib :: library where
  "sampleLib = \<lparr>lib_hash = (\<lambda>tx. of_nat (unat (ltx_Nonce tx)) + 100), lib_chainId = deriveChainId,
     lib_cost = (\<lambda>tx. ltx_GasPrice tx * uint (ltx_Gas tx) + ltx_Value tx), lib_sender = (\<lambda>tx. Some 7),
     lib_ValidateSignatureValues = (\<lambda>v r s. v \<le> 1), lib_rlp = rlp_encode, lib_parseIP = (\<lambda>s. True), lib_conv = (\<lambda>_. 0)\<rparr>"

definition samplePoolTx :: LegacyTx where
  "samplePoolTx = sampleTx\<lparr>ltx_Gas := 30000, ltx_GasPrice := 2000000000\<rparr>"

definition sampleAnswer :: "runtime_error option \<Rightarrow> ProcessBatchResponse" where
  "sampleAnswer e = \<lparr>pbr_UsedZkCounters = zeroCounters\<lparr>UsedSteps := 1000\<rparr>, pbr_IsExecutorLevelError = False,
     pbr_BlockResponses = [[\<lparr>ptr_RomError = e, ptr_GasUsed = 0\<rparr>]]\<rparr>"

definition sampleState :: "runtime_error option \<Rightarrow> stateInterface" where
  "sampleState e = \<lparr>st_GetLastL2Block = Some 1, st_GetNonce_at = (\<lambda>a r. Some 4), st_GetBalance = (\<lambda>a r. Some (10 ^ 18)),
     st_PreProcessTransaction = (\<lambda>tx. (Some (sampleAnswer e), None))\<rparr>"

definition sampleDB :: PoolDB where
  "sampleDB = \<lparr>db_available = True, db_transaction = [],
     db_gas_price = [\<lparr>gp_price = 1000000000, gp_l1_price = 1000000000, gp_timestamp = 0\<rparr>], db_blocked = []\<rparr>"

definition sampleConstraints :: BatchConstraintsCfg where
  "sampleConstraints = \<lparr>MaxTxsPerBatch = 300, MaxBatchBytesSize = 120000, MaxCumulativeGasUsed = 30000000, MaxKeccakHashes = 2145,
     MaxPoseidonHashes = 252357, MaxPoseidonPaddings = 135191, MaxMemAligns = 236585, MaxArithmetics = 236585,
     MaxBinaries = 473170, MaxSteps = 7570538, MaxSHA256Hashes = 1596\<rparr>"

definition samplePool :: Pool where
  "samplePool = NewPool 0
     \<lparr>MaxTxBytesSize = 1000, MaxTxDataBytesSize = 100, DefaultMinGasPriceAllowed = 1000000000,
      MinAllowedGasPriceInterval = 300, AccountQueue = 64, GlobalQueue = 1024,
      cfg_EffectiveGasPrice = egp_cfg sampleEgp, cfg_ForkID = 9\<rparr> sampleConstraints sampleDB 1101"

lemma samplePool_fields [simp]:
  "pl_storage samplePool = sampleDB" "pl_chainID samplePool = 1101" "blockedAddresses samplePool = {||}"
  "minSuggestedGasPrice samplePool = Some 1000000000" "MaxTxBytesSize (pl_cfg samplePool) = 1000"
  "MaxTxDataBytesSize (pl_cfg samplePool) = 100" "AccountQueue (pl_cfg samplePool) = 64" "GlobalQueue (pl_cfg samplePool) = 1024"
  "cfg_ForkID (pl_cfg samplePool) = 9" "pl_batchConstraintsCfg samplePool = sampleConstraints"
  "cfg_EffectiveGasPrice (pl_cfg samplePool) = egp_cfg sampleEgp" "effectiveGasPrice samplePool = sampleEgp"
  by (simp_all add: samplePool_def NewPool_def refreshGasPrices_def GetGasPrices_def st_GetGasPrices_def onDB_def
      sampleDB_def liftStorage_def sampleEgp_def NewEffectiveGasPrice_def)

lemma wf_samplePoolTx: "wf_tx samplePoolTx"
  using wf_sampleTx by (simp add: wf_tx_def samplePoolTx_def)

lemma sample_encoded:
  "\<exists>d. EncodeTransaction rlp_encode deriveChainId samplePoolTx 255 9 = Ok d \<and> of_nat (length d) \<le> (1000 :: u64)"
proof -
  have "EncodeTransaction rlp_encode deriveChainId samplePoolTx 255 9 = Ok (txsBytes rlp_encode 9 [samplePoolTx] [255])"
    unfolding EncodeTransaction_def using wf_samplePoolTx by (intro EncodeTransactions_wf[OF eip155_deriveChainId]) auto
  moreover have "length (txsBytes rlp_encode 9 [samplePoolTx] [255]) \<le> 1000"
    by (simp add: txsBytes_def txBytes_def rlp_encode_def codedFields_def isPre_def samplePoolTx_def
        sampleTx_def txFields_def toField_def rlp_string_def list_header_def minBytes.simps pctBytes_def codec_consts)
  then have "of_nat (length (txsBytes rlp_encode 9 [samplePoolTx] [255])) \<le> (1000 :: u64)"
    by (simp add: word_le_nat_alt unat_of_nat order.trans[OF mod_less_eq_dividend])
  ultimately show ?thesis by blast
qed

lemma sample_form: "validateForm sampleLib samplePool (NewTransaction 10 samplePoolTx 0 [] False) = Ok 7"
  using sample_encoded
  by (auto simp: validateForm_def sampleLib_def NewTransaction_def CheckSignature_def samplePoolTx_def sampleTx_def
      deriveChainId_def uint64_of_def Let_def assert_outcome_def)

lemma sample_account: "validateAccount sampleLib (sampleState e) samplePool samplePoolTx 7 = Ok ()"
  by (simp add: validateAccount_def sampleLib_def sampleState_def samplePoolTx_def sampleTx_def assert_outcome_def answer_def
      CountTransactionsByStatus_def onDB_def sampleDB_def liftStorage_def)

lemma sample_gas: "IntrinsicGas samplePoolTx = Ok 21032"
  by (simp add: IntrinsicGas_def samplePoolTx_def sampleTx_def txGas_def txDataNonZeroGas_def txDataZeroGas_def Let_def)

lemma sample_valid: "validateTx sampleLib (sampleState e) samplePool (NewTransaction 10 samplePoolTx 0 [] False) = Ok ()"
proof -
  have "checkTxFieldCompatibilityWithExecutor sampleLib samplePool samplePoolTx = None"
    by (simp add: checkTxFieldCompatibilityWithExecutor_def sampleLib_def samplePoolTx_def sampleTx_def deriveChainId_def)
  moreover have "tr_Tx (NewTransaction 10 samplePoolTx 0 [] False) = samplePoolTx" by (simp add: NewTransaction_def)
  moreover have "ltx_Gas samplePoolTx = 30000" by (simp add: samplePoolTx_def)
  ultimately show ?thesis
    by (simp add: validateTx_def sample_form sample_account sample_gas assert_outcome_def GetTxsByFromAndNonce_def
        onDB_def sampleDB_def liftStorage_def)
qed

theorem validateTx_sound_witness:
  "\<exists>bal. st_GetBalance (sampleState None) 7 1 = Some bal \<and> lib_cost sampleLib samplePoolTx \<le> bal \<and>
     intrinsic samplePoolTx \<le> unat (ltx_Gas samplePoolTx)"
proof -
  have "length (ltx_Data samplePoolTx) < 2 ^ 56" by (simp add: samplePoolTx_def sampleTx_def)
  then show ?thesis
    using validateTx_sound[OF sample_valid[of None], of samplePoolTx]
    by (auto simp: NewTransaction_def sampleState_def sampleLib_def)
qed

lemma sample_prices: "GetGasPrices samplePool = Ok \<lparr>L2GasPrice = 1000000000, L1GasPrice = 1000000000\<rparr>"
  by (simp add: GetGasPrices_def st_GetGasPrices_def onDB_def sampleDB_def liftStorage_def)

lemma sample_breakEven_price:
  "ValidateBreakEvenGasPrice sampleLib samplePool samplePoolTx 0 \<lparr>L2GasPrice = 1000000000, L1GasPrice = 1000000000\<rparr> = Ok ()"
  by (simp add: ValidateBreakEvenGasPrice_def GetTxAndL2GasPrice_def CalculateBreakEvenGasPrice_def sampleEgp_def samplePoolTx_def
      bf_Mul_def bf_SetInt_def bf_SetFloat64_def Let_def)

lemma sample_preExecute: "\<exists>resp. preExecuteTx (sampleState None) samplePool tx = Ok (resp, None) \<and> \<not> isExecutorLevelError resp \<and>
    OOCError resp = None \<and> txResponse resp = Some \<lparr>ptr_RomError = None, ptr_GasUsed = 0\<rparr>"
  by (simp add: preExecuteTx_def sampleState_def sampleAnswer_def firstTxResponse_def checkRomError_def IsWithinConstraints_def
      zeroCounters_def sampleConstraints_def)

lemma sample_sender: "lib_sender sampleLib tx = Some 7"
  by (simp add: sampleLib_def)

theorem AddTx_stores_witness:
  "\<exists>db' row. AddTx sampleLib (sampleState None) 10 samplePool samplePoolTx 0 [] = Ok db' \<and> key_ok db' \<and>
     rowOf db' (lib_hash sampleLib samplePoolTx) = Some row \<and> tr_Status (row_tx row) = TxStatusPending"
proof -
  obtain db' where db': "AddTx sampleLib (sampleState None) 10 samplePool samplePoolTx 0 [] = Ok db'"
    using sample_preExecute[of samplePoolTx]
    by (auto simp: AddTx_def StoreTx_def sample_valid sample_prices sample_breakEven_price st_AddTx_def onDB_def
        liftStorage_def sample_sender sampleDB_def)
  have "key_ok (pl_storage samplePool)" "\<not> executorLevelError (sampleState None) samplePoolTx"
    by (simp_all add: key_ok_def sampleDB_def executorLevelError_def sampleState_def sampleAnswer_def)
  then show ?thesis using AddTx_stores[OF _ db'] db' by auto
qed


end
