(* ===== verification/StateDB.thy ===== *)
theory StateDB
  imports Resources Hex "HOL-Library.Product_Lexorder"
begin

text \<open>
  The tables of the state database that hold L1 blocks, batches and proofs, and the statements of
  \<open>state/pgstatestorage/\<close> on them (\<open>block.go\<close>, \<open>forcedbatch.go\<close>, \<open>batch.go\<close>, \<open>proof.go\<close> and the resets
  of \<open>pgstatestorage.go\<close>).  A table is a finite map from its primary key.  The constraints are those
  of \<open>db/migrations/state\<close>: an insertion needs the rows it refers to, a deletion takes the rows with a
  cascading reference along and fails when a row without one would be left dangling.  Hashes and
  addresses are stored as the values that their text stands for; only the data of a forced batch
  is kept as text, because the queries read it in two ways.
\<close>

subsection \<open>Data\<close>

datatype StateError =
    ErrUnexpectedBatch | ErrStateNotSynchronized | ErrObjectNotFound | ErrLastBatchShouldBeClosed | ErrBatchAlreadyClosed
  | ErrTimestampGE | ErrDBTxNil | ErrUnsupportedDuration
  | pgNoRows | pgUniqueKey | pgForeignKey | pgInt8Range | pgScanColumns | pgDecodeHex | pgConnection

record Block =
  blk_BlockNumber :: u64
  blk_BlockHash :: hash
  blk_ParentHash :: hash
  blk_ReceivedAt :: time

record ForcedBatch =
  fb_BlockNumber :: u64
  fb_ForcedBatchNumber :: u64
  fb_Sequencer :: address
  fb_GlobalExitRoot :: hash
  fb_RawTxsData :: bytes
  fb_ForcedAt :: time

record Batch =
  bt_BatchNumber :: u64
  bt_Coinbase :: address
  bt_BatchL2Data :: bytes
  bt_StateRoot :: hash
  bt_LocalExitRoot :: hash
  bt_AccInputHash :: hash
  bt_Timestamp :: time
  bt_GlobalExitRoot :: hash
  bt_ForcedBatchNum :: "u64 option"
  bt_Resources :: BatchResources
  bt_WIP :: bool

record ProcessingContext =
  pc_BatchNumber :: u64
  pc_Coinbase :: address
  pc_Timestamp :: time
  pc_GlobalExitRoot :: hash
  pc_ForcedBatchNum :: "u64 option"
  pc_BatchL2Data :: "bytes option"

record ProcessingReceipt =
  rt_BatchNumber :: u64
  rt_StateRoot :: hash
  rt_LocalExitRoot :: hash
  rt_AccInputHash :: hash
  rt_BatchL2Data :: bytes
  rt_ClosingReason :: string
  rt_BatchResources :: BatchResources

record VirtualBatch =
  vb_BatchNumber :: u64
  vb_TxHash :: hash
  vb_Coinbase :: address
  vb_SequencerAddr :: address
  vb_BlockNumber :: u64
  vb_TimestampBatchEtrog :: "time option"

record VerifiedBatch =
  vf_BlockNumber :: u64
  vf_BatchNumber :: u64
  vf_Aggregator :: address
  vf_TxHash :: hash
  vf_StateRoot :: hash
  vf_IsTrusted :: bool

record Proof =
  pf_BatchNumber :: u64
  pf_BatchNumberFinal :: u64
  pf_Proof :: string
  pf_InputProver :: string
  pf_ProofID :: "string option"
  pf_Prover :: "string option"
  pf_ProverID :: "string option"
  pf_GeneratingSince :: "time option"
  pf_CreatedAt :: time
  pf_UpdatedAt :: time

text \<open>Rows.  A column that may be \<open>NULL\<close> is an option; \<open>raw_txs_data\<close> reads the same as an empty slice.\<close>

record forcedRow =
  fr_ger :: hash
  fr_timestamp :: time
  fr_raw :: string
  fr_coinbase :: address
  fr_block :: u64

record batchRow =
  br_ger :: hash
  br_ler :: "hash option"
  br_root :: "hash option"
  br_acc :: "hash option"
  br_timestamp :: time
  br_coinbase :: address
  br_raw :: bytes
  br_forced :: "u64 option"
  br_resources :: "BatchResources option"
  br_closing :: "string option"
  br_wip :: bool

record stateDB =
  db_block :: "(u64, Block) fmap"
  db_forced :: "(u64, forcedRow) fmap"
  db_batch :: "(u64, batchRow) fmap"
  db_virtual :: "(u64, VirtualBatch) fmap"
  db_verified :: "(u64, VerifiedBatch) fmap"
  db_sequences :: "(u64, u64) fmap"
  db_proof :: "(u64 \<times> u64, Proof) fmap"

definition emptyDB :: stateDB where
  "emptyDB =
     \<lparr>db_block = fmempty, db_forced = fmempty, db_batch = fmempty, db_virtual = fmempty, db_verified = fmempty,
      db_sequences = fmempty, db_proof = fmempty\<rparr>"

text \<open>A \<open>BIGINT\<close> parameter: the driver refuses a number that does not fit 63 bits.\<close>

definition int8 :: "u64 \<Rightarrow> bool" where
  "int8 n \<longleftrightarrow> unat n < 2 ^ 63"

text \<open>A \<open>TIMESTAMP WITH TIME ZONE\<close> has microseconds; \<open>Time.Unix\<close> has seconds.\<close>

definition pgTime :: "time \<Rightarrow> time" where
  "pgTime t = t - t mod 1000"

definition unix :: "time \<Rightarrow> int" where
  "unix t = t div 1000000000"

text \<open>\<open>ORDER BY key DESC LIMIT 1\<close> and the rows that a condition keeps.\<close>

definition lastKey :: "(u64, 'a) fmap \<Rightarrow> u64 option" where
  "lastKey m = (if fmdom m = {||} then None else Some (fMax (fmdom m)))"

definition fmkeep :: "('k \<Rightarrow> 'v \<Rightarrow> bool) \<Rightarrow> ('k, 'v) fmap \<Rightarrow> ('k, 'v) fmap" where
  "fmkeep P m = fmfilter (\<lambda>k. case fmlookup m k of None \<Rightarrow> False | Some v \<Rightarrow> P k v) m"

definition rowsAsc :: "('k :: linorder, 'v) fmap \<Rightarrow> 'v list" where
  "rowsAsc m = map (\<lambda>k. the (fmlookup m k)) (sorted_list_of_fset (fmdom m))"

subsection \<open>L1 blocks\<close>

definition AddBlock :: "Block \<Rightarrow> stateDB \<Rightarrow> (StateError, stateDB) outcome" where
  "AddBlock block db =
     (if \<not> int8 (blk_BlockNumber block) then Err pgInt8Range
      else if blk_BlockNumber block |\<in>| fmdom (db_block db) then Err pgUniqueKey
      else Ok (db\<lparr>db_block := fmupd (blk_BlockNumber block) (block\<lparr>blk_ReceivedAt := pgTime (blk_ReceivedAt block)\<rparr>) (db_block db)\<rparr>))"

definition GetLastBlock :: "stateDB \<Rightarrow> (StateError, Block) outcome" where
  "GetLastBlock db =
     (case lastKey (db_block db) of None \<Rightarrow> Err ErrStateNotSynchronized | Some n \<Rightarrow> Ok (the (fmlookup (db_block db) n)))"

definition GetPreviousBlock :: "u64 \<Rightarrow> stateDB \<Rightarrow> (StateError, Block) outcome" where
  "GetPreviousBlock offset db =
     (let rows = rev (rowsAsc (db_block db))
      in if \<not> int8 offset then Err pgInt8Range
         else if unat offset < length rows then Ok (rows ! unat offset) else Err ErrObjectNotFound)"

definition GetBlockByNumber :: "u64 \<Rightarrow> stateDB \<Rightarrow> (StateError, Block) outcome" where
  "GetBlockByNumber n db =
     (if \<not> int8 n then Err pgInt8Range
      else case fmlookup (db_block db) n of None \<Rightarrow> Err ErrObjectNotFound | Some b \<Rightarrow> Ok b)"

subsection \<open>Forced batches\<close>

definition AddForcedBatch :: "ForcedBatch \<Rightarrow> stateDB \<Rightarrow> (StateError, stateDB) outcome" where
  "AddForcedBatch fb db =
     (if \<not> int8 (fb_ForcedBatchNumber fb) \<or> \<not> int8 (fb_BlockNumber fb) then Err pgInt8Range
      else if fb_ForcedBatchNumber fb |\<in>| fmdom (db_forced db) then Err pgUniqueKey
      else if fb_BlockNumber fb |\<notin>| fmdom (db_block db) then Err pgForeignKey
      else Ok (db\<lparr>db_forced := fmupd (fb_ForcedBatchNumber fb)
             \<lparr>fr_ger = fb_GlobalExitRoot fb, fr_timestamp = pgTime (fb_ForcedAt fb), fr_raw = EncodeToString (fb_RawTxsData fb),
              fr_coinbase = fb_Sequencer fb, fr_block = fb_BlockNumber fb\<rparr> (db_forced db)\<rparr>))"

text \<open>\<open>GetForcedBatch\<close> decodes the text of the data; \<open>scanForcedBatch\<close> copies its characters.\<close>

definition forcedOfRow :: "u64 \<Rightarrow> forcedRow \<Rightarrow> bytes \<Rightarrow> ForcedBatch" where
  "forcedOfRow n r raw =
     \<lparr>fb_BlockNumber = fr_block r, fb_ForcedBatchNumber = n, fb_Sequencer = fr_coinbase r, fb_GlobalExitRoot = fr_ger r,
      fb_RawTxsData = raw, fb_ForcedAt = fr_timestamp r\<rparr>"

definition decodeForced :: "u64 \<Rightarrow> forcedRow \<Rightarrow> (StateError, ForcedBatch) outcome" where
  "decodeForced n r = (case DecodeString (fr_raw r) of Inl _ \<Rightarrow> Err pgDecodeHex | Inr raw \<Rightarrow> Ok (forcedOfRow n r raw))"

definition scanForcedBatch :: "u64 \<Rightarrow> forcedRow \<Rightarrow> ForcedBatch" where
  "scanForcedBatch n r = forcedOfRow n r (map (\<lambda>c. of_char c) (fr_raw r))"

definition GetForcedBatch :: "u64 \<Rightarrow> stateDB \<Rightarrow> (StateError, ForcedBatch) outcome" where
  "GetForcedBatch n db =
     (if \<not> int8 n then Err pgInt8Range
      else case fmlookup (db_forced db) n of None \<Rightarrow> Err ErrObjectNotFound | Some r \<Rightarrow> decodeForced n r)"

definition GetForcedBatchesSince :: "u64 \<Rightarrow> u64 \<Rightarrow> stateDB \<Rightarrow> (StateError, ForcedBatch list) outcome" where
  "GetForcedBatchesSince n maxBlockNumber db =
     (if \<not> int8 n \<or> \<not> int8 maxBlockNumber then Err pgInt8Range
      else (let m = fmkeep (\<lambda>k r. n < k \<and> fr_block r \<le> maxBlockNumber) (db_forced db)
            in Ok (map (\<lambda>k. scanForcedBatch k (the (fmlookup m k))) (sorted_list_of_fset (fmdom m)))))"

definition lastForcedOf :: "(u64, batchRow) fmap \<Rightarrow> u64" where
  "lastForcedOf m =
     (let F = the |`| ffilter (\<lambda>f. f \<noteq> None) (br_forced |`| fmran m)
      in if F = {||} then 0 else fMax F)"

fun decodeAll :: "(u64 \<times> forcedRow) list \<Rightarrow> (StateError, ForcedBatch list) outcome" where
  "decodeAll [] = Ok []"
| "decodeAll ((k, r) # rows) = bind_outcome (decodeForced k r) (\<lambda>fb. bind_outcome (decodeAll rows) (\<lambda>fbs. Ok (fb # fbs)))"

definition GetNextForcedBatches :: "nat \<Rightarrow> stateDB \<Rightarrow> (StateError, ForcedBatch list) outcome" where
  "GetNextForcedBatches nextForcedBatches db =
     (let used = lastForcedOf (fmfilter (\<lambda>b. b |\<in>| fmdom (db_virtual db)) (db_batch db));
          m = fmfilter (\<lambda>k. used < k) (db_forced db)
      in decodeAll (take nextForcedBatches (map (\<lambda>k. (k, the (fmlookup m k))) (sorted_list_of_fset (fmdom m)))))"

definition GetLastTrustedForcedBatchNumber :: "stateDB \<Rightarrow> (StateError, u64) outcome" where
  "GetLastTrustedForcedBatchNumber db = Ok (lastForcedOf (db_batch db))"

subsection \<open>Batches\<close>

definition zeroCounters :: ZKCounters where
  "zeroCounters =
     \<lparr>GasUsed = 0, UsedKeccakHashes = 0, UsedPoseidonHashes = 0, UsedPoseidonPaddings = 0, UsedMemAligns = 0,
      UsedArithmetics = 0, UsedBinaries = 0, UsedSteps = 0, UsedSha256Hashes_V2 = 0\<rparr>"

definition orZero :: "'a :: zero option \<Rightarrow> 'a" where
  "orZero v = (case v of None \<Rightarrow> 0 | Some x \<Rightarrow> x)"

definition scanBatch :: "u64 \<Rightarrow> batchRow \<Rightarrow> Batch" where
  "scanBatch n r =
     \<lparr>bt_BatchNumber = n, bt_Coinbase = br_coinbase r, bt_BatchL2Data = br_raw r, bt_StateRoot = orZero (br_root r),
      bt_LocalExitRoot = orZero (br_ler r), bt_AccInputHash = orZero (br_acc r), bt_Timestamp = br_timestamp r,
      bt_GlobalExitRoot = br_ger r, bt_ForcedBatchNum = br_forced r,
      bt_Resources = (case br_resources r of None \<Rightarrow> \<lparr>ZKCounters = zeroCounters, Bytes = 0\<rparr> | Some z \<Rightarrow> z), bt_WIP = br_wip r\<rparr>"

definition GetLastNBatches :: "nat \<Rightarrow> stateDB \<Rightarrow> (StateError, Batch list) outcome" where
  "GetLastNBatches n db =
     Ok (take n (map (\<lambda>k. scanBatch k (the (fmlookup (db_batch db) k))) (rev (sorted_list_of_fset (fmdom (db_batch db))))))"

definition GetLastBatchNumber :: "stateDB \<Rightarrow> (StateError, u64) outcome" where
  "GetLastBatchNumber db = (case lastKey (db_batch db) of None \<Rightarrow> Err ErrStateNotSynchronized | Some n \<Rightarrow> Ok n)"

definition GetLastBatchTime :: "stateDB \<Rightarrow> (StateError, time) outcome" where
  "GetLastBatchTime db =
     (case lastKey (db_batch db) of
        None \<Rightarrow> Err ErrStateNotSynchronized
      | Some n \<Rightarrow> Ok (br_timestamp (the (fmlookup (db_batch db) n))))"

definition GetBatchByNumber :: "u64 \<Rightarrow> stateDB \<Rightarrow> (StateError, Batch) outcome" where
  "GetBatchByNumber n db =
     (if \<not> int8 n then Err pgInt8Range
      else case fmlookup (db_batch db) n of None \<Rightarrow> Err ErrObjectNotFound | Some r \<Rightarrow> Ok (scanBatch n r))"

definition IsBatchClosed :: "u64 \<Rightarrow> stateDB \<Rightarrow> (StateError, bool) outcome" where
  "IsBatchClosed n db =
     (if \<not> int8 n then Err pgInt8Range
      else case fmlookup (db_batch db) n of None \<Rightarrow> Err pgNoRows | Some r \<Rightarrow> Ok (\<not> br_wip r))"

definition GetWIPBatchInStorage :: "u64 \<Rightarrow> stateDB \<Rightarrow> (StateError, Batch) outcome" where
  "GetWIPBatchInStorage n db =
     (if \<not> int8 n then Err pgInt8Range
      else case fmlookup (db_batch db) n of
             None \<Rightarrow> Err ErrObjectNotFound
           | Some r \<Rightarrow> if br_wip r then Ok (scanBatch n r) else Err ErrObjectNotFound)"

text \<open>
  \<open>GetLastClosedBatch\<close> and \<open>GetBatchByForcedBatchNum\<close> select fewer columns than \<open>scanBatch\<close> has
  destinations, which the driver reports as an error for every row.
\<close>

definition GetLastClosedBatch :: "stateDB \<Rightarrow> (StateError, Batch) outcome" where
  "GetLastClosedBatch db =
     (case lastKey (fmkeep (\<lambda>_ r. \<not> br_wip r) (db_batch db)) of None \<Rightarrow> Err ErrStateNotSynchronized | Some n \<Rightarrow> Err pgScanColumns)"

definition GetLastClosedBatchNumber :: "stateDB \<Rightarrow> (StateError, u64) outcome" where
  "GetLastClosedBatchNumber db =
     (case lastKey (fmkeep (\<lambda>_ r. \<not> br_wip r) (db_batch db)) of None \<Rightarrow> Err ErrStateNotSynchronized | Some n \<Rightarrow> Ok n)"

definition GetBatchByForcedBatchNum :: "u64 \<Rightarrow> stateDB \<Rightarrow> (StateError, Batch) outcome" where
  "GetBatchByForcedBatchNum n db =
     (if \<not> int8 n then Err pgInt8Range
      else if fmkeep (\<lambda>_ r. br_forced r = Some n) (db_batch db) = fmempty then Err ErrStateNotSynchronized
      else Err pgScanColumns)"

definition GetProcessingContext :: "u64 \<Rightarrow> stateDB \<Rightarrow> (StateError, ProcessingContext) outcome" where
  "GetProcessingContext n db =
     (if \<not> int8 n then Err pgInt8Range
      else case fmlookup (db_batch db) n of
             None \<Rightarrow> Err ErrStateNotSynchronized
           | Some r \<Rightarrow> Ok \<lparr>pc_BatchNumber = n, pc_Coinbase = br_coinbase r, pc_Timestamp = br_timestamp r,
               pc_GlobalExitRoot = br_ger r, pc_ForcedBatchNum = br_forced r, pc_BatchL2Data = None\<rparr>)"

definition StoreGenesisBatch :: "Batch \<Rightarrow> stateDB \<Rightarrow> (StateError, stateDB) outcome" where
  "StoreGenesisBatch batch db =
     (if bt_BatchNumber batch \<noteq> 0 then Err ErrUnexpectedBatch
      else if 0 |\<in>| fmdom (db_batch db) then Err pgUniqueKey
      else if (case bt_ForcedBatchNum batch of None \<Rightarrow> False | Some f \<Rightarrow> \<not> int8 f) then Err pgInt8Range
      else if (case bt_ForcedBatchNum batch of None \<Rightarrow> False | Some f \<Rightarrow> f |\<notin>| fmdom (db_forced db)) then Err pgForeignKey
      else Ok (db\<lparr>db_batch := fmupd 0
             \<lparr>br_ger = bt_GlobalExitRoot batch, br_ler = Some (bt_LocalExitRoot batch), br_root = Some (bt_StateRoot batch),
              br_acc = Some (bt_AccInputHash batch), br_timestamp = pgTime (bt_Timestamp batch), br_coinbase = bt_Coinbase batch,
              br_raw = bt_BatchL2Data batch, br_forced = bt_ForcedBatchNum batch, br_resources = None, br_closing = None,
              br_wip = False\<rparr> (db_batch db)\<rparr>))"

text \<open>The insertion that opening a batch shares.\<close>

definition insertBatch :: "u64 \<Rightarrow> batchRow \<Rightarrow> stateDB \<Rightarrow> (StateError, stateDB) outcome" where
  "insertBatch n row db =
     (if \<not> int8 n \<or> (case br_forced row of None \<Rightarrow> False | Some f \<Rightarrow> \<not> int8 f) then Err pgInt8Range
      else if n |\<in>| fmdom (db_batch db) then Err pgUniqueKey
      else if (case br_forced row of None \<Rightarrow> False | Some f \<Rightarrow> f |\<notin>| fmdom (db_forced db)) then Err pgForeignKey
      else Ok (db\<lparr>db_batch := fmupd n row (db_batch db)\<rparr>))"

definition OpenBatchInStorage :: "ProcessingContext \<Rightarrow> stateDB \<Rightarrow> (StateError, stateDB) outcome" where
  "OpenBatchInStorage pc =
     insertBatch (pc_BatchNumber pc)
       \<lparr>br_ger = pc_GlobalExitRoot pc, br_ler = None, br_root = None, br_acc = None, br_timestamp = pgTime (pc_Timestamp pc),
        br_coinbase = pc_Coinbase pc, br_raw = (case pc_BatchL2Data pc of None \<Rightarrow> [] | Some d \<Rightarrow> d),
        br_forced = pc_ForcedBatchNum pc, br_resources = None, br_closing = None, br_wip = True\<rparr>"

definition OpenWIPBatchInStorage :: "Batch \<Rightarrow> stateDB \<Rightarrow> (StateError, stateDB) outcome" where
  "OpenWIPBatchInStorage batch =
     insertBatch (bt_BatchNumber batch)
       \<lparr>br_ger = bt_GlobalExitRoot batch, br_ler = Some (bt_LocalExitRoot batch), br_root = Some (bt_StateRoot batch),
        br_acc = Some (bt_AccInputHash batch), br_timestamp = pgTime (bt_Timestamp batch), br_coinbase = bt_Coinbase batch,
        br_raw = bt_BatchL2Data batch, br_forced = bt_ForcedBatchNum batch, br_resources = Some (bt_Resources batch),
        br_closing = None, br_wip = True\<rparr>"

text \<open>\<open>UPDATE state.batch SET ... WHERE batch_num = n\<close>: no row, no change and no error.\<close>

definition updateBatch :: "u64 \<Rightarrow> (batchRow \<Rightarrow> batchRow) \<Rightarrow> stateDB \<Rightarrow> (StateError, stateDB) outcome" where
  "updateBatch n f db =
     (if \<not> int8 n then Err pgInt8Range
      else case fmlookup (db_batch db) n of
             None \<Rightarrow> Ok db
           | Some r \<Rightarrow> Ok (db\<lparr>db_batch := fmupd n (f r) (db_batch db)\<rparr>))"

definition CloseBatchInStorage :: "ProcessingReceipt \<Rightarrow> stateDB \<Rightarrow> (StateError, stateDB) outcome" where
  "CloseBatchInStorage rt =
     updateBatch (rt_BatchNumber rt) (\<lambda>r. r\<lparr>br_root := Some (rt_StateRoot rt), br_ler := Some (rt_LocalExitRoot rt),
       br_acc := Some (rt_AccInputHash rt), br_raw := rt_BatchL2Data rt, br_resources := Some (rt_BatchResources rt),
       br_closing := Some (rt_ClosingReason rt), br_wip := False\<rparr>)"

definition CloseWIPBatchInStorage :: "ProcessingReceipt \<Rightarrow> stateDB \<Rightarrow> (StateError, stateDB) outcome" where
  "CloseWIPBatchInStorage rt =
     updateBatch (rt_BatchNumber rt) (\<lambda>r. r\<lparr>br_resources := Some (rt_BatchResources rt),
       br_closing := Some (rt_ClosingReason rt), br_wip := False\<rparr>)"

definition UpdateBatchL2Data :: "u64 \<Rightarrow> bytes \<Rightarrow> stateDB \<Rightarrow> (StateError, stateDB) outcome" where
  "UpdateBatchL2Data n data = updateBatch n (\<lambda>r. r\<lparr>br_raw := data\<rparr>)"

definition UpdateWIPBatch :: "ProcessingReceipt \<Rightarrow> stateDB \<Rightarrow> (StateError, stateDB) outcome" where
  "UpdateWIPBatch rt =
     updateBatch (rt_BatchNumber rt) (\<lambda>r. r\<lparr>br_raw := rt_BatchL2Data rt, br_root := Some (rt_StateRoot rt),
       br_ler := Some (rt_LocalExitRoot rt), br_acc := Some (rt_AccInputHash rt), br_resources := Some (rt_BatchResources rt)\<rparr>)"

definition AddAccumulatedInputHash :: "u64 \<Rightarrow> hash \<Rightarrow> stateDB \<Rightarrow> (StateError, stateDB) outcome" where
  "AddAccumulatedInputHash n acc = updateBatch n (\<lambda>r. r\<lparr>br_acc := Some acc\<rparr>)"

text \<open>A \<open>NULL\<close> root cannot be scanned into a string.\<close>

definition GetStateRootByBatchNumber :: "u64 \<Rightarrow> stateDB \<Rightarrow> (StateError, hash) outcome" where
  "GetStateRootByBatchNumber n db =
     (if \<not> int8 n then Err pgInt8Range
      else case fmlookup (db_batch db) n of
             None \<Rightarrow> Err ErrObjectNotFound
           | Some r \<Rightarrow> (case br_root r of None \<Rightarrow> Err pgScanColumns | Some h \<Rightarrow> Ok h))"

definition GetLocalExitRootByBatchNumber :: "u64 \<Rightarrow> stateDB \<Rightarrow> (StateError, hash) outcome" where
  "GetLocalExitRootByBatchNumber n db =
     (if \<not> int8 n then Err pgInt8Range
      else case fmlookup (db_batch db) n of
             None \<Rightarrow> Err ErrObjectNotFound
           | Some r \<Rightarrow> (case br_ler r of None \<Rightarrow> Err pgScanColumns | Some h \<Rightarrow> Ok h))"

subsection \<open>Virtual and verified batches, sequences\<close>

definition AddVirtualBatch :: "VirtualBatch \<Rightarrow> stateDB \<Rightarrow> (StateError, stateDB) outcome" where
  "AddVirtualBatch vb db =
     (if \<not> int8 (vb_BatchNumber vb) \<or> \<not> int8 (vb_BlockNumber vb) then Err pgInt8Range
      else if vb_BatchNumber vb |\<in>| fmdom (db_virtual db) then Err pgUniqueKey
      else if vb_BatchNumber vb |\<notin>| fmdom (db_batch db) \<or> vb_BlockNumber vb |\<notin>| fmdom (db_block db) then Err pgForeignKey
      else Ok (db\<lparr>db_virtual := fmupd (vb_BatchNumber vb)
             (vb\<lparr>vb_TimestampBatchEtrog := map_option pgTime (vb_TimestampBatchEtrog vb)\<rparr>) (db_virtual db)\<rparr>))"

definition GetVirtualBatch :: "u64 \<Rightarrow> stateDB \<Rightarrow> (StateError, VirtualBatch) outcome" where
  "GetVirtualBatch n db =
     (if \<not> int8 n then Err pgInt8Range
      else case fmlookup (db_virtual db) n of None \<Rightarrow> Err ErrObjectNotFound | Some v \<Rightarrow> Ok v)"

definition GetVirtualBatchByNumber :: "u64 \<Rightarrow> stateDB \<Rightarrow> (StateError, Batch) outcome" where
  "GetVirtualBatchByNumber n db =
     (if \<not> int8 n then Err pgInt8Range
      else if n |\<notin>| fmdom (db_virtual db) then Err ErrObjectNotFound
      else case fmlookup (db_batch db) n of None \<Rightarrow> Err ErrObjectNotFound | Some r \<Rightarrow> Ok (scanBatch n r))"

definition GetLastVirtualBatchNum :: "stateDB \<Rightarrow> (StateError, u64) outcome" where
  "GetLastVirtualBatchNum db = Ok (case lastKey (db_virtual db) of None \<Rightarrow> 0 | Some n \<Rightarrow> n)"

definition GetTimeForLatestBatchVirtualization :: "stateDB \<Rightarrow> (StateError, time) outcome" where
  "GetTimeForLatestBatchVirtualization db =
     (case lastKey (db_virtual db) of
        None \<Rightarrow> Err ErrObjectNotFound
      | Some n \<Rightarrow>
          (case fmlookup (db_block db) (vb_BlockNumber (the (fmlookup (db_virtual db) n))) of
             None \<Rightarrow> Err ErrObjectNotFound
           | Some b \<Rightarrow> Ok (blk_ReceivedAt b)))"

definition GetBlockNumVirtualBatchByBatchNum :: "u64 \<Rightarrow> stateDB \<Rightarrow> (StateError, u64) outcome" where
  "GetBlockNumVirtualBatchByBatchNum n db =
     (if \<not> int8 n then Err pgInt8Range
      else case fmlookup (db_virtual db) n of None \<Rightarrow> Err ErrObjectNotFound | Some v \<Rightarrow> Ok (vb_BlockNumber v))"

definition IsBatchVirtualized :: "u64 \<Rightarrow> stateDB \<Rightarrow> (StateError, bool) outcome" where
  "IsBatchVirtualized n db = (if \<not> int8 n then Err pgInt8Range else Ok (n |\<in>| fmdom (db_virtual db)))"

definition IsSequencingTXSynced :: "hash \<Rightarrow> stateDB \<Rightarrow> (StateError, bool) outcome" where
  "IsSequencingTXSynced h db = Ok (fBex (fmran (db_virtual db)) (\<lambda>v. vb_TxHash v = h))"

definition GetRawBatchTimestamps :: "u64 \<Rightarrow> stateDB \<Rightarrow> (StateError, time option \<times> time option) outcome" where
  "GetRawBatchTimestamps n db =
     (if \<not> int8 n then Err pgInt8Range
      else case fmlookup (db_batch db) n of
             None \<Rightarrow> Ok (None, None)
           | Some r \<Rightarrow> Ok (Some (br_timestamp r),
               case fmlookup (db_virtual db) n of None \<Rightarrow> None | Some v \<Rightarrow> vb_TimestampBatchEtrog v))"

definition AddVerifiedBatch :: "VerifiedBatch \<Rightarrow> stateDB \<Rightarrow> (StateError, stateDB) outcome" where
  "AddVerifiedBatch vf db =
     (if \<not> int8 (vf_BatchNumber vf) \<or> \<not> int8 (vf_BlockNumber vf) then Err pgInt8Range
      else if vf_BatchNumber vf |\<in>| fmdom (db_verified db) then Err pgUniqueKey
      else if vf_BatchNumber vf |\<notin>| fmdom (db_virtual db) \<or> vf_BlockNumber vf |\<notin>| fmdom (db_block db) then Err pgForeignKey
      else Ok (db\<lparr>db_verified := fmupd (vf_BatchNumber vf) vf (db_verified db)\<rparr>))"

definition GetVerifiedBatch :: "u64 \<Rightarrow> stateDB \<Rightarrow> (StateError, VerifiedBatch) outcome" where
  "GetVerifiedBatch n db =
     (if \<not> int8 n then Err pgInt8Range
      else case fmlookup (db_verified db) n of None \<Rightarrow> Err ErrObjectNotFound | Some v \<Rightarrow> Ok v)"

definition IsBatchConsolidated :: "u64 \<Rightarrow> stateDB \<Rightarrow> (StateError, bool) outcome" where
  "IsBatchConsolidated n db = (if \<not> int8 n then Err pgInt8Range else Ok (n |\<in>| fmdom (db_verified db)))"

text \<open>The query does not select the state root and the trusted flag, which keep their zero values.\<close>

definition GetLastVerifiedBatch :: "stateDB \<Rightarrow> (StateError, VerifiedBatch) outcome" where
  "GetLastVerifiedBatch db =
     (case lastKey (db_verified db) of
        None \<Rightarrow> Err ErrObjectNotFound
      | Some n \<Rightarrow> Ok ((the (fmlookup (db_verified db) n))\<lparr>vf_StateRoot := 0, vf_IsTrusted := False\<rparr>))"

definition GetLastVerifiedBatchNumberUntilL1Block :: "u64 \<Rightarrow> stateDB \<Rightarrow> (StateError, u64) outcome" where
  "GetLastVerifiedBatchNumberUntilL1Block n db =
     (if \<not> int8 n then Err pgInt8Range
      else case lastKey (fmkeep (\<lambda>_ v. vf_BlockNumber v \<le> n) (db_verified db)) of
             None \<Rightarrow> Err ErrObjectNotFound | Some b \<Rightarrow> Ok b)"

definition AddSequence :: "u64 \<Rightarrow> u64 \<Rightarrow> stateDB \<Rightarrow> (StateError, stateDB) outcome" where
  "AddSequence fromBatch toBatch db =
     (if \<not> int8 fromBatch \<or> \<not> int8 toBatch then Err pgInt8Range
      else if fromBatch |\<notin>| fmdom (db_batch db) \<or> toBatch |\<notin>| fmdom (db_batch db) then Err pgForeignKey
      else Ok (db\<lparr>db_sequences := fmupd fromBatch toBatch (db_sequences db)\<rparr>))"

definition GetSequences :: "u64 \<Rightarrow> stateDB \<Rightarrow> (StateError, (u64 \<times> u64) list) outcome" where
  "GetSequences n db =
     (if \<not> int8 n then Err pgInt8Range
      else Ok (map (\<lambda>f. (f, the (fmlookup (db_sequences db) f)))
                 (sorted_list_of_fset (ffilter (\<lambda>f. n \<le> f) (fmdom (db_sequences db))))))"

subsection \<open>Proofs\<close>

definition completeSequences :: "u64 \<Rightarrow> u64 \<Rightarrow> stateDB \<Rightarrow> bool" where
  "completeSequences b bf db \<longleftrightarrow> b |\<in>| fmdom (db_sequences db) \<and> bf |\<in>| fmran (db_sequences db)"

definition CheckProofContainsCompleteSequences :: "Proof \<Rightarrow> stateDB \<Rightarrow> (StateError, bool) outcome" where
  "CheckProofContainsCompleteSequences p db =
     (if \<not> int8 (pf_BatchNumber p) \<or> \<not> int8 (pf_BatchNumberFinal p) then Err pgInt8Range
      else Ok (completeSequences (pf_BatchNumber p) (pf_BatchNumberFinal p) db))"

text \<open>The first of the rows in the order of the key; SQL leaves the choice open.\<close>

definition firstRow :: "('k :: linorder, 'v) fmap \<Rightarrow> 'v option" where
  "firstRow m = (case sorted_list_of_fset (fmdom m) of [] \<Rightarrow> None | k # _ \<Rightarrow> fmlookup m k)"

definition GetProofReadyToVerify :: "u64 \<Rightarrow> stateDB \<Rightarrow> (StateError, Proof) outcome" where
  "GetProofReadyToVerify lastVerified db =
     (if \<not> int8 (lastVerified + 1) then Err pgInt8Range
      else case firstRow (fmkeep (\<lambda>(b, bf) p. b = lastVerified + 1 \<and> pf_GeneratingSince p = None \<and> completeSequences b bf db) (db_proof db)) of
             None \<Rightarrow> Err ErrObjectNotFound | Some p \<Rightarrow> Ok p)"

text \<open>
  The condition of the join in \<open>GetProofsToAggregate\<close>: adjacent, unlocked, and inside one sequence or
  both complete.  The proof column is never \<open>NULL\<close>: it is written from a Go string.
\<close>

definition bothInOneSequence :: "u64 \<times> u64 \<Rightarrow> u64 \<times> u64 \<Rightarrow> stateDB \<Rightarrow> bool" where
  "bothInOneSequence k1 k2 db \<longleftrightarrow>
     fBex (fmdom (db_sequences db)) (\<lambda>f. let t = the (fmlookup (db_sequences db) f) in
       f \<le> fst k1 \<and> fst k1 \<le> t \<and> f \<le> snd k1 \<and> snd k1 \<le> t \<and> f \<le> fst k2 \<and> fst k2 \<le> t \<and> f \<le> snd k2 \<and> snd k2 \<le> t)"

definition aggregatable :: "stateDB \<Rightarrow> u64 \<times> u64 \<Rightarrow> u64 \<times> u64 \<Rightarrow> bool" where
  "aggregatable db k1 k2 \<longleftrightarrow>
     (case (fmlookup (db_proof db) k1, fmlookup (db_proof db) k2) of
        (Some p1, Some p2) \<Rightarrow>
          uint (snd k1) = uint (fst k2) - 1 \<and> pf_GeneratingSince p1 = None \<and> pf_GeneratingSince p2 = None \<and>
          (bothInOneSequence k1 k2 db \<or>
           (completeSequences (fst k1) (snd k1) db \<and> completeSequences (fst k2) (snd k2) db))
      | _ \<Rightarrow> False)"

definition GetProofsToAggregate :: "stateDB \<Rightarrow> (StateError, Proof \<times> Proof) outcome" where
  "GetProofsToAggregate db =
     (let keys = sorted_list_of_fset (fmdom (db_proof db));
          pairs = filter (\<lambda>(k1, k2). aggregatable db k1 k2) (List.product keys keys)
      in case pairs of
           [] \<Rightarrow> Err ErrObjectNotFound
         | (k1, k2) # _ \<Rightarrow> Ok (the (fmlookup (db_proof db) k1), the (fmlookup (db_proof db) k2)))"

definition coveredByProof :: "u64 \<Rightarrow> stateDB \<Rightarrow> bool" where
  "coveredByProof n db \<longleftrightarrow> fBex (fmdom (db_proof db)) (\<lambda>(b, bf). b \<le> n \<and> n \<le> bf)"

definition GetVirtualBatchToProve :: "u64 \<Rightarrow> stateDB \<Rightarrow> (StateError, Batch) outcome" where
  "GetVirtualBatchToProve lastVerified db =
     (if \<not> int8 lastVerified then Err pgInt8Range
      else case sorted_list_of_fset (ffilter (\<lambda>b. lastVerified < b \<and> b |\<in>| fmdom (db_virtual db) \<and> \<not> coveredByProof b db) (fmdom (db_batch db))) of
             [] \<Rightarrow> Err ErrObjectNotFound
           | n # _ \<Rightarrow> Ok (scanBatch n (the (fmlookup (db_batch db) n))))"

definition AddGeneratedProof :: "time \<Rightarrow> Proof \<Rightarrow> stateDB \<Rightarrow> (StateError, stateDB) outcome" where
  "AddGeneratedProof now p db =
     (let k = (pf_BatchNumber p, pf_BatchNumberFinal p)
      in if \<not> int8 (fst k) \<or> \<not> int8 (snd k) then Err pgInt8Range
         else if k |\<in>| fmdom (db_proof db) then Err pgUniqueKey
         else if fst k |\<notin>| fmdom (db_batch db) \<or> snd k |\<notin>| fmdom (db_batch db) then Err pgForeignKey
         else Ok (db\<lparr>db_proof := fmupd k (p\<lparr>pf_GeneratingSince := map_option pgTime (pf_GeneratingSince p),
                pf_CreatedAt := pgTime now, pf_UpdatedAt := pgTime now\<rparr>) (db_proof db)\<rparr>))"

definition UpdateGeneratedProof :: "time \<Rightarrow> Proof \<Rightarrow> stateDB \<Rightarrow> (StateError, stateDB) outcome" where
  "UpdateGeneratedProof now p db =
     (let k = (pf_BatchNumber p, pf_BatchNumberFinal p)
      in if \<not> int8 (fst k) \<or> \<not> int8 (snd k) then Err pgInt8Range
         else case fmlookup (db_proof db) k of
                None \<Rightarrow> Ok db
              | Some q \<Rightarrow> Ok (db\<lparr>db_proof := fmupd k (p\<lparr>pf_GeneratingSince := map_option pgTime (pf_GeneratingSince p),
                  pf_CreatedAt := pf_CreatedAt q, pf_UpdatedAt := pgTime now\<rparr>) (db_proof db)\<rparr>))"

definition DeleteGeneratedProofs :: "u64 \<Rightarrow> u64 \<Rightarrow> stateDB \<Rightarrow> (StateError, stateDB) outcome" where
  "DeleteGeneratedProofs b bf db =
     (if \<not> int8 b \<or> \<not> int8 bf then Err pgInt8Range
      else Ok (db\<lparr>db_proof := fmfilter (\<lambda>(p, pf). \<not> (b \<le> p \<and> pf \<le> bf)) (db_proof db)\<rparr>))"

definition CleanupGeneratedProofs :: "u64 \<Rightarrow> stateDB \<Rightarrow> (StateError, stateDB) outcome" where
  "CleanupGeneratedProofs n db =
     (if \<not> int8 n then Err pgInt8Range
      else Ok (db\<lparr>db_proof := fmfilter (\<lambda>(p, pf). \<not> pf \<le> n) (db_proof db)\<rparr>))"

text \<open>The text of the interval is read by the database; an unknown unit is refused before that.\<close>

definition toPostgresInterval :: "string \<Rightarrow> (StateError, string) outcome" where
  "toPostgresInterval duration =
     (if duration = [] then Panic
      else (let unit = last duration;
                name = (if unit = CHR ''s'' then Some ''second''
                        else if unit = CHR ''m'' then Some ''minute''
                        else if unit = CHR ''h'' then Some ''hour'' else None);
                plural = (hd duration \<noteq> CHR ''1'' \<or> length duration > 2)
            in case name of
                 None \<Rightarrow> Err ErrUnsupportedDuration
               | Some u \<Rightarrow> Ok (butlast duration @ '' '' @ (if plural then u @ ''s'' else u))))"

definition CleanupLockedProofs :: "(string \<Rightarrow> duration) \<Rightarrow> time \<Rightarrow> string \<Rightarrow> stateDB \<Rightarrow> (StateError, stateDB) outcome" where
  "CleanupLockedProofs interval now duration db =
     bind_outcome (toPostgresInterval duration) (\<lambda>text.
     Ok (db\<lparr>db_proof := fmkeep (\<lambda>_ p. case pf_GeneratingSince p of None \<Rightarrow> True | Some t \<Rightarrow> \<not> t < now - interval text) (db_proof db)\<rparr>))"

definition DeleteUngeneratedProofs :: "stateDB \<Rightarrow> (StateError, stateDB) outcome" where
  "DeleteUngeneratedProofs db = Ok (db\<lparr>db_proof := fmkeep (\<lambda>_ p. pf_GeneratingSince p = None) (db_proof db)\<rparr>)"

subsection \<open>Resets\<close>

text \<open>Deleting L1 blocks and batches, with the cascading references of the schema.\<close>

definition deleteBlocks :: "(u64 \<Rightarrow> bool) \<Rightarrow> stateDB \<Rightarrow> (StateError, stateDB) outcome" where
  "deleteBlocks K db =
     (let forced = fmkeep (\<lambda>_ r. \<not> K (fr_block r)) (db_forced db);
          virtual = fmkeep (\<lambda>_ v. \<not> K (vb_BlockNumber v)) (db_virtual db);
          verified = fmkeep (\<lambda>b v. \<not> K (vf_BlockNumber v) \<and> b |\<in>| fmdom virtual) (db_verified db)
      in if fBex (fmran (db_batch db)) (\<lambda>r. case br_forced r of None \<Rightarrow> False | Some f \<Rightarrow> f |\<notin>| fmdom forced)
         then Err pgForeignKey
         else Ok (db\<lparr>db_block := fmfilter (\<lambda>n. \<not> K n) (db_block db), db_forced := forced, db_virtual := virtual,
                db_verified := verified\<rparr>))"

definition deleteBatches :: "(u64 \<Rightarrow> bool) \<Rightarrow> stateDB \<Rightarrow> stateDB" where
  "deleteBatches K db =
     db\<lparr>db_batch := fmfilter (\<lambda>b. \<not> K b) (db_batch db), db_virtual := fmfilter (\<lambda>b. \<not> K b) (db_virtual db),
        db_verified := fmfilter (\<lambda>b. \<not> K b) (db_verified db),
        db_sequences := fmkeep (\<lambda>f t. \<not> K f \<and> \<not> K t) (db_sequences db),
        db_proof := fmfilter (\<lambda>(b, bf). \<not> K b \<and> \<not> K bf) (db_proof db)\<rparr>"

definition resetDB :: "u64 \<Rightarrow> stateDB \<Rightarrow> (StateError, stateDB) outcome" where
  "resetDB blockNumber db = (if \<not> int8 blockNumber then Err pgInt8Range else deleteBlocks (\<lambda>n. blockNumber < n) db)"

definition ResetTrustedState :: "u64 \<Rightarrow> stateDB \<Rightarrow> (StateError, stateDB) outcome" where
  "ResetTrustedState batchNumber db =
     (if \<not> int8 batchNumber then Err pgInt8Range else Ok (deleteBatches (\<lambda>b. batchNumber < b) db))"

definition ResetForkID :: "u64 \<Rightarrow> stateDB \<Rightarrow> (StateError, stateDB) outcome" where
  "ResetForkID batchNumber db =
     (if \<not> int8 batchNumber then Err pgInt8Range
      else (let blocks = (\<lambda>v. vb_BlockNumber v) |`| fmran (fmfilter (\<lambda>b. batchNumber \<le> b) (db_virtual db))
            in bind_outcome (if blocks = {||} then Ok db else deleteBlocks (\<lambda>n. fMin blocks \<le> n) db) (\<lambda>db1.
               bind_outcome (ResetTrustedState (batchNumber - 1) db1) (\<lambda>db2.
               Ok (db2\<lparr>db_proof := fmfilter (\<lambda>(b, bf). \<not> (batchNumber \<le> b \<or> (b \<le> batchNumber \<and> batchNumber \<le> bf))) (db_proof db2)\<rparr>)))))"

end
