(* ===== verification/StateBatch.thy ===== *)
theory StateBatch
  imports StateDB
begin

text \<open>
  The operations of \<open>state/batch.go\<close> on the batch tables, and what every history of operations keeps:
  the references of the schema, and the chain of batches.
\<close>

subsection \<open>Opening and closing batches\<close>

text \<open>
  The functions read several times and write once.  A connection error at any of the statements
  ends the function with that error and without a change.
\<close>

definition checkNextBatch :: "u64 \<Rightarrow> time \<Rightarrow> stateDB \<Rightarrow> (StateError, unit) outcome" where
  "checkNextBatch n timestamp db =
     bind_outcome (GetLastBatchNumber db) (\<lambda>lastBatchNum.
     if lastBatchNum + 1 \<noteq> n then Err ErrUnexpectedBatch
     else bind_outcome (IsBatchClosed lastBatchNum db) (\<lambda>closed.
     if \<not> closed then Err ErrLastBatchShouldBeClosed
     else bind_outcome (GetLastBatchTime db) (\<lambda>prevTimestamp.
     if unix prevTimestamp > unix timestamp then Err ErrTimestampGE else Ok ())))"

definition OpenBatch :: "bool \<Rightarrow> ProcessingContext \<Rightarrow> stateDB \<Rightarrow> (StateError, stateDB) outcome" where
  "OpenBatch dbTx pc db =
     (if \<not> dbTx then Err ErrDBTxNil
      else bind_outcome (checkNextBatch (pc_BatchNumber pc) (pc_Timestamp pc) db) (\<lambda>_. OpenBatchInStorage pc db))"

definition OpenWIPBatch :: "bool \<Rightarrow> Batch \<Rightarrow> stateDB \<Rightarrow> (StateError, stateDB) outcome" where
  "OpenWIPBatch dbTx batch db =
     (if \<not> dbTx then Err ErrDBTxNil
      else bind_outcome (checkNextBatch (bt_BatchNumber batch) (bt_Timestamp batch) db) (\<lambda>_. OpenWIPBatchInStorage batch db))"

definition isBatchClosable :: "ProcessingReceipt \<Rightarrow> stateDB \<Rightarrow> (StateError, unit) outcome" where
  "isBatchClosable rt db =
     bind_outcome (GetLastBatchNumber db) (\<lambda>lastBatchNum.
     if lastBatchNum \<noteq> rt_BatchNumber rt then Err ErrUnexpectedBatch
     else bind_outcome (IsBatchClosed lastBatchNum db) (\<lambda>closed.
     if closed then Err ErrBatchAlreadyClosed else Ok ()))"

definition CloseBatch :: "bool \<Rightarrow> ProcessingReceipt \<Rightarrow> stateDB \<Rightarrow> (StateError, stateDB) outcome" where
  "CloseBatch dbTx rt db =
     (if \<not> dbTx then Err ErrDBTxNil else bind_outcome (isBatchClosable rt db) (\<lambda>_. CloseBatchInStorage rt db))"

definition CloseWIPBatch :: "ProcessingReceipt \<Rightarrow> stateDB \<Rightarrow> (StateError, stateDB) outcome" where
  "CloseWIPBatch rt db = CloseWIPBatchInStorage rt db"

definition GetLastBatch :: "stateDB \<Rightarrow> (StateError, Batch) outcome" where
  "GetLastBatch db =
     bind_outcome (GetLastNBatches 1 db) (\<lambda>batches. case batches of [] \<Rightarrow> Err ErrObjectNotFound | b # _ \<Rightarrow> Ok b)"

definition FORKID_ETROG :: u64 where "FORKID_ETROG = 7"

definition GetBatchTimestamp :: "(u64 \<Rightarrow> u64) \<Rightarrow> u64 \<Rightarrow> u64 option \<Rightarrow> stateDB \<Rightarrow> (StateError, time option) outcome" where
  "GetBatchTimestamp forkIDByBatch n forcedForkId db =
     (let forkid = (case forcedForkId of Some f \<Rightarrow> f | None \<Rightarrow> forkIDByBatch n)
      in bind_outcome (GetRawBatchTimestamps n db) (\<lambda>(batchTimestamp, virtualTimestamp).
         Ok (if forkid \<ge> FORKID_ETROG then virtualTimestamp else batchTimestamp)))"

subsection \<open>Histories\<close>

text \<open>The operations of the node that change these tables.\<close>

datatype dbOp =
    opAddBlock Block | opAddForcedBatch ForcedBatch | opStoreGenesisBatch Batch
  | opOpenBatch bool ProcessingContext | opOpenWIPBatch bool Batch | opCloseBatch bool ProcessingReceipt
  | opCloseWIPBatch ProcessingReceipt | opCloseBatchInStorage ProcessingReceipt
  | opUpdateBatchL2Data u64 bytes | opUpdateWIPBatch ProcessingReceipt | opAddAccumulatedInputHash u64 hash
  | opAddVirtualBatch VirtualBatch | opAddVerifiedBatch VerifiedBatch | opAddSequence u64 u64
  | opAddGeneratedProof time Proof | opUpdateGeneratedProof time Proof | opDeleteGeneratedProofs u64 u64
  | opCleanupGeneratedProofs u64 | opCleanupLockedProofs "string \<Rightarrow> duration" time string | opDeleteUngeneratedProofs
  | opReset u64 | opResetTrustedState u64 | opResetForkID u64

fun dbExec :: "dbOp \<Rightarrow> stateDB \<Rightarrow> (StateError, stateDB) outcome" where
  "dbExec (opAddBlock b) = AddBlock b"
| "dbExec (opAddForcedBatch fb) = AddForcedBatch fb"
| "dbExec (opStoreGenesisBatch b) = StoreGenesisBatch b"
| "dbExec (opOpenBatch dbTx pc) = OpenBatch dbTx pc"
| "dbExec (opOpenWIPBatch dbTx b) = OpenWIPBatch dbTx b"
| "dbExec (opCloseBatch dbTx rt) = CloseBatch dbTx rt"
| "dbExec (opCloseWIPBatch rt) = CloseWIPBatch rt"
| "dbExec (opCloseBatchInStorage rt) = CloseBatchInStorage rt"
| "dbExec (opUpdateBatchL2Data n data) = UpdateBatchL2Data n data"
| "dbExec (opUpdateWIPBatch rt) = UpdateWIPBatch rt"
| "dbExec (opAddAccumulatedInputHash n acc) = AddAccumulatedInputHash n acc"
| "dbExec (opAddVirtualBatch vb) = AddVirtualBatch vb"
| "dbExec (opAddVerifiedBatch vf) = AddVerifiedBatch vf"
| "dbExec (opAddSequence f t) = AddSequence f t"
| "dbExec (opAddGeneratedProof now p) = AddGeneratedProof now p"
| "dbExec (opUpdateGeneratedProof now p) = UpdateGeneratedProof now p"
| "dbExec (opDeleteGeneratedProofs b bf) = DeleteGeneratedProofs b bf"
| "dbExec (opCleanupGeneratedProofs n) = CleanupGeneratedProofs n"
| "dbExec (opCleanupLockedProofs iv now d) = CleanupLockedProofs iv now d"
| "dbExec opDeleteUngeneratedProofs = DeleteUngeneratedProofs"
| "dbExec (opReset n) = resetDB n"
| "dbExec (opResetTrustedState n) = ResetTrustedState n"
| "dbExec (opResetForkID n) = ResetForkID n"

text \<open>A statement that fails changes nothing.\<close>

fun dbRun :: "dbOp list \<Rightarrow> stateDB \<Rightarrow> stateDB" where
  "dbRun [] db = db"
| "dbRun (p # ps) db = dbRun ps (case dbExec p db of Ok db' \<Rightarrow> db' | _ \<Rightarrow> db)"

lemma dbRun_invariant:
  assumes "\<And>p db db'. I db \<Longrightarrow> dbExec p db = Ok db' \<Longrightarrow> I db'" and "I db"
  shows "I (dbRun ps db)"
  using assms(2) by (induction ps arbitrary: db) (auto split: outcome.split intro: assms(1))

subsection \<open>References\<close>

lemma fmlookup_fmkeep [simp]:
  "fmlookup (fmkeep P m) k = (case fmlookup m k of None \<Rightarrow> None | Some v \<Rightarrow> if P k v then Some v else None)"
  by (simp add: fmkeep_def split: option.split)

lemma in_fmdom: "k |\<in>| fmdom m \<longleftrightarrow> (\<exists>v. fmlookup m k = Some v)"
  by (auto simp: fmlookup_dom_iff)

definition db_ok :: "stateDB \<Rightarrow> bool" where
  "db_ok db \<longleftrightarrow>
     (\<forall>k b. fmlookup (db_block db) k = Some b \<longrightarrow> int8 k \<and> blk_BlockNumber b = k) \<and>
     (\<forall>k r. fmlookup (db_forced db) k = Some r \<longrightarrow> int8 k \<and> fr_block r |\<in>| fmdom (db_block db) \<and> (\<exists>raw. DecodeString (fr_raw r) = Inr raw)) \<and>
     (\<forall>k r. fmlookup (db_batch db) k = Some r \<longrightarrow> int8 k \<and> (\<forall>f. br_forced r = Some f \<longrightarrow> f |\<in>| fmdom (db_forced db))) \<and>
     (\<forall>k v. fmlookup (db_virtual db) k = Some v \<longrightarrow>
        vb_BatchNumber v = k \<and> k |\<in>| fmdom (db_batch db) \<and> vb_BlockNumber v |\<in>| fmdom (db_block db)) \<and>
     (\<forall>k v. fmlookup (db_verified db) k = Some v \<longrightarrow>
        vf_BatchNumber v = k \<and> k |\<in>| fmdom (db_virtual db) \<and> vf_BlockNumber v |\<in>| fmdom (db_block db)) \<and>
     (\<forall>f t. fmlookup (db_sequences db) f = Some t \<longrightarrow> f |\<in>| fmdom (db_batch db) \<and> t |\<in>| fmdom (db_batch db)) \<and>
     (\<forall>b bf p. fmlookup (db_proof db) (b, bf) = Some p \<longrightarrow>
        pf_BatchNumber p = b \<and> pf_BatchNumberFinal p = bf \<and> b |\<in>| fmdom (db_batch db) \<and> bf |\<in>| fmdom (db_batch db))"

lemma db_okD:
  assumes "db_ok db"
  shows "fmlookup (db_block db) k = Some b \<Longrightarrow> int8 k \<and> blk_BlockNumber b = k"
    "fmlookup (db_forced db) k = Some r \<Longrightarrow> int8 k \<and> fr_block r |\<in>| fmdom (db_block db) \<and> (\<exists>raw. DecodeString (fr_raw r) = Inr raw)"
    "fmlookup (db_batch db) k = Some q \<Longrightarrow> int8 k"
    "fmlookup (db_batch db) k = Some q \<Longrightarrow> br_forced q = Some f \<Longrightarrow> f |\<in>| fmdom (db_forced db)"
    "fmlookup (db_virtual db) k = Some v \<Longrightarrow> vb_BatchNumber v = k \<and> k |\<in>| fmdom (db_batch db) \<and> vb_BlockNumber v |\<in>| fmdom (db_block db)"
    "fmlookup (db_verified db) k = Some w \<Longrightarrow> vf_BatchNumber w = k \<and> k |\<in>| fmdom (db_virtual db) \<and> vf_BlockNumber w |\<in>| fmdom (db_block db)"
    "fmlookup (db_sequences db) f = Some t \<Longrightarrow> f |\<in>| fmdom (db_batch db) \<and> t |\<in>| fmdom (db_batch db)"
    "fmlookup (db_proof db) (c, cf) = Some p \<Longrightarrow>
       pf_BatchNumber p = c \<and> pf_BatchNumberFinal p = cf \<and> c |\<in>| fmdom (db_batch db) \<and> cf |\<in>| fmdom (db_batch db)"
  using assms unfolding db_ok_def by blast+

lemma db_okI:
  assumes "\<And>k b. fmlookup (db_block db) k = Some b \<Longrightarrow> int8 k \<and> blk_BlockNumber b = k"
    "\<And>k r. fmlookup (db_forced db) k = Some r \<Longrightarrow> int8 k \<and> fr_block r |\<in>| fmdom (db_block db) \<and> (\<exists>raw. DecodeString (fr_raw r) = Inr raw)"
    "\<And>k q. fmlookup (db_batch db) k = Some q \<Longrightarrow> int8 k"
    "\<And>k q f. fmlookup (db_batch db) k = Some q \<Longrightarrow> br_forced q = Some f \<Longrightarrow> f |\<in>| fmdom (db_forced db)"
    "\<And>k v. fmlookup (db_virtual db) k = Some v \<Longrightarrow>
       vb_BatchNumber v = k \<and> k |\<in>| fmdom (db_batch db) \<and> vb_BlockNumber v |\<in>| fmdom (db_block db)"
    "\<And>k w. fmlookup (db_verified db) k = Some w \<Longrightarrow>
       vf_BatchNumber w = k \<and> k |\<in>| fmdom (db_virtual db) \<and> vf_BlockNumber w |\<in>| fmdom (db_block db)"
    "\<And>f t. fmlookup (db_sequences db) f = Some t \<Longrightarrow> f |\<in>| fmdom (db_batch db) \<and> t |\<in>| fmdom (db_batch db)"
    "\<And>c cf p. fmlookup (db_proof db) (c, cf) = Some p \<Longrightarrow>
       pf_BatchNumber p = c \<and> pf_BatchNumberFinal p = cf \<and> c |\<in>| fmdom (db_batch db) \<and> cf |\<in>| fmdom (db_batch db)"
  shows "db_ok db"
  unfolding db_ok_def using assms by blast

lemma db_ok_empty: "db_ok emptyDB"
  by (simp add: db_ok_def emptyDB_def)

text \<open>New rows and changed rows.\<close>

lemma db_ok_block:
  assumes ok: "db_ok db" and row: "int8 n" "blk_BlockNumber b = n"
  shows "db_ok (db\<lparr>db_block := fmupd n b (db_block db)\<rparr>)"
  by (rule db_okI) (auto simp: row dest: db_okD[OF ok] split: if_splits)

lemma db_ok_forced:
  assumes ok: "db_ok db" and row: "int8 n" "fr_block r |\<in>| fmdom (db_block db)" "DecodeString (fr_raw r) = Inr raw"
  shows "db_ok (db\<lparr>db_forced := fmupd n r (db_forced db)\<rparr>)"
  by (rule db_okI) (auto simp: row dest: db_okD[OF ok] split: if_splits)

lemma db_ok_batch:
  assumes ok: "db_ok db" and row: "int8 n" "\<And>f. br_forced r = Some f \<Longrightarrow> f |\<in>| fmdom (db_forced db)"
  shows "db_ok (db\<lparr>db_batch := fmupd n r (db_batch db)\<rparr>)"
  by (rule db_okI) (auto simp: row dest: db_okD[OF ok] split: if_splits)

lemma db_ok_virtual:
  assumes ok: "db_ok db" and row: "vb_BatchNumber v = n" "n |\<in>| fmdom (db_batch db)" "vb_BlockNumber v |\<in>| fmdom (db_block db)"
  shows "db_ok (db\<lparr>db_virtual := fmupd n v (db_virtual db)\<rparr>)"
  by (rule db_okI) (auto simp: row dest: db_okD[OF ok] split: if_splits)

lemma db_ok_verified:
  assumes ok: "db_ok db" and row: "vf_BatchNumber v = n" "n |\<in>| fmdom (db_virtual db)" "vf_BlockNumber v |\<in>| fmdom (db_block db)"
  shows "db_ok (db\<lparr>db_verified := fmupd n v (db_verified db)\<rparr>)"
  by (rule db_okI) (auto simp: row dest: db_okD[OF ok] split: if_splits)

lemma db_ok_sequences:
  assumes ok: "db_ok db" and row: "f |\<in>| fmdom (db_batch db)" "t |\<in>| fmdom (db_batch db)"
  shows "db_ok (db\<lparr>db_sequences := fmupd f t (db_sequences db)\<rparr>)"
  by (rule db_okI) (auto simp: row dest: db_okD[OF ok] split: if_splits)

lemma db_ok_proofs:
  assumes ok: "db_ok db" and rows: "\<And>b bf p. fmlookup m (b, bf) = Some p \<Longrightarrow>
      pf_BatchNumber p = b \<and> pf_BatchNumberFinal p = bf \<and> b |\<in>| fmdom (db_batch db) \<and> bf |\<in>| fmdom (db_batch db)"
  shows "db_ok (db\<lparr>db_proof := m\<rparr>)"
  by (rule db_okI) (auto dest: rows db_okD[OF ok])

lemma insertBatch_ok: "db_ok db \<Longrightarrow> insertBatch n r db = Ok db' \<Longrightarrow> db_ok db'"
  by (auto simp: insertBatch_def split: if_splits option.splits intro!: db_ok_batch)

lemma updateBatch_ok:
  assumes "db_ok db" "updateBatch n f db = Ok db'" "\<And>r. br_forced (f r) = br_forced r"
  shows "db_ok db'"
  using assms db_okD(4)[OF assms(1)]
  by (auto simp: updateBatch_def split: if_splits option.splits intro!: db_ok_batch)

lemma deleteBlocks_ok:
  assumes ok: "db_ok db" and del: "deleteBlocks K db = Ok db'"
  shows "db_ok db'"
proof -
  let ?forced = "fmkeep (\<lambda>_ r. \<not> K (fr_block r)) (db_forced db)"
  let ?virtual = "fmkeep (\<lambda>_ v. \<not> K (vb_BlockNumber v)) (db_virtual db)"
  let ?verified = "fmkeep (\<lambda>b v. \<not> K (vf_BlockNumber v) \<and> b |\<in>| fmdom ?virtual) (db_verified db)"
  have db': "db' = db\<lparr>db_block := fmfilter (\<lambda>n. \<not> K n) (db_block db), db_forced := ?forced, db_virtual := ?virtual,
      db_verified := ?verified\<rparr>"
    and none: "\<not> fBex (fmran (db_batch db)) (\<lambda>r. case br_forced r of None \<Rightarrow> False | Some f \<Rightarrow> f |\<notin>| fmdom ?forced)"
    using del by (auto simp: deleteBlocks_def Let_def split: if_splits)
  have "f |\<in>| fmdom ?forced" if "fmlookup (db_batch db) k = Some r" "br_forced r = Some f" for k r f
    using none that by (force intro: fmranI)
  then show ?thesis
    using ok unfolding db_ok_def db' by (auto simp: in_fmdom split: option.splits if_splits)
qed

lemma deleteBatches_ok: "db_ok db \<Longrightarrow> db_ok (deleteBatches K db)"
  unfolding db_ok_def deleteBatches_def by (auto simp: in_fmdom split: option.splits if_splits)

lemma ResetForkID_ok:
  assumes "db_ok db" "ResetForkID n db = Ok db'"
  shows "db_ok db'"
proof -
  obtain db1 where "db_ok db1" "db' =
      (deleteBatches (\<lambda>b. n - 1 < b) db1)\<lparr>db_proof := fmfilter (\<lambda>(b, bf). \<not> (n \<le> b \<or> (b \<le> n \<and> n \<le> bf)))
        (db_proof (deleteBatches (\<lambda>b. n - 1 < b) db1))\<rparr>"
    using assms by (auto simp: ResetForkID_def ResetTrustedState_def Let_def split: if_splits intro: deleteBlocks_ok)
  then show ?thesis
    using deleteBatches_ok[of db1 "\<lambda>b. n - 1 < b"] by (auto intro!: db_ok_proofs dest: db_okD(8) split: if_splits)
qed

lemma db_ok_step:
  assumes ok: "db_ok db" and op: "dbExec p db = Ok db'"
  shows "db_ok db'"
proof (cases p)
  case (opAddBlock b)
  then show ?thesis using op by (auto simp: AddBlock_def split: if_splits intro!: db_ok_block[OF ok])
next
  case (opAddForcedBatch fb)
  then show ?thesis using op by (auto simp: AddForcedBatch_def split: if_splits intro!: db_ok_forced[OF ok])
next
  case (opStoreGenesisBatch b)
  then show ?thesis using assms
    by (auto simp: StoreGenesisBatch_def int8_def split: if_splits option.splits intro!: db_ok_batch)
next
  case (opAddVirtualBatch vb)
  then show ?thesis using op by (auto simp: AddVirtualBatch_def split: if_splits intro!: db_ok_virtual[OF ok])
next
  case (opAddVerifiedBatch vf)
  then show ?thesis using op by (auto simp: AddVerifiedBatch_def split: if_splits intro!: db_ok_verified[OF ok])
next
  case (opAddSequence f t)
  then show ?thesis using op by (auto simp: AddSequence_def split: if_splits intro!: db_ok_sequences[OF ok])
next
  case (opAddGeneratedProof now q)
  then show ?thesis using op db_okD(8)[OF ok]
    by (auto simp: AddGeneratedProof_def Let_def split: if_splits intro!: db_ok_proofs[OF ok])
next
  case (opUpdateGeneratedProof now q)
  then show ?thesis using op db_okD(8)[OF ok] ok
    by (auto simp: UpdateGeneratedProof_def Let_def split: if_splits option.splits intro!: db_ok_proofs[OF ok])
next
  case (opDeleteGeneratedProofs b bf)
  then show ?thesis using op db_okD(8)[OF ok]
    by (auto simp: DeleteGeneratedProofs_def split: if_splits intro!: db_ok_proofs[OF ok])
next
  case (opCleanupGeneratedProofs n)
  then show ?thesis using op db_okD(8)[OF ok]
    by (auto simp: CleanupGeneratedProofs_def split: if_splits intro!: db_ok_proofs[OF ok])
next
  case (opCleanupLockedProofs iv now d)
  then show ?thesis using op db_okD(8)[OF ok]
    by (auto simp: CleanupLockedProofs_def split: option.splits if_splits intro!: db_ok_proofs[OF ok])
next
  case opDeleteUngeneratedProofs
  then show ?thesis using op db_okD(8)[OF ok]
    by (auto simp: DeleteUngeneratedProofs_def split: option.splits if_splits intro!: db_ok_proofs[OF ok])
qed (use assms in \<open>auto simp: OpenBatch_def OpenWIPBatch_def CloseBatch_def CloseWIPBatch_def OpenBatchInStorage_def
    OpenWIPBatchInStorage_def CloseBatchInStorage_def CloseWIPBatchInStorage_def UpdateBatchL2Data_def UpdateWIPBatch_def
    AddAccumulatedInputHash_def resetDB_def ResetTrustedState_def
    intro: insertBatch_ok updateBatch_ok deleteBlocks_ok deleteBatches_ok ResetForkID_ok split: if_splits\<close>)

end
