(* ===== verification/BatchChain.thy ===== *)
theory BatchChain
  imports StateBatch
begin

text \<open>
  What every history of the database operations keeps: the references between the tables (from
  \<open>StateBatch\<close>) and the chain of batches, and what a reset after an L1 reorganization does.
\<close>

subsection \<open>The chain of batches\<close>

text \<open>
  The batches of the database are numbered from the first one without a gap, only the last one may
  be open, and the seconds of their timestamps never go back.
\<close>

definition chain_ok :: "stateDB \<Rightarrow> bool" where
  "chain_ok db \<longleftrightarrow>
     (\<forall>b c. c |\<in>| fmdom (db_batch db) \<longrightarrow> b \<le> c \<longrightarrow> b |\<in>| fmdom (db_batch db)) \<and>
     (\<forall>b c r. fmlookup (db_batch db) b = Some r \<longrightarrow> br_wip r \<longrightarrow> c |\<in>| fmdom (db_batch db) \<longrightarrow> c \<le> b) \<and>
     (\<forall>b c r q. fmlookup (db_batch db) b = Some r \<longrightarrow> fmlookup (db_batch db) c = Some q \<longrightarrow> b \<le> c \<longrightarrow>
        unix (br_timestamp r) \<le> unix (br_timestamp q))"

lemma chain_okD:
  assumes "chain_ok db"
  shows "c |\<in>| fmdom (db_batch db) \<Longrightarrow> b \<le> c \<Longrightarrow> b |\<in>| fmdom (db_batch db)"
    "fmlookup (db_batch db) b = Some r \<Longrightarrow> br_wip r \<Longrightarrow> c |\<in>| fmdom (db_batch db) \<Longrightarrow> c \<le> b"
    "fmlookup (db_batch db) b = Some r \<Longrightarrow> fmlookup (db_batch db) c = Some q \<Longrightarrow> b \<le> c \<Longrightarrow>
       unix (br_timestamp r) \<le> unix (br_timestamp q)"
  using assms unfolding chain_ok_def by blast+

lemma lastKey_Some: "lastKey m = Some n \<longleftrightarrow> n |\<in>| fmdom m \<and> (\<forall>k. k |\<in>| fmdom m \<longrightarrow> k \<le> n)"
  by (auto simp: lastKey_def intro: fMax_eqI fMax_in)

lemma lastKey_None: "lastKey m = None \<longleftrightarrow> m = fmempty"
  by (auto simp: lastKey_def) (metis fmrestrict_fset_dom fmrestrict_fset_null)

lemma unix_pgTime [simp]: "unix (pgTime t) = unix t"
proof -
  have "t - t mod 1000 = 1000 * (t div 1000)"
    by (simp add: minus_mod_eq_mult_div)
  then have "(t - t mod 1000) div (1000 * 1000000) = t div 1000 div 1000000"
    by simp
  also have "\<dots> = t div (1000 * 1000000)"
    by (rule zdiv_zmult2_eq[symmetric]) simp
  finally show ?thesis
    by (simp add: unix_def pgTime_def)
qed

lemma chain_ok_cong: "db_batch db' = db_batch db \<Longrightarrow> chain_ok db' = chain_ok db"
  unfolding chain_ok_def by simp

lemma chain_ok_first: "db_batch db = fmempty \<Longrightarrow> chain_ok (db\<lparr>db_batch := fmupd 0 r fmempty\<rparr>)"
  unfolding chain_ok_def by (auto simp: word_le_0_iff)

lemma StoreGenesisBatch_chain:
  assumes ok: "chain_ok db" and op: "StoreGenesisBatch b db = Ok db'"
  shows "chain_ok db'"
proof -
  have "fmdom (db_batch db) = {||}"
    using op chain_okD(1)[OF ok, of _ 0] by (auto simp: StoreGenesisBatch_def split: if_splits)
  then have "db_batch db = fmempty"
    by (metis fmrestrict_fset_dom fmrestrict_fset_null)
  with op show ?thesis
    by (auto simp: StoreGenesisBatch_def chain_ok_first split: if_splits)
qed

text \<open>The next number after the last batch is above all batches: the last one has 63 bits.\<close>

lemma checkNextBatch_Ok:
  assumes ok: "db_ok db" and next_ok: "checkNextBatch n t db = Ok u"
  obtains m r where "fmlookup (db_batch db) m = Some r" "\<not> br_wip r" "unix (br_timestamp r) \<le> unix t"
    "\<forall>k. k |\<in>| fmdom (db_batch db) \<longrightarrow> k \<le> m" "n = m + 1" "m < n"
proof -
  obtain m where m: "lastKey (db_batch db) = Some m"
    using next_ok by (auto simp: checkNextBatch_def GetLastBatchNumber_def split: option.splits)
  then obtain r where r: "fmlookup (db_batch db) m = Some r"
    by (auto simp: lastKey_Some in_fmdom)
  have "int8 m"
    by (rule db_okD(3)[OF ok r])
  then have "m < m + 1"
    by (simp add: int8_def word_less_nat_alt unat_word_ariths)
  moreover have "n = m + 1 \<and> \<not> br_wip r \<and> unix (br_timestamp r) \<le> unix t"
    using next_ok m r \<open>int8 m\<close>
    by (simp add: checkNextBatch_def GetLastBatchNumber_def GetLastBatchTime_def IsBatchClosed_def split: if_splits)
  moreover have "\<forall>k. k |\<in>| fmdom (db_batch db) \<longrightarrow> k \<le> m"
    using m by (simp add: lastKey_Some)
  ultimately show thesis
    using that r by blast
qed

lemma insertBatch_chain:
  assumes ok: "db_ok db" "chain_ok db" and next_ok: "checkNextBatch n t db = Ok u"
    and op: "insertBatch n r db = Ok db'" and ts: "unix (br_timestamp r) = unix t"
  shows "chain_ok db'"
proof -
  obtain m q where m: "fmlookup (db_batch db) m = Some q" "\<not> br_wip q" "unix (br_timestamp q) \<le> unix t"
      "\<forall>k. k |\<in>| fmdom (db_batch db) \<longrightarrow> k \<le> m" "n = m + 1" "m < n"
    using checkNextBatch_Ok[OF ok(1) next_ok] by metis
  have db': "db_batch db' = fmupd n r (db_batch db)"
    using op by (auto simp: insertBatch_def split: if_splits)
  have old: "b \<le> m" "b < n" "\<not> br_wip p" "unix (br_timestamp p) \<le> unix t" if "fmlookup (db_batch db) b = Some p" for b p
  proof -
    show "b \<le> m"
      using that m(4) by (auto simp: in_fmdom)
    then show "b < n"
      using m(6) by simp
    show "unix (br_timestamp p) \<le> unix t"
      using chain_okD(3)[OF ok(2) that m(1) \<open>b \<le> m\<close>] m(3) by simp
    show "\<not> br_wip p"
    proof
      assume "br_wip p"
      then have "m \<le> b"
        using chain_okD(2)[OF ok(2) that] m(1) by (auto simp: in_fmdom)
      then show False
        using \<open>b \<le> m\<close> \<open>br_wip p\<close> that m(1,2) by simp
    qed
  qed
  have below: "b |\<in>| fmdom (db_batch db)" if "b \<le> n" "b \<noteq> n" for b
  proof -
    have "b \<le> m"
      using that m(5,6) by (metis inc_le linorder_not_le order_less_le)
    then show ?thesis
      using chain_okD(1)[OF ok(2), of m b] m(1) by (auto simp: in_fmdom)
  qed
  show ?thesis
    unfolding chain_ok_def db'
  proof (intro conjI allI impI)
    show "b |\<in>| fmdom (fmupd n r (db_batch db))" if "c |\<in>| fmdom (fmupd n r (db_batch db))" "b \<le> c" for b c
      using that below chain_okD(1)[OF ok(2), of c b] by (cases "b = n"; cases "c = n") auto
    show "c \<le> b" if "fmlookup (fmupd n r (db_batch db)) b = Some p" "br_wip p" "c |\<in>| fmdom (fmupd n r (db_batch db))" for b c p
    proof (cases "b = n")
      case True
      have "c = n \<or> (\<exists>p. fmlookup (db_batch db) c = Some p)"
        using that(3) by (auto simp: in_fmdom)
      then show ?thesis
        using old(2) True by (auto intro: less_imp_le)
    next
      case False
      then show ?thesis
        using that(1,2) old(3) by simp
    qed
    show "unix (br_timestamp p) \<le> unix (br_timestamp q')"
      if "fmlookup (fmupd n r (db_batch db)) b = Some p" "fmlookup (fmupd n r (db_batch db)) c = Some q'" "b \<le> c" for b c p q'
    proof (cases "b = n")
      case True
      then have "c = n"
        using that(2,3) old(2)[of c q'] by (cases "c = n") (simp_all add: leD)
      then show ?thesis
        using True that by simp
    next
      case False
      then have b: "fmlookup (db_batch db) b = Some p"
        using that(1) by simp
      show ?thesis
      proof (cases "c = n")
        case True
        then show ?thesis
          using that(2) old(4)[OF b] ts by simp
      next
        case False
        then show ?thesis
          using chain_okD(3)[OF ok(2) b _ that(3)] that(2) by simp
      qed
    qed
  qed
qed

lemma updateBatch_chain:
  assumes ok: "chain_ok db" and op: "updateBatch n f db = Ok db'"
    and f: "\<And>r. br_timestamp (f r) = br_timestamp r" "\<And>r. br_wip (f r) \<Longrightarrow> br_wip r"
  shows "chain_ok db'"
proof (cases "fmlookup (db_batch db) n")
  case None
  then show ?thesis using ok op by (auto simp: updateBatch_def split: if_splits)
next
  case (Some r)
  then have db': "db_batch db' = fmupd n (f r) (db_batch db)"
    using op by (auto simp: updateBatch_def split: if_splits)
  have n: "n |\<in>| fmdom (db_batch db)"
    using Some by (auto simp: in_fmdom)
  have dom: "fmdom (db_batch db') = fmdom (db_batch db)"
    using n by (simp add: db' finsert_absorb)
  have row: "\<exists>q. fmlookup (db_batch db) b = Some q \<and> br_timestamp p = br_timestamp q \<and> (br_wip p \<longrightarrow> br_wip q)"
    if "fmlookup (db_batch db') b = Some p" for b p
    using that Some f by (auto simp: db' split: if_splits)
  show ?thesis
    unfolding chain_ok_def dom
  proof (intro conjI allI impI)
    show "b |\<in>| fmdom (db_batch db)" if "c |\<in>| fmdom (db_batch db)" "b \<le> c" for b c
      by (rule chain_okD(1)[OF ok that])
    show "c \<le> b" if "fmlookup (db_batch db') b = Some p" "br_wip p" "c |\<in>| fmdom (db_batch db)" for b c p
      using row[OF that(1)] that(2,3) chain_okD(2)[OF ok] by blast
    show "unix (br_timestamp p) \<le> unix (br_timestamp q)"
      if "fmlookup (db_batch db') b = Some p" "fmlookup (db_batch db') c = Some q" "b \<le> c" for b c p q
      using row[OF that(1)] row[OF that(2)] chain_okD(3)[OF ok _ _ that(3)] by auto
  qed
qed

lemma chain_ok_restrict:
  assumes ok: "chain_ok db" and up: "\<And>b c. K b \<Longrightarrow> b \<le> c \<Longrightarrow> K c"
    and db': "db_batch db' = fmfilter (\<lambda>b. \<not> K b) (db_batch db)"
  shows "chain_ok db'"
  unfolding chain_ok_def db'
proof (intro conjI allI impI)
  let ?m = "fmfilter (\<lambda>b. \<not> K b) (db_batch db)"
  show "b |\<in>| fmdom ?m" if "c |\<in>| fmdom ?m" "b \<le> c" for b c
    using that chain_okD(1)[OF ok, of c b] up[of b c] by auto
  show "c \<le> b" if "fmlookup ?m b = Some p" "br_wip p" "c |\<in>| fmdom ?m" for b c p
    using that chain_okD(2)[OF ok, of b p c] by (auto split: if_splits)
  show "unix (br_timestamp p) \<le> unix (br_timestamp q)"
    if "fmlookup ?m b = Some p" "fmlookup ?m c = Some q" "b \<le> c" for b c p q
    using that chain_okD(3)[OF ok, of b p c q] by (auto split: if_splits)
qed

lemma deleteBlocks_batch: "deleteBlocks K db = Ok db' \<Longrightarrow> db_batch db' = db_batch db"
  by (auto simp: deleteBlocks_def Let_def split: if_splits)

lemma ResetTrustedState_chain:
  assumes "chain_ok db" "ResetTrustedState n db = Ok db'"
  shows "chain_ok db'"
  using assms(2) by (intro chain_ok_restrict[OF assms(1), of "\<lambda>b. n < b"])
    (auto simp: ResetTrustedState_def deleteBatches_def split: if_splits)

lemma ResetForkID_chain:
  assumes ok: "chain_ok db" and op: "ResetForkID n db = Ok db'"
  shows "chain_ok db'"
proof -
  let ?blocks = "(\<lambda>v. vb_BlockNumber v) |`| fmran (fmfilter (\<lambda>b. n \<le> b) (db_virtual db))"
  let ?del = "if ?blocks = {||} then Ok db else deleteBlocks (\<lambda>k. fMin ?blocks \<le> k) db"
  obtain db1 db2 where db1: "?del = Ok db1" and db2: "ResetTrustedState (n - 1) db1 = Ok db2"
    and db': "db_batch db' = db_batch db2"
  proof -
    have "int8 n"
      using op by (rule contrapos_pp) (simp add: ResetForkID_def)
    then have "\<exists>db1. ?del = Ok db1 \<and> (\<exists>db2. ResetTrustedState (n - 1) db1 = Ok db2 \<and>
        db2\<lparr>db_proof := fmfilter (\<lambda>(b, bf). \<not> (n \<le> b \<or> (b \<le> n \<and> n \<le> bf))) (db_proof db2)\<rparr> = db')"
      using op unfolding ResetForkID_def Let_def by (simp only: not_True_eq_False if_False bind_outcome_eq_Ok outcome.inject)
    then show thesis
      using that by auto
  qed
  have "db_batch db1 = db_batch db"
    using db1 by (simp add: deleteBlocks_batch split: if_splits)
  then have "chain_ok db1"
    using chain_ok_cong ok by blast
  then show ?thesis
    using ResetTrustedState_chain[OF _ db2] chain_ok_cong[OF db'] by blast
qed

lemma chain_ok_step:
  assumes ok: "db_ok db" "chain_ok db" and op: "dbExec p db = Ok db'"
  shows "chain_ok db'"
proof (cases p)
  case (opStoreGenesisBatch b)
  then show ?thesis using op StoreGenesisBatch_chain[OF ok(2)] by simp
next
  case (opOpenBatch dbTx pc)
  then show ?thesis using op
    by (auto simp: OpenBatch_def OpenBatchInStorage_def split: if_splits intro: insertBatch_chain[OF ok])
next
  case (opOpenWIPBatch dbTx b)
  then show ?thesis using op
    by (auto simp: OpenWIPBatch_def OpenWIPBatchInStorage_def split: if_splits intro: insertBatch_chain[OF ok])
next
  case (opCloseBatch dbTx rt)
  then show ?thesis using op
    by (auto simp: CloseBatch_def CloseBatchInStorage_def split: if_splits intro: updateBatch_chain[OF ok(2)])
next
  case (opCloseWIPBatch rt)
  then show ?thesis using op
    by (auto simp: CloseWIPBatch_def CloseWIPBatchInStorage_def intro: updateBatch_chain[OF ok(2)])
next
  case (opCloseBatchInStorage rt)
  then show ?thesis using op by (auto simp: CloseBatchInStorage_def intro: updateBatch_chain[OF ok(2)])
next
  case (opUpdateBatchL2Data n d)
  then show ?thesis using op by (auto simp: UpdateBatchL2Data_def intro: updateBatch_chain[OF ok(2)])
next
  case (opUpdateWIPBatch rt)
  then show ?thesis using op by (auto simp: UpdateWIPBatch_def intro: updateBatch_chain[OF ok(2)])
next
  case (opAddAccumulatedInputHash n h)
  then show ?thesis using op by (auto simp: AddAccumulatedInputHash_def intro: updateBatch_chain[OF ok(2)])
next
  case (opResetTrustedState n)
  then show ?thesis using op ResetTrustedState_chain[OF ok(2)] by simp
next
  case (opResetForkID n)
  then show ?thesis using op ResetForkID_chain[OF ok(2)] by simp
next
  case (opReset n)
  then have "db_batch db' = db_batch db"
    using op deleteBlocks_batch by (auto simp: resetDB_def split: if_splits)
  then show ?thesis using chain_ok_cong ok(2) by blast
qed (use op in \<open>auto simp: AddBlock_def AddForcedBatch_def AddVirtualBatch_def AddVerifiedBatch_def AddSequence_def
    AddGeneratedProof_def UpdateGeneratedProof_def DeleteGeneratedProofs_def CleanupGeneratedProofs_def CleanupLockedProofs_def
    DeleteUngeneratedProofs_def Let_def intro: chain_ok_cong[THEN iffD2, OF _ ok(2)] split: if_splits option.splits\<close>)

lemma chain_ok_empty: "chain_ok emptyDB"
  by (simp add: chain_ok_def emptyDB_def)

text \<open>What the readers of the tables see of the chain.\<close>

lemma chain_reads:
  assumes ok: "db_ok db" "chain_ok db" and n: "GetLastBatchNumber db = Ok n" and b: "b \<le> n"
  shows "\<exists>r. fmlookup (db_batch db) b = Some r \<and> GetBatchByNumber b db = Ok (scanBatch b r) \<and>
    IsBatchClosed b db = Ok (\<not> br_wip r) \<and> (b < n \<longrightarrow> \<not> br_wip r)"
proof -
  have last: "n |\<in>| fmdom (db_batch db)"
    using n by (auto simp: GetLastBatchNumber_def lastKey_Some split: option.splits)
  then obtain r where r: "fmlookup (db_batch db) b = Some r"
    using chain_okD(1)[OF ok(2) last b] by (auto simp: in_fmdom)
  then have "int8 b"
    by (rule db_okD(3)[OF ok(1)])
  moreover have "\<not> br_wip r" if "b < n"
    using chain_okD(2)[OF ok(2) r _ last] that by auto
  ultimately show ?thesis
    using r by (simp add: GetBatchByNumber_def IsBatchClosed_def)
qed

subsection \<open>Properties\<close>


text \<open>C33: after every history of database operations, resets included, the batch numbers have no gap, at most
  the last batch is open, and the timestamps do not decrease along the batches (in seconds).\<close>

theorem batches_form_chain: "chain_ok (dbRun ps emptyDB)"
proof -
  have "db_ok (dbRun ps emptyDB) \<and> chain_ok (dbRun ps emptyDB)"
    by (rule dbRun_invariant[of "\<lambda>db. db_ok db \<and> chain_ok db"])
      (auto intro: db_ok_step chain_ok_step simp: db_ok_empty chain_ok_empty)
  then show ?thesis ..
qed


text \<open>A batch that uses the forced batch of block 5, which an L1 reorganization to block 4 removes.\<close>

definition forcedDB :: stateDB where
  "forcedDB =
     dbRun
       [opAddBlock \<lparr>blk_BlockNumber = 5, blk_BlockHash = 1, blk_ParentHash = 2, blk_ReceivedAt = 7\<rparr>,
        opAddForcedBatch \<lparr>fb_BlockNumber = 5, fb_ForcedBatchNumber = 1, fb_Sequencer = 3, fb_GlobalExitRoot = 4,
          fb_RawTxsData = [], fb_ForcedAt = 8\<rparr>,
        opStoreGenesisBatch \<lparr>bt_BatchNumber = 0, bt_Coinbase = 0, bt_BatchL2Data = [], bt_StateRoot = 0, bt_LocalExitRoot = 0,
          bt_AccInputHash = 0, bt_Timestamp = 0, bt_GlobalExitRoot = 0, bt_ForcedBatchNum = None,
          bt_Resources = \<lparr>ZKCounters = zeroCounters, Bytes = 0\<rparr>, bt_WIP = False\<rparr>,
        opOpenBatch True \<lparr>pc_BatchNumber = 1, pc_Coinbase = 3, pc_Timestamp = 9, pc_GlobalExitRoot = 4,
          pc_ForcedBatchNum = Some 1, pc_BatchL2Data = None\<rparr>] emptyDB"

lemma forcedDB_rows:
  "\<exists>r. fmlookup (db_batch forcedDB) 1 = Some r \<and> br_forced r = Some 1"
  "\<exists>q. fmlookup (db_forced forcedDB) 1 = Some q \<and> fr_block q = 5"
  by (simp_all add: forcedDB_def emptyDB_def AddBlock_def AddForcedBatch_def StoreGenesisBatch_def OpenBatch_def
      OpenBatchInStorage_def insertBatch_def checkNextBatch_def GetLastBatchNumber_def IsBatchClosed_def GetLastBatchTime_def
      lastKey_def int8_def unix_def pgTime_def)


end
