(* ===== verification/MonitoredTx.thy ===== *)
theory MonitoredTx
  imports BatchCodec Hex
begin

text \<open>
  The transactions that the Ethereum transaction manager monitors and their table
  (\<open>ethtxmanager/monitoredtx.go\<close>, \<open>ethtxmanager/pgstorage.go\<close>).  A Go pointer that may be nil is an
  option; the history is a map whose values are all true, so it is the set of its keys, and an
  option because the map itself may be nil.  The table is the list of its rows with the key
  (owner, id).  A statement fails when the database is not available; a query that succeeds
  delivers all its rows.
\<close>

subsection \<open>Monitored transactions\<close>

datatype MonitoredTxStatus =
    MonitoredTxStatusCreated | MonitoredTxStatusSent | MonitoredTxStatusFailed | MonitoredTxStatusConfirmed
  | MonitoredTxStatusReorged | MonitoredTxStatusDone | OtherStatus string

definition statusString :: "MonitoredTxStatus \<Rightarrow> string" where
  "statusString s =
     (case s of
        MonitoredTxStatusCreated \<Rightarrow> ''created'' | MonitoredTxStatusSent \<Rightarrow> ''sent'' | MonitoredTxStatusFailed \<Rightarrow> ''failed''
      | MonitoredTxStatusConfirmed \<Rightarrow> ''confirmed'' | MonitoredTxStatusReorged \<Rightarrow> ''reorged''
      | MonitoredTxStatusDone \<Rightarrow> ''done'' | OtherStatus t \<Rightarrow> t)"

definition statusOf :: "string \<Rightarrow> MonitoredTxStatus" where
  "statusOf t =
     (if t = ''created'' then MonitoredTxStatusCreated else if t = ''sent'' then MonitoredTxStatusSent
      else if t = ''failed'' then MonitoredTxStatusFailed else if t = ''confirmed'' then MonitoredTxStatusConfirmed
      else if t = ''reorged'' then MonitoredTxStatusReorged else if t = ''done'' then MonitoredTxStatusDone
      else OtherStatus t)"

record monitoredTx =
  mtx_owner :: string
  mtx_id :: string
  mtx_from :: address
  mtx_to :: "address option"
  mtx_nonce :: u64
  mtx_value :: "int option"
  mtx_data :: "bytes option"
  mtx_gas :: u64
  mtx_gasOffset :: u64
  mtx_gasPrice :: int
  mtx_status :: MonitoredTxStatus
  mtx_blockNumber :: "int option"
  mtx_history :: "hash fset option"
  mtx_createdAt :: time
  mtx_updatedAt :: time

datatype MtxError = errMtxNotFound | errMtxAlreadyExists | errMtxDatabase | errMtxDecode

text \<open>\<open>types.NewTx\<close> of a legacy transaction copies a nil value as zero and a nil input as empty.\<close>

definition mtx_Tx :: "monitoredTx \<Rightarrow> LegacyTx" where
  "mtx_Tx mTx =
     \<lparr>ltx_Nonce = mtx_nonce mTx, ltx_GasPrice = mtx_gasPrice mTx, ltx_Gas = mtx_gas mTx + mtx_gasOffset mTx,
      ltx_To = mtx_to mTx, ltx_Value = (case mtx_value mTx of None \<Rightarrow> 0 | Some v \<Rightarrow> v),
      ltx_Data = (case mtx_data mTx of None \<Rightarrow> [] | Some d \<Rightarrow> d), ltx_V = 0, ltx_R = 0, ltx_S = 0\<rparr>"

text \<open>The map is shared with the caller's copy, so the insertion is visible there; a nil map cannot be written.\<close>

definition AddHistory :: "monitoredTx \<Rightarrow> hash \<Rightarrow> (MtxError, monitoredTx) outcome" where
  "AddHistory mTx h =
     (case mtx_history mTx of
        None \<Rightarrow> Panic
      | Some H \<Rightarrow> if h |\<in>| H then Err errMtxAlreadyExists else Ok (mTx\<lparr>mtx_history := Some (finsert h H)\<rparr>))"

subsection \<open>Columns\<close>

text \<open>
  What the storage uses of the Ethereum library and of the runtime: the text of an address and
  of a hash with their parsers, and the order in which a map is visited.
\<close>

record textLib =
  tl_addrString :: "address \<Rightarrow> string"
  tl_hexToAddress :: "string \<Rightarrow> address"
  tl_hashString :: "hash \<Rightarrow> string"
  tl_hexToHash :: "string \<Rightarrow> hash"
  tl_range :: "hash fset \<Rightarrow> hash list"

definition textLib_ok :: "textLib \<Rightarrow> bool" where
  "textLib_ok tlib \<longleftrightarrow>
     (\<forall>a. tl_hexToAddress tlib (tl_addrString tlib a) = a) \<and> (\<forall>h. tl_hexToHash tlib (tl_hashString tlib h) = h) \<and>
     (\<forall>H. fset_of_list (tl_range tlib H) = H)"

record mtxRow =
  col_owner :: string
  col_id :: string
  col_from_addr :: string
  col_to_addr :: "string option"
  col_nonce :: u64
  col_value :: "u64 option"
  col_data :: "string option"
  col_gas :: u64
  col_gas_offset :: u64
  col_gas_price :: u64
  col_status :: string
  col_block_num :: "u64 option"
  col_history :: "string list"
  col_created_at :: time
  col_updated_at :: time

definition toStringPtr :: "textLib \<Rightarrow> monitoredTx \<Rightarrow> string option" where
  "toStringPtr tlib mTx = map_option (tl_addrString tlib) (mtx_to mTx)"

definition valueU64Ptr :: "monitoredTx \<Rightarrow> u64 option" where
  "valueU64Ptr mTx = map_option uint64_of (mtx_value mTx)"

definition dataStringPtr :: "monitoredTx \<Rightarrow> string option" where
  "dataStringPtr mTx = map_option EncodeToString (mtx_data mTx)"

definition historyHashSlice :: "textLib \<Rightarrow> monitoredTx \<Rightarrow> hash list" where
  "historyHashSlice tlib mTx = (case mtx_history mTx of None \<Rightarrow> [] | Some H \<Rightarrow> tl_range tlib H)"

definition historyStringSlice :: "textLib \<Rightarrow> monitoredTx \<Rightarrow> string list" where
  "historyStringSlice tlib mTx = map (tl_hashString tlib) (historyHashSlice tlib mTx)"

definition blockNumberU64Ptr :: "monitoredTx \<Rightarrow> u64 option" where
  "blockNumberU64Ptr mTx = map_option uint64_of (mtx_blockNumber mTx)"

text \<open>\<open>t.Round(time.Microsecond)\<close> of a time in nanoseconds.\<close>

definition roundMicro :: "time \<Rightarrow> time" where
  "roundMicro t = (let r = t mod 1000 in if r + r < 1000 then t - r else t + (1000 - r))"

text \<open>The block number is a \<open>BIGINT\<close>: the driver refuses a number that does not fit 63 bits.\<close>

definition bigint_ok :: "u64 option \<Rightarrow> bool" where
  "bigint_ok n = (case n of None \<Rightarrow> True | Some b \<Rightarrow> unat b < 2 ^ 63)"

definition rowOfMtx :: "textLib \<Rightarrow> time \<Rightarrow> time \<Rightarrow> monitoredTx \<Rightarrow> mtxRow" where
  "rowOfMtx tlib created updated mTx =
     \<lparr>col_owner = mtx_owner mTx, col_id = mtx_id mTx, col_from_addr = tl_addrString tlib (mtx_from mTx),
      col_to_addr = toStringPtr tlib mTx, col_nonce = mtx_nonce mTx, col_value = valueU64Ptr mTx, col_data = dataStringPtr mTx,
      col_gas = mtx_gas mTx, col_gas_offset = mtx_gasOffset mTx, col_gas_price = uint64_of (mtx_gasPrice mTx),
      col_status = statusString (mtx_status mTx), col_block_num = blockNumberU64Ptr mTx,
      col_history = historyStringSlice tlib mTx, col_created_at = created, col_updated_at = updated\<rparr>"

definition scanMtx :: "textLib \<Rightarrow> mtxRow \<Rightarrow> (MtxError, monitoredTx) outcome" where
  "scanMtx tlib r =
     (case (case col_data r of None \<Rightarrow> Inr None | Some d \<Rightarrow> map_sum id Some (DecodeString d)) of
        Inl _ \<Rightarrow> Err errMtxDecode
      | Inr data \<Rightarrow>
          Ok \<lparr>mtx_owner = col_owner r, mtx_id = col_id r, mtx_from = tl_hexToAddress tlib (col_from_addr r),
              mtx_to = map_option (tl_hexToAddress tlib) (col_to_addr r), mtx_nonce = col_nonce r,
              mtx_value = map_option uint (col_value r), mtx_data = data, mtx_gas = col_gas r,
              mtx_gasOffset = col_gas_offset r, mtx_gasPrice = uint (col_gas_price r),
              mtx_status = statusOf (col_status r), mtx_blockNumber = map_option uint (col_block_num r),
              mtx_history = Some (fset_of_list (map (tl_hexToHash tlib) (col_history r))),
              mtx_createdAt = col_created_at r, mtx_updatedAt = col_updated_at r\<rparr>)"

subsection \<open>Statements\<close>

definition rowKey :: "mtxRow \<Rightarrow> string \<times> string" where
  "rowKey r = (col_owner r, col_id r)"

definition mtxKey :: "monitoredTx \<Rightarrow> string \<times> string" where
  "mtxKey m = (mtx_owner m, mtx_id m)"

definition ms_Add ::
  "textLib \<Rightarrow> bool \<Rightarrow> time \<Rightarrow> time \<Rightarrow> monitoredTx \<Rightarrow> mtxRow list \<Rightarrow> (MtxError, mtxRow list) outcome" where
  "ms_Add tlib up now1 now2 mTx rows =
     (if \<not> up \<or> \<not> bigint_ok (blockNumberU64Ptr mTx) then Err errMtxDatabase
      else if mtxKey mTx \<in> rowKey ` set rows then Err errMtxAlreadyExists
      else Ok (rows @ [rowOfMtx tlib (roundMicro now1) (roundMicro now2) mTx]))"

definition ms_Get :: "textLib \<Rightarrow> bool \<Rightarrow> string \<Rightarrow> string \<Rightarrow> mtxRow list \<Rightarrow> (MtxError, monitoredTx) outcome" where
  "ms_Get tlib up owner i rows =
     (if \<not> up then Err errMtxDatabase
      else case find (\<lambda>r. rowKey r = (owner, i)) rows of
             None \<Rightarrow> Err errMtxNotFound
           | Some r \<Rightarrow> scanMtx tlib r)"

fun scanAll :: "textLib \<Rightarrow> mtxRow list \<Rightarrow> (MtxError, monitoredTx list) outcome" where
  "scanAll tlib [] = Ok []"
| "scanAll tlib (r # rs) = bind_outcome (scanMtx tlib r) (\<lambda>m. bind_outcome (scanAll tlib rs) (\<lambda>ms. Ok (m # ms)))"

text \<open>\<open>ORDER BY created_at\<close>; rows created at the same time keep their order here, SQL leaves it open.\<close>

definition statusMatches :: "string option \<Rightarrow> MonitoredTxStatus list \<Rightarrow> mtxRow \<Rightarrow> bool" where
  "statusMatches owner statuses r \<longleftrightarrow>
     (case owner of None \<Rightarrow> True | Some ow \<Rightarrow> col_owner r = ow) \<and>
     (statuses \<noteq> [] \<longrightarrow> col_status r \<in> statusString ` set statuses)"

definition ms_GetByStatus ::
  "textLib \<Rightarrow> bool \<Rightarrow> string option \<Rightarrow> MonitoredTxStatus list \<Rightarrow> mtxRow list \<Rightarrow> (MtxError, monitoredTx list) outcome" where
  "ms_GetByStatus tlib up owner statuses rows =
     (if \<not> up then Err errMtxDatabase
      else scanAll tlib (sort_key col_created_at (filter (statusMatches owner statuses) rows)))"

definition blockMatches :: "u64 option \<Rightarrow> u64 option \<Rightarrow> mtxRow \<Rightarrow> bool" where
  "blockMatches fromBlock toBlock r \<longleftrightarrow>
     (case col_block_num r of
        None \<Rightarrow> False
      | Some b \<Rightarrow> (case fromBlock of None \<Rightarrow> True | Some f \<Rightarrow> f \<le> b) \<and> (case toBlock of None \<Rightarrow> True | Some t \<Rightarrow> b \<le> t))"

definition ms_GetByBlock ::
  "textLib \<Rightarrow> bool \<Rightarrow> u64 option \<Rightarrow> u64 option \<Rightarrow> mtxRow list \<Rightarrow> (MtxError, monitoredTx list) outcome" where
  "ms_GetByBlock tlib up fromBlock toBlock rows =
     (if \<not> up \<or> \<not> bigint_ok fromBlock \<or> \<not> bigint_ok toBlock then Err errMtxDatabase
      else scanAll tlib (sort_key col_created_at (filter (blockMatches fromBlock toBlock) rows)))"

definition ms_Update ::
  "textLib \<Rightarrow> bool \<Rightarrow> time \<Rightarrow> monitoredTx \<Rightarrow> mtxRow list \<Rightarrow> (MtxError, mtxRow list) outcome" where
  "ms_Update tlib up now mTx rows =
     (if \<not> up \<or> \<not> bigint_ok (blockNumberU64Ptr mTx) then Err errMtxDatabase
      else Ok (map (\<lambda>r. if rowKey r = mtxKey mTx then rowOfMtx tlib (col_created_at r) (roundMicro now) mTx else r) rows))"

subsection \<open>What a row keeps\<close>

text \<open>
  The table has \<open>uint64\<close> columns for the value, the price and the block.  The transactions that
  survive storage are those whose numbers fit.
\<close>

definition fits64 :: "int \<Rightarrow> bool" where
  "fits64 n \<longleftrightarrow> 0 \<le> n \<and> n < 2 ^ 64"

definition mtx_storable :: "monitoredTx \<Rightarrow> bool" where
  "mtx_storable m \<longleftrightarrow>
     fits64 (mtx_gasPrice m) \<and> (\<forall>v. mtx_value m = Some v \<longrightarrow> fits64 v) \<and>
     (\<forall>b. mtx_blockNumber m = Some b \<longrightarrow> 0 \<le> b \<and> b < 2 ^ 63) \<and> mtx_history m \<noteq> None \<and>
     statusOf (statusString (mtx_status m)) = mtx_status m"

lemma fits64_uint64 [simp]: "fits64 n \<Longrightarrow> uint (uint64_of n) = n"
  by (simp add: fits64_def uint64_of_def uint_word_of_int)

lemma fits64_uint [simp]: "fits64 (uint (w :: u64))"
  using uint_bounded[of w] by (simp add: fits64_def)

lemma scan_rowOfMtx:
  assumes "textLib_ok tlib" "mtx_storable m"
  shows "scanMtx tlib (rowOfMtx tlib c u m) = Ok (m\<lparr>mtx_createdAt := c, mtx_updatedAt := u\<rparr>)"
proof -
  obtain H where H: "mtx_history m = Some H" using assms(2) by (auto simp: mtx_storable_def)
  have "map (tl_hexToHash tlib) (historyStringSlice tlib m) = tl_range tlib H"
    using assms(1) H by (simp add: historyStringSlice_def historyHashSlice_def textLib_ok_def comp_def)
  moreover have "fset_of_list (tl_range tlib H) = H" using assms(1) by (simp add: textLib_ok_def)
  moreover have "map_option (tl_hexToAddress tlib) (toStringPtr tlib m) = mtx_to m"
    using assms(1) by (simp add: toStringPtr_def textLib_ok_def option.map_comp comp_def option.map_ident)
  moreover have "map_option uint (valueU64Ptr m) = mtx_value m"
    using assms(2) by (cases "mtx_value m") (auto simp: valueU64Ptr_def mtx_storable_def)
  moreover have "map_option uint (blockNumberU64Ptr m) = mtx_blockNumber m"
  proof (cases "mtx_blockNumber m")
    case (Some b)
    then have "fits64 b" using assms(2) by (simp add: mtx_storable_def fits64_def)
    then show ?thesis using Some by (simp add: blockNumberU64Ptr_def)
  qed (simp add: blockNumberU64Ptr_def)
  ultimately show ?thesis
    using assms H by (cases "mtx_data m") (auto simp: scanMtx_def rowOfMtx_def dataStringPtr_def mtx_storable_def textLib_ok_def)
qed

text \<open>
  The tables the manager works on: the key is unique and every row was written from a storable
  transaction.  \<open>mtxAt\<close> reads the transaction of a key.
\<close>

definition row_ok :: "textLib \<Rightarrow> mtxRow \<Rightarrow> bool" where
  "row_ok tlib r \<longleftrightarrow> (\<exists>m c u. mtx_storable m \<and> r = rowOfMtx tlib c u m)"

definition table_ok :: "textLib \<Rightarrow> mtxRow list \<Rightarrow> bool" where
  "table_ok tlib rows \<longleftrightarrow> distinct (map rowKey rows) \<and> (\<forall>r\<in>set rows. row_ok tlib r)"

definition mtxAt :: "textLib \<Rightarrow> mtxRow list \<Rightarrow> string \<times> string \<Rightarrow> monitoredTx option" where
  "mtxAt tlib rows k =
     (case find (\<lambda>r. rowKey r = k) rows of
        None \<Rightarrow> None
      | Some r \<Rightarrow> (case scanMtx tlib r of Ok m \<Rightarrow> Some m | _ \<Rightarrow> None))"

lemma rowKey_rowOfMtx [simp]: "rowKey (rowOfMtx tlib c u m) = mtxKey m"
  by (simp add: rowKey_def mtxKey_def rowOfMtx_def)

lemma col_created_rowOfMtx [simp]: "col_created_at (rowOfMtx tlib c u m) = c"
  by (simp add: rowOfMtx_def)

lemma bigint_storable: "mtx_storable m \<Longrightarrow> bigint_ok (blockNumberU64Ptr m)"
proof (cases "mtx_blockNumber m")
  case (Some b)
  assume "mtx_storable m"
  then have "0 \<le> b" "b < 2 ^ 63" using Some by (auto simp: mtx_storable_def)
  then have "uint (uint64_of b) = b" by (simp add: fits64_def)
  then have "unat (uint64_of b) < 2 ^ 63" using \<open>b < 2 ^ 63\<close> by (simp add: unat_eq_nat_uint)
  then show ?thesis using Some by (simp add: bigint_ok_def blockNumberU64Ptr_def)
qed (simp add: bigint_ok_def blockNumberU64Ptr_def)

lemma find_row:
  "distinct (map rowKey rows) \<Longrightarrow> find (\<lambda>r. rowKey r = k) rows = Some r \<longleftrightarrow> r \<in> set rows \<and> rowKey r = k"
  by (induction rows) (auto simp: image_iff)

lemma find_row_None: "find (\<lambda>r. rowKey r = k) rows = None \<longleftrightarrow> k \<notin> rowKey ` set rows"
  by (induction rows) (auto simp: image_iff)

lemma mtxAt_ms_Get:
  "ms_Get tlib True owner i rows =
     (case find (\<lambda>r. rowKey r = (owner, i)) rows of None \<Rightarrow> Err errMtxNotFound | Some r \<Rightarrow> scanMtx tlib r)"
  by (simp add: ms_Get_def)

lemma row_ok_scan:
  assumes "textLib_ok tlib" "row_ok tlib r"
  obtains m where "scanMtx tlib r = Ok m" "mtx_storable m" "mtxKey m = rowKey r" "mtx_createdAt m = col_created_at r"
    "r = rowOfMtx tlib (mtx_createdAt m) (mtx_updatedAt m) m"
proof -
  obtain m c u where m: "mtx_storable m" "r = rowOfMtx tlib c u m" using assms(2) by (auto simp: row_ok_def)
  let ?m = "m\<lparr>mtx_createdAt := c, mtx_updatedAt := u\<rparr>"
  have "scanMtx tlib r = Ok ?m" using scan_rowOfMtx[OF assms(1) m(1)] m(2) by simp
  moreover have "mtx_storable ?m" using m(1) by (simp add: mtx_storable_def)
  moreover have "mtxKey ?m = rowKey r" by (simp add: m(2)) (simp add: mtxKey_def)
  moreover have "r = rowOfMtx tlib c u ?m"
    by (simp add: m(2) rowOfMtx_def toStringPtr_def valueU64Ptr_def dataStringPtr_def historyStringSlice_def
        historyHashSlice_def blockNumberU64Ptr_def)
  ultimately show ?thesis by (intro that[of ?m]) (simp_all add: m(2))
qed

lemma mtxAt_Some:
  assumes "textLib_ok tlib" "table_ok tlib rows"
  shows "mtxAt tlib rows k = Some m \<longleftrightarrow> (\<exists>r\<in>set rows. rowKey r = k \<and> scanMtx tlib r = Ok m)"
proof (cases "find (\<lambda>r. rowKey r = k) rows")
  case None
  then have "k \<notin> rowKey ` set rows" by (simp add: find_row_None)
  then show ?thesis using None by (auto simp: mtxAt_def)
next
  case (Some r0)
  have d: "distinct (map rowKey rows)" using assms(2) by (simp add: table_ok_def)
  have u: "r \<in> set rows \<and> rowKey r = k \<longleftrightarrow> r = r0" for r using find_row[OF d, of k r] Some by auto
  have "(\<exists>r\<in>set rows. rowKey r = k \<and> scanMtx tlib r = Ok m) \<longleftrightarrow> scanMtx tlib r0 = Ok m"
    using u by metis
  then show ?thesis using Some by (simp add: mtxAt_def split: outcome.splits)
qed

lemma mtxAt_key: "textLib_ok tlib \<Longrightarrow> table_ok tlib rows \<Longrightarrow> mtxAt tlib rows k = Some m \<Longrightarrow> mtxKey m = k \<and> mtx_storable m"
  by (auto simp: mtxAt_Some table_ok_def elim!: row_ok_scan)

lemma mtxAt_None:
  assumes "textLib_ok tlib" "table_ok tlib rows"
  shows "mtxAt tlib rows k = None \<longleftrightarrow> k \<notin> rowKey ` set rows"
proof
  assume n: "mtxAt tlib rows k = None"
  show "k \<notin> rowKey ` set rows"
  proof
    assume "k \<in> rowKey ` set rows"
    then obtain r where r: "r \<in> set rows" "rowKey r = k" by auto
    then obtain m where "scanMtx tlib r = Ok m" using assms by (auto simp: table_ok_def elim!: row_ok_scan)
    then show False using n r mtxAt_Some[OF assms, of k m] by auto
  qed
next
  assume "k \<notin> rowKey ` set rows"
  then show "mtxAt tlib rows k = None" by (simp add: mtxAt_def find_row_None[THEN iffD2])
qed

lemma map_find_other:
  "(\<And>r. rowKey (f r) = rowKey r) \<Longrightarrow> (\<And>r. rowKey r = k \<Longrightarrow> f r = r) \<Longrightarrow>
   find (\<lambda>r. rowKey r = k) (map f rows) = find (\<lambda>r. rowKey r = k) rows"
  by (induction rows) auto

lemma ms_Update_ok:
  assumes tlib: "textLib_ok tlib" and ok: "table_ok tlib rows" and st: "mtx_storable m"
    and key: "mtxKey m \<in> rowKey ` set rows" and up: "ms_Update tlib True now m rows = Ok rows'"
  shows "table_ok tlib rows'"
    "mtxAt tlib rows' (mtxKey m) =
       Some (m\<lparr>mtx_createdAt := mtx_createdAt (the (mtxAt tlib rows (mtxKey m))), mtx_updatedAt := roundMicro now\<rparr>)"
    "k \<noteq> mtxKey m \<Longrightarrow> mtxAt tlib rows' k = mtxAt tlib rows k"
    "rowKey ` set rows' = rowKey ` set rows"
proof -
  let ?f = "\<lambda>r. if rowKey r = mtxKey m then rowOfMtx tlib (col_created_at r) (roundMicro now) m else r"
  have rows': "rows' = map ?f rows" using up by (simp add: ms_Update_def split: if_splits)
  have keys: "map rowKey rows' = map rowKey rows" by (simp add: rows')
  show "rowKey ` set rows' = rowKey ` set rows" using keys by (metis list.set_map)
  show ok': "table_ok tlib rows'"
    unfolding table_ok_def keys using ok st by (auto simp: table_ok_def rows' row_ok_def)
  show "k \<noteq> mtxKey m \<Longrightarrow> mtxAt tlib rows' k = mtxAt tlib rows k"
    unfolding mtxAt_def rows' by (subst map_find_other) auto
  obtain r where r: "r \<in> set rows" "rowKey r = mtxKey m" using key by auto
  obtain m0 where m0: "scanMtx tlib r = Ok m0" "mtx_createdAt m0 = col_created_at r"
    using ok r(1) tlib by (auto simp: table_ok_def elim!: row_ok_scan)
  have at: "mtxAt tlib rows (mtxKey m) = Some m0" using mtxAt_Some[OF tlib ok] r m0 by blast
  have "?f r \<in> set rows'" using r by (auto simp: rows')
  then show "mtxAt tlib rows' (mtxKey m) =
       Some (m\<lparr>mtx_createdAt := mtx_createdAt (the (mtxAt tlib rows (mtxKey m))), mtx_updatedAt := roundMicro now\<rparr>)"
    using scan_rowOfMtx[OF tlib st] r(2) m0(2) by (simp add: mtxAt_Some[OF tlib ok'] at) (intro bexI[of _ "?f r"], simp_all)
qed

lemma ms_Add_ok:
  assumes tlib: "textLib_ok tlib" and ok: "table_ok tlib rows" and st: "mtx_storable (m\<lparr>mtx_history := Some {||}\<rparr>)"
    and hist: "mtx_history m = None \<or> mtx_history m = Some {||}" and add: "ms_Add tlib True t1 t2 m rows = Ok rows'"
  shows "table_ok tlib rows'"
    "mtxAt tlib rows' (mtxKey m) =
       Some (m\<lparr>mtx_history := Some {||}, mtx_createdAt := roundMicro t1, mtx_updatedAt := roundMicro t2\<rparr>)"
    "k \<noteq> mtxKey m \<Longrightarrow> mtxAt tlib rows' k = mtxAt tlib rows k"
proof -
  let ?m = "m\<lparr>mtx_history := Some {||}\<rparr>"
  have "fset_of_list (tl_range tlib {||}) = {||}" using tlib unfolding textLib_ok_def by blast
  then have "tl_range tlib {||} = []" by (cases "tl_range tlib {||}") auto
  then have row: "rowOfMtx tlib c u m = rowOfMtx tlib c u ?m" for c u
    using hist by (auto simp: rowOfMtx_def toStringPtr_def valueU64Ptr_def dataStringPtr_def historyStringSlice_def
        historyHashSlice_def blockNumberU64Ptr_def)
  let ?r = "rowOfMtx tlib (roundMicro t1) (roundMicro t2) m"
  have rows': "rows' = rows @ [?r]" and new: "mtxKey m \<notin> rowKey ` set rows"
    using add by (auto simp: ms_Add_def split: if_splits)
  have ok_r: "row_ok tlib ?r" using st by (auto simp: row_ok_def row)
  show ok': "table_ok tlib rows'"
    using ok new ok_r by (auto simp: table_ok_def rows')
  have key: "mtxKey ?m = mtxKey m" by (simp add: mtxKey_def)
  show "mtxAt tlib rows' (mtxKey m) =
       Some (m\<lparr>mtx_history := Some {||}, mtx_createdAt := roundMicro t1, mtx_updatedAt := roundMicro t2\<rparr>)"
    using scan_rowOfMtx[OF tlib st] by (subst mtxAt_Some[OF tlib ok'], intro bexI[of _ ?r]) (simp_all add: rows' row key)
  show "k \<noteq> mtxKey m \<Longrightarrow> mtxAt tlib rows' k = mtxAt tlib rows k"
    unfolding mtxAt_def rows' by (induction rows) (auto split: option.splits)
qed

end
