(* ===== verification/Effects.thy ===== *)
theory Effects
  imports Prelude
begin

text \<open>
  Go code that reads and changes shared state: an action takes the state and gives an outcome and
  the new state, also when it fails or panics (what was written before stays written).  The
  calculus below gives a postcondition for the normal end of an action and one for every other
  end; the rules follow the structure of the code.
\<close>

type_synonym ('s, 'e, 'a) act = "'s \<Rightarrow> ('e, 'a) outcome \<times> 's"

definition retA :: "'a \<Rightarrow> ('s, 'e, 'a) act" where
  "retA x s = (Ok x, s)"

definition failA :: "'e \<Rightarrow> ('s, 'e, 'a) act" where
  "failA e s = (Err e, s)"

definition panicA :: "('s, 'e, 'a) act" where
  "panicA s = (Panic, s)"

definition bindA :: "('s, 'e, 'a) act \<Rightarrow> ('a \<Rightarrow> ('s, 'e, 'b) act) \<Rightarrow> ('s, 'e, 'b) act" where
  "bindA m k s =
     (case m s of (Ok a, s') \<Rightarrow> k a s' | (Err e, s') \<Rightarrow> (Err e, s') | (Panic, s') \<Rightarrow> (Panic, s'))"

text \<open>An error as a value, for code that tests it.\<close>

definition tryA :: "('s, 'e, 'a) act \<Rightarrow> ('s, 'f, 'e + 'a) act" where
  "tryA m s =
     (case m s of (Ok a, s') \<Rightarrow> (Ok (Inr a), s') | (Err e, s') \<Rightarrow> (Ok (Inl e), s') | (Panic, s') \<Rightarrow> (Panic, s'))"

definition askA :: "('s \<Rightarrow> 'a \<times> 's) \<Rightarrow> ('s, 'e, 'a) act" where
  "askA q s = (case q s of (a, s') \<Rightarrow> (Ok a, s'))"

lemma bindA_cong [fundef_cong]:
  "m s = m' s' \<Longrightarrow> s = s' \<Longrightarrow> (\<And>a t. m' s' = (Ok a, t) \<Longrightarrow> k a t = k' a t) \<Longrightarrow> bindA m k s = bindA m' k' s'"
  by (auto simp: bindA_def split: prod.split outcome.split)

named_theorems act_defs \<open>the combinators of actions\<close>

lemmas [act_defs] = retA_def failA_def panicA_def bindA_def tryA_def askA_def

subsection \<open>Postconditions\<close>

definition ensures ::
  "('s \<Rightarrow> bool) \<Rightarrow> ('s, 'e, 'a) act \<Rightarrow> ('a \<Rightarrow> 's \<Rightarrow> bool) \<Rightarrow> ('s \<Rightarrow> bool) \<Rightarrow> bool" where
  "ensures P m Q X \<longleftrightarrow> (\<forall>s. P s \<longrightarrow> (case m s of (Ok a, s') \<Rightarrow> Q a s' | (_, s') \<Rightarrow> X s'))"

named_theorems vc \<open>rules of the calculus\<close>

lemma ensures_ret [vc]: "(\<And>s. P s \<Longrightarrow> Q x s) \<Longrightarrow> ensures P (retA x) Q X"
  by (simp add: ensures_def retA_def)

lemma ensures_fail [vc]: "(\<And>s. P s \<Longrightarrow> X s) \<Longrightarrow> ensures P (failA e) Q X"
  by (simp add: ensures_def failA_def)

lemma ensures_panic [vc]: "(\<And>s. P s \<Longrightarrow> X s) \<Longrightarrow> ensures P panicA Q X"
  by (simp add: ensures_def panicA_def)

lemma ensures_ask [vc]: "(\<And>s a s'. P s \<Longrightarrow> q s = (a, s') \<Longrightarrow> Q a s') \<Longrightarrow> ensures P (askA q) Q X"
  by (fastforce simp: ensures_def askA_def split: prod.split)

lemma ensures_bind:
  "ensures P m R X \<Longrightarrow> (\<And>a. ensures (R a) (k a) Q X) \<Longrightarrow> ensures P (bindA m k) Q X"
  unfolding ensures_def bindA_def by (fastforce split: prod.splits outcome.splits)

lemma ensures_try:
  "ensures P m (\<lambda>a. Q (Inr a)) (\<lambda>s. X s \<and> (\<forall>e. Q (Inl e) s)) \<Longrightarrow> ensures P (tryA m) Q X"
  unfolding ensures_def tryA_def by (fastforce split: prod.splits outcome.splits)

lemma ensures_conseq:
  "ensures P' m Q' X' \<Longrightarrow> (\<And>s. P s \<Longrightarrow> P' s) \<Longrightarrow> (\<And>a s. Q' a s \<Longrightarrow> Q a s) \<Longrightarrow> (\<And>s. X' s \<Longrightarrow> X s) \<Longrightarrow>
   ensures P m Q X"
  unfolding ensures_def by (fastforce split: prod.splits outcome.splits)

lemma ensuresD:
  "ensures P m Q X \<Longrightarrow> P s \<Longrightarrow> m s = (r, s') \<Longrightarrow> (case r of Ok a \<Rightarrow> Q a s' | _ \<Rightarrow> X s')"
  unfolding ensures_def by (fastforce split: outcome.splits)

lemma ensures_absurd: "\<not> C \<Longrightarrow> ensures (\<lambda>s. P s \<and> C) m Q X"
  by (simp add: ensures_def)

lemma ensures_conj:
  assumes "ensures P m Q X" "ensures P m R (\<lambda>_. True)"
  shows "ensures P m (\<lambda>a s. Q a s \<and> R a s) X"
  unfolding ensures_def
proof (intro allI impI)
  fix s assume "P s"
  obtain r s' where "m s = (r, s')" by fastforce
  with ensuresD[OF assms(1) \<open>P s\<close>] ensuresD[OF assms(2) \<open>P s\<close>]
  show "case m s of (Ok a, s') \<Rightarrow> Q a s' \<and> R a s' | (_, s') \<Rightarrow> X s'" by (cases r) auto
qed

lemma ensures_pre: "(\<And>s. P s \<Longrightarrow> ensures (\<lambda>t. t = s) m Q X) \<Longrightarrow> ensures P m Q X"
  unfolding ensures_def by simp

end
