(* ===== verification/EthTxManager.thy ===== *)
theory EthTxManager
  imports MonitoredTx Effects GoFloat
begin

text \<open>
  The Ethereum transaction manager (\<open>ethtxmanager/ethtxmanager.go\<close>): it adds transactions to the
  table of monitored transactions, signs and sends them, raises their gas and price, moves them
  to their final status when a receipt is found, and waits for them on behalf of their owner.
  The Ethereum node, the state, the database connection and the clock are the interfaces of
  \<open>ethtxmanager/interfaces.go\<close>: an argument whose calls read and change a world of any type.
\<close>

subsection \<open>Interfaces\<close>

datatype EthError = EthNotFound | EthExecutionReverted | EthOther string

datatype LastBlockError = StateNotSynchronized | StateOther

record Receipt =
  rc_Status :: u64
  rc_BlockNumber :: "int option"
  rc_TxHash :: hash

definition ReceiptStatusSuccessful :: u64 where "ReceiptStatusSuccessful = 1"

record 'w ethEnv =
  en_hash :: "LegacyTx \<Rightarrow> hash"
  en_GetTx :: "hash \<Rightarrow> 'w \<Rightarrow> (EthError + LegacyTx) \<times> 'w"
  en_GetTxReceipt :: "hash \<Rightarrow> 'w \<Rightarrow> (EthError + Receipt) \<times> 'w"
  en_WaitTxToBeMined :: "LegacyTx \<Rightarrow> duration \<Rightarrow> 'w \<Rightarrow> (EthError + bool) \<times> 'w"
  en_SendTx :: "LegacyTx \<Rightarrow> 'w \<Rightarrow> (EthError + unit) \<times> 'w"
  en_CurrentNonce :: "address \<Rightarrow> 'w \<Rightarrow> (EthError + u64) \<times> 'w"
  en_SuggestedGasPrice :: "'w \<Rightarrow> (EthError + int) \<times> 'w"
  en_EstimateGas :: "address \<Rightarrow> address option \<Rightarrow> int option \<Rightarrow> bytes option \<Rightarrow> 'w \<Rightarrow> (EthError + u64) \<times> 'w"
  en_CheckTxWasMined :: "hash \<Rightarrow> 'w \<Rightarrow> (EthError + bool \<times> Receipt option) \<times> 'w"
  en_SignTx :: "address \<Rightarrow> LegacyTx \<Rightarrow> 'w \<Rightarrow> (EthError + LegacyTx) \<times> 'w"
  en_GetRevertMessage :: "LegacyTx option \<Rightarrow> 'w \<Rightarrow> (EthError + string) \<times> 'w"
  en_GetLastBlock :: "'w \<Rightarrow> (LastBlockError + u64) \<times> 'w"
  en_dbUp :: "'w \<Rightarrow> bool \<times> 'w"
  en_now :: "'w \<Rightarrow> time \<times> 'w"

record ethCfg =
  ForcedGas :: u64
  GasPriceMarginFactor :: rat
  MaxGasPriceLimit :: u64
  WaitTxToBeMined :: duration

text \<open>The client: its table and the world.\<close>

record 'w client =
  cl_rows :: "mtxRow list"
  cl_world :: 'w

datatype MgrError = mgrEth EthError | mgrStorage MtxError

definition callW :: "('w \<Rightarrow> 'a \<times> 'w) \<Rightarrow> ('w client, 'e, 'a) act" where
  "callW q = askA (\<lambda>s. case q (cl_world s) of (a, w) \<Rightarrow> (a, s\<lparr>cl_world := w\<rparr>))"

text \<open>A call whose error ends the calling function.\<close>

definition callE :: "('w \<Rightarrow> (EthError + 'a) \<times> 'w) \<Rightarrow> ('w client, MgrError, 'a) act" where
  "callE q = bindA (callW q) (\<lambda>r. case r of Inl e \<Rightarrow> failA (mgrEth e) | Inr a \<Rightarrow> retA a)"

definition readDB :: "'w ethEnv \<Rightarrow> (bool \<Rightarrow> mtxRow list \<Rightarrow> (MtxError, 'a) outcome) \<Rightarrow> ('w client, MgrError, 'a) act" where
  "readDB env f =
     bindA (callW (en_dbUp env)) (\<lambda>up s.
       case f up (cl_rows s) of Ok a \<Rightarrow> (Ok a, s) | Err e \<Rightarrow> (Err (mgrStorage e), s) | Panic \<Rightarrow> (Panic, s))"

definition writeDB ::
  "'w ethEnv \<Rightarrow> (bool \<Rightarrow> time \<Rightarrow> mtxRow list \<Rightarrow> (MtxError, mtxRow list) outcome) \<Rightarrow> ('w client, MgrError, unit) act" where
  "writeDB env f =
     bindA (callW (en_now env)) (\<lambda>now. bindA (callW (en_dbUp env)) (\<lambda>up s.
       case f up now (cl_rows s) of
         Ok rows \<Rightarrow> (Ok (), s\<lparr>cl_rows := rows\<rparr>) | Err e \<Rightarrow> (Err (mgrStorage e), s) | Panic \<Rightarrow> (Panic, s)))"

definition storageUpdate :: "textLib \<Rightarrow> 'w ethEnv \<Rightarrow> monitoredTx \<Rightarrow> ('w client, MgrError, unit) act" where
  "storageUpdate tlib env mTx = writeDB env (\<lambda>up now. ms_Update tlib up now mTx)"

subsection \<open>Adding a transaction\<close>

text \<open>The product is a \<open>big.Float\<close> of 53 bits, as is the price it is computed from.\<close>

definition suggestedGasPrice :: "'w ethEnv \<Rightarrow> ethCfg \<Rightarrow> ('w client, MgrError, int) act" where
  "suggestedGasPrice env cfg =
     bindA (callE (en_SuggestedGasPrice env)) (\<lambda>gasPrice.
     let fGasPrice = roundTo 53 (of_int gasPrice);
         adjusted = bf_Int \<lparr>bf_prec = 53, bf_val = Fin (roundTo 53 (fGasPrice * GasPriceMarginFactor cfg))\<rparr> 0
     in retA (if MaxGasPriceLimit cfg > 0 \<and> adjusted > uint (MaxGasPriceLimit cfg)
              then uint (MaxGasPriceLimit cfg) else adjusted))"

definition etm_Add ::
  "textLib \<Rightarrow> 'w ethEnv \<Rightarrow> ethCfg \<Rightarrow> string \<Rightarrow> string \<Rightarrow> address \<Rightarrow> address option \<Rightarrow> int option \<Rightarrow> bytes option \<Rightarrow> u64 \<Rightarrow>
   ('w client, MgrError, unit) act" where
  "etm_Add tlib env cfg owner i sender to value data gasOffset =
     bindA (callE (en_CurrentNonce env sender)) (\<lambda>nonce.
     bindA (tryA (callE (en_EstimateGas env sender to value data))) (\<lambda>g.
     bindA (case g of Inr gas \<Rightarrow> retA gas | Inl e \<Rightarrow> if ForcedGas cfg > 0 then retA (ForcedGas cfg) else failA e) (\<lambda>gas.
     bindA (suggestedGasPrice env cfg) (\<lambda>gasPrice.
     bindA (callW (en_now env)) (\<lambda>now1.
     writeDB env (\<lambda>up now2. ms_Add tlib up now1 now2
       \<lparr>mtx_owner = owner, mtx_id = i, mtx_from = sender, mtx_to = to, mtx_nonce = nonce, mtx_value = value, mtx_data = data,
        mtx_gas = gas, mtx_gasOffset = gasOffset, mtx_gasPrice = gasPrice, mtx_status = MonitoredTxStatusCreated,
        mtx_blockNumber = None, mtx_history = None, mtx_createdAt = 0, mtx_updatedAt = 0\<rparr>))))))"

subsection \<open>Results\<close>

record TxResult =
  res_Tx :: "LegacyTx option"
  res_Receipt :: "Receipt option"
  res_RevertMessage :: string

record MonitoredTxResult =
  res_ID :: string
  res_Status :: MonitoredTxStatus
  res_Txs :: "(hash, TxResult) fmap"

text \<open>An answer that is not found leaves nil; every other error ends the function.\<close>

definition orNotFound :: "EthError + 'a \<Rightarrow> ('w client, MgrError, 'a option) act" where
  "orNotFound r =
     (case r of Inr a \<Rightarrow> retA (Some a) | Inl e \<Rightarrow> if e = EthNotFound then retA None else failA (mgrEth e))"

fun resultTxs :: "'w ethEnv \<Rightarrow> hash list \<Rightarrow> (hash, TxResult) fmap \<Rightarrow> ('w client, MgrError, (hash, TxResult) fmap) act" where
  "resultTxs env [] txs = retA txs"
| "resultTxs env (h # hs) txs =
     bindA (callW (en_GetTx env h)) (\<lambda>r. bindA (orNotFound r) (\<lambda>tx.
     bindA (callW (en_GetTxReceipt env h)) (\<lambda>r. bindA (orNotFound r) (\<lambda>receipt.
     bindA (callW (en_GetRevertMessage env tx)) (\<lambda>r.
     bindA (if r = Inl EthExecutionReverted then retA None else orNotFound r) (\<lambda>msg.
     resultTxs env hs (fmupd h \<lparr>res_Tx = tx, res_Receipt = receipt, res_RevertMessage = (case msg of None \<Rightarrow> '''' | Some m \<Rightarrow> m)\<rparr> txs)))))))"

definition buildResult :: "textLib \<Rightarrow> 'w ethEnv \<Rightarrow> monitoredTx \<Rightarrow> ('w client, MgrError, MonitoredTxResult) act" where
  "buildResult tlib env mTx =
     bindA (resultTxs env (historyHashSlice tlib mTx) fmempty) (\<lambda>txs.
     retA \<lparr>res_ID = mtx_id mTx, res_Status = mtx_status mTx, res_Txs = txs\<rparr>)"

fun buildResults :: "textLib \<Rightarrow> 'w ethEnv \<Rightarrow> monitoredTx list \<Rightarrow> ('w client, MgrError, MonitoredTxResult list) act" where
  "buildResults tlib env [] = retA []"
| "buildResults tlib env (m # ms) =
     bindA (buildResult tlib env m) (\<lambda>r. bindA (buildResults tlib env ms) (\<lambda>rs. retA (r # rs)))"

definition ResultsByStatus ::
  "textLib \<Rightarrow> 'w ethEnv \<Rightarrow> string \<Rightarrow> MonitoredTxStatus list \<Rightarrow> ('w client, MgrError, MonitoredTxResult list) act" where
  "ResultsByStatus tlib env owner statuses =
     bindA (readDB env (\<lambda>up. ms_GetByStatus tlib up (Some owner) statuses)) (buildResults tlib env)"

definition etm_Result :: "textLib \<Rightarrow> 'w ethEnv \<Rightarrow> string \<Rightarrow> string \<Rightarrow> ('w client, MgrError, MonitoredTxResult) act" where
  "etm_Result tlib env owner i = bindA (readDB env (\<lambda>up. ms_Get tlib up owner i)) (buildResult tlib env)"

definition setStatusDone :: "textLib \<Rightarrow> 'w ethEnv \<Rightarrow> string \<Rightarrow> string \<Rightarrow> ('w client, MgrError, unit) act" where
  "setStatusDone tlib env owner i =
     bindA (readDB env (\<lambda>up. ms_Get tlib up owner i)) (\<lambda>mTx.
     storageUpdate tlib env (mTx\<lparr>mtx_status := MonitoredTxStatusDone\<rparr>))"

subsection \<open>Reorganisations of L1\<close>

fun reorgAll :: "textLib \<Rightarrow> 'w ethEnv \<Rightarrow> monitoredTx list \<Rightarrow> ('w client, MgrError, unit) act" where
  "reorgAll tlib env [] = retA ()"
| "reorgAll tlib env (m # ms) =
     bindA (storageUpdate tlib env (m\<lparr>mtx_blockNumber := None, mtx_status := MonitoredTxStatusReorged\<rparr>)) (\<lambda>_.
     reorgAll tlib env ms)"

definition etm_Reorg :: "textLib \<Rightarrow> 'w ethEnv \<Rightarrow> u64 \<Rightarrow> ('w client, MgrError, unit) act" where
  "etm_Reorg tlib env fromBlockNumber =
     bindA (readDB env (\<lambda>up. ms_GetByBlock tlib up (Some fromBlockNumber) None)) (reorgAll tlib env)"

subsection \<open>Monitoring\<close>

record histState =
  lastReceiptChecked :: Receipt
  confirmed :: bool
  hasFailedReceipts :: bool
  allHistoryTxsWereMined :: bool

fun checkHistory :: "'w ethEnv \<Rightarrow> hash list \<Rightarrow> histState \<Rightarrow> ('w client, MgrError, histState) act" where
  "checkHistory env [] st = retA st"
| "checkHistory env (h # hs) st =
     bindA (callW (en_CheckTxWasMined env h)) (\<lambda>r.
       case r of
         Inl _ \<Rightarrow> checkHistory env hs st
       | Inr (mined, receipt) \<Rightarrow>
           if \<not> mined then checkHistory env hs (st\<lparr>allHistoryTxsWereMined := False\<rparr>)
           else (case receipt of
                   None \<Rightarrow> panicA
                 | Some rc \<Rightarrow>
                     if rc_Status rc = ReceiptStatusSuccessful
                     then retA (st\<lparr>lastReceiptChecked := rc, confirmed := True\<rparr>)
                     else checkHistory env hs
                            (st\<lparr>lastReceiptChecked := rc, confirmed := False, hasFailedReceipts := True\<rparr>)))"

definition histStart :: histState where
  "histStart =
     \<lparr>lastReceiptChecked = \<lparr>rc_Status = 0, rc_BlockNumber = None, rc_TxHash = 0\<rparr>, confirmed = False,
      hasFailedReceipts = False, allHistoryTxsWereMined = True\<rparr>"

definition reviewMonitoredTxNonce :: "'w ethEnv \<Rightarrow> monitoredTx \<Rightarrow> ('w client, MgrError, monitoredTx) act" where
  "reviewMonitoredTxNonce env mTx =
     bindA (callE (en_CurrentNonce env (mtx_from mTx))) (\<lambda>nonce.
     retA (if nonce > mtx_nonce mTx then mTx\<lparr>mtx_nonce := nonce\<rparr> else mTx))"

definition reviewMonitoredTx :: "'w ethEnv \<Rightarrow> ethCfg \<Rightarrow> monitoredTx \<Rightarrow> ('w client, MgrError, monitoredTx) act" where
  "reviewMonitoredTx env cfg mTx =
     bindA (callE (en_EstimateGas env (mtx_from mTx) (mtx_to mTx) (mtx_value mTx) (mtx_data mTx))) (\<lambda>gas.
     let m1 = (if gas > mtx_gas mTx then mTx\<lparr>mtx_gas := gas\<rparr> else mTx) in
     bindA (suggestedGasPrice env cfg) (\<lambda>gasPrice.
     retA (if gasPrice > mtx_gasPrice m1 then m1\<lparr>mtx_gasPrice := gasPrice\<rparr> else m1)))"

definition shouldContinueToMonitorThisTx :: "'w ethEnv \<Rightarrow> Receipt \<Rightarrow> ('w client, MgrError, bool) act" where
  "shouldContinueToMonitorThisTx env receipt =
     (if rc_Status receipt = ReceiptStatusSuccessful then retA False
      else bindA (callW (en_GetTx env (rc_TxHash receipt))) (\<lambda>r.
        case r of
          Inl _ \<Rightarrow> retA False
        | Inr tx \<Rightarrow> bindA (callW (en_GetRevertMessage env (Some tx))) (\<lambda>m. retA (m = Inl EthExecutionReverted))))"

text \<open>
  The function \<open>monitorTx\<close> in the order of its text.  An early \<open>return\<close> ends the action with an
  error; \<open>order\<close> is the order in which the runtime visits the history.
\<close>

definition reviewNonceIfNeeded ::
  "textLib \<Rightarrow> 'w ethEnv \<Rightarrow> histState \<Rightarrow> monitoredTx \<Rightarrow> ('w client, MgrError, monitoredTx) act" where
  "reviewNonceIfNeeded tlib env st mTx =
     (if \<not> confirmed st \<and> hasFailedReceipts st \<and> allHistoryTxsWereMined st
      then bindA (reviewMonitoredTxNonce env mTx) (\<lambda>m. bindA (storageUpdate tlib env m) (\<lambda>_. retA m))
      else retA mTx)"

definition addToHistory :: "textLib \<Rightarrow> 'w ethEnv \<Rightarrow> monitoredTx \<Rightarrow> LegacyTx \<Rightarrow> ('w client, MgrError, monitoredTx) act" where
  "addToHistory tlib env mTx signedTx =
     (case AddHistory mTx (en_hash env signedTx) of
        Panic \<Rightarrow> panicA
      | Err e \<Rightarrow> if e = errMtxAlreadyExists then retA mTx else failA (mgrStorage e)
      | Ok m \<Rightarrow> bindA (storageUpdate tlib env m) (\<lambda>_. retA m))"

definition sendIfNew :: "textLib \<Rightarrow> 'w ethEnv \<Rightarrow> monitoredTx \<Rightarrow> LegacyTx \<Rightarrow> ('w client, MgrError, monitoredTx) act" where
  "sendIfNew tlib env mTx signedTx =
     bindA (callW (en_GetTx env (en_hash env signedTx))) (\<lambda>r.
     if r = Inl EthNotFound then
       bindA (callE (en_SendTx env signedTx)) (\<lambda>_.
       if mtx_status mTx = MonitoredTxStatusCreated
       then (let m = mTx\<lparr>mtx_status := MonitoredTxStatusSent\<rparr> in bindA (storageUpdate tlib env m) (\<lambda>_. retA m))
       else retA mTx)
     else retA mTx)"

definition sendAndWait ::
  "textLib \<Rightarrow> 'w ethEnv \<Rightarrow> ethCfg \<Rightarrow> monitoredTx \<Rightarrow> ('w client, MgrError, monitoredTx \<times> Receipt) act" where
  "sendAndWait tlib env cfg mTx =
     (if mtx_status mTx = MonitoredTxStatusReorged then failA (mgrStorage errMtxNotFound)
      else
        bindA (if mtx_status mTx = MonitoredTxStatusSent
               then bindA (reviewMonitoredTx env cfg mTx) (\<lambda>m. bindA (storageUpdate tlib env m) (\<lambda>_. retA m))
               else retA mTx) (\<lambda>m1.
        bindA (callE (en_SignTx env (mtx_from m1) (mtx_Tx m1))) (\<lambda>signedTx.
        bindA (addToHistory tlib env m1 signedTx) (\<lambda>m2.
        bindA (sendIfNew tlib env m2 signedTx) (\<lambda>m3.
        bindA (callE (en_WaitTxToBeMined env signedTx (WaitTxToBeMined cfg))) (\<lambda>mined.
        if \<not> mined then failA (mgrEth EthNotFound)
        else bindA (callE (en_GetTxReceipt env (en_hash env signedTx))) (\<lambda>rc. retA (m3, rc))))))))"

definition settle :: "textLib \<Rightarrow> 'w ethEnv \<Rightarrow> monitoredTx \<Rightarrow> Receipt \<Rightarrow> ('w client, MgrError, unit) act" where
  "settle tlib env mTx rc =
     (if rc_Status rc = ReceiptStatusSuccessful then
        (case rc_BlockNumber rc of
           None \<Rightarrow> panicA
         | Some bn \<Rightarrow>
             bindA (callW (en_GetLastBlock env)) (\<lambda>r.
               case r of
                 Inl _ \<Rightarrow> failA (mgrEth EthNotFound)
               | Inr b \<Rightarrow>
                   if b < uint64_of bn then failA (mgrEth EthNotFound)
                   else storageUpdate tlib env (mTx\<lparr>mtx_status := MonitoredTxStatusConfirmed, mtx_blockNumber := Some bn\<rparr>)))
      else
        bindA (shouldContinueToMonitorThisTx env rc) (\<lambda>continue.
        if continue then failA (mgrEth EthExecutionReverted)
        else storageUpdate tlib env (mTx\<lparr>mtx_status := MonitoredTxStatusFailed, mtx_blockNumber := rc_BlockNumber rc\<rparr>)))"

definition monitorTx ::
  "textLib \<Rightarrow> 'w ethEnv \<Rightarrow> ethCfg \<Rightarrow> hash list \<Rightarrow> monitoredTx \<Rightarrow> ('w client, MgrError, unit) act" where
  "monitorTx tlib env cfg order mTx =
     bindA (checkHistory env order histStart) (\<lambda>st.
     bindA (reviewNonceIfNeeded tlib env st mTx) (\<lambda>m1.
     bindA (if \<not> confirmed st then sendAndWait tlib env cfg m1 else retA (m1, lastReceiptChecked st)) (\<lambda>(m2, rc).
     settle tlib env m2 rc)))"

text \<open>
  \<open>monitorTxs\<close> starts one goroutine per transaction and waits for all of them; a panic ends only its
  goroutine.  Each works on the row of its own key, and they run here one after the other.
\<close>

fun monitorAll :: "textLib \<Rightarrow> 'w ethEnv \<Rightarrow> ethCfg \<Rightarrow> monitoredTx list \<Rightarrow> 'w client \<Rightarrow> 'w client" where
  "monitorAll tlib env cfg [] s = s"
| "monitorAll tlib env cfg (m # ms) s =
     monitorAll tlib env cfg ms (snd (monitorTx tlib env cfg (historyHashSlice tlib m) m s))"

definition monitorTxs :: "textLib \<Rightarrow> 'w ethEnv \<Rightarrow> ethCfg \<Rightarrow> ('w client, MgrError, unit) act" where
  "monitorTxs tlib env cfg =
     bindA (readDB env (\<lambda>up. ms_GetByStatus tlib up None
       [MonitoredTxStatusCreated, MonitoredTxStatusSent, MonitoredTxStatusReorged])) (\<lambda>mTxs s.
     (Ok (), monitorAll tlib env cfg mTxs s))"

subsection \<open>Waiting for the transactions of an owner\<close>

text \<open>
  \<open>ProcessPendingMonitoredTxs\<close> with a bound on the rounds of its loops; \<open>None\<close> is a run that needs
  more.  \<open>sleep\<close> is what the other goroutines do while this one sleeps, and the result handler is a
  function that changes the caller's variables.
\<close>

fun waitResult ::
  "textLib \<Rightarrow> 'w ethEnv \<Rightarrow> ('w client \<Rightarrow> 'w client) \<Rightarrow> string \<Rightarrow> string \<Rightarrow> nat \<Rightarrow> 'w client \<Rightarrow> 'w client option" where
  "waitResult tlib env sleep owner i 0 s = None"
| "waitResult tlib env sleep owner i (Suc n) s =
     (case etm_Result tlib env owner i (sleep s) of
        (Ok result, s') \<Rightarrow>
          if res_Status result = MonitoredTxStatusConfirmed \<or> res_Status result = MonitoredTxStatusFailed
          then Some s' else waitResult tlib env sleep owner i n s'
      | (_, s') \<Rightarrow> waitResult tlib env sleep owner i n s')"

fun handleResults ::
  "textLib \<Rightarrow> 'w ethEnv \<Rightarrow> ('w client \<Rightarrow> 'w client) \<Rightarrow> (MonitoredTxResult \<Rightarrow> 'h \<Rightarrow> 'h) \<Rightarrow> string \<Rightarrow> nat \<Rightarrow>
   MonitoredTxResult list \<Rightarrow> 'h \<Rightarrow> 'w client \<Rightarrow> ('h \<times> 'w client) option" where
  "handleResults tlib env sleep handler owner n [] h s = Some (h, s)"
| "handleResults tlib env sleep handler owner n (result # results) h s =
     (if res_Status result = MonitoredTxStatusConfirmed then
        (case setStatusDone tlib env owner (res_ID result) s of
           (Ok _, s') \<Rightarrow> handleResults tlib env sleep handler owner n results (handler result h) s'
         | (_, s') \<Rightarrow> handleResults tlib env sleep handler owner n results h s')
      else if res_Status result = MonitoredTxStatusFailed then
        handleResults tlib env sleep handler owner n results (handler result h) s
      else
        (case waitResult tlib env sleep owner (res_ID result) n s of
           None \<Rightarrow> None
         | Some s' \<Rightarrow> handleResults tlib env sleep handler owner n results h s'))"

definition pendingStatuses :: "MonitoredTxStatus list" where
  "pendingStatuses =
     [MonitoredTxStatusCreated, MonitoredTxStatusSent, MonitoredTxStatusFailed, MonitoredTxStatusConfirmed,
      MonitoredTxStatusReorged]"

fun ProcessPendingMonitoredTxs ::
  "textLib \<Rightarrow> 'w ethEnv \<Rightarrow> ('w client \<Rightarrow> 'w client) \<Rightarrow> (MonitoredTxResult \<Rightarrow> 'h \<Rightarrow> 'h) \<Rightarrow> string \<Rightarrow> nat \<Rightarrow>
   'h \<Rightarrow> 'w client \<Rightarrow> ('h \<times> 'w client) option" where
  "ProcessPendingMonitoredTxs tlib env sleep handler owner 0 h s = None"
| "ProcessPendingMonitoredTxs tlib env sleep handler owner (Suc n) h s =
     (case ResultsByStatus tlib env owner pendingStatuses s of
        (Ok [], s') \<Rightarrow> Some (h, s')
      | (Ok results, s') \<Rightarrow>
          (case handleResults tlib env sleep handler owner n results h s' of
             None \<Rightarrow> None
           | Some (h', s'') \<Rightarrow> ProcessPendingMonitoredTxs tlib env sleep handler owner n h' s'')
      | (_, s') \<Rightarrow> ProcessPendingMonitoredTxs tlib env sleep handler owner n h (sleep s'))"

end
