(* ===== verification/EthTxLifecycle.thy ===== *)
theory EthTxLifecycle
  imports EthTxManager
begin

text \<open>
  The life of a monitored transaction.  \<open>mtx_step\<close> is the specification: what may happen to a
  transaction in one step of the monitoring.  The monitoring of a transaction changes the row of
  that transaction only, and changes it by steps of the specification.
\<close>

subsection \<open>Specification\<close>

inductive mtx_step :: "monitoredTx \<Rightarrow> monitoredTx \<Rightarrow> bool" where
  step_nonce: "mtx_nonce m \<le> n \<Longrightarrow> mtx_step m (m\<lparr>mtx_nonce := n\<rparr>)"
| step_review: "mtx_status m = MonitoredTxStatusSent \<Longrightarrow> mtx_gas m \<le> g \<Longrightarrow> mtx_gasPrice m \<le> p \<Longrightarrow>
    mtx_step m (m\<lparr>mtx_gas := g, mtx_gasPrice := p\<rparr>)"
| step_history: "mtx_history m = Some H \<Longrightarrow> mtx_step m (m\<lparr>mtx_history := Some (finsert h H)\<rparr>)"
| step_sent: "mtx_status m = MonitoredTxStatusCreated \<Longrightarrow> mtx_step m (m\<lparr>mtx_status := MonitoredTxStatusSent\<rparr>)"
| step_confirmed:
    "mtx_status m \<in> {MonitoredTxStatusCreated, MonitoredTxStatusSent, MonitoredTxStatusReorged} \<Longrightarrow>
     mtx_step m (m\<lparr>mtx_status := MonitoredTxStatusConfirmed, mtx_blockNumber := Some b\<rparr>)"
| step_failed:
    "mtx_status m \<in> {MonitoredTxStatusCreated, MonitoredTxStatusSent} \<Longrightarrow>
     mtx_step m (m\<lparr>mtx_status := MonitoredTxStatusFailed, mtx_blockNumber := b\<rparr>)"

text \<open>Transactions are compared without the time of their last update.\<close>

definition forget :: "monitoredTx \<Rightarrow> monitoredTx" where
  "forget m = m\<lparr>mtx_updatedAt := 0\<rparr>"

lemma forget_sel [simp]:
  "mtx_owner (forget m) = mtx_owner m" "mtx_id (forget m) = mtx_id m" "mtx_from (forget m) = mtx_from m"
  "mtx_to (forget m) = mtx_to m" "mtx_nonce (forget m) = mtx_nonce m" "mtx_value (forget m) = mtx_value m"
  "mtx_data (forget m) = mtx_data m" "mtx_gas (forget m) = mtx_gas m" "mtx_gasOffset (forget m) = mtx_gasOffset m"
  "mtx_gasPrice (forget m) = mtx_gasPrice m" "mtx_status (forget m) = mtx_status m"
  "mtx_blockNumber (forget m) = mtx_blockNumber m" "mtx_history (forget m) = mtx_history m"
  "mtx_createdAt (forget m) = mtx_createdAt m"
  by (simp_all add: forget_def)

lemma forget_updatedAt [simp]: "forget (m\<lparr>mtx_updatedAt := u\<rparr>) = forget m"
  by (simp add: forget_def)

definition sameOrigin :: "monitoredTx \<Rightarrow> monitoredTx \<Rightarrow> bool" where
  "sameOrigin m m' \<longleftrightarrow>
     mtxKey m' = mtxKey m \<and> mtx_from m' = mtx_from m \<and> mtx_to m' = mtx_to m \<and> mtx_value m' = mtx_value m \<and>
     mtx_data m' = mtx_data m \<and> mtx_gasOffset m' = mtx_gasOffset m \<and> mtx_createdAt m' = mtx_createdAt m"

definition onlyGrows :: "monitoredTx \<Rightarrow> monitoredTx \<Rightarrow> bool" where
  "onlyGrows m m' \<longleftrightarrow>
     mtx_nonce m \<le> mtx_nonce m' \<and> mtx_gas m \<le> mtx_gas m' \<and> mtx_gasPrice m \<le> mtx_gasPrice m' \<and>
     (\<forall>H. mtx_history m = Some H \<longrightarrow> (\<exists>H'. mtx_history m' = Some H' \<and> H |\<subseteq>| H'))"

text \<open>The edges of the status, and the block number a transaction has exactly in its final statuses.\<close>

definition statusEdge :: "MonitoredTxStatus \<Rightarrow> MonitoredTxStatus \<Rightarrow> bool" where
  "statusEdge a b \<longleftrightarrow>
     a = b \<or>
     (a, b) \<in> {(MonitoredTxStatusCreated, MonitoredTxStatusSent), (MonitoredTxStatusCreated, MonitoredTxStatusConfirmed),
       (MonitoredTxStatusCreated, MonitoredTxStatusFailed), (MonitoredTxStatusSent, MonitoredTxStatusConfirmed),
       (MonitoredTxStatusSent, MonitoredTxStatusFailed), (MonitoredTxStatusReorged, MonitoredTxStatusConfirmed)}"

lemma mtx_steps_sameOrigin: "mtx_step\<^sup>*\<^sup>* m m' \<Longrightarrow> sameOrigin m m'"
proof (induction rule: rtranclp_induct)
  case (step y z)
  show ?case using step(2,3) by (cases rule: mtx_step.cases) (simp_all add: sameOrigin_def mtxKey_def)
qed (simp add: sameOrigin_def)

lemma onlyGrows_trans: "onlyGrows a b \<Longrightarrow> onlyGrows b c \<Longrightarrow> onlyGrows a c"
  unfolding onlyGrows_def by (meson order_trans)

lemma mtx_step_grows: "mtx_step m m' \<Longrightarrow> onlyGrows m m'"
  by (cases rule: mtx_step.cases, assumption) (auto simp: onlyGrows_def)

lemma mtx_steps_grow: "mtx_step\<^sup>*\<^sup>* m m' \<Longrightarrow> onlyGrows m m'"
  by (induction rule: rtranclp_induct) (auto simp: onlyGrows_def[of m m] intro: onlyGrows_trans mtx_step_grows)

lemma mtx_steps_status: "mtx_step\<^sup>*\<^sup>* m m' \<Longrightarrow> statusEdge (mtx_status m) (mtx_status m')"
proof (induction rule: rtranclp_induct)
  case (step y z)
  show ?case using step(2,3) by (cases rule: mtx_step.cases) (auto simp: statusEdge_def)
qed (simp add: statusEdge_def)

text \<open>With \<open>nn\<close> false, the steps that leave the nonce alone.\<close>

definition mtx_step_of :: "bool \<Rightarrow> monitoredTx \<Rightarrow> monitoredTx \<Rightarrow> bool" where
  "mtx_step_of nn m m' \<longleftrightarrow> mtx_step m m' \<and> (nn \<or> mtx_nonce m' = mtx_nonce m)"

lemma mtx_steps_of: "(mtx_step_of nn)\<^sup>*\<^sup>* m m' \<Longrightarrow> mtx_step\<^sup>*\<^sup>* m m'"
  by (rule rtranclp_mono[THEN predicate2D, of "mtx_step_of nn"]) (auto simp: mtx_step_of_def)

lemma mtx_steps_of_nonce: "(mtx_step_of False)\<^sup>*\<^sup>* m m' \<Longrightarrow> mtx_nonce m' = mtx_nonce m"
  by (induction rule: rtranclp_induct) (auto simp: mtx_step_of_def)

subsection \<open>The environment\<close>

text \<open>
  What is assumed of the Ethereum node: a suggested price is not negative, and a receipt names its
  block by a number of 64 bits.  The configuration bounds the gas price, so that it fits its column.
\<close>

definition receipt_ok :: "Receipt \<Rightarrow> bool" where
  "receipt_ok rc \<longleftrightarrow> (\<exists>b. rc_BlockNumber rc = Some b \<and> fits64 b)"

definition env_ok :: "'w ethEnv \<Rightarrow> bool" where
  "env_ok env \<longleftrightarrow>
     (\<forall>w p w'. en_SuggestedGasPrice env w = (Inr p, w') \<longrightarrow> 0 \<le> p) \<and>
     (\<forall>h w mined rc w'. en_CheckTxWasMined env h w = (Inr (mined, Some rc), w') \<longrightarrow> receipt_ok rc) \<and>
     (\<forall>h w rc w'. en_GetTxReceipt env h w = (Inr rc, w') \<longrightarrow> receipt_ok rc)"

definition cfg_ok :: "ethCfg \<Rightarrow> bool" where
  "cfg_ok cfg \<longleftrightarrow> 0 \<le> GasPriceMarginFactor cfg \<and> 0 < MaxGasPriceLimit cfg"

subsection \<open>Tracking one row\<close>

definition tracks ::
  "bool \<Rightarrow> textLib \<Rightarrow> mtxRow list \<Rightarrow> monitoredTx \<Rightarrow> monitoredTx \<Rightarrow> 'w client \<Rightarrow> bool" where
  "tracks nn tlib rows0 m0 m s \<longleftrightarrow>
     table_ok tlib (cl_rows s) \<and> mtx_storable m \<and> (mtx_step_of nn)\<^sup>*\<^sup>* (forget m0) (forget m) \<and>
     map_option forget (mtxAt tlib (cl_rows s) (mtxKey m0)) = Some (forget m) \<and>
     (\<forall>k. k \<noteq> mtxKey m0 \<longrightarrow> mtxAt tlib (cl_rows s) k = mtxAt tlib rows0 k)"

definition tracked :: "bool \<Rightarrow> textLib \<Rightarrow> mtxRow list \<Rightarrow> monitoredTx \<Rightarrow> 'w client \<Rightarrow> bool" where
  "tracked nn tlib rows0 m0 s \<longleftrightarrow> (\<exists>m. tracks nn tlib rows0 m0 m s)"

lemma tracksI [intro]: "tracks nn tlib rows0 m0 m s \<Longrightarrow> tracked nn tlib rows0 m0 s"
  by (auto simp: tracked_def)

lemma tracks_world [simp]: "tracks nn tlib rows0 m0 m (s\<lparr>cl_world := w\<rparr>) = tracks nn tlib rows0 m0 m s"
  by (simp add: tracks_def)

lemma tracks_key: "tracks nn tlib rows0 m0 m s \<Longrightarrow> mtxKey m = mtxKey m0 \<and> mtx_createdAt m = mtx_createdAt m0"
  using mtx_steps_sameOrigin[of "forget m0" "forget m", OF mtx_steps_of] by (auto simp: tracks_def sameOrigin_def mtxKey_def)

lemma callW_tracks:
  assumes "\<And>w a w'. q w = (a, w') \<Longrightarrow> R a"
  shows "ensures (tracks nn tlib rows0 m0 m) (callW q) (\<lambda>a s. tracks nn tlib rows0 m0 m s \<and> R a) X"
  unfolding callW_def using assms by (intro ensures_ask) (auto split: prod.splits)

lemma callE_tracks:
  assumes "\<And>w a w'. q w = (Inr a, w') \<Longrightarrow> R a"
  shows "ensures (tracks nn tlib rows0 m0 m) (callE q) (\<lambda>a s. tracks nn tlib rows0 m0 m s \<and> R a) (tracked nn tlib rows0 m0)"
  unfolding callE_def
proof (rule ensures_bind[OF callW_tracks[where R = "\<lambda>r. case r of Inl _ \<Rightarrow> True | Inr a \<Rightarrow> R a"]])
  show "case a of Inl _ \<Rightarrow> True | Inr a \<Rightarrow> R a" if "q w = (a, w')" for w a w'
    using that assms by (auto split: sum.splits)
next
  fix r
  show "ensures (\<lambda>s. tracks nn tlib rows0 m0 m s \<and> (case r of Inl _ \<Rightarrow> True | Inr a \<Rightarrow> R a))
     (case r of Inl e \<Rightarrow> failA (mgrEth e) | Inr a \<Rightarrow> retA a)
     (\<lambda>a s. tracks nn tlib rows0 m0 m s \<and> R a) (tracked nn tlib rows0 m0)"
    by (cases r) (auto intro!: vc)
qed


lemma storageUpdate_tracks:
  assumes tlib: "textLib_ok tlib"
    and st: "mtx_storable m' \<or> \<not> bigint_ok (blockNumberU64Ptr m')"
    and step: "(mtx_step_of nn)\<^sup>*\<^sup>* (forget m) (forget m')"
  shows "ensures (tracks nn tlib rows0 m0 m) (storageUpdate tlib env m') (\<lambda>_. tracks nn tlib rows0 m0 m') (tracked nn tlib rows0 m0)"
  unfolding storageUpdate_def writeDB_def
proof (rule ensures_bind[OF callW_tracks[where R = "\<lambda>_. True"]], simp, rule ensures_bind[OF ensures_conseq[OF callW_tracks[where R = "\<lambda>_. True"]]],
    simp, simp, assumption, assumption)
  fix now up
  show "ensures (\<lambda>s. tracks nn tlib rows0 m0 m s \<and> True)
     (\<lambda>s. case ms_Update tlib up now m' (cl_rows s) of
        Ok rows \<Rightarrow> (Ok (), s\<lparr>cl_rows := rows\<rparr>) | Err e \<Rightarrow> (Err (mgrStorage e), s) | Panic \<Rightarrow> (Panic, s))
     (\<lambda>_. tracks nn tlib rows0 m0 m') (tracked nn tlib rows0 m0)"
    unfolding ensures_def
  proof (intro allI impI)
    fix s :: "'w client"
    assume "tracks nn tlib rows0 m0 m s \<and> True"
    then have t: "tracks nn tlib rows0 m0 m s" by simp
    show "case (case ms_Update tlib up now m' (cl_rows s) of
        Ok rows \<Rightarrow> (Ok (), s\<lparr>cl_rows := rows\<rparr>) | Err e \<Rightarrow> (Err (mgrStorage e), s) | Panic \<Rightarrow> (Panic, s)) of
        (Ok _, s') \<Rightarrow> tracks nn tlib rows0 m0 m' s' | (_, s') \<Rightarrow> tracked nn tlib rows0 m0 s'"
    proof (cases "ms_Update tlib up now m' (cl_rows s)")
      case (Ok rows')
      have up: "ms_Update tlib True now m' (cl_rows s) = Ok rows'" and big: "bigint_ok (blockNumberU64Ptr m')"
        using Ok by (auto simp: ms_Update_def split: if_splits)
      have st': "mtx_storable m'" using st big by blast
      have ok: "table_ok tlib (cl_rows s)" using t by (simp add: tracks_def)
      have so: "sameOrigin (forget m) (forget m')" by (rule mtx_steps_sameOrigin[OF mtx_steps_of[OF step]])
      have key: "mtxKey m' = mtxKey m0" "mtx_createdAt m' = mtx_createdAt m0"
        using so tracks_key[OF t] by (auto simp: sameOrigin_def mtxKey_def)
      obtain a where a: "mtxAt tlib (cl_rows s) (mtxKey m0) = Some a" "forget a = forget m"
        using t by (auto simp: tracks_def)
      have created: "mtx_createdAt a = mtx_createdAt m'"
        using arg_cong[OF a(2), of mtx_createdAt] tracks_key[OF t] key(2) by simp
      have mem: "mtxKey m' \<in> rowKey ` set (cl_rows s)"
        using a(1) key(1) mtxAt_None[OF tlib ok, of "mtxKey m0"] by auto
      note u = ms_Update_ok[OF tlib ok st' mem up]
      have "map_option forget (mtxAt tlib rows' (mtxKey m0)) = Some (forget m')"
        using u(2) a(1) created by (simp add: key(1))
      then have "tracks nn tlib rows0 m0 m' (s\<lparr>cl_rows := rows'\<rparr>)"
        using u(1) u(3) t step st' key(1) by (auto simp: tracks_def)
      then show ?thesis using Ok by simp
    qed (use t in auto)
  qed
qed

subsection \<open>The parts of the monitoring\<close>

lemma forget_upd [simp]:
  "forget (m\<lparr>mtx_nonce := n\<rparr>) = (forget m)\<lparr>mtx_nonce := n\<rparr>"
  "forget (m\<lparr>mtx_gas := g\<rparr>) = (forget m)\<lparr>mtx_gas := g\<rparr>"
  "forget (m\<lparr>mtx_gasPrice := p\<rparr>) = (forget m)\<lparr>mtx_gasPrice := p\<rparr>"
  "forget (m\<lparr>mtx_history := H\<rparr>) = (forget m)\<lparr>mtx_history := H\<rparr>"
  "forget (m\<lparr>mtx_status := st\<rparr>) = (forget m)\<lparr>mtx_status := st\<rparr>"
  "forget (m\<lparr>mtx_blockNumber := b\<rparr>) = (forget m)\<lparr>mtx_blockNumber := b\<rparr>"
  by (simp_all add: forget_def)

definition improves :: "bool \<Rightarrow> monitoredTx \<Rightarrow> monitoredTx \<Rightarrow> bool" where
  "improves nn m m' \<longleftrightarrow> mtx_storable m' \<and> (mtx_step_of nn)\<^sup>*\<^sup>* (forget m) (forget m')"

lemma price_fits:
  assumes "cfg_ok cfg" "0 \<le> p"
  shows "fits64
    (if 0 < MaxGasPriceLimit cfg \<and>
        uint (MaxGasPriceLimit cfg) < bf_Int \<lparr>bf_prec = 53, bf_val = Fin (roundTo 53 (roundTo 53 (of_int p) * GasPriceMarginFactor cfg))\<rparr> 0
     then uint (MaxGasPriceLimit cfg)
     else bf_Int \<lparr>bf_prec = 53, bf_val = Fin (roundTo 53 (roundTo 53 (of_int p) * GasPriceMarginFactor cfg))\<rparr> 0)"
proof -
  let ?x = "roundTo 53 (roundTo 53 (of_int p) * GasPriceMarginFactor cfg)"
  have nonneg: "0 \<le> x \<Longrightarrow> 0 \<le> roundTo 53 x" for x using roundTo_ge[of 0 x 53] by simp
  have "0 \<le> ?x" using assms by (intro nonneg mult_nonneg_nonneg) (auto simp: cfg_ok_def)
  then have "0 \<le> bf_Int \<lparr>bf_prec = 53, bf_val = Fin ?x\<rparr> 0" by (simp add: bf_Int_def)
  then show ?thesis using assms(1) uint_bounded[of "MaxGasPriceLimit cfg"] by (auto simp: cfg_ok_def fits64_def)
qed

lemma suggestedGasPrice_fits:
  assumes "env_ok env" "cfg_ok cfg"
  shows "ensures (tracks nn tlib rows0 m0 m) (suggestedGasPrice env cfg) (\<lambda>p s. tracks nn tlib rows0 m0 m s \<and> fits64 p) (tracked nn tlib rows0 m0)"
  unfolding suggestedGasPrice_def Let_def
proof (rule ensures_bind[OF callE_tracks[where R = "\<lambda>p. 0 \<le> p"]])
  show "0 \<le> a" if "en_SuggestedGasPrice env w = (Inr a, w')" for w a w'
    using that assms(1) unfolding env_ok_def by blast
qed (rule ensures_ret, intro conjI price_fits[OF assms(2)], simp_all)

lemma reviewMonitoredTxNonce_improves:
  assumes "mtx_storable m"
  shows "ensures (tracks True tlib rows0 m0 m) (reviewMonitoredTxNonce env m)
    (\<lambda>m' s. tracks True tlib rows0 m0 m s \<and> improves True m m' \<and> mtx_status m' = mtx_status m) (tracked True tlib rows0 m0)"
  unfolding reviewMonitoredTxNonce_def
  by (rule ensures_bind[OF callE_tracks[where R = "\<lambda>_. True"]])
    (use assms in \<open>auto intro!: ensures_ret r_into_rtranclp[of "mtx_step_of True"] step_nonce simp: improves_def mtx_storable_def mtx_step_of_def\<close>)

lemma reviewMonitoredTx_improves:
  assumes "env_ok env" "cfg_ok cfg" "mtx_storable m" "mtx_status m = MonitoredTxStatusSent"
  shows "ensures (tracks nn tlib rows0 m0 m) (reviewMonitoredTx env cfg m)
    (\<lambda>m' s. tracks nn tlib rows0 m0 m s \<and> improves nn m m' \<and> mtx_status m' = mtx_status m) (tracked nn tlib rows0 m0)"
  unfolding reviewMonitoredTx_def Let_def
proof (rule ensures_bind[OF callE_tracks[where R = "\<lambda>_. True"]], simp)
  fix g
  let ?m1 = "if mtx_gas m < g then m\<lparr>mtx_gas := g\<rparr> else m"
  show "ensures (\<lambda>s. tracks nn tlib rows0 m0 m s \<and> True)
     (bindA (suggestedGasPrice env cfg) (\<lambda>p. retA (if mtx_gasPrice ?m1 < p then ?m1\<lparr>mtx_gasPrice := p\<rparr> else ?m1)))
     (\<lambda>m' s. tracks nn tlib rows0 m0 m s \<and> improves nn m m' \<and> mtx_status m' = mtx_status m) (tracked nn tlib rows0 m0)"
  proof (rule ensures_bind)
    show "ensures (\<lambda>s. tracks nn tlib rows0 m0 m s \<and> True) (suggestedGasPrice env cfg)
      (\<lambda>p s. tracks nn tlib rows0 m0 m s \<and> fits64 p) (tracked nn tlib rows0 m0)"
      using suggestedGasPrice_fits[OF assms(1,2)] by simp
    fix p
    let ?m2 = "if mtx_gasPrice ?m1 < p then ?m1\<lparr>mtx_gasPrice := p\<rparr> else ?m1"
    have eq: "forget ?m2 = (forget m)\<lparr>mtx_gas := mtx_gas ?m2, mtx_gasPrice := mtx_gasPrice ?m2\<rparr>"
      by (cases m) (auto simp: forget_def)
    have "mtx_step (forget m) (forget ?m2)"
      unfolding eq by (rule step_review) (use assms(4) in auto)
    then have "mtx_step_of nn (forget m) (forget ?m2)" by (auto simp: mtx_step_of_def)
    moreover have "mtx_storable ?m2" if "fits64 p" using assms(3) that by (simp add: mtx_storable_def)
    ultimately show "ensures (\<lambda>s. tracks nn tlib rows0 m0 m s \<and> fits64 p) (retA ?m2)
      (\<lambda>m' s. tracks nn tlib rows0 m0 m s \<and> improves nn m m' \<and> mtx_status m' = mtx_status m) (tracked nn tlib rows0 m0)"
      by (intro ensures_ret) (auto simp: improves_def)
  qed
qed

text \<open>Storing an improved transaction and going on with it.\<close>

lemma store_improved:
  assumes "textLib_ok tlib"
  shows "ensures (\<lambda>s. tracks nn tlib rows0 m0 m s \<and> improves nn m m' \<and> C) (bindA (storageUpdate tlib env m') (\<lambda>_. retA m'))
    (\<lambda>m'' s. tracks nn tlib rows0 m0 m'' s \<and> m'' = m' \<and> C) (tracked nn tlib rows0 m0)"
proof (cases "improves nn m m' \<and> C")
  case True
  show ?thesis
    by (rule ensures_bind[where R = "\<lambda>_. tracks nn tlib rows0 m0 m'"], rule ensures_conseq, rule storageUpdate_tracks[OF assms])
      (use True in \<open>auto simp: improves_def intro!: ensures_ret\<close>)
qed (auto simp: ensures_def)

lemma reviewNonceIfNeeded_tracks:
  assumes "textLib_ok tlib" "nn \<or> confirmed st \<or> \<not> hasFailedReceipts st \<or> \<not> allHistoryTxsWereMined st"
  shows "ensures (tracks nn tlib rows0 m0 m) (reviewNonceIfNeeded tlib env st m)
    (\<lambda>m' s. tracks nn tlib rows0 m0 m' s \<and> mtx_status m' = mtx_status m) (tracked nn tlib rows0 m0)"
proof (cases "nn \<and> mtx_storable m")
  case True
  have "ensures (tracks True tlib rows0 m0 m)
    (bindA (reviewMonitoredTxNonce env m) (\<lambda>m'. bindA (storageUpdate tlib env m') (\<lambda>_. retA m')))
    (\<lambda>m' s. tracks True tlib rows0 m0 m' s \<and> mtx_status m' = mtx_status m) (tracked True tlib rows0 m0)"
    using True
    by (intro ensures_bind[OF reviewMonitoredTxNonce_improves]) (blast, rule ensures_conseq[OF store_improved[OF assms(1)]], auto)
  then show ?thesis using True by (auto simp: reviewNonceIfNeeded_def intro!: ensures_ret)
next
  case False
  then show ?thesis
  proof (cases "mtx_storable m")
    case True
    then have "reviewNonceIfNeeded tlib env st m = retA m" using False assms(2) by (auto simp: reviewNonceIfNeeded_def)
    then show ?thesis by (auto intro!: ensures_ret)
  qed (simp add: ensures_def tracks_def)
qed

lemma addToHistory_tracks:
  assumes "textLib_ok tlib"
  shows "ensures (tracks nn tlib rows0 m0 m) (addToHistory tlib env m tx)
    (\<lambda>m' s. tracks nn tlib rows0 m0 m' s \<and> mtx_status m' = mtx_status m) (tracked nn tlib rows0 m0)"
proof (cases "AddHistory m (en_hash env tx)")
  case (Ok m')
  then obtain H where H: "mtx_history m = Some H" "m' = m\<lparr>mtx_history := Some (finsert (en_hash env tx) H)\<rparr>"
    by (auto simp: AddHistory_def split: option.splits if_splits)
  have "improves nn m m'" if "mtx_storable m"
    using that H step_history[of "forget m" H "en_hash env tx"] by (auto simp: improves_def mtx_storable_def mtx_step_of_def)
  then have "ensures (tracks nn tlib rows0 m0 m) (bindA (storageUpdate tlib env m') (\<lambda>_. retA m'))
    (\<lambda>m'' s. tracks nn tlib rows0 m0 m'' s \<and> m'' = m') (tracked nn tlib rows0 m0)"
    by (intro ensures_conseq[OF store_improved[OF assms, where C = True]]) (auto simp: tracks_def)
  then show ?thesis using Ok H by (auto simp: addToHistory_def elim!: ensures_conseq)
qed (auto simp: addToHistory_def intro!: vc)

lemma sendIfNew_tracks:
  assumes "textLib_ok tlib"
  shows "ensures (tracks nn tlib rows0 m0 m) (sendIfNew tlib env m tx)
    (\<lambda>m' s. tracks nn tlib rows0 m0 m' s \<and> (mtx_status m' = mtx_status m \<or> mtx_status m' = MonitoredTxStatusSent))
    (tracked nn tlib rows0 m0)"
  unfolding sendIfNew_def Let_def
proof (rule ensures_bind[OF callW_tracks[where R = "\<lambda>_. True"]], simp, goal_cases)
  case (1 r)
  let ?m = "m\<lparr>mtx_status := MonitoredTxStatusSent\<rparr>"
  have "improves nn m ?m" if "mtx_storable m" "mtx_status m = MonitoredTxStatusCreated"
    using that step_sent[of "forget m"] by (auto simp: improves_def mtx_storable_def statusOf_def statusString_def mtx_step_of_def)
  then have st: "ensures (tracks nn tlib rows0 m0 m) (bindA (storageUpdate tlib env ?m) (\<lambda>_. retA ?m))
    (\<lambda>m' s. tracks nn tlib rows0 m0 m' s \<and> m' = ?m) (tracked nn tlib rows0 m0)"
    if "mtx_status m = MonitoredTxStatusCreated"
    using that by (intro ensures_conseq[OF store_improved[OF assms, where C = True]]) (auto simp: tracks_def)
  show ?case
  proof (cases "r = Inl EthNotFound")
    case True
    then show ?thesis
      using st by (auto intro!: ensures_bind[OF callE_tracks[where R = "\<lambda>_. True"]] ensures_ret elim!: ensures_conseq)
  qed (auto intro!: ensures_ret)
qed

lemma reviewIfSent_tracks:
  assumes "textLib_ok tlib" "env_ok env" "cfg_ok cfg"
  shows "ensures (tracks nn tlib rows0 m0 m)
    (if mtx_status m = MonitoredTxStatusSent
     then bindA (reviewMonitoredTx env cfg m) (\<lambda>m'. bindA (storageUpdate tlib env m') (\<lambda>_. retA m')) else retA m)
    (\<lambda>m' s. tracks nn tlib rows0 m0 m' s \<and> mtx_status m' = mtx_status m) (tracked nn tlib rows0 m0)"
proof (cases "mtx_status m = MonitoredTxStatusSent")
  case True
  have "ensures (tracks nn tlib rows0 m0 m)
    (bindA (reviewMonitoredTx env cfg m) (\<lambda>m'. bindA (storageUpdate tlib env m') (\<lambda>_. retA m')))
    (\<lambda>m' s. tracks nn tlib rows0 m0 m' s \<and> mtx_status m' = mtx_status m) (tracked nn tlib rows0 m0)" if "mtx_storable m"
    by (rule ensures_bind[OF reviewMonitoredTx_improves[OF assms(2,3) that True]])
      (rule ensures_conseq[OF store_improved[OF assms(1)]], auto)
  then show ?thesis using True by (cases "mtx_storable m") (auto simp: ensures_def tracks_def)
qed (auto intro!: ensures_ret)

lemma sendAndWait_tracks:
  assumes tlib: "textLib_ok tlib" and env: "env_ok env" and cfg: "cfg_ok cfg"
  shows "ensures (tracks nn tlib rows0 m0 m) (sendAndWait tlib env cfg m)
    (\<lambda>(m', rc) s. tracks nn tlib rows0 m0 m' s \<and> receipt_ok rc \<and> mtx_status m \<noteq> MonitoredTxStatusReorged \<and>
       (mtx_status m' = mtx_status m \<or> mtx_status m' = MonitoredTxStatusSent)) (tracked nn tlib rows0 m0)"
proof (cases "mtx_status m = MonitoredTxStatusReorged")
  case False
  let ?C = "\<lambda>m'. mtx_status m' = mtx_status m \<or> mtx_status m' = MonitoredTxStatusSent"
  have rc: "ensures (\<lambda>s. tracks nn tlib rows0 m0 m' s \<and> ?C m')
    (if \<not> mined then failA (mgrEth EthNotFound)
     else bindA (callE (en_GetTxReceipt env h)) (\<lambda>rc. retA (m', rc)))
    (\<lambda>(m', rc) s. tracks nn tlib rows0 m0 m' s \<and> receipt_ok rc \<and> mtx_status m \<noteq> MonitoredTxStatusReorged \<and> ?C m')
    (tracked nn tlib rows0 m0)" for m' mined h
  proof (cases "mined \<and> ?C m'")
    case True
    have "receipt_ok a" if "en_GetTxReceipt env h w = (Inr a, w')" for w a w'
      using that env unfolding env_ok_def by blast
    then show ?thesis
      using True False by (auto intro!: ensures_bind[OF callE_tracks[where R = receipt_ok]] ensures_ret)
  qed (auto intro!: ensures_fail simp: ensures_def[of "\<lambda>_. False"])
  have keep: "ensures (\<lambda>s. tracks nn tlib rows0 m0 m' s \<and> C) (callE q) (\<lambda>_ s. tracks nn tlib rows0 m0 m' s \<and> C) (tracked nn tlib rows0 m0)"
    for m' C and q :: "'a \<Rightarrow> (EthError + 'c) \<times> 'a"
    by (cases C) (auto intro!: ensures_conseq[OF callE_tracks[where R = "\<lambda>_. True"]] simp: ensures_def[of "\<lambda>_. False"])
  show ?thesis
    unfolding sendAndWait_def if_not_P[OF False]
    apply (rule ensures_bind[OF reviewIfSent_tracks[OF tlib env cfg]])
    apply (rule ensures_bind[OF keep])
    subgoal for m1 tx
      apply (rule ensures_bind[where R = "\<lambda>m2 s. tracks nn tlib rows0 m0 m2 s \<and> mtx_status m2 = mtx_status m"])
       apply (cases "mtx_status m1 = mtx_status m")
        apply (rule ensures_conseq[OF addToHistory_tracks[OF tlib]], auto simp: ensures_def[of "\<lambda>_. False"])[2]
      subgoal for m2
        apply (rule ensures_bind[where R = "\<lambda>m3 s. tracks nn tlib rows0 m0 m3 s \<and> ?C m3"])
         apply (cases "mtx_status m2 = mtx_status m")
          apply (rule ensures_conseq[OF sendIfNew_tracks[OF tlib]], auto simp: ensures_def[of "\<lambda>_. False"])[2]
        apply (rule ensures_bind[OF keep])
        apply (rule rc)
        done
      done
    done
qed (auto simp: sendAndWait_def intro!: ensures_fail)

lemma settle_tracks:
  assumes tlib: "textLib_ok tlib" and rc: "receipt_ok rc"
    and st: "mtx_status m \<in> {MonitoredTxStatusCreated, MonitoredTxStatusSent} \<or>
      (mtx_status m = MonitoredTxStatusReorged \<and> rc_Status rc = ReceiptStatusSuccessful)"
  shows "ensures (tracks nn tlib rows0 m0 m) (settle tlib env m rc) (\<lambda>_. tracked nn tlib rows0 m0) (tracked nn tlib rows0 m0)"
proof (cases "mtx_storable m")
  case storable: True
  obtain b where b: "rc_BlockNumber rc = Some b" "fits64 b" using rc by (auto simp: receipt_ok_def)
  have ok: "mtx_storable m' \<or> \<not> bigint_ok (blockNumberU64Ptr m')"
    if "m' = m\<lparr>mtx_status := S, mtx_blockNumber := Some b\<rparr>" "S \<in> {MonitoredTxStatusConfirmed, MonitoredTxStatusFailed}" for m' S
  proof -
    have "statusOf (statusString S) = S" using that(2) by (auto simp: statusOf_def statusString_def)
    moreover have "unat (uint64_of b) = nat b" using fits64_uint64[OF b(2)] by (simp add: unat_eq_nat_uint)
    ultimately show ?thesis
      unfolding that(1) using storable b(2)
      by (auto simp: mtx_storable_def bigint_ok_def blockNumberU64Ptr_def fits64_def nat_less_iff)
  qed
  let ?mc = "m\<lparr>mtx_status := MonitoredTxStatusConfirmed, mtx_blockNumber := Some b\<rparr>"
  let ?mf = "m\<lparr>mtx_status := MonitoredTxStatusFailed, mtx_blockNumber := Some b\<rparr>"
  have upd: "ensures (tracks nn tlib rows0 m0 m) (storageUpdate tlib env m') (\<lambda>_. tracked nn tlib rows0 m0) (tracked nn tlib rows0 m0)"
    if "mtx_step (forget m) (forget m')" "mtx_nonce m' = mtx_nonce m" "mtx_storable m' \<or> \<not> bigint_ok (blockNumberU64Ptr m')" for m'
    by (rule ensures_conseq[OF storageUpdate_tracks[OF tlib that(3)]])
      (use that(1,2) in \<open>auto simp: mtx_step_of_def intro: r_into_rtranclp[of "mtx_step_of nn"]\<close>)
  show ?thesis
  proof (cases "rc_Status rc = ReceiptStatusSuccessful")
    case True
    have "mtx_step (forget m) (forget ?mc)" using st step_confirmed[of "forget m" b] by auto
    then have c: "ensures (tracks nn tlib rows0 m0 m) (storageUpdate tlib env ?mc) (\<lambda>_. tracked nn tlib rows0 m0) (tracked nn tlib rows0 m0)"
      by (rule upd) (use ok in auto)
    show ?thesis
      using True b(1) c
      by (auto simp: settle_def intro!: ensures_bind[OF callW_tracks[where R = "\<lambda>_. True"]] ensures_fail split: sum.split)
  next
    case False
    have "mtx_step (forget m) (forget ?mf)" using st False step_failed[of "forget m" "Some b"] by auto
    then have f: "ensures (tracks nn tlib rows0 m0 m) (storageUpdate tlib env ?mf) (\<lambda>_. tracked nn tlib rows0 m0) (tracked nn tlib rows0 m0)"
      by (rule upd) (use ok in auto)
    have "ensures (tracks nn tlib rows0 m0 m) (shouldContinueToMonitorThisTx env rc) (\<lambda>_. tracks nn tlib rows0 m0 m) (tracked nn tlib rows0 m0)"
      using False
      by (auto simp: shouldContinueToMonitorThisTx_def intro!: ensures_bind[OF callW_tracks[where R = "\<lambda>_. True"]]
          ensures_bind[OF ensures_conseq[OF callW_tracks[where R = "\<lambda>_. True"]]] ensures_ret split: sum.split)
    then show ?thesis
      using False b(1) f by (auto simp: settle_def intro!: ensures_bind ensures_fail)
  qed
qed (simp add: ensures_def tracks_def)

lemma checkHistory_tracks:
  assumes env: "env_ok env" and start: "\<not> confirmed st"
  shows "ensures (tracks nn tlib rows0 m0 m) (checkHistory env hs st)
    (\<lambda>st' s. tracks nn tlib rows0 m0 m s \<and>
       (confirmed st' \<longrightarrow> rc_Status (lastReceiptChecked st') = ReceiptStatusSuccessful \<and> receipt_ok (lastReceiptChecked st')))
    (tracked nn tlib rows0 m0)"
  using start
proof (induction hs arbitrary: st)
  case Nil
  then show ?case by (auto intro!: ensures_ret)
next
  case (Cons h hs)
  have rc: "receipt_ok rc" if "en_CheckTxWasMined env h w = (Inr (mined, Some rc), w')" for w mined rc w'
    using that env unfolding env_ok_def by blast
  let ?R = "\<lambda>r. \<forall>mined rc. r = Inr (mined, Some rc) \<longrightarrow> receipt_ok rc"
  show ?case
    unfolding checkHistory.simps
  proof (rule ensures_bind[OF callW_tracks[where R = ?R]], use rc in blast, goal_cases)
    case (1 r)
    show ?case
    proof (cases "?R r")
      case True
      then have pre: "(\<lambda>s. tracks nn tlib rows0 m0 m s \<and> ?R r) = tracks nn tlib rows0 m0 m" by simp
      show ?thesis
      proof (cases r)
        case (Inl e)
        then show ?thesis unfolding pre using Cons by simp
      next
        case (Inr q)
        obtain mined receipt where q: "q = (mined, receipt)" by fastforce
        show ?thesis
        proof (cases "mined \<and> receipt \<noteq> None \<and> rc_Status (the receipt) = ReceiptStatusSuccessful")
          case True
          then show ?thesis unfolding pre using \<open>?R r\<close> Inr q by (auto intro!: ensures_ret)
        next
          case False
          then show ?thesis
            unfolding pre using Inr q Cons by (cases receipt; cases mined) (simp_all add: ensures_panic tracksI)
        qed
      qed
    qed (rule ensures_absurd)
  qed
qed

lemma monitorTx_tracks:
  assumes tlib: "textLib_ok tlib" and env: "env_ok env" and cfg: "cfg_ok cfg"
    and act: "mtx_status m \<in> {MonitoredTxStatusCreated, MonitoredTxStatusSent, MonitoredTxStatusReorged}"
    and nn: "ensures (tracks nn tlib rows0 m0 m) (checkHistory env order histStart)
      (\<lambda>st _. nn \<or> confirmed st \<or> \<not> hasFailedReceipts st \<or> \<not> allHistoryTxsWereMined st) (\<lambda>_. True)"
  shows "ensures (tracks nn tlib rows0 m0 m) (monitorTx tlib env cfg order m) (\<lambda>_. tracked nn tlib rows0 m0) (tracked nn tlib rows0 m0)"
proof -
  let ?nn = "\<lambda>st. nn \<or> confirmed st \<or> \<not> hasFailedReceipts st \<or> \<not> allHistoryTxsWereMined st"
  let ?ok = "\<lambda>st. confirmed st \<longrightarrow>
    rc_Status (lastReceiptChecked st) = ReceiptStatusSuccessful \<and> receipt_ok (lastReceiptChecked st)"
  have "\<not> confirmed histStart" by (simp add: histStart_def)
  then have hist0: "ensures (tracks nn tlib rows0 m0 m) (checkHistory env order histStart)
    (\<lambda>st s. tracks nn tlib rows0 m0 m s \<and> ?ok st) (tracked nn tlib rows0 m0)"
    by (intro checkHistory_tracks[OF env]) blast
  have hist: "ensures (tracks nn tlib rows0 m0 m) (checkHistory env order histStart)
    (\<lambda>st s. tracks nn tlib rows0 m0 m s \<and> (?ok st \<and> ?nn st)) (tracked nn tlib rows0 m0)"
    by (rule ensures_conseq[OF ensures_conj[OF hist0 nn]]) auto
  have body: "ensures (tracks nn tlib rows0 m0 m)
    (bindA (reviewNonceIfNeeded tlib env st m) (\<lambda>m1.
     bindA (if \<not> confirmed st then sendAndWait tlib env cfg m1 else retA (m1, lastReceiptChecked st)) (\<lambda>(m2, rc).
     settle tlib env m2 rc))) (\<lambda>_. tracked nn tlib rows0 m0) (tracked nn tlib rows0 m0)" if st: "?ok st" "?nn st" for st
  proof (rule ensures_bind[OF reviewNonceIfNeeded_tracks[OF tlib st(2)]])
    fix m1
    show "ensures (\<lambda>s. tracks nn tlib rows0 m0 m1 s \<and> mtx_status m1 = mtx_status m)
      (bindA (if \<not> confirmed st then sendAndWait tlib env cfg m1 else retA (m1, lastReceiptChecked st)) (\<lambda>(m2, rc).
       settle tlib env m2 rc)) (\<lambda>_. tracked nn tlib rows0 m0) (tracked nn tlib rows0 m0)"
    proof (cases "mtx_status m1 = mtx_status m")
      case same: True
      let ?pre = "\<lambda>m2 rc. receipt_ok rc \<and> (mtx_status m2 \<in> {MonitoredTxStatusCreated, MonitoredTxStatusSent} \<or>
        (mtx_status m2 = MonitoredTxStatusReorged \<and> rc_Status rc = ReceiptStatusSuccessful))"
      have "ensures (tracks nn tlib rows0 m0 m1)
        (if \<not> confirmed st then sendAndWait tlib env cfg m1 else retA (m1, lastReceiptChecked st))
        (\<lambda>(m2, rc) s. tracks nn tlib rows0 m0 m2 s \<and> ?pre m2 rc) (tracked nn tlib rows0 m0)"
      proof (cases "confirmed st")
        case True
        then show ?thesis using st(1) act same by (auto intro!: ensures_ret)
      next
        case False
        show ?thesis
          unfolding if_P[OF False]
          by (rule ensures_conseq[OF sendAndWait_tracks[OF tlib env cfg]]) (use act same in \<open>auto split: prod.splits\<close>)
      qed
      then have send: "ensures (\<lambda>s. tracks nn tlib rows0 m0 m1 s \<and> mtx_status m1 = mtx_status m)
        (if \<not> confirmed st then sendAndWait tlib env cfg m1 else retA (m1, lastReceiptChecked st))
        (\<lambda>p s. tracks nn tlib rows0 m0 (fst p) s \<and> ?pre (fst p) (snd p)) (tracked nn tlib rows0 m0)"
        by (rule ensures_conseq) (auto simp only: split_beta)
      show ?thesis
      proof (rule ensures_bind[OF send])
        fix p
        show "ensures (\<lambda>s. tracks nn tlib rows0 m0 (fst p) s \<and> ?pre (fst p) (snd p))
          (case p of (m2, rc) \<Rightarrow> settle tlib env m2 rc) (\<lambda>_. tracked nn tlib rows0 m0) (tracked nn tlib rows0 m0)"
        proof (cases "?pre (fst p) (snd p)")
          case True
          then have rc: "receipt_ok (snd p)"
            and st': "mtx_status (fst p) \<in> {MonitoredTxStatusCreated, MonitoredTxStatusSent} \<or>
              (mtx_status (fst p) = MonitoredTxStatusReorged \<and> rc_Status (snd p) = ReceiptStatusSuccessful)"
            by blast+
          show ?thesis unfolding split_beta by (rule ensures_conseq[OF settle_tracks[OF tlib rc st']]) auto
        qed (rule ensures_absurd)
      qed
    qed (rule ensures_absurd)
  qed
  show ?thesis
    unfolding monitorTx_def
  proof (rule ensures_bind[OF hist])
    fix st
    show "ensures (\<lambda>s. tracks nn tlib rows0 m0 m s \<and> (?ok st \<and> ?nn st))
      (bindA (reviewNonceIfNeeded tlib env st m) (\<lambda>m1.
       bindA (if \<not> confirmed st then sendAndWait tlib env cfg m1 else retA (m1, lastReceiptChecked st)) (\<lambda>(m2, rc).
       settle tlib env m2 rc))) (\<lambda>_. tracked nn tlib rows0 m0) (tracked nn tlib rows0 m0)"
    proof (cases "?ok st \<and> ?nn st")
      case True
      then show ?thesis by (intro ensures_conseq[OF body]) auto
    qed (rule ensures_absurd)
  qed
qed

subsection \<open>Properties\<close>

lemma tracks_start:
  assumes "textLib_ok tlib" "table_ok tlib (cl_rows s)" "mtxAt tlib (cl_rows s) (mtxKey m) = Some m"
  shows "tracks nn tlib (cl_rows s) m m s"
  using assms mtxAt_key[OF assms] by (simp add: tracks_def)

lemma tracked_at:
  assumes "tracked nn tlib (cl_rows s) m s'"
  shows "\<exists>m'. mtxAt tlib (cl_rows s') (mtxKey m) = Some m' \<and> (mtx_step_of nn)\<^sup>*\<^sup>* (forget m) (forget m') \<and>
    table_ok tlib (cl_rows s') \<and> (\<forall>k. k \<noteq> mtxKey m \<longrightarrow> mtxAt tlib (cl_rows s') k = mtxAt tlib (cl_rows s) k)"
proof -
  obtain m1 where t: "tracks nn tlib (cl_rows s) m m1 s'" using assms by (auto simp: tracked_def)
  then obtain m' where "mtxAt tlib (cl_rows s') (mtxKey m) = Some m'" "forget m' = forget m1" by (auto simp: tracks_def)
  with t show ?thesis by (auto simp: tracks_def)
qed

lemma ensures_all: "ensures P m (\<lambda>_. X) X \<Longrightarrow> P s \<Longrightarrow> X (snd (m s))"
  using ensuresD[of P m "\<lambda>_. X" X s "fst (m s)" "snd (m s)"] by (simp split: outcome.splits)

lemma monitorTx_tracked:
  assumes "textLib_ok tlib" "env_ok env" "cfg_ok cfg"
    and "mtx_status m \<in> {MonitoredTxStatusCreated, MonitoredTxStatusSent, MonitoredTxStatusReorged}"
    and "table_ok tlib (cl_rows s)" "mtxAt tlib (cl_rows s) (mtxKey m) = Some m"
    and "\<And>s st s'. checkHistory env order histStart s = (Ok st, s') \<Longrightarrow>
      nn \<or> confirmed st \<or> \<not> hasFailedReceipts st \<or> \<not> allHistoryTxsWereMined st"
  shows "tracked nn tlib (cl_rows s) m (snd (monitorTx tlib env cfg order m s))"
proof (rule ensures_all[of "tracks nn tlib (cl_rows s) m m"])
  have "ensures (tracks nn tlib (cl_rows s) m m) (checkHistory env order histStart)
      (\<lambda>st _. nn \<or> confirmed st \<or> \<not> hasFailedReceipts st \<or> \<not> allHistoryTxsWereMined st) (\<lambda>_. True)"
    unfolding ensures_def using assms(7) by (auto split: prod.splits outcome.splits)
  then show "ensures (tracks nn tlib (cl_rows s) m m) (monitorTx tlib env cfg order m)
    (\<lambda>_. tracked nn tlib (cl_rows s) m) (tracked nn tlib (cl_rows s) m)"
    by (rule monitorTx_tracks[OF assms(1-4)])
  show "tracks nn tlib (cl_rows s) m m s" by (rule tracks_start[OF assms(1,5,6)])
qed


text \<open>What the node answers about a transaction of the history.\<close>

definition answeredFailed :: "EthError + bool \<times> Receipt option \<Rightarrow> bool" where
  "answeredFailed r \<longleftrightarrow> (\<exists>rc. r = Inr (True, Some rc) \<and> rc_Status rc \<noteq> ReceiptStatusSuccessful)"

definition answeredError :: "EthError + bool \<times> Receipt option \<Rightarrow> bool" where
  "answeredError r \<longleftrightarrow> (\<exists>e. r = Inl e)"

lemma checkHistory_flags:
  assumes "\<And>h w. fst (en_CheckTxWasMined env h w) = a h"
    and "checkHistory env hs st s = (Ok st', s')" "\<not> confirmed st'" "hasFailedReceipts st'" "allHistoryTxsWereMined st'"
  shows "allHistoryTxsWereMined st \<and> (hasFailedReceipts st \<or> (\<exists>h\<in>set hs. answeredFailed (a h))) \<and>
    (\<forall>h\<in>set hs. answeredError (a h) \<or> answeredFailed (a h))"
  using assms(2)
proof (induction hs arbitrary: st s)
  case Nil
  then show ?case using assms(3-5) by (auto simp: retA_def)
next
  case (Cons h hs)
  obtain r w' where q: "en_CheckTxWasMined env h (cl_world s) = (r, w')" by fastforce
  then have r: "r = a h" using assms(1)[of h "cl_world s"] by simp
  note run = Cons.prems[unfolded checkHistory.simps bindA_def callW_def askA_def, simplified, unfolded q, simplified]
  show ?case
  proof (cases r)
    case (Inl e)
    with run have "checkHistory env hs st (s\<lparr>cl_world := w'\<rparr>) = (Ok st', s')" by simp
    from Cons.IH[OF this] show ?thesis using Inl r by (auto simp: answeredError_def)
  next
    case (Inr p)
    obtain mined receipt where p: "p = (mined, receipt)" by fastforce
    show ?thesis
    proof (cases "mined \<and> receipt \<noteq> None \<and> rc_Status (the receipt) \<noteq> ReceiptStatusSuccessful")
      case True
      then obtain rc where rc: "receipt = Some rc" "mined" "rc_Status rc \<noteq> ReceiptStatusSuccessful" by auto
      then have af: "answeredFailed (a h)" using Inr p r by (auto simp: answeredFailed_def)
      from run Inr p rc have "checkHistory env hs
          (st\<lparr>lastReceiptChecked := rc, confirmed := False, hasFailedReceipts := True\<rparr>) (s\<lparr>cl_world := w'\<rparr>) = (Ok st', s')"
        by simp
      from Cons.IH[OF this] show ?thesis using af by simp
    next
      case False
      show ?thesis
      proof (cases mined)
        case True
        then show ?thesis using run Inr p False assms(3) by (auto simp: panicA_def retA_def split: option.splits)
      next
        case False
        with run Inr p have "checkHistory env hs (st\<lparr>allHistoryTxsWereMined := False\<rparr>) (s\<lparr>cl_world := w'\<rparr>) = (Ok st', s')"
          by simp
        from Cons.IH[OF this] show ?thesis by simp
      qed
    qed
  qed
qed


subsection \<open>Samples\<close>

definition sampleLib :: textLib where
  "sampleLib =
     \<lparr>tl_addrString = \<lambda>a. hexText (unat a), tl_hexToAddress = \<lambda>t. of_nat (the (parseDigits 0 t)),
      tl_hashString = \<lambda>h. hexText (unat h), tl_hexToHash = \<lambda>t. of_nat (the (parseDigits 0 t)),
      tl_range = sorted_list_of_fset\<rparr>"

lemma sampleLib_ok: "textLib_ok sampleLib"
  by (simp add: textLib_ok_def sampleLib_def parseDigits_hexText)

definition sampleMtx :: monitoredTx where
  "sampleMtx =
     \<lparr>mtx_owner = ''sequencer'', mtx_id = ''sequence-from-1-to-2'', mtx_from = 7, mtx_to = Some 9, mtx_nonce = 5, mtx_value = None,
      mtx_data = Some [1, 2], mtx_gas = 100, mtx_gasOffset = 10, mtx_gasPrice = 30, mtx_status = MonitoredTxStatusSent,
      mtx_blockNumber = None, mtx_history = Some {|1, 2|}, mtx_createdAt = 0, mtx_updatedAt = 0\<rparr>"

text \<open>A node that cannot answer for the first transaction, has a failed receipt for the second, and cannot estimate gas.\<close>

definition faultyEnv :: "unit ethEnv" where
  "faultyEnv =
     \<lparr>en_hash = \<lambda>tx. 3, en_GetTx = \<lambda>h w. (Inl EthNotFound, w), en_GetTxReceipt = \<lambda>h w. (Inl EthNotFound, w),
      en_WaitTxToBeMined = \<lambda>tx d w. (Inr False, w), en_SendTx = \<lambda>tx w. (Inr (), w), en_CurrentNonce = \<lambda>a w. (Inr 6, w),
      en_SuggestedGasPrice = \<lambda>w. (Inr 40, w), en_EstimateGas = \<lambda>a t v d w. (Inl (EthOther ''timeout''), w),
      en_CheckTxWasMined = \<lambda>h w. (if h = 1 then Inl (EthOther ''timeout'')
        else Inr (True, Some \<lparr>rc_Status = 0, rc_BlockNumber = Some 50, rc_TxHash = h\<rparr>), w),
      en_SignTx = \<lambda>a tx w. (Inl (EthOther ''private key not found''), w), en_GetRevertMessage = \<lambda>tx w. (Inr '''', w),
      en_GetLastBlock = \<lambda>w. (Inr 60, w), en_dbUp = \<lambda>w. (True, w), en_now = \<lambda>w. (1000, w)\<rparr>"

definition sampleCfg :: ethCfg where
  "sampleCfg = \<lparr>ForcedGas = 0, GasPriceMarginFactor = 1, MaxGasPriceLimit = 100, WaitTxToBeMined = 0\<rparr>"

definition sampleClient :: "monitoredTx \<Rightarrow> unit client" where
  "sampleClient m = \<lparr>cl_rows = [rowOfMtx sampleLib 0 0 m], cl_world = ()\<rparr>"

lemma sampleMtx_storable: "mtx_storable sampleMtx"
  by (simp add: mtx_storable_def sampleMtx_def fits64_def statusOf_def statusString_def)

lemma sampleClient_ok:
  assumes "mtx_storable m" "mtx_createdAt m = 0" "mtx_updatedAt m = 0"
  shows "table_ok sampleLib (cl_rows (sampleClient m))" "mtxAt sampleLib (cl_rows (sampleClient m)) (mtxKey m) = Some m"
  using assms scan_rowOfMtx[OF sampleLib_ok assms(1), of 0 0]
  by (auto simp: table_ok_def sampleClient_def row_ok_def mtxAt_def)

lemma faultyEnv_ok: "env_ok faultyEnv" "cfg_ok sampleCfg"
  by (auto simp: env_ok_def faultyEnv_def receipt_ok_def fits64_def cfg_ok_def sampleCfg_def split: if_splits)

lemma update_step:
  assumes "mtx_storable m" "mtxKey m' = mtxKey m" "mtx_storable m'" "mtx_createdAt m' = 0" "en_dbUp env () = (True, ())" "en_now env () = (t, ())" 
  shows "storageUpdate sampleLib env m' (sampleClient m) = (Ok (), \<lparr>cl_rows = [rowOfMtx sampleLib 0 (roundMicro t) m'], cl_world = ()\<rparr>)"
  using assms by (simp add: storageUpdate_def writeDB_def act_defs callW_def sampleClient_def ms_Update_def bigint_storable)

lemma faulty_run:
  "snd (monitorTx sampleLib faultyEnv sampleCfg [1, 2] sampleMtx (sampleClient sampleMtx)) =
     \<lparr>cl_rows = [rowOfMtx sampleLib 0 1000 (sampleMtx\<lparr>mtx_nonce := 6\<rparr>)], cl_world = ()\<rparr>"
proof -
  let ?m = "sampleMtx\<lparr>mtx_nonce := 6\<rparr>"
  let ?s = "\<lparr>cl_rows = [rowOfMtx sampleLib 0 1000 ?m], cl_world = ()\<rparr>"
  let ?st = "\<lparr>lastReceiptChecked = \<lparr>rc_Status = 0, rc_BlockNumber = Some 50, rc_TxHash = 2\<rparr>, confirmed = False,
      hasFailedReceipts = True, allHistoryTxsWereMined = True\<rparr>"
  have h: "checkHistory faultyEnv [1, 2] histStart (sampleClient sampleMtx) = (Ok ?st, sampleClient sampleMtx)"
    by (simp add: act_defs callW_def faultyEnv_def histStart_def ReceiptStatusSuccessful_def sampleClient_def)
  have n: "reviewMonitoredTxNonce faultyEnv sampleMtx (sampleClient sampleMtx) = (Ok ?m, sampleClient sampleMtx)"
    by (simp add: reviewMonitoredTxNonce_def act_defs callE_def callW_def faultyEnv_def sampleClient_def)
      (simp add: sampleMtx_def)
  have u: "storageUpdate sampleLib faultyEnv ?m (sampleClient sampleMtx) = (Ok (), ?s)"
    using update_step[of sampleMtx ?m faultyEnv 1000] sampleMtx_storable
    by (simp add: mtxKey_def mtx_storable_def faultyEnv_def roundMicro_def) (simp add: sampleMtx_def)
  have w: "sendAndWait sampleLib faultyEnv sampleCfg ?m ?s = (Err (mgrEth (EthOther ''timeout'')), ?s)"
    by (simp add: sendAndWait_def reviewMonitoredTx_def act_defs callE_def callW_def faultyEnv_def sampleMtx_def)
  show ?thesis
    by (simp only: monitorTx_def reviewNonceIfNeeded_def act_defs h n u w prod.case outcome.case if_True simp_thms)
      (simp add: n u w act_defs)
qed


lemma faulty_after:
  "mtxAt sampleLib (cl_rows (snd (monitorTx sampleLib faultyEnv sampleCfg [1, 2] sampleMtx (sampleClient sampleMtx))))
      (mtxKey sampleMtx) = Some (sampleMtx\<lparr>mtx_nonce := 6, mtx_updatedAt := 1000\<rparr>)"
proof -
  have "mtx_storable (sampleMtx\<lparr>mtx_nonce := 6\<rparr>)" using sampleMtx_storable by (simp add: mtx_storable_def)
  from scan_rowOfMtx[OF sampleLib_ok this, of 0 1000] show ?thesis
    by (simp add: faulty_run mtxAt_def mtxKey_def) (simp add: sampleMtx_def)
qed


end
