(* ===== verification/EthTxPending.thy ===== *)
theory EthTxPending
  imports EthTxLifecycle
begin

text \<open>
  The statuses of the transactions of an owner: what the results, the monitoring cycle and the
  handling of the results do to them, with a node that answers and mines.
\<close>

subsection \<open>The statuses of an owner\<close>

definition statusAt :: "textLib \<Rightarrow> string \<Rightarrow> 'w client \<Rightarrow> string \<Rightarrow> MonitoredTxStatus option" where
  "statusAt tlib owner s i = map_option mtx_status (mtxAt tlib (cl_rows s) (owner, i))"

lemma statusAt_rows: "cl_rows s' = cl_rows s \<Longrightarrow> statusAt tlib owner s' = statusAt tlib owner s"
  by (rule ext) (simp add: statusAt_def)

lemma callW_rows: "callW q s = (r, s') \<Longrightarrow> cl_rows s' = cl_rows s \<and> (\<exists>a w'. r = Ok a \<and> q (cl_world s) = (a, w'))"
  by (auto simp: callW_def askA_def split: prod.splits)

definition scanOf :: "textLib \<Rightarrow> mtxRow \<Rightarrow> monitoredTx" where
  "scanOf tlib r = (case scanMtx tlib r of Ok m \<Rightarrow> m | _ \<Rightarrow> undefined)"

lemma scanAll_ok:
  assumes "textLib_ok tlib" "\<forall>r\<in>set rs. row_ok tlib r"
  shows "scanAll tlib rs = Ok (map (scanOf tlib) rs)"
  using assms(2)
proof (induction rs)
  case (Cons r rs)
  then obtain m where "scanMtx tlib r = Ok m" using row_ok_scan[OF assms(1)] by (metis list.set_intros(1))
  then show ?case using Cons by (simp add: scanOf_def)
qed simp

lemma scanOf_at:
  assumes "textLib_ok tlib" "table_ok tlib rows" "r \<in> set rows"
  shows "mtxAt tlib rows (rowKey r) = Some (scanOf tlib r)" "mtxKey (scanOf tlib r) = rowKey r"
    "col_status r = statusString (mtx_status (scanOf tlib r))" "mtx_storable (scanOf tlib r)"
proof -
  have "row_ok tlib r" using assms by (simp add: table_ok_def)
  then obtain m where m: "scanMtx tlib r = Ok m" "mtx_storable m" "mtxKey m = rowKey r"
    "r = rowOfMtx tlib (mtx_createdAt m) (mtx_updatedAt m) m"
    by (rule row_ok_scan[OF assms(1)])
  then have s: "scanOf tlib r = m" by (simp add: scanOf_def)
  show "mtxAt tlib rows (rowKey r) = Some (scanOf tlib r)" using mtxAt_Some[OF assms(1,2)] m(1) s assms(3) by blast
  show "mtxKey (scanOf tlib r) = rowKey r" "mtx_storable (scanOf tlib r)" using m s by auto
  show "col_status r = statusString (mtx_status (scanOf tlib r))" unfolding s by (subst m(4)) (simp add: rowOfMtx_def)
qed

lemma status_matches:
  assumes "textLib_ok tlib" "table_ok tlib rows" "r \<in> set rows" "\<forall>st\<in>set sts. statusOf (statusString st) = st"
  shows "col_status r \<in> statusString ` set sts \<longleftrightarrow> mtx_status (scanOf tlib r) \<in> set sts"
proof -
  have "statusOf (statusString (mtx_status (scanOf tlib r))) = mtx_status (scanOf tlib r)"
    using scanOf_at(4)[OF assms(1-3)] by (simp add: mtx_storable_def)
  then show ?thesis unfolding scanOf_at(3)[OF assms(1-3)] using assms(4) by (metis image_iff)
qed

lemma byStatus_view:
  assumes tlib: "textLib_ok tlib" and ok: "table_ok tlib rows"
    and sts: "sts \<noteq> []" "\<forall>st\<in>set sts. statusOf (statusString st) = st"
  shows "\<exists>ms. ms_GetByStatus tlib True owner sts rows = Ok ms \<and> distinct (map mtxKey ms) \<and>
    (\<forall>m. m \<in> set ms \<longleftrightarrow> mtxAt tlib rows (mtxKey m) = Some m \<and> mtx_status m \<in> set sts \<and>
       (case owner of None \<Rightarrow> True | Some ow \<Rightarrow> mtx_owner m = ow))"
proof -
  let ?rs = "sort_key col_created_at (filter (statusMatches owner sts) rows)"
  let ?ms = "map (scanOf tlib) ?rs"
  have sub: "set ?rs \<subseteq> set rows" by auto
  have "ms_GetByStatus tlib True owner sts rows = Ok ?ms"
    using scanAll_ok[OF tlib, of ?rs] ok sub by (auto simp: ms_GetByStatus_def table_ok_def)
  moreover have "distinct (map mtxKey ?ms)"
  proof -
    have eq: "map mtxKey ?ms = map rowKey ?rs" using scanOf_at(2)[OF tlib ok] sub by (auto simp: subset_iff)
    have "distinct (map rowKey (filter (statusMatches owner sts) rows))"
      using ok by (simp add: table_ok_def distinct_map_filter)
    then have "distinct (map rowKey ?rs)" by (simp add: distinct_map)
    then show ?thesis unfolding eq .
  qed
  moreover have "m \<in> set ?ms \<longleftrightarrow> mtxAt tlib rows (mtxKey m) = Some m \<and> mtx_status m \<in> set sts \<and>
       (case owner of None \<Rightarrow> True | Some ow \<Rightarrow> mtx_owner m = ow)" for m
  proof -
    have key: "mtx_owner (scanOf tlib r) = col_owner r" if "r \<in> set rows" for r
      using scanOf_at(2)[OF tlib ok that] by (simp add: mtxKey_def rowKey_def)
    have sm: "statusMatches owner sts r \<longleftrightarrow> mtx_status (scanOf tlib r) \<in> set sts \<and>
       (case owner of None \<Rightarrow> True | Some ow \<Rightarrow> mtx_owner (scanOf tlib r) = ow)" if "r \<in> set rows" for r
      using status_matches[OF tlib ok that sts(2)] key[OF that] sts(1) by (auto simp: statusMatches_def split: option.splits)
    have at: "mtxAt tlib rows (mtxKey m) = Some m \<longleftrightarrow> (\<exists>r\<in>set rows. m = scanOf tlib r)"
    proof
      assume "mtxAt tlib rows (mtxKey m) = Some m"
      then obtain r where "r \<in> set rows" "scanMtx tlib r = Ok m" using mtxAt_Some[OF tlib ok] by blast
      then show "\<exists>r\<in>set rows. m = scanOf tlib r" by (intro bexI[of _ r]) (auto simp: scanOf_def)
    next
      assume "\<exists>r\<in>set rows. m = scanOf tlib r"
      then show "mtxAt tlib rows (mtxKey m) = Some m" using scanOf_at(1,2)[OF tlib ok] by auto
    qed
    show ?thesis unfolding at using sm by auto
  qed
  ultimately show ?thesis by blast
qed

subsection \<open>Calls that leave the table alone, and calls that do not fail\<close>

definition keepsRows :: "('w client, 'e, 'a) act \<Rightarrow> bool" where
  "keepsRows m \<longleftrightarrow> (\<forall>s. cl_rows (snd (m s)) = cl_rows s)"

lemma keepsRows_bind: "keepsRows m \<Longrightarrow> (\<And>a. keepsRows (k a)) \<Longrightarrow> keepsRows (bindA m k)"
  by (simp add: keepsRows_def bindA_def split: prod.split outcome.split) (metis snd_conv)

lemma keepsRows_basic: "keepsRows (retA a)" "keepsRows (failA e)" "keepsRows (callW q)" "keepsRows (orNotFound r)"
  by (auto simp: keepsRows_def retA_def failA_def callW_def askA_def orNotFound_def split: prod.split sum.split)

lemma keepsRows_resultTxs: "keepsRows (resultTxs env hs txs)"
  by (induction hs arbitrary: txs) (auto intro!: keepsRows_bind keepsRows_basic)

lemma keepsRows_buildResult: "keepsRows (buildResult tlib env m)"
  unfolding buildResult_def by (intro keepsRows_bind keepsRows_basic keepsRows_resultTxs)

lemma keepsRows_buildResults: "keepsRows (buildResults tlib env ms)"
  by (induction ms) (auto intro!: keepsRows_bind keepsRows_basic keepsRows_buildResult)

lemma keepsRows_readDB: "keepsRows (readDB env f)"
  unfolding readDB_def
  by (rule keepsRows_bind[OF keepsRows_basic(3)]) (auto simp: keepsRows_def split: outcome.split)

text \<open>The node answers, or reports that the object is not found.\<close>

definition answers :: "('w \<Rightarrow> (EthError + 'a) \<times> 'w) \<Rightarrow> bool" where
  "answers q \<longleftrightarrow> (\<forall>w e w'. q w = (Inl e, w') \<longrightarrow> e = EthNotFound)"

abbreviation succeeds :: "('s, 'e, 'a) act \<Rightarrow> ('a \<Rightarrow> bool) \<Rightarrow> bool" where
  "succeeds m Q \<equiv> ensures (\<lambda>_. True) m (\<lambda>a _. Q a) (\<lambda>_. False)"

lemma succeeds_bind: "succeeds m R \<Longrightarrow> (\<And>a. R a \<Longrightarrow> succeeds (k a) Q) \<Longrightarrow> succeeds (bindA m k) Q"
  by (rule ensures_bind[where R = "\<lambda>a _. R a"]) (auto simp: ensures_def)

lemma succeeds_callW: "(\<And>w a w'. q w = (a, w') \<Longrightarrow> R a) \<Longrightarrow> succeeds (callW q) R"
  unfolding callW_def by (rule ensures_ask) (auto split: prod.splits)

lemma succeeds_ret: "Q a \<Longrightarrow> succeeds (retA a) Q"
  by (rule ensures_ret) simp

lemma succeeds_answer:
  assumes "answers q"
  shows "succeeds (callW q) (\<lambda>r. \<forall>e. r = Inl e \<longrightarrow> e = EthNotFound)"
  using assms by (intro succeeds_callW) (auto simp: answers_def)

lemma succeeds_orNotFound: "(\<forall>e. r = Inl e \<longrightarrow> e = EthNotFound) \<Longrightarrow> succeeds (orNotFound r) (\<lambda>_. True)"
  by (auto simp: orNotFound_def intro!: ensures_ret split: sum.split)

definition resultsAnswered :: "'w ethEnv \<Rightarrow> bool" where
  "resultsAnswered env \<longleftrightarrow>
     (\<forall>h. answers (en_GetTx env h)) \<and> (\<forall>h. answers (en_GetTxReceipt env h)) \<and>
     (\<forall>tx w e w'. en_GetRevertMessage env tx w = (Inl e, w') \<longrightarrow> e \<in> {EthNotFound, EthExecutionReverted})"

lemma succeeds_resultTxs:
  assumes "resultsAnswered env"
  shows "succeeds (resultTxs env hs txs) (\<lambda>_. True)"
proof (induction hs arbitrary: txs)
  case (Cons h hs)
  have rev: "succeeds (callW (en_GetRevertMessage env tx)) (\<lambda>r. r = Inl EthExecutionReverted \<or> (\<forall>e. r = Inl e \<longrightarrow> e = EthNotFound))" for tx
    using assms unfolding resultsAnswered_def by (intro succeeds_callW) blast
  have a: "answers (en_GetTx env h)" "answers (en_GetTxReceipt env h)" using assms by (auto simp: resultsAnswered_def)
  show ?case
    unfolding resultTxs.simps
    apply (rule succeeds_bind[OF succeeds_answer[OF a(1)]], rule succeeds_bind[OF succeeds_orNotFound], assumption)
    apply (rule succeeds_bind[OF succeeds_answer[OF a(2)]], rule succeeds_bind[OF succeeds_orNotFound], assumption)
    apply (rule succeeds_bind[OF rev])
    apply (rule succeeds_bind[where R = "\<lambda>_. True"])
     apply (auto intro: succeeds_ret succeeds_orNotFound Cons.IH)
    done
qed (auto intro: succeeds_ret)

lemma succeeds_buildResult:
  assumes "resultsAnswered env"
  shows "succeeds (buildResult tlib env m) (\<lambda>r. res_ID r = mtx_id m \<and> res_Status r = mtx_status m)"
  unfolding buildResult_def
  by (rule succeeds_bind[OF succeeds_resultTxs[OF assms]]) (auto intro: succeeds_ret)

lemma succeeds_buildResults:
  assumes "resultsAnswered env"
  shows "succeeds (buildResults tlib env ms) (\<lambda>rs. map res_ID rs = map mtx_id ms \<and> map res_Status rs = map mtx_status ms)"
proof (induction ms)
  case (Cons m ms)
  then show ?case
    by (auto intro!: succeeds_bind[OF succeeds_buildResult[OF assms]] succeeds_bind[OF Cons.IH] succeeds_ret)
qed (auto intro: succeeds_ret)

lemma succeedsD:
  assumes "succeeds m Q"
  shows "\<exists>a s'. m s = (Ok a, s') \<and> Q a"
proof -
  obtain r s' where r: "m s = (r, s')" by fastforce
  from ensuresD[OF assms _ r] r show ?thesis by (cases r) auto
qed

lemma keepsRowsD: "keepsRows m \<Longrightarrow> m s = (r, s') \<Longrightarrow> cl_rows s' = cl_rows s"
  unfolding keepsRows_def by (metis snd_conv)

definition dbAnswers :: "'w ethEnv \<Rightarrow> bool" where
  "dbAnswers env \<longleftrightarrow> (\<forall>w. fst (en_dbUp env w))"

lemma readDB_run:
  assumes "dbAnswers env" "f True (cl_rows s) = Ok a"
  shows "\<exists>s'. readDB env f s = (Ok a, s') \<and> cl_rows s' = cl_rows s"
proof -
  obtain w' where "en_dbUp env (cl_world s) = (True, w')" using assms(1) by (metis dbAnswers_def prod.collapse)
  then show ?thesis using assms(2) by (simp add: readDB_def bindA_def callW_def askA_def)
qed

lemma result_view:
  assumes tlib: "textLib_ok tlib" and env: "dbAnswers env" "resultsAnswered env"
    and ok: "table_ok tlib (cl_rows s)" and at: "statusAt tlib owner s i = Some st"
  shows "\<exists>r s'. etm_Result tlib env owner i s = (Ok r, s') \<and> res_ID r = i \<and> res_Status r = st \<and> cl_rows s' = cl_rows s"
proof -
  obtain m where m: "mtxAt tlib (cl_rows s) (owner, i) = Some m" "mtx_status m = st"
    using at by (auto simp: statusAt_def)
  then have g: "ms_Get tlib True owner i (cl_rows s) = Ok m" by (auto simp: mtxAt_def ms_Get_def split: option.splits outcome.splits)
  have i: "mtx_id m = i" using mtxAt_key[OF tlib ok m(1)] by (simp add: mtxKey_def)
  obtain s1 where s1: "readDB env (\<lambda>up. ms_Get tlib up owner i) s = (Ok m, s1)" "cl_rows s1 = cl_rows s"
    using readDB_run[OF env(1), of "\<lambda>up. ms_Get tlib up owner i"] g by blast
  obtain r s2 where r: "buildResult tlib env m s1 = (Ok r, s2)" "res_ID r = mtx_id m" "res_Status r = mtx_status m"
    using succeedsD[OF succeeds_buildResult[OF env(2)]] by blast
  have "etm_Result tlib env owner i s = (Ok r, s2)" by (simp add: etm_Result_def bindA_def s1(1) r(1))
  then show ?thesis using r m(2) i keepsRowsD[OF keepsRows_buildResult r(1)] s1(2) by auto
qed

text \<open>What the results of the pending transactions say of the statuses \<open>v\<close> of an owner.\<close>

definition reports :: "(string \<Rightarrow> MonitoredTxStatus option) \<Rightarrow> MonitoredTxResult list \<Rightarrow> bool" where
  "reports v rs \<longleftrightarrow> distinct (map res_ID rs) \<and>
     (\<forall>i st. (\<exists>r\<in>set rs. res_ID r = i \<and> res_Status r = st) \<longleftrightarrow> v i = Some st \<and> st \<in> set pendingStatuses)"

lemma readDB_cases:
  "cl_rows (snd (readDB env f s)) = cl_rows s \<and> (\<forall>a. fst (readDB env f s) = Ok a \<longrightarrow> (\<exists>up. f up (cl_rows s) = Ok a))"
  by (auto simp: readDB_def bindA_def callW_def askA_def split: prod.splits outcome.splits)

lemma pending_ok: "pendingStatuses \<noteq> []" "\<forall>st\<in>set pendingStatuses. statusOf (statusString st) = st"
  by (auto simp: pendingStatuses_def statusOf_def statusString_def)

lemma buildResults_ids:
  "buildResults tlib env ms s = (Ok rs, s') \<Longrightarrow> map res_ID rs = map mtx_id ms \<and> map res_Status rs = map mtx_status ms"
proof (induction ms arbitrary: rs s)
  case (Cons m ms)
  then show ?case
    by (auto simp: bindA_def retA_def buildResult_def split: prod.splits outcome.splits)
qed (simp add: retA_def)

lemma results_reports:
  assumes tlib: "textLib_ok tlib" and ok: "table_ok tlib (cl_rows s)"
    and run: "ResultsByStatus tlib env owner pendingStatuses s = (Ok rs, s')"
  shows "reports (statusAt tlib owner s) rs"
proof -
  let ?f = "\<lambda>up. ms_GetByStatus tlib up (Some owner) pendingStatuses"
  obtain ms s1 where g: "readDB env ?f s = (Ok ms, s1)" "buildResults tlib env ms s1 = (Ok rs, s')"
    using run by (auto simp: ResultsByStatus_def bindA_def split: prod.splits outcome.splits)
  then obtain up where "?f up (cl_rows s) = Ok ms" using readDB_cases[of env ?f s] by auto
  then have "?f True (cl_rows s) = Ok ms" by (simp add: ms_GetByStatus_def split: if_splits)
  then have ms: "distinct (map mtxKey ms)"
    "\<And>m. m \<in> set ms \<longleftrightarrow> mtxAt tlib (cl_rows s) (mtxKey m) = Some m \<and> mtx_status m \<in> set pendingStatuses \<and> mtx_owner m = owner"
    using byStatus_view[OF tlib ok pending_ok, of "Some owner"] by auto
  note rs = buildResults_ids[OF g(2)]
  have "inj_on mtx_id (set ms)"
    using ms by (auto simp: distinct_map inj_on_def mtxKey_def)
  then have d: "distinct (map res_ID rs)" using rs ms(1) by (simp add: distinct_map)
  have len: "length rs = length ms" using rs by (metis length_map)
  have "map (\<lambda>r. (res_ID r, res_Status r)) rs = map (\<lambda>m. (mtx_id m, mtx_status m)) ms"
    using rs len by (simp add: list_eq_iff_nth_eq)
  from arg_cong[OF this, of set]
  have view: "(\<exists>r\<in>set rs. res_ID r = i \<and> res_Status r = st) \<longleftrightarrow> (\<exists>m\<in>set ms. mtx_id m = i \<and> mtx_status m = st)" for i st
    by (simp add: set_eq_iff image_iff eq_commute)
  have "(\<exists>m\<in>set ms. mtx_id m = i \<and> mtx_status m = st) \<longleftrightarrow> statusAt tlib owner s i = Some st \<and> st \<in> set pendingStatuses" for i st
  proof
    assume "\<exists>m\<in>set ms. mtx_id m = i \<and> mtx_status m = st"
    then show "statusAt tlib owner s i = Some st \<and> st \<in> set pendingStatuses" using ms(2) by (auto simp: statusAt_def mtxKey_def)
  next
    assume "statusAt tlib owner s i = Some st \<and> st \<in> set pendingStatuses"
    then obtain m where m: "mtxAt tlib (cl_rows s) (owner, i) = Some m" "mtx_status m = st" "st \<in> set pendingStatuses"
      by (auto simp: statusAt_def)
    then have "mtxKey m = (owner, i)" using mtxAt_key[OF tlib ok] by blast
    then show "\<exists>m\<in>set ms. mtx_id m = i \<and> mtx_status m = st" using ms(2)[of m] m by (auto simp: mtxKey_def)
  qed
  with d view show ?thesis by (simp add: reports_def)
qed

lemma results_view:
  assumes tlib: "textLib_ok tlib" and env: "dbAnswers env" "resultsAnswered env" and ok: "table_ok tlib (cl_rows s)"
  shows "\<exists>rs s'. ResultsByStatus tlib env owner pendingStatuses s = (Ok rs, s') \<and> cl_rows s' = cl_rows s \<and>
    reports (statusAt tlib owner s) rs"
proof -
  obtain ms where ms: "ms_GetByStatus tlib True (Some owner) pendingStatuses (cl_rows s) = Ok ms"
    using byStatus_view[OF tlib ok pending_ok, of "Some owner"] by blast
  obtain s1 where s1: "readDB env (\<lambda>up. ms_GetByStatus tlib up (Some owner) pendingStatuses) s = (Ok ms, s1)" "cl_rows s1 = cl_rows s"
    using readDB_run[OF env(1), of "\<lambda>up. ms_GetByStatus tlib up (Some owner) pendingStatuses"] ms(1) by blast
  obtain rs s2 where rs: "buildResults tlib env ms s1 = (Ok rs, s2)"
    using succeedsD[OF succeeds_buildResults[OF env(2)]] by blast
  have run: "ResultsByStatus tlib env owner pendingStatuses s = (Ok rs, s2)"
    by (simp add: ResultsByStatus_def bindA_def s1(1) rs(1))
  have "cl_rows s2 = cl_rows s" using keepsRowsD[OF keepsRows_buildResults rs(1)] s1(2) by simp
  then show ?thesis using run results_reports[OF tlib ok run] by blast
qed

lemma writeDB_run:
  assumes "dbAnswers env" "\<And>now. f True now (cl_rows s) = Ok (g now)"
  shows "\<exists>now s'. writeDB env f s = (Ok (), s') \<and> cl_rows s' = g now"
proof -
  obtain now w1 where w1: "en_now env (cl_world s) = (now, w1)" by fastforce
  obtain w2 where w2: "en_dbUp env w1 = (True, w2)" using assms(1) by (metis dbAnswers_def prod.collapse)
  show ?thesis using w1 w2 assms(2)[of now] by (simp add: writeDB_def bindA_def callW_def askA_def) blast
qed

lemma storageUpdate_run:
  assumes tlib: "textLib_ok tlib" and env: "dbAnswers env" and ok: "table_ok tlib (cl_rows s)" and st: "mtx_storable m"
    and at: "mtxAt tlib (cl_rows s) (mtxKey m) \<noteq> None"
  shows "\<exists>s' m'. storageUpdate tlib env m s = (Ok (), s') \<and> table_ok tlib (cl_rows s') \<and>
    mtxAt tlib (cl_rows s') (mtxKey m) = Some m' \<and> mtx_status m' = mtx_status m \<and>
    (\<forall>k. k \<noteq> mtxKey m \<longrightarrow> mtxAt tlib (cl_rows s') k = mtxAt tlib (cl_rows s) k)"
proof -
  have b: "bigint_ok (blockNumberU64Ptr m)" by (rule bigint_storable[OF st])
  let ?g = "\<lambda>now. map (\<lambda>r. if rowKey r = mtxKey m then rowOfMtx tlib (col_created_at r) (roundMicro now) m else r) (cl_rows s)"
  have "ms_Update tlib True now m (cl_rows s) = Ok (?g now)" for now using b by (simp add: ms_Update_def)
  from writeDB_run[OF env, of "\<lambda>up now. ms_Update tlib up now m" s ?g, OF this]
  obtain now s' where s': "storageUpdate tlib env m s = (Ok (), s')" "cl_rows s' = ?g now"
    unfolding storageUpdate_def by blast
  have up: "ms_Update tlib True now m (cl_rows s) = Ok (cl_rows s')" unfolding ms_Update_def s'(2) using b by simp
  have mem: "mtxKey m \<in> rowKey ` set (cl_rows s)" using at unfolding mtxAt_None[OF tlib ok] by simp
  note u = ms_Update_ok[OF tlib ok st mem up]
  have "\<forall>k. k \<noteq> mtxKey m \<longrightarrow> mtxAt tlib (cl_rows s') k = mtxAt tlib (cl_rows s) k" using u(3) by blast
  then show ?thesis
    using s'(1) u(1) u(2) by (intro exI[of _ s'] exI conjI) (assumption, assumption, assumption, simp, assumption)
qed

lemma done_view:
  assumes tlib: "textLib_ok tlib" and env: "dbAnswers env" and ok: "table_ok tlib (cl_rows s)"
    and at: "statusAt tlib owner s i \<noteq> None"
  shows "\<exists>s'. setStatusDone tlib env owner i s = (Ok (), s') \<and> table_ok tlib (cl_rows s') \<and>
    statusAt tlib owner s' = (statusAt tlib owner s)(i \<mapsto> MonitoredTxStatusDone)"
proof -
  obtain m where m: "mtxAt tlib (cl_rows s) (owner, i) = Some m" using at by (auto simp: statusAt_def)
  then have g: "ms_Get tlib True owner i (cl_rows s) = Ok m" by (auto simp: mtxAt_def ms_Get_def split: option.splits outcome.splits)
  let ?m = "m\<lparr>mtx_status := MonitoredTxStatusDone\<rparr>"
  have k: "mtxKey ?m = (owner, i)" "mtx_storable ?m"
    using mtxAt_key[OF tlib ok m] by (auto simp: mtxKey_def mtx_storable_def statusOf_def statusString_def)
  obtain s1 where s1: "readDB env (\<lambda>up. ms_Get tlib up owner i) s = (Ok m, s1)" "cl_rows s1 = cl_rows s"
    using readDB_run[OF env(1), of "\<lambda>up. ms_Get tlib up owner i"] g by blast
  obtain s2 m' where s2: "storageUpdate tlib env ?m s1 = (Ok (), s2)" "table_ok tlib (cl_rows s2)"
    "mtxAt tlib (cl_rows s2) (owner, i) = Some m'" "mtx_status m' = MonitoredTxStatusDone"
    "\<forall>k. k \<noteq> (owner, i) \<longrightarrow> mtxAt tlib (cl_rows s2) k = mtxAt tlib (cl_rows s) k"
    using storageUpdate_run[OF tlib env, of s1 ?m] ok k m s1(2) by auto
  have "setStatusDone tlib env owner i s = (Ok (), s2)" by (simp add: setStatusDone_def bindA_def s1(1) s2(1))
  moreover have "statusAt tlib owner s2 = (statusAt tlib owner s)(i \<mapsto> MonitoredTxStatusDone)"
    using s2(3-5) by (auto simp: statusAt_def)
  ultimately show ?thesis using s2(2) by blast
qed

subsection \<open>A node that mines\<close>

definition goodReceipt :: "u64 \<Rightarrow> Receipt \<Rightarrow> bool" where
  "goodReceipt topb rc \<longleftrightarrow>
     rc_Status rc = ReceiptStatusSuccessful \<and> (\<exists>b. rc_BlockNumber rc = Some b \<and> 0 \<le> b \<and> b < 2 ^ 63 \<and> b \<le> uint topb)"

definition neverFails :: "('w \<Rightarrow> (EthError + 'a) \<times> 'w) \<Rightarrow> bool" where
  "neverFails q \<longleftrightarrow> (\<forall>w e w'. q w \<noteq> (Inl e, w'))"

text \<open>
  The node signs, estimates and sends without errors, a transaction that is waited for is mined,
  its receipt is successful, and the state is synchronised at least to the block \<open>topb\<close> of every
  receipt.  About an older transaction the node may answer that it is not mined, or fail to answer.
\<close>

definition responsive :: "'w ethEnv \<Rightarrow> u64 \<Rightarrow> bool" where
  "responsive env topb \<longleftrightarrow>
     env_ok env \<and> dbAnswers env \<and> resultsAnswered env \<and> neverFails (en_SuggestedGasPrice env) \<and>
     (\<forall>a t v d. neverFails (en_EstimateGas env a t v d)) \<and> (\<forall>a tx. neverFails (en_SignTx env a tx)) \<and>
     (\<forall>tx. neverFails (en_SendTx env tx)) \<and>
     (\<forall>tx d w r w'. en_WaitTxToBeMined env tx d w = (r, w') \<longrightarrow> r = Inr True) \<and>
     (\<forall>h. neverFails (en_GetTxReceipt env h)) \<and>
     (\<forall>h w rc w'. en_GetTxReceipt env h w = (Inr rc, w') \<longrightarrow> goodReceipt topb rc) \<and>
     (\<forall>h w mined r w'. en_CheckTxWasMined env h w = (Inr (mined, r), w') \<and> mined \<longrightarrow> (\<exists>rc. r = Some rc \<and> goodReceipt topb rc)) \<and>
     (\<forall>w r w'. en_GetLastBlock env w = (r, w') \<longrightarrow> (\<exists>b. r = Inr b \<and> topb \<le> b))"

lemma responsiveD:
  assumes "responsive env topb"
  shows "env_ok env" "dbAnswers env" "resultsAnswered env" "neverFails (en_SuggestedGasPrice env)"
    "\<forall>a t v d. neverFails (en_EstimateGas env a t v d)" "\<forall>a tx. neverFails (en_SignTx env a tx)"
    "\<forall>tx. neverFails (en_SendTx env tx)" "\<forall>tx d w r w'. en_WaitTxToBeMined env tx d w = (r, w') \<longrightarrow> r = Inr True"
    "\<forall>h. neverFails (en_GetTxReceipt env h)" "\<forall>h w rc w'. en_GetTxReceipt env h w = (Inr rc, w') \<longrightarrow> goodReceipt topb rc"
    "\<forall>h w mined r w'. en_CheckTxWasMined env h w = (Inr (mined, r), w') \<and> mined \<longrightarrow> (\<exists>rc. r = Some rc \<and> goodReceipt topb rc)"
    "\<forall>w r w'. en_GetLastBlock env w = (r, w') \<longrightarrow> (\<exists>b. r = Inr b \<and> topb \<le> b)"
  using assms unfolding responsive_def by - (elim conjE, assumption)+

lemma ensures_total:
  assumes "ensures P m Q X" "ensures P m R (\<lambda>_. False)"
  shows "ensures P m (\<lambda>a s. Q a s \<and> R a s) (\<lambda>_. False)"
  unfolding ensures_def
proof (intro allI impI)
  fix s assume "P s"
  obtain r s' where "m s = (r, s')" by fastforce
  with ensuresD[OF assms(1) \<open>P s\<close>] ensuresD[OF assms(2) \<open>P s\<close>]
  show "case m s of (Ok a, s') \<Rightarrow> Q a s' \<and> R a s' | (_, s') \<Rightarrow> False" by (cases r) auto
qed

lemma callE_total:
  assumes "neverFails q" "\<And>w a w'. q w = (Inr a, w') \<Longrightarrow> R a"
  shows "ensures P (callE q) (\<lambda>a _. R a) (\<lambda>_. False)"
proof -
  have "succeeds (callE q) R"
    unfolding callE_def
    by (rule succeeds_bind[OF succeeds_callW[where R = "\<lambda>r. \<exists>a. r = Inr a \<and> R a"]])
      (use assms in \<open>auto simp: neverFails_def intro!: succeeds_ret elim: sumE\<close>, metis sumE)
  then show ?thesis by (rule ensures_conseq) auto
qed

lemma storageUpdate_total:
  assumes "dbAnswers env"
  shows "ensures (\<lambda>_. bigint_ok (blockNumberU64Ptr m)) (storageUpdate tlib env m) (\<lambda>_ _. True) (\<lambda>_. False)"
  unfolding ensures_def
proof (intro allI impI)
  fix s :: "'a client"
  assume b: "bigint_ok (blockNumberU64Ptr m)"
  let ?g = "\<lambda>now. map (\<lambda>r. if rowKey r = mtxKey m then rowOfMtx tlib (col_created_at r) (roundMicro now) m else r) (cl_rows s)"
  have "ms_Update tlib True now m (cl_rows s) = Ok (?g now)" for now using b by (simp add: ms_Update_def)
  from writeDB_run[OF assms, of "\<lambda>up now. ms_Update tlib up now m" s ?g, OF this]
  show "case storageUpdate tlib env m s of (Ok _, s') \<Rightarrow> True | (_, s') \<Rightarrow> False"
    unfolding storageUpdate_def by (auto split: prod.splits)
qed

lemma store_total:
  assumes "dbAnswers env"
  shows "ensures (\<lambda>s. P s \<and> improves nn m m' \<and> C) (bindA (storageUpdate tlib env m') (\<lambda>_. retA m')) (\<lambda>_ _. True) (\<lambda>_. False)"
  by (rule ensures_bind[OF ensures_conseq[OF storageUpdate_total[OF assms]]])
    (auto simp: improves_def bigint_storable intro: ensures_ret)

lemma suggestedGasPrice_total:
  assumes "responsive env topb"
  shows "ensures P (suggestedGasPrice env cfg) (\<lambda>_ _. True) (\<lambda>_. False)"
  unfolding suggestedGasPrice_def Let_def
  by (rule ensures_bind[OF callE_total[where R = "\<lambda>_. True"]]) (use responsiveD(4)[OF assms] in \<open>auto intro: ensures_ret\<close>)

lemma reviewMonitoredTx_total:
  assumes "responsive env topb"
  shows "ensures P (reviewMonitoredTx env cfg m) (\<lambda>_ _. True) (\<lambda>_. False)"
proof -
  have n: "neverFails (en_EstimateGas env (mtx_from m) (mtx_to m) (mtx_value m) (mtx_data m))"
    using responsiveD(5)[OF assms] by blast
  show ?thesis
    unfolding reviewMonitoredTx_def Let_def
    by (rule ensures_bind[OF callE_total[OF n, where R = "\<lambda>_. True"]], rule TrueI)
      (rule ensures_bind[OF suggestedGasPrice_total[OF assms]], rule ensures_ret, rule TrueI)
qed

lemma reviewIfSent_total:
  assumes tlib: "textLib_ok tlib" and env: "responsive env topb" and cfg: "cfg_ok cfg"
  shows "ensures (tracks nn tlib rows0 m0 m)
    (if mtx_status m = MonitoredTxStatusSent
     then bindA (reviewMonitoredTx env cfg m) (\<lambda>m'. bindA (storageUpdate tlib env m') (\<lambda>_. retA m')) else retA m)
    (\<lambda>m' s. tracks nn tlib rows0 m0 m' s \<and> mtx_status m' = mtx_status m) (\<lambda>_. False)"
proof (cases "mtx_storable m \<and> mtx_status m = MonitoredTxStatusSent")
  case True
  note e = responsiveD(1,2)[OF env]
  have "ensures (tracks nn tlib rows0 m0 m)
     (bindA (reviewMonitoredTx env cfg m) (\<lambda>m'. bindA (storageUpdate tlib env m') (\<lambda>_. retA m'))) (\<lambda>_ _. True) (\<lambda>_. False)"
    using True
    by (intro ensures_bind[OF ensures_total[OF reviewMonitoredTx_improves[OF e(1) cfg] reviewMonitoredTx_total[OF env]]])
      (auto intro: ensures_conseq[OF store_total[OF e(2)]])
  from ensures_total[OF reviewIfSent_tracks[OF tlib e(1) cfg], of nn rows0 m0 m, unfolded if_P[OF conjunct2[OF True]], OF this]
  show ?thesis using True by (auto elim: ensures_conseq)
next
  case False
  show ?thesis
  proof (cases "mtx_storable m")
    case True
    then show ?thesis using False by (auto intro!: ensures_ret)
  qed (simp add: ensures_def tracks_def)
qed

lemma addToHistory_total:
  assumes tlib: "textLib_ok tlib" and env: "dbAnswers env"
  shows "ensures (tracks nn tlib rows0 m0 m) (addToHistory tlib env m tx)
    (\<lambda>m' s. tracks nn tlib rows0 m0 m' s \<and> mtx_status m' = mtx_status m) (\<lambda>_. False)"
proof -
  have "ensures (tracks nn tlib rows0 m0 m) (addToHistory tlib env m tx) (\<lambda>_ _. True) (\<lambda>_. False)"
  proof (cases "mtx_storable m")
    case True
    then obtain H where H: "mtx_history m = Some H" by (auto simp: mtx_storable_def)
    let ?m = "m\<lparr>mtx_history := Some (finsert (en_hash env tx) H)\<rparr>"
    have "mtx_storable ?m" using True by (simp add: mtx_storable_def)
    then have "ensures (tracks nn tlib rows0 m0 m) (bindA (storageUpdate tlib env ?m) (\<lambda>_. retA ?m)) (\<lambda>_ _. True) (\<lambda>_. False)"
      by (intro ensures_bind[OF ensures_conseq[OF storageUpdate_total[OF env]]]) (auto simp: bigint_storable intro: ensures_ret)
    then show ?thesis using H by (auto simp: addToHistory_def AddHistory_def intro: ensures_ret)
  qed (simp add: ensures_def tracks_def)
  from ensures_total[OF addToHistory_tracks[OF tlib] this] show ?thesis by (rule ensures_conseq) auto
qed

lemma sendIfNew_total:
  assumes tlib: "textLib_ok tlib" and env: "dbAnswers env" "\<And>tx. neverFails (en_SendTx env tx)"
  shows "ensures (tracks nn tlib rows0 m0 m) (sendIfNew tlib env m tx)
    (\<lambda>m' s. tracks nn tlib rows0 m0 m' s \<and> (mtx_status m' = mtx_status m \<or> mtx_status m' = MonitoredTxStatusSent)) (\<lambda>_. False)"
proof -
  have "ensures (tracks nn tlib rows0 m0 m) (sendIfNew tlib env m tx) (\<lambda>_ _. True) (\<lambda>_. False)"
  proof (cases "mtx_storable m")
    case True
    let ?m = "m\<lparr>mtx_status := MonitoredTxStatusSent\<rparr>"
    have "mtx_storable ?m" using True by (simp add: mtx_storable_def statusOf_def statusString_def)
    then have "ensures P (bindA (storageUpdate tlib env ?m) (\<lambda>_. retA ?m)) (\<lambda>_ _. True) (\<lambda>_. False)" for P
      by (intro ensures_bind[OF ensures_conseq[OF storageUpdate_total[OF env(1)]]]) (auto simp: bigint_storable intro: ensures_ret)
    then show ?thesis
      unfolding sendIfNew_def Let_def
      by (intro ensures_bind[OF callW_tracks[where R = "\<lambda>_. True"]])
        (auto intro!: ensures_bind[OF callE_total[OF env(2), where R = "\<lambda>_. True"]] intro: ensures_ret)
  qed (simp add: ensures_def tracks_def)
  from ensures_total[OF sendIfNew_tracks[OF tlib] this] show ?thesis by (rule ensures_conseq) auto
qed

lemma keepT:
  fixes m :: "('w client, 'e, 'a) act"
  assumes "ensures (\<lambda>_. True) m (\<lambda>a _. R a) (\<lambda>_. False)" "keepsRows m"
  shows "ensures (\<lambda>s. tracks nn tlib rows0 m0 m' s \<and> C) m (\<lambda>a s. (tracks nn tlib rows0 m0 m' s \<and> C) \<and> R a) (\<lambda>_. False)"
  unfolding ensures_def
proof (intro allI impI)
  fix s :: "'w client"
  assume t: "tracks nn tlib rows0 m0 m' s \<and> C"
  obtain a s' where a: "m s = (Ok a, s')" "R a" using succeedsD[OF assms(1)] by blast
  have "cl_rows s' = cl_rows s" by (rule keepsRowsD[OF assms(2) a(1)])
  then show "case m s of (Ok a, s') \<Rightarrow> (tracks nn tlib rows0 m0 m' s' \<and> C) \<and> R a | (_, s') \<Rightarrow> False"
    using a t by (auto simp: tracks_def)
qed

lemma keepsRows_callE: "keepsRows (callE q)"
  unfolding callE_def by (rule keepsRows_bind[OF keepsRows_basic(3)]) (auto intro: keepsRows_basic split: sum.split)

lemma sendAndWait_total:
  assumes tlib: "textLib_ok tlib" and env: "responsive env topb" and cfg: "cfg_ok cfg"
    and st: "mtx_status m \<noteq> MonitoredTxStatusReorged"
  shows "ensures (tracks nn tlib rows0 m0 m) (sendAndWait tlib env cfg m)
    (\<lambda>(m', rc) s. tracks nn tlib rows0 m0 m' s \<and> goodReceipt topb rc \<and>
      (mtx_status m' = mtx_status m \<or> mtx_status m' = MonitoredTxStatusSent)) (\<lambda>_. False)"
proof -
  let ?C = "\<lambda>m'. mtx_status m' = mtx_status m \<or> mtx_status m' = MonitoredTxStatusSent"
  note e = responsiveD(2,7)[OF env, rule_format] responsiveD(6)[OF env, rule_format] responsiveD(9,10)[OF env, rule_format]
    responsiveD(8)[OF env, rule_format]
  have wait: "neverFails (en_WaitTxToBeMined env tx d)" for tx d unfolding neverFails_def using e(6) by (metis sum.distinct(1))
  have w1: "ensures (\<lambda>s. tracks nn tlib rows0 m0 m' s \<and> ?C m')
    (bindA (callE (en_WaitTxToBeMined env tx d)) (\<lambda>mined.
     if \<not> mined then failA (mgrEth EthNotFound)
     else bindA (callE (en_GetTxReceipt env h)) (\<lambda>rc. retA (m', rc))))
    (\<lambda>(m', rc) s. tracks nn tlib rows0 m0 m' s \<and> goodReceipt topb rc \<and> ?C m') (\<lambda>_. False)" for m' h tx d
  proof (rule ensures_bind[OF keepT[OF callE_total[OF wait, where R = "\<lambda>b. b"] keepsRows_callE]])
    show "a" if "en_WaitTxToBeMined env tx d w = (Inr a, w')" for w a w' using e(6)[OF that] by simp
    show "ensures (\<lambda>s. (tracks nn tlib rows0 m0 m' s \<and> ?C m') \<and> mined)
       (if \<not> mined then failA (mgrEth EthNotFound) else bindA (callE (en_GetTxReceipt env h)) (\<lambda>rc. retA (m', rc)))
       (\<lambda>(m', rc) s. tracks nn tlib rows0 m0 m' s \<and> goodReceipt topb rc \<and> ?C m') (\<lambda>_. False)" for mined
    proof (cases mined)
      case True
      have "ensures (\<lambda>s. tracks nn tlib rows0 m0 m' s \<and> ?C m') (bindA (callE (en_GetTxReceipt env h)) (\<lambda>rc. retA (m', rc)))
         (\<lambda>(m', rc) s. tracks nn tlib rows0 m0 m' s \<and> goodReceipt topb rc \<and> ?C m') (\<lambda>_. False)"
        by (rule ensures_bind[OF keepT[OF callE_total[OF e(4), where R = "goodReceipt topb"] keepsRows_callE]], rule e(5), assumption)
          (auto intro: ensures_ret)
      then show ?thesis using True by simp
    qed (simp add: ensures_def)
  qed
  show ?thesis
    unfolding sendAndWait_def if_not_P[OF st]
    apply (rule ensures_bind[OF reviewIfSent_total[OF tlib env cfg]])
    apply (rule ensures_bind[OF keepT[OF callE_total[OF e(3), where R = "\<lambda>_. True"] keepsRows_callE]], rule TrueI)
    subgoal for m1 tx
      apply (rule ensures_bind[where R = "\<lambda>m2 s. tracks nn tlib rows0 m0 m2 s \<and> mtx_status m2 = mtx_status m"])
       apply (cases "mtx_status m1 = mtx_status m")
        apply (rule ensures_conseq[OF addToHistory_total[OF tlib e(1)]], auto simp: ensures_def[of "\<lambda>_. False"])[2]
      subgoal for m2
        apply (rule ensures_bind[where R = "\<lambda>m3 s. tracks nn tlib rows0 m0 m3 s \<and> ?C m3"])
         apply (cases "mtx_status m2 = mtx_status m")
          apply (rule ensures_conseq[OF sendIfNew_total[OF tlib e(1,2)]], auto simp: ensures_def[of "\<lambda>_. False"])[2]
        apply (rule w1)
        done
      done
    done
qed

lemma settle_confirms:
  assumes tlib: "textLib_ok tlib" and env: "responsive env topb" and rc: "goodReceipt topb rc"
    and st: "mtx_status m \<in> {MonitoredTxStatusCreated, MonitoredTxStatusSent, MonitoredTxStatusReorged}"
  shows "ensures (tracks nn tlib rows0 m0 m) (settle tlib env m rc)
    (\<lambda>_ s. \<exists>m'. tracks nn tlib rows0 m0 m' s \<and> mtx_status m' = MonitoredTxStatusConfirmed) (\<lambda>_. False)"
proof (cases "mtx_storable m")
  case True
  obtain b where b: "rc_Status rc = ReceiptStatusSuccessful" "rc_BlockNumber rc = Some b" "0 \<le> b" "b < 2 ^ 63" "b \<le> uint topb"
    using rc by (auto simp: goodReceipt_def)
  let ?m = "m\<lparr>mtx_status := MonitoredTxStatusConfirmed, mtx_blockNumber := Some b\<rparr>"
  have m: "mtx_storable ?m" using True b by (simp add: mtx_storable_def statusOf_def statusString_def)
  have "mtx_step (forget m) (forget ?m)" using st step_confirmed[of "forget m" b] by auto
  then have "(mtx_step_of nn)\<^sup>*\<^sup>* (forget m) (forget ?m)" by (auto simp: mtx_step_of_def)
  then have "ensures (tracks nn tlib rows0 m0 m) (storageUpdate tlib env ?m) (\<lambda>_. tracks nn tlib rows0 m0 ?m) (tracked nn tlib rows0 m0)"
    using m by (intro storageUpdate_tracks[OF tlib]) auto
  moreover have "ensures (tracks nn tlib rows0 m0 m) (storageUpdate tlib env ?m) (\<lambda>_ _. True) (\<lambda>_. False)"
    by (rule ensures_conseq[OF storageUpdate_total[OF responsiveD(2)[OF env]]]) (auto simp: bigint_storable[OF m])
  ultimately have u: "ensures (tracks nn tlib rows0 m0 m) (storageUpdate tlib env ?m)
    (\<lambda>_ s. \<exists>m'. tracks nn tlib rows0 m0 m' s \<and> mtx_status m' = MonitoredTxStatusConfirmed) (\<lambda>_. False)"
    by (rule ensures_conseq[OF ensures_total]) (auto intro!: exI[of _ ?m])
  have "fits64 b" using b by (simp add: fits64_def)
  then have le: "uint64_of b \<le> c" if "topb \<le> c" for c
    using that b(5) by (simp add: word_le_def)
  have s: "settle tlib env m rc = bindA (callW (en_GetLastBlock env)) (\<lambda>r.
      case r of Inl _ \<Rightarrow> failA (mgrEth EthNotFound)
      | Inr c \<Rightarrow> if c < uint64_of b then failA (mgrEth EthNotFound) else storageUpdate tlib env ?m)"
    using b by (simp add: settle_def)
  show ?thesis
    unfolding s
  proof (rule ensures_bind[OF callW_tracks[where R = "\<lambda>r. \<exists>c. r = Inr c \<and> topb \<le> c"]])
    show "\<exists>c. a = Inr c \<and> topb \<le> c" if "en_GetLastBlock env w = (a, w')" for w a w'
      by (rule responsiveD(12)[OF env, rule_format, OF that])
    show "ensures (\<lambda>s. tracks nn tlib rows0 m0 m s \<and> (\<exists>c. r = Inr c \<and> topb \<le> c))
       (case r of Inl _ \<Rightarrow> failA (mgrEth EthNotFound)
        | Inr c \<Rightarrow> if c < uint64_of b then failA (mgrEth EthNotFound) else storageUpdate tlib env ?m)
       (\<lambda>_ s. \<exists>m'. tracks nn tlib rows0 m0 m' s \<and> mtx_status m' = MonitoredTxStatusConfirmed) (\<lambda>_. False)" for r
    proof (cases "\<exists>c. r = Inr c \<and> topb \<le> c")
      case True
      then obtain c where c: "r = Inr c" "topb \<le> c" by blast
      have "\<not> c < uint64_of b" using le[OF c(2)] by simp
      then show ?thesis using c u by simp
    qed (rule ensures_absurd)
  qed
qed (simp add: ensures_def tracks_def)

lemma checkHistory_total:
  assumes env: "responsive env topb" and st: "\<not> confirmed st" "\<not> hasFailedReceipts st"
  shows "ensures (tracks nn tlib rows0 m0 m) (checkHistory env hs st)
    (\<lambda>st' s. tracks nn tlib rows0 m0 m s \<and> (confirmed st' \<longrightarrow> goodReceipt topb (lastReceiptChecked st')) \<and> \<not> hasFailedReceipts st')
    (\<lambda>_. False)"
  using st
proof (induction hs arbitrary: st)
  case Nil
  then show ?case by (auto intro!: ensures_ret)
next
  case (Cons h hs)
  let ?R = "\<lambda>r. \<forall>mined x. r = Inr (mined, x) \<and> mined \<longrightarrow> (\<exists>rc. x = Some rc \<and> goodReceipt topb rc)"
  have rc: "?R r" if "en_CheckTxWasMined env h w = (r, w')" for w r w'
    using responsiveD(11)[OF env, rule_format, of h w] that by blast
  show ?case
    unfolding checkHistory.simps
  proof (rule ensures_bind[OF callW_tracks[where R = ?R]], use rc in blast, goal_cases)
    case (1 r)
    show ?case
    proof (cases "?R r")
      case True
      then have pre: "(\<lambda>s. tracks nn tlib rows0 m0 m s \<and> ?R r) = tracks nn tlib rows0 m0 m" by simp
      show ?thesis
      proof (cases r)
        case (Inl e)
        then show ?thesis unfolding pre using Cons by simp
      next
        case (Inr q)
        obtain mined receipt where q: "q = (mined, receipt)" by fastforce
        show ?thesis
        proof (cases mined)
          case m: True
          then obtain x where "receipt = Some x" "goodReceipt topb x" using True Inr q by blast
          then show ?thesis
            unfolding pre using m Inr q Cons.prems by (auto simp: goodReceipt_def intro!: ensures_ret)
        next
          case False
          then show ?thesis unfolding pre using Inr q Cons by simp
        qed
      qed
    qed (rule ensures_absurd)
  qed
qed

lemma monitorTx_confirms:
  assumes tlib: "textLib_ok tlib" and env: "responsive env topb" and cfg: "cfg_ok cfg"
    and st: "mtx_status m \<in> {MonitoredTxStatusCreated, MonitoredTxStatusSent}"
  shows "ensures (tracks nn tlib rows0 m0 m) (monitorTx tlib env cfg order m)
    (\<lambda>_ s. \<exists>m'. tracks nn tlib rows0 m0 m' s \<and> mtx_status m' = MonitoredTxStatusConfirmed) (\<lambda>_. False)"
proof -
  let ?Q = "\<lambda>(_ :: unit) s. \<exists>m'. tracks nn tlib rows0 m0 m' s \<and> mtx_status m' = MonitoredTxStatusConfirmed"
  let ?ok = "\<lambda>h. (confirmed h \<longrightarrow> goodReceipt topb (lastReceiptChecked h)) \<and> \<not> hasFailedReceipts h"
  have h0: "\<not> confirmed histStart" "\<not> hasFailedReceipts histStart" by (auto simp: histStart_def)
  have body: "ensures (tracks nn tlib rows0 m0 m)
    (bindA (reviewNonceIfNeeded tlib env h m) (\<lambda>m1.
     bindA (if \<not> confirmed h then sendAndWait tlib env cfg m1 else retA (m1, lastReceiptChecked h)) (\<lambda>(m2, rc).
     settle tlib env m2 rc))) ?Q (\<lambda>_. False)" if ok: "?ok h" for h
  proof -
    have r: "reviewNonceIfNeeded tlib env h m = retA m" using ok by (simp add: reviewNonceIfNeeded_def)
    let ?pre = "\<lambda>p. goodReceipt topb (snd p) \<and> mtx_status (fst p) \<in> {MonitoredTxStatusCreated, MonitoredTxStatusSent}"
    have send: "ensures (tracks nn tlib rows0 m0 m)
       (if \<not> confirmed h then sendAndWait tlib env cfg m else retA (m, lastReceiptChecked h))
       (\<lambda>p s. tracks nn tlib rows0 m0 (fst p) s \<and> ?pre p) (\<lambda>_. False)"
    proof (cases "confirmed h")
      case True
      then show ?thesis using ok st by (auto intro!: ensures_ret)
    next
      case False
      have "mtx_status m \<noteq> MonitoredTxStatusReorged" using st by auto
      from sendAndWait_total[OF tlib env cfg this]
      have "ensures (tracks nn tlib rows0 m0 m) (sendAndWait tlib env cfg m)
       (\<lambda>p s. tracks nn tlib rows0 m0 (fst p) s \<and> ?pre p) (\<lambda>_. False)"
        by (rule ensures_conseq) (use st in auto)
      then show ?thesis using False by simp
    qed
    have fin: "ensures (\<lambda>s. tracks nn tlib rows0 m0 (fst p) s \<and> ?pre p) (case p of (m2, rc) \<Rightarrow> settle tlib env m2 rc) ?Q (\<lambda>_. False)" for p
    proof (cases "?pre p")
      case True
      then have "ensures (tracks nn tlib rows0 m0 (fst p)) (settle tlib env (fst p) (snd p)) ?Q (\<lambda>_. False)"
        by (intro settle_confirms[OF tlib env]) auto
      then show ?thesis unfolding split_beta by (rule ensures_conseq) auto
    qed (rule ensures_absurd)
    have "ensures (tracks nn tlib rows0 m0 m) (retA m) (\<lambda>m1 s. tracks nn tlib rows0 m0 m s \<and> m1 = m) (\<lambda>_. False)"
      by (auto intro: ensures_ret)
    then show ?thesis
      unfolding r
    proof (rule ensures_bind)
      fix m1
      show "ensures (\<lambda>s. tracks nn tlib rows0 m0 m s \<and> m1 = m)
        (bindA (if \<not> confirmed h then sendAndWait tlib env cfg m1 else retA (m1, lastReceiptChecked h)) (\<lambda>(m2, rc).
         settle tlib env m2 rc)) ?Q (\<lambda>_. False)"
      proof (cases "m1 = m")
        case True
        show ?thesis unfolding True by (rule ensures_conseq[OF ensures_bind[OF send fin]]) auto
      qed (rule ensures_absurd)
    qed
  qed
  show ?thesis
    unfolding monitorTx_def
  proof (rule ensures_bind[OF checkHistory_total[OF env h0]])
    fix h
    show "ensures (\<lambda>s. tracks nn tlib rows0 m0 m s \<and> ?ok h)
      (bindA (reviewNonceIfNeeded tlib env h m) (\<lambda>m1.
       bindA (if \<not> confirmed h then sendAndWait tlib env cfg m1 else retA (m1, lastReceiptChecked h)) (\<lambda>(m2, rc).
       settle tlib env m2 rc))) ?Q (\<lambda>_. False)"
    proof (cases "?ok h")
      case True
      show ?thesis by (rule ensures_conseq[OF body[OF True]]) auto
    qed (rule ensures_absurd)
  qed
qed

subsection \<open>One cycle of monitoring\<close>

abbreviation "activeStatuses \<equiv> [MonitoredTxStatusCreated, MonitoredTxStatusSent, MonitoredTxStatusReorged]"

lemma monitorTx_frame:
  assumes "textLib_ok tlib" "env_ok env" "cfg_ok cfg" "mtx_status m \<in> set activeStatuses"
    and "table_ok tlib (cl_rows s)" "mtxAt tlib (cl_rows s) (mtxKey m) = Some m"
  shows "table_ok tlib (cl_rows (snd (monitorTx tlib env cfg order m s)))"
    "k \<noteq> mtxKey m \<Longrightarrow> mtxAt tlib (cl_rows (snd (monitorTx tlib env cfg order m s))) k = mtxAt tlib (cl_rows s) k"
proof -
  have "tracked True tlib (cl_rows s) m (snd (monitorTx tlib env cfg order m s))"
    by (rule monitorTx_tracked[OF assms(1-3) _ assms(5,6)]) (use assms(4) in auto)
  from tracked_at[OF this] show "table_ok tlib (cl_rows (snd (monitorTx tlib env cfg order m s)))"
    "k \<noteq> mtxKey m \<Longrightarrow> mtxAt tlib (cl_rows (snd (monitorTx tlib env cfg order m s))) k = mtxAt tlib (cl_rows s) k"
    by blast+
qed

lemma monitorAll_frame:
  assumes "textLib_ok tlib" "env_ok env" "cfg_ok cfg" "table_ok tlib (cl_rows s)" "distinct (map mtxKey ms)"
    and "\<forall>m\<in>set ms. mtxAt tlib (cl_rows s) (mtxKey m) = Some m \<and> mtx_status m \<in> set activeStatuses"
  shows "table_ok tlib (cl_rows (monitorAll tlib env cfg ms s)) \<and>
    (\<forall>k. k \<notin> mtxKey ` set ms \<longrightarrow> mtxAt tlib (cl_rows (monitorAll tlib env cfg ms s)) k = mtxAt tlib (cl_rows s) k)"
  using assms(4-6)
proof (induction ms arbitrary: s)
  case (Cons m ms)
  let ?s1 = "snd (monitorTx tlib env cfg (historyHashSlice tlib m) m s)"
  have m: "mtxAt tlib (cl_rows s) (mtxKey m) = Some m" "mtx_status m \<in> set activeStatuses" using Cons.prems by auto
  note f = monitorTx_frame[OF assms(1-3) m(2) Cons.prems(1) m(1), where order = "historyHashSlice tlib m"]
  have other: "mtxKey m' \<noteq> mtxKey m" if "m' \<in> set ms" for m'
    using Cons.prems(2) imageI[OF that, of mtxKey] by auto
  have "\<forall>m'\<in>set ms. mtxAt tlib (cl_rows ?s1) (mtxKey m') = Some m' \<and> mtx_status m' \<in> set activeStatuses"
    using Cons.prems(3) f(2)[OF other] by auto
  moreover have "distinct (map mtxKey ms)" using Cons.prems(2) by simp
  ultimately have ih: "table_ok tlib (cl_rows (monitorAll tlib env cfg ms ?s1)) \<and>
    (\<forall>k. k \<notin> mtxKey ` set ms \<longrightarrow> mtxAt tlib (cl_rows (monitorAll tlib env cfg ms ?s1)) k = mtxAt tlib (cl_rows ?s1) k)"
    using f(1) by (intro Cons.IH) auto
  show ?case using ih f(2) by simp
qed simp

lemma monitorAll_confirms:
  assumes tlib: "textLib_ok tlib" and env: "responsive env topb" and cfg: "cfg_ok cfg"
    and "table_ok tlib (cl_rows s)" "distinct (map mtxKey ms)"
    and "\<forall>m\<in>set ms. mtxAt tlib (cl_rows s) (mtxKey m) = Some m \<and> mtx_status m \<in> set activeStatuses"
    and "m \<in> set ms" "mtx_status m \<noteq> MonitoredTxStatusReorged"
  shows "map_option mtx_status (mtxAt tlib (cl_rows (monitorAll tlib env cfg ms s)) (mtxKey m)) = Some MonitoredTxStatusConfirmed"
  using assms(4-7)
proof (induction ms arbitrary: s)
  case (Cons m1 ms)
  let ?s1 = "snd (monitorTx tlib env cfg (historyHashSlice tlib m1) m1 s)"
  have e: "env_ok env" by (rule responsiveD(1)[OF env])
  have m1: "mtxAt tlib (cl_rows s) (mtxKey m1) = Some m1" "mtx_status m1 \<in> set activeStatuses" using Cons.prems by auto
  note f = monitorTx_frame[OF tlib e cfg m1(2) Cons.prems(1) m1(1), where order = "historyHashSlice tlib m1"]
  have other: "mtxKey m' \<noteq> mtxKey m1" if "m' \<in> set ms" for m'
    using Cons.prems(2) imageI[OF that, of mtxKey] by auto
  have rest: "\<forall>m'\<in>set ms. mtxAt tlib (cl_rows ?s1) (mtxKey m') = Some m' \<and> mtx_status m' \<in> set activeStatuses"
    using Cons.prems(3) f(2)[OF other] by auto
  have d: "distinct (map mtxKey ms)" "mtxKey m1 \<notin> mtxKey ` set ms" using Cons.prems(2) by auto
  show ?case
  proof (cases "m = m1")
    case True
    have t: "tracks True tlib (cl_rows s) m1 m1 s" by (rule tracks_start[OF tlib Cons.prems(1) m1(1)])
    have st: "mtx_status m1 \<in> {MonitoredTxStatusCreated, MonitoredTxStatusSent}" using m1(2) assms(8) True by auto
    obtain r where "monitorTx tlib env cfg (historyHashSlice tlib m1) m1 s = (r, ?s1)" by (metis prod.collapse)
    from ensuresD[OF monitorTx_confirms[OF tlib env cfg st] t this]
    obtain m' where m': "tracks True tlib (cl_rows s) m1 m' ?s1" "mtx_status m' = MonitoredTxStatusConfirmed" by (auto split: outcome.splits)
    then have "map_option mtx_status (mtxAt tlib (cl_rows ?s1) (mtxKey m1)) = Some MonitoredTxStatusConfirmed"
      unfolding tracks_def using forget_sel(11) by (metis (no_types, lifting) map_option_eq_Some option.map(2))
    moreover have "mtxAt tlib (cl_rows (monitorAll tlib env cfg ms ?s1)) (mtxKey m1) = mtxAt tlib (cl_rows ?s1) (mtxKey m1)"
      using monitorAll_frame[OF tlib e cfg f(1) d(1) rest] d(2) by blast
    ultimately show ?thesis using True by simp
  next
    case False
    then show ?thesis using Cons.IH[OF f(1) d(1) rest] Cons.prems(4) by simp
  qed
qed simp

abbreviation cycle :: "textLib \<Rightarrow> 'w ethEnv \<Rightarrow> ethCfg \<Rightarrow> 'w client \<Rightarrow> 'w client" where
  "cycle tlib env cfg s \<equiv> snd (monitorTxs tlib env cfg s)"

lemma active_ok: "activeStatuses \<noteq> []" "\<forall>st\<in>set activeStatuses. statusOf (statusString st) = st"
  by (auto simp: statusOf_def statusString_def)

lemma cycle_cases:
  assumes tlib: "textLib_ok tlib" and ok: "table_ok tlib (cl_rows s)"
  shows "cl_rows (cycle tlib env cfg s) = cl_rows s \<or>
    (\<exists>ms s1. cycle tlib env cfg s = monitorAll tlib env cfg ms s1 \<and> cl_rows s1 = cl_rows s \<and> distinct (map mtxKey ms) \<and>
      (\<forall>m. m \<in> set ms \<longleftrightarrow> mtxAt tlib (cl_rows s) (mtxKey m) = Some m \<and> mtx_status m \<in> set activeStatuses))"
proof -
  let ?f = "\<lambda>up. ms_GetByStatus tlib up None activeStatuses"
  obtain r s1 where r: "readDB env ?f s = (r, s1)" by fastforce
  then have rows: "cl_rows s1 = cl_rows s" "\<And>ms. r = Ok ms \<Longrightarrow> \<exists>up. ?f up (cl_rows s) = Ok ms"
    using readDB_cases[of env ?f s] by auto
  show ?thesis
  proof (cases r)
    case (Ok ms)
    then obtain up where "?f up (cl_rows s) = Ok ms" using rows(2) by blast
    then have "?f True (cl_rows s) = Ok ms" by (simp add: ms_GetByStatus_def split: if_splits)
    with byStatus_view[OF tlib ok active_ok, of None] have "distinct (map mtxKey ms)"
      "\<forall>m. m \<in> set ms \<longleftrightarrow> mtxAt tlib (cl_rows s) (mtxKey m) = Some m \<and> mtx_status m \<in> set activeStatuses"
      by auto
    moreover have "cycle tlib env cfg s = monitorAll tlib env cfg ms s1"
      using r Ok by (simp add: monitorTxs_def bindA_def)
    ultimately show ?thesis using rows(1) by blast
  qed (use r rows(1) in \<open>simp_all add: monitorTxs_def bindA_def\<close>)
qed

lemma cycle_frame:
  assumes tlib: "textLib_ok tlib" and env: "env_ok env" and cfg: "cfg_ok cfg" and ok: "table_ok tlib (cl_rows s)"
  shows "table_ok tlib (cl_rows (cycle tlib env cfg s))"
    "st \<notin> set activeStatuses \<Longrightarrow> statusAt tlib owner s i = Some st \<Longrightarrow> statusAt tlib owner (cycle tlib env cfg s) i = Some st"
    "statusAt tlib owner s i = None \<Longrightarrow> statusAt tlib owner (cycle tlib env cfg s) i = None"
proof -
  have "table_ok tlib (cl_rows (cycle tlib env cfg s)) \<and>
    (\<forall>k. (\<forall>m. mtxAt tlib (cl_rows s) k = Some m \<longrightarrow> mtx_status m \<notin> set activeStatuses) \<longrightarrow>
      mtxAt tlib (cl_rows (cycle tlib env cfg s)) k = mtxAt tlib (cl_rows s) k)"
  proof (rule disjE[OF cycle_cases[OF tlib ok, of env cfg]])
    assume "cl_rows (cycle tlib env cfg s) = cl_rows s"
    then show ?thesis using ok by simp
  next
    assume "\<exists>ms s1. cycle tlib env cfg s = monitorAll tlib env cfg ms s1 \<and> cl_rows s1 = cl_rows s \<and> distinct (map mtxKey ms) \<and>
      (\<forall>m. m \<in> set ms \<longleftrightarrow> mtxAt tlib (cl_rows s) (mtxKey m) = Some m \<and> mtx_status m \<in> set activeStatuses)"
    then obtain ms s1 where c: "cycle tlib env cfg s = monitorAll tlib env cfg ms s1" "cl_rows s1 = cl_rows s" "distinct (map mtxKey ms)"
      and mem: "\<And>m. m \<in> set ms \<longleftrightarrow> mtxAt tlib (cl_rows s) (mtxKey m) = Some m \<and> mtx_status m \<in> set activeStatuses"
      by blast
    have f: "table_ok tlib (cl_rows (monitorAll tlib env cfg ms s1)) \<and>
      (\<forall>k. k \<notin> mtxKey ` set ms \<longrightarrow> mtxAt tlib (cl_rows (monitorAll tlib env cfg ms s1)) k = mtxAt tlib (cl_rows s) k)"
      using monitorAll_frame[OF tlib env cfg _ c(3), of s1] ok mem by (simp add: c(2))
    moreover have "k \<notin> mtxKey ` set ms"
      if "\<forall>m. mtxAt tlib (cl_rows s) k = Some m \<longrightarrow> mtx_status m \<notin> set activeStatuses" for k
      using that mem by auto
    ultimately show ?thesis unfolding c(1) by blast
  qed
  then show "table_ok tlib (cl_rows (cycle tlib env cfg s))"
    "st \<notin> set activeStatuses \<Longrightarrow> statusAt tlib owner s i = Some st \<Longrightarrow> statusAt tlib owner (cycle tlib env cfg s) i = Some st"
    "statusAt tlib owner s i = None \<Longrightarrow> statusAt tlib owner (cycle tlib env cfg s) i = None"
    by (auto simp: statusAt_def)
qed

lemma cycle_confirms:
  assumes tlib: "textLib_ok tlib" and env: "responsive env topb" and cfg: "cfg_ok cfg" and ok: "table_ok tlib (cl_rows s)"
    and st: "statusAt tlib owner s i \<in> {Some MonitoredTxStatusCreated, Some MonitoredTxStatusSent}"
  shows "statusAt tlib owner (cycle tlib env cfg s) i = Some MonitoredTxStatusConfirmed"
proof -
  let ?f = "\<lambda>up. ms_GetByStatus tlib up None activeStatuses"
  obtain ms where ms: "?f True (cl_rows s) = Ok ms" "distinct (map mtxKey ms)"
    "\<And>m. m \<in> set ms \<longleftrightarrow> mtxAt tlib (cl_rows s) (mtxKey m) = Some m \<and> mtx_status m \<in> set activeStatuses"
    using byStatus_view[OF tlib ok active_ok, of None] by auto
  obtain s1 where s1: "readDB env ?f s = (Ok ms, s1)" "cl_rows s1 = cl_rows s"
    using readDB_run[OF responsiveD(2)[OF env], of ?f s] ms(1) by blast
  have c: "cycle tlib env cfg s = monitorAll tlib env cfg ms s1" using s1(1) by (simp add: monitorTxs_def bindA_def)
  obtain m where m: "mtxAt tlib (cl_rows s) (owner, i) = Some m" "mtx_status m \<in> {MonitoredTxStatusCreated, MonitoredTxStatusSent}"
    using st by (auto simp: statusAt_def)
  have key: "mtxKey m = (owner, i)" using mtxAt_key[OF tlib ok m(1)] by blast
  have mem: "m \<in> set ms" using ms(3)[of m] m key by auto
  have "map_option mtx_status (mtxAt tlib (cl_rows (monitorAll tlib env cfg ms s1)) (mtxKey m)) = Some MonitoredTxStatusConfirmed"
    by (rule monitorAll_confirms[OF tlib env cfg _ ms(2) _ mem]) (use ok ms(3) m(2) in \<open>auto simp: s1(2)\<close>)
  then show ?thesis by (simp add: statusAt_def c key)
qed

subsection \<open>The wait ends\<close>

definition waitable :: "MonitoredTxStatus option \<Rightarrow> bool" where
  "waitable v \<longleftrightarrow>
     v \<in> {None, Some MonitoredTxStatusCreated, Some MonitoredTxStatusSent, Some MonitoredTxStatusConfirmed, Some MonitoredTxStatusDone}"

text \<open>What a cycle does to a status, and what the handling of a list of results does.\<close>

definition advance :: "MonitoredTxStatus option \<Rightarrow> MonitoredTxStatus option" where
  "advance v = (if v \<in> {Some MonitoredTxStatusCreated, Some MonitoredTxStatusSent} then Some MonitoredTxStatusConfirmed else v)"

abbreviation isConfirmed :: "MonitoredTxResult \<Rightarrow> bool" where
  "isConfirmed r \<equiv> res_Status r = MonitoredTxStatusConfirmed"

definition handled :: "MonitoredTxResult list \<Rightarrow> (string \<Rightarrow> MonitoredTxStatus option) \<Rightarrow> string \<Rightarrow> MonitoredTxStatus option" where
  "handled rs v i =
     (if \<exists>r\<in>set rs. res_ID r = i \<and> isConfirmed r then Some MonitoredTxStatusDone
      else if \<exists>r\<in>set rs. \<not> isConfirmed r then advance (v i) else v i)"

lemma cycle_view:
  assumes "textLib_ok tlib" "responsive env topb" "cfg_ok cfg" "table_ok tlib (cl_rows s)"
    and "\<And>i. waitable (statusAt tlib owner s i)"
  shows "statusAt tlib owner (cycle tlib env cfg s) = (\<lambda>i. advance (statusAt tlib owner s i))"
proof
  fix i
  note f = cycle_frame(2,3)[OF assms(1) responsiveD(1)[OF assms(2)] assms(3,4), where owner = owner and i = i]
  show "statusAt tlib owner (cycle tlib env cfg s) i = advance (statusAt tlib owner s i)"
    using assms(5)[of i] f cycle_confirms[OF assms(1-4), of owner i] by (auto simp: waitable_def advance_def)
qed

lemma waitable_advance: "waitable v \<Longrightarrow> waitable (advance v)"
  by (auto simp: waitable_def advance_def)

lemma handle_view:
  assumes tlib: "textLib_ok tlib" and env: "responsive env topb" and cfg: "cfg_ok cfg"
    and "table_ok tlib (cl_rows s)" "\<And>i. waitable (statusAt tlib owner s i)" "distinct (map res_ID rs)"
    and "\<forall>r\<in>set rs. (isConfirmed r \<and> statusAt tlib owner s (res_ID r) = Some MonitoredTxStatusConfirmed) \<or>
      (res_Status r \<in> {MonitoredTxStatusCreated, MonitoredTxStatusSent} \<and>
       advance (statusAt tlib owner s (res_ID r)) = Some MonitoredTxStatusConfirmed)"
  shows "\<exists>s'. handleResults tlib env (cycle tlib env cfg) handler owner (Suc n) rs h s =
      Some (fold handler (filter isConfirmed rs) h, s') \<and> table_ok tlib (cl_rows s') \<and>
      statusAt tlib owner s' = handled rs (statusAt tlib owner s)"
  using assms(4-7)
proof (induction rs arbitrary: s h)
  case Nil
  then show ?case by (auto simp: handled_def fun_eq_iff)
next
  case (Cons r rs)
  note ok = Cons.prems(1) and wt = Cons.prems(2)
  have d: "distinct (map res_ID rs)" "\<And>q. q \<in> set rs \<Longrightarrow> res_ID q \<noteq> res_ID r" using Cons.prems(3) by (auto simp: image_iff)
  note db = responsiveD(2,3)[OF env]
  show ?case
  proof (cases "isConfirmed r")
    case True
    then have "statusAt tlib owner s (res_ID r) = Some MonitoredTxStatusConfirmed" using Cons.prems(4) by auto
    then obtain s1 where s1: "setStatusDone tlib env owner (res_ID r) s = (Ok (), s1)" "table_ok tlib (cl_rows s1)"
      "statusAt tlib owner s1 = (statusAt tlib owner s)(res_ID r \<mapsto> MonitoredTxStatusDone)"
      using done_view[OF tlib db(1) ok, of owner "res_ID r"] by auto
    have "\<exists>s'. handleResults tlib env (cycle tlib env cfg) handler owner (Suc n) rs (handler r h) s1 =
      Some (fold handler (filter isConfirmed rs) (handler r h), s') \<and> table_ok tlib (cl_rows s') \<and>
      statusAt tlib owner s' = handled rs (statusAt tlib owner s1)"
    proof (rule Cons.IH[OF s1(2) _ d(1)])
      show "waitable (statusAt tlib owner s1 i)" for i using wt[of i] by (auto simp: s1(3) waitable_def)
      show "\<forall>q\<in>set rs. (isConfirmed q \<and> statusAt tlib owner s1 (res_ID q) = Some MonitoredTxStatusConfirmed) \<or>
        (res_Status q \<in> {MonitoredTxStatusCreated, MonitoredTxStatusSent} \<and>
         advance (statusAt tlib owner s1 (res_ID q)) = Some MonitoredTxStatusConfirmed)"
        using Cons.prems(4) d(2) by (auto simp: s1(3))
    qed
    moreover have "handled rs (statusAt tlib owner s1) = handled (r # rs) (statusAt tlib owner s)"
      using True d(2) by (auto simp: handled_def s1(3) fun_eq_iff advance_def)
    ultimately show ?thesis using True s1(1) by simp
  next
    case False
    then have st: "res_Status r \<in> {MonitoredTxStatusCreated, MonitoredTxStatusSent}"
      "advance (statusAt tlib owner s (res_ID r)) = Some MonitoredTxStatusConfirmed" using Cons.prems(4) by auto
    let ?c = "cycle tlib env cfg s"
    have v: "statusAt tlib owner ?c = (\<lambda>i. advance (statusAt tlib owner s i))" by (rule cycle_view[OF tlib env cfg ok wt])
    have okc: "table_ok tlib (cl_rows ?c)" by (rule cycle_frame(1)[OF tlib responsiveD(1)[OF env] cfg ok])
    have "statusAt tlib owner ?c (res_ID r) = Some MonitoredTxStatusConfirmed" using v st(2) by simp
    from result_view[OF tlib db okc this] obtain q s1 where
      s1: "etm_Result tlib env owner (res_ID r) ?c = (Ok q, s1)" "isConfirmed q" "cl_rows s1 = cl_rows ?c"
      by blast
    have w: "waitResult tlib env (cycle tlib env cfg) owner (res_ID r) (Suc n) s = Some s1" using s1(1,2) by simp
    have v1: "statusAt tlib owner s1 = (\<lambda>i. advance (statusAt tlib owner s i))" using statusAt_rows[OF s1(3)] v by simp
    have "\<exists>s'. handleResults tlib env (cycle tlib env cfg) handler owner (Suc n) rs h s1 =
      Some (fold handler (filter isConfirmed rs) h, s') \<and> table_ok tlib (cl_rows s') \<and>
      statusAt tlib owner s' = handled rs (statusAt tlib owner s1)"
    proof (rule Cons.IH[OF _ _ d(1)])
      show "table_ok tlib (cl_rows s1)" using okc s1(3) by simp
      show "waitable (statusAt tlib owner s1 i)" for i using waitable_advance[OF wt[of i]] by (simp add: v1)
      show "\<forall>q\<in>set rs. (isConfirmed q \<and> statusAt tlib owner s1 (res_ID q) = Some MonitoredTxStatusConfirmed) \<or>
        (res_Status q \<in> {MonitoredTxStatusCreated, MonitoredTxStatusSent} \<and>
         advance (statusAt tlib owner s1 (res_ID q)) = Some MonitoredTxStatusConfirmed)"
        using Cons.prems(4) by (auto simp: v1 advance_def)
    qed
    moreover have "handled rs (statusAt tlib owner s1) = handled (r # rs) (statusAt tlib owner s)"
      using False d(2) by (auto simp: handled_def v1 fun_eq_iff advance_def)
    moreover have "\<not> res_Status r = MonitoredTxStatusFailed" using st(1) by auto
    ultimately show ?thesis using False w by simp
  qed
qed

lemma pending_step:
  assumes tlib: "textLib_ok tlib" and env: "responsive env topb" and cfg: "cfg_ok cfg"
    and ok: "table_ok tlib (cl_rows s)" and wt: "\<And>i. waitable (statusAt tlib owner s i)"
  shows "\<exists>rs s'. table_ok tlib (cl_rows s') \<and> statusAt tlib owner s' = handled rs (statusAt tlib owner s) \<and> distinct (map res_ID rs) \<and>
     (\<forall>i st. (\<exists>r\<in>set rs. res_ID r = i \<and> res_Status r = st) \<longleftrightarrow>
        statusAt tlib owner s i = Some st \<and> st \<in> set pendingStatuses) \<and>
     ProcessPendingMonitoredTxs tlib env (cycle tlib env cfg) handler owner (Suc (Suc n)) h s =
       (if rs = [] then Some (h, s')
        else ProcessPendingMonitoredTxs tlib env (cycle tlib env cfg) handler owner (Suc n) (fold handler (filter isConfirmed rs) h) s')"
proof -
  note db = responsiveD(2,3)[OF env]
  obtain rs s1 where rs: "ResultsByStatus tlib env owner pendingStatuses s = (Ok rs, s1)" "cl_rows s1 = cl_rows s"
    "distinct (map res_ID rs)"
    "\<And>i st. (\<exists>r\<in>set rs. res_ID r = i \<and> res_Status r = st) \<longleftrightarrow> statusAt tlib owner s i = Some st \<and> st \<in> set pendingStatuses"
    using results_view[OF tlib db ok] unfolding reports_def by blast
  have v1: "statusAt tlib owner s1 = statusAt tlib owner s" by (rule statusAt_rows[OF rs(2)])
  have "(isConfirmed r \<and> statusAt tlib owner s1 (res_ID r) = Some MonitoredTxStatusConfirmed) \<or>
      (res_Status r \<in> {MonitoredTxStatusCreated, MonitoredTxStatusSent} \<and>
       advance (statusAt tlib owner s1 (res_ID r)) = Some MonitoredTxStatusConfirmed)" if "r \<in> set rs" for r
  proof -
    have "statusAt tlib owner s (res_ID r) = Some (res_Status r)" "res_Status r \<in> set pendingStatuses"
      using rs(4)[of "res_ID r" "res_Status r"] that by auto
    then show ?thesis using wt[of "res_ID r"] by (auto simp: v1 waitable_def pendingStatuses_def advance_def)
  qed
  then have "\<exists>s'. handleResults tlib env (cycle tlib env cfg) handler owner (Suc n) rs h s1 =
      Some (fold handler (filter isConfirmed rs) h, s') \<and> table_ok tlib (cl_rows s') \<and>
      statusAt tlib owner s' = handled rs (statusAt tlib owner s1)"
    by (intro handle_view[OF tlib env cfg _ _ rs(3)]) (use ok rs(2) wt v1 in auto)
  then obtain s' where s': "handleResults tlib env (cycle tlib env cfg) handler owner (Suc n) rs h s1 =
      Some (fold handler (filter isConfirmed rs) h, s')" "table_ok tlib (cl_rows s')"
      "statusAt tlib owner s' = handled rs (statusAt tlib owner s1)"
    by blast
  have "ProcessPendingMonitoredTxs tlib env (cycle tlib env cfg) handler owner (Suc (Suc n)) h s =
       (if rs = [] then Some (h, s')
        else ProcessPendingMonitoredTxs tlib env (cycle tlib env cfg) handler owner (Suc n) (fold handler (filter isConfirmed rs) h) s')"
    using s'(1) by (cases rs) (simp_all add: rs(1))
  then show ?thesis using s'(2,3) rs(3,4) v1 by (intro exI[of _ rs] exI[of _ s']) simp
qed

end
