(* ===== verification/EthTxWait.thy ===== *)
theory EthTxWait
  imports EthTxPending
begin

text \<open>
  The theorems on \<open>ProcessPendingMonitoredTxs\<close>: with a node that mines the wait ends, and a failed
  transaction of the owner blocks it.
\<close>

subsection \<open>Rounds of the wait\<close>

text \<open>
  The rest of the argument is about statuses only: a round of the wait reports the transactions
  that are pending and turns the view \<open>v\<close> of the statuses into \<open>handled rs v\<close>.
\<close>

definition roundView :: "MonitoredTxStatus option \<Rightarrow> MonitoredTxStatus option" where
  "roundView v = (if v = Some MonitoredTxStatusConfirmed then Some MonitoredTxStatusDone else advance v)"

lemma reports_status:
  assumes "reports v rs" "r \<in> set rs"
  shows "v (res_ID r) = Some (res_Status r)" "res_Status r \<in> set pendingStatuses"
  using assms unfolding reports_def by blast+

lemma reports_member:
  assumes "reports v rs" "v i = Some st" "st \<in> set pendingStatuses"
  shows "\<exists>r\<in>set rs. res_ID r = i \<and> res_Status r = st"
  using assms unfolding reports_def by blast

lemma reports_confirmed:
  assumes "reports v rs"
  shows "i \<in> res_ID ` set (filter isConfirmed rs) \<longleftrightarrow> v i = Some MonitoredTxStatusConfirmed"
  using reports_status[OF assms] reports_member[OF assms, of i MonitoredTxStatusConfirmed]
  by (force simp: pendingStatuses_def image_iff)

lemma handled_reports:
  assumes "reports v rs"
  shows "handled rs v i = roundView (v i)"
proof (cases "v i \<in> {Some MonitoredTxStatusCreated, Some MonitoredTxStatusSent}")
  case True
  then obtain st where st: "v i = Some st" "st \<in> {MonitoredTxStatusCreated, MonitoredTxStatusSent}" by auto
  then obtain r where "r \<in> set rs" "res_Status r = st"
    using reports_member[OF assms, of i st] by (auto simp: pendingStatuses_def)
  then have "\<exists>r\<in>set rs. \<not> isConfirmed r" using st(2) by (intro bexI[of _ r]) auto
  then show ?thesis using reports_confirmed[OF assms, of i] st by (auto simp: handled_def roundView_def image_iff)
next
  case False
  then show ?thesis
    using reports_confirmed[OF assms, of i] by (auto simp: handled_def roundView_def advance_def image_iff)
qed

lemma reports_Nil:
  assumes "reports v rs" "\<And>i. v i \<in> {None, Some MonitoredTxStatusDone}"
  shows "rs = []"
proof (rule ccontr)
  assume "rs \<noteq> []"
  then obtain r where r: "r \<in> set rs" by (cases rs) auto
  show False using reports_status[OF assms(1) r] assms(2)[of "res_ID r"] by (auto simp: pendingStatuses_def)
qed

lemma reports_all_confirmed:
  assumes "reports v rs" "\<And>i. v i \<in> {None, Some MonitoredTxStatusConfirmed, Some MonitoredTxStatusDone}" "r \<in> set rs"
  shows "isConfirmed r"
  using reports_status[OF assms(1,3)] assms(2)[of "res_ID r"] by (auto simp: pendingStatuses_def)

lemma roundView_waitable [simp]: "waitable v \<Longrightarrow> waitable (roundView v)"
  by (auto simp: waitable_def roundView_def advance_def)

lemma roundView_once:
  "waitable v \<Longrightarrow> roundView v \<in> {None, Some MonitoredTxStatusConfirmed, Some MonitoredTxStatusDone}"
  by (auto simp: waitable_def roundView_def advance_def)

lemma roundView_twice: "waitable v \<Longrightarrow> roundView (roundView v) = map_option (\<lambda>_. MonitoredTxStatusDone) v"
  by (auto simp: waitable_def roundView_def advance_def)

lemma pending_round:
  assumes "textLib_ok tlib" "responsive env topb" "cfg_ok cfg" "table_ok tlib (cl_rows s)"
    and "\<And>i. waitable (statusAt tlib owner s i)"
  shows "\<exists>rs s'. reports (statusAt tlib owner s) rs \<and> table_ok tlib (cl_rows s') \<and>
     statusAt tlib owner s' = (\<lambda>i. roundView (statusAt tlib owner s i)) \<and>
     ProcessPendingMonitoredTxs tlib env (cycle tlib env cfg) handler owner (Suc (Suc n)) h s =
       (if rs = [] then Some (h, s')
        else ProcessPendingMonitoredTxs tlib env (cycle tlib env cfg) handler owner (Suc n) (fold handler (filter isConfirmed rs) h) s')"
proof -
  obtain rs s' where "table_ok tlib (cl_rows s')" "statusAt tlib owner s' = handled rs (statusAt tlib owner s)"
    "reports (statusAt tlib owner s) rs"
    "ProcessPendingMonitoredTxs tlib env (cycle tlib env cfg) handler owner (Suc (Suc n)) h s =
       (if rs = [] then Some (h, s')
        else ProcessPendingMonitoredTxs tlib env (cycle tlib env cfg) handler owner (Suc n) (fold handler (filter isConfirmed rs) h) s')"
    using pending_step[OF assms, where n = n and handler = handler and h = h] unfolding reports_def by blast
  then show ?thesis
    using handled_reports[of "statusAt tlib owner s" rs]
    by (intro exI[of _ rs] exI[of _ s'] conjI) (simp_all only: fun_eq_iff simp_thms)
qed

lemma reports_two_rounds:
  assumes r1: "reports v rs1" and r2: "reports (\<lambda>i. roundView (v i)) rs2" and wt: "\<And>i. waitable (v i)"
  shows "filter isConfirmed rs2 = rs2" and "distinct (map res_ID (filter isConfirmed rs1 @ rs2))"
    and "res_ID ` set (filter isConfirmed rs1 @ rs2) = {i. v i \<notin> {None, Some MonitoredTxStatusDone}}"
proof -
  have conf: "isConfirmed r" if "r \<in> set rs2" for r
    by (rule reports_all_confirmed[OF r2 roundView_once[OF wt] that])
  then show f2: "filter isConfirmed rs2 = rs2" by (simp add: filter_id_conv)
  have m1: "i \<in> res_ID ` set (filter isConfirmed rs1) \<longleftrightarrow> v i = Some MonitoredTxStatusConfirmed" for i
    by (rule reports_confirmed[OF r1])
  have m2: "i \<in> res_ID ` set rs2 \<longleftrightarrow> v i \<in> {Some MonitoredTxStatusCreated, Some MonitoredTxStatusSent}" for i
    using reports_confirmed[OF r2, of i] wt[of i] unfolding f2 by (auto simp: waitable_def roundView_def advance_def)
  have "distinct (map res_ID (filter isConfirmed rs1))" using r1 by (simp add: reports_def distinct_map_filter)
  moreover have "res_ID ` set (filter isConfirmed rs1) \<inter> res_ID ` set rs2 = {}"
    using m1 m2 by (simp add: set_eq_iff del: set_filter)
  ultimately show "distinct (map res_ID (filter isConfirmed rs1 @ rs2))" using r2 by (simp add: reports_def)
  have "i \<in> res_ID ` set (filter isConfirmed rs1 @ rs2) \<longleftrightarrow> v i \<notin> {None, Some MonitoredTxStatusDone}" for i
    using m1[of i] m2[of i] wt[of i] unfolding set_append image_Un by (auto simp: waitable_def)
  then show "res_ID ` set (filter isConfirmed rs1 @ rs2) = {i. v i \<notin> {None, Some MonitoredTxStatusDone}}" by blast
qed


subsection \<open>Failed transactions\<close>

text \<open>The rows stay well formed, and the transaction stays failed.\<close>

definition staysFailed :: "textLib \<Rightarrow> string \<Rightarrow> string \<Rightarrow> 'w client \<Rightarrow> bool" where
  "staysFailed tlib owner i s \<longleftrightarrow> table_ok tlib (cl_rows s) \<and> statusAt tlib owner s i = Some MonitoredTxStatusFailed"

lemma staysFailed_rows: "cl_rows s' = cl_rows s \<Longrightarrow> staysFailed tlib owner i s' = staysFailed tlib owner i s"
  by (simp add: staysFailed_def statusAt_def)

lemma failed_reported:
  assumes "reports v rs" "v i = Some MonitoredTxStatusFailed"
  shows "rs \<noteq> []" "\<forall>r\<in>set rs. res_ID r = i \<longrightarrow> res_Status r = MonitoredTxStatusFailed"
proof -
  show "rs \<noteq> []" using reports_member[OF assms] by (auto simp: pendingStatuses_def)
  show "\<forall>r\<in>set rs. res_ID r = i \<longrightarrow> res_Status r = MonitoredTxStatusFailed"
    using reports_status(1)[OF assms(1)] assms(2) by (metis option.inject)
qed

lemma storageUpdate_cases:
  "cl_rows (snd (storageUpdate tlib env m s)) = cl_rows s \<or>
   (\<exists>now. ms_Update tlib True now m (cl_rows s) = Ok (cl_rows (snd (storageUpdate tlib env m s))))"
  by (auto simp: storageUpdate_def writeDB_def bindA_def callW_def askA_def ms_Update_def split: prod.splits outcome.splits)

lemma setStatusDone_frame:
  assumes tlib: "textLib_ok tlib" and ok: "table_ok tlib (cl_rows s)"
  shows "table_ok tlib (cl_rows (snd (setStatusDone tlib env owner j s))) \<and>
    (\<forall>k. k \<noteq> (owner, j) \<longrightarrow> mtxAt tlib (cl_rows (snd (setStatusDone tlib env owner j s))) k = mtxAt tlib (cl_rows s) k)"
proof -
  let ?f = "\<lambda>up. ms_Get tlib up owner j"
  obtain r s1 where r: "readDB env ?f s = (r, s1)" by fastforce
  have rows: "cl_rows s1 = cl_rows s" "\<And>m. r = Ok m \<Longrightarrow> \<exists>up. ?f up (cl_rows s) = Ok m"
    using readDB_cases[of env ?f s] by (auto simp: r)
  show ?thesis
  proof (cases r)
    case (Ok m)
    let ?m = "m\<lparr>mtx_status := MonitoredTxStatusDone\<rparr>"
    have at: "mtxAt tlib (cl_rows s) (owner, j) = Some m"
      using rows(2)[OF Ok] by (auto simp: mtxAt_def ms_Get_def split: option.splits outcome.splits if_splits)
    have k: "mtxKey ?m = (owner, j)" "mtx_storable ?m"
      using mtxAt_key[OF tlib ok at] by (auto simp: mtxKey_def mtx_storable_def statusOf_def statusString_def)
    have mem: "mtxKey ?m \<in> rowKey ` set (cl_rows s1)" using at mtxAt_None[OF tlib ok, of "(owner, j)"] k(1) rows(1) by auto
    have run: "snd (setStatusDone tlib env owner j s) = snd (storageUpdate tlib env ?m s1)"
      by (simp add: setStatusDone_def bindA_def r Ok)
    show ?thesis
    proof (rule disjE[OF storageUpdate_cases[of tlib env ?m s1]])
      assume "cl_rows (snd (storageUpdate tlib env ?m s1)) = cl_rows s1"
      then show ?thesis using ok rows(1) run by simp
    next
      assume "\<exists>now. ms_Update tlib True now ?m (cl_rows s1) = Ok (cl_rows (snd (storageUpdate tlib env ?m s1)))"
      then obtain now where up: "ms_Update tlib True now ?m (cl_rows s1) = Ok (cl_rows (snd (storageUpdate tlib env ?m s1)))" ..
      have "table_ok tlib (cl_rows s1)" using ok rows(1) by simp
      note u = ms_Update_ok(1,3)[OF tlib this k(2) mem up]
      show ?thesis using u(1) u(2) k(1) rows(1) run by simp
    qed
  qed (use ok rows(1) r in \<open>simp_all add: setStatusDone_def bindA_def\<close>)
qed

lemma setStatusDone_failed:
  assumes "textLib_ok tlib" "j \<noteq> i" "staysFailed tlib owner i s"
  shows "staysFailed tlib owner i (snd (setStatusDone tlib env owner j s))"
  using setStatusDone_frame[OF assms(1), of s env owner j] assms(2,3) by (simp add: staysFailed_def statusAt_def)

lemma cycle_failed:
  assumes "textLib_ok tlib" "env_ok env" "cfg_ok cfg" "staysFailed tlib owner i s"
  shows "staysFailed tlib owner i (cycle tlib env cfg s)"
  using assms(4) cycle_frame(1)[OF assms(1-3), of s] cycle_frame(2)[OF assms(1-3), of s MonitoredTxStatusFailed owner i]
  by (simp add: staysFailed_def)

lemma etm_Result_rows: "etm_Result tlib env owner i s = (r, s') \<Longrightarrow> cl_rows s' = cl_rows s"
  using keepsRows_bind[OF keepsRows_readDB keepsRows_buildResult] unfolding etm_Result_def by (rule keepsRowsD)

lemma ResultsByStatus_rows: "ResultsByStatus tlib env owner sts s = (r, s') \<Longrightarrow> cl_rows s' = cl_rows s"
  using keepsRows_bind[OF keepsRows_readDB keepsRows_buildResults] unfolding ResultsByStatus_def by (rule keepsRowsD)

lemma waitResult_failed:
  assumes "textLib_ok tlib" "env_ok env" "cfg_ok cfg"
  shows "staysFailed tlib owner i s \<Longrightarrow> waitResult tlib env (cycle tlib env cfg) owner j n s = Some s' \<Longrightarrow> staysFailed tlib owner i s'"
proof (induction n arbitrary: s)
  case (Suc n)
  obtain r s1 where r: "etm_Result tlib env owner j (cycle tlib env cfg s) = (r, s1)" by fastforce
  then have "staysFailed tlib owner i s1"
    using cycle_failed[OF assms Suc.prems(1)] staysFailed_rows[OF etm_Result_rows[OF r]] by simp
  then show ?case using Suc.IH[of s1] Suc.prems(2) r by (cases r) (auto split: if_splits)
qed simp

lemma handleResults_failed:
  assumes ok: "textLib_ok tlib" "env_ok env" "cfg_ok cfg"
  shows "staysFailed tlib owner i s \<Longrightarrow> \<forall>r\<in>set rs. res_ID r = i \<longrightarrow> res_Status r = MonitoredTxStatusFailed \<Longrightarrow>
    handleResults tlib env (cycle tlib env cfg) handler owner n rs h s = Some (h', s') \<Longrightarrow> staysFailed tlib owner i s'"
proof (induction rs arbitrary: s h)
  case (Cons r rs)
  have rest: "\<forall>r\<in>set rs. res_ID r = i \<longrightarrow> res_Status r = MonitoredTxStatusFailed" using Cons.prems(2) by simp
  consider "isConfirmed r" | "res_Status r = MonitoredTxStatusFailed" | "\<not> isConfirmed r" "res_Status r \<noteq> MonitoredTxStatusFailed" by blast
  then show ?case
  proof cases
    case 1
    obtain d s1 where d: "setStatusDone tlib env owner (res_ID r) s = (d, s1)" by fastforce
    have "staysFailed tlib owner i s1"
      using setStatusDone_failed[OF ok(1) _ Cons.prems(1), of "res_ID r" env] Cons.prems(2) 1 d by auto
    from Cons.IH[OF this rest] show ?thesis using Cons.prems(3) 1 d by (cases d) auto
  next
    case 2
    then show ?thesis using Cons.IH[OF Cons.prems(1) rest] Cons.prems(3) by simp
  next
    case 3
    then obtain s1 where s1: "waitResult tlib env (cycle tlib env cfg) owner (res_ID r) n s = Some s1"
      using Cons.prems(3) by (auto split: option.splits)
    from Cons.IH[OF waitResult_failed[OF ok Cons.prems(1) s1] rest] show ?thesis using Cons.prems(3) 3 s1 by simp
  qed
qed simp


subsection \<open>Sample runs\<close>

text \<open>A node that mines every transaction in block 50.\<close>

definition miningEnv :: "unit ethEnv" where
  "miningEnv =
     \<lparr>en_hash = \<lambda>tx. 3, en_GetTx = \<lambda>h w. (Inl EthNotFound, w),
      en_GetTxReceipt = \<lambda>h w. (Inr \<lparr>rc_Status = 1, rc_BlockNumber = Some 50, rc_TxHash = h\<rparr>, w),
      en_WaitTxToBeMined = \<lambda>tx d w. (Inr True, w), en_SendTx = \<lambda>tx w. (Inr (), w), en_CurrentNonce = \<lambda>a w. (Inr 6, w),
      en_SuggestedGasPrice = \<lambda>w. (Inr 40, w), en_EstimateGas = \<lambda>a t v d w. (Inr 21000, w),
      en_CheckTxWasMined = \<lambda>h w. (Inr (False, None), w),
      en_SignTx = \<lambda>a tx w. (Inr tx, w), en_GetRevertMessage = \<lambda>tx w. (Inr '''', w),
      en_GetLastBlock = \<lambda>w. (Inr 60, w), en_dbUp = \<lambda>w. (True, w), en_now = \<lambda>w. (1000, w)\<rparr>"

lemma miningEnv_responsive: "responsive miningEnv 60"
  by (simp add: responsive_def env_ok_def dbAnswers_def resultsAnswered_def answers_def neverFails_def goodReceipt_def
      miningEnv_def receipt_ok_def fits64_def ReceiptStatusSuccessful_def)

lemma sample_status:
  assumes "mtx_storable m" "mtx_createdAt m = 0" "mtx_updatedAt m = 0"
  shows "statusAt sampleLib (mtx_owner m) (sampleClient m) i = (if i = mtx_id m then Some (mtx_status m) else None)"
proof (cases "i = mtx_id m")
  case True
  then show ?thesis using sampleClient_ok(2)[OF assms] by (simp add: statusAt_def mtxKey_def)
next
  case False
  then show ?thesis by (simp add: statusAt_def sampleClient_def mtxAt_def mtxKey_def)
qed



subsection \<open>Adding a transaction\<close>

lemma callE_rows:
  assumes "\<And>w a w'. q w = (Inr a, w') \<Longrightarrow> R a"
  shows "ensures (\<lambda>s. cl_rows s = rows) (callE q) (\<lambda>a s. cl_rows s = rows \<and> R a) (\<lambda>s. cl_rows s = rows)"
  using assms
  by (auto simp: ensures_def callE_def act_defs callW_def split: prod.splits sum.splits outcome.splits)

lemma callE_keeps: "ensures (\<lambda>s. cl_rows s = rows) (callE q) (\<lambda>_ s. cl_rows s = rows) (\<lambda>s. cl_rows s = rows)"
  by (rule ensures_conseq[OF callE_rows[where R = "\<lambda>_. True"]]) simp_all

lemma tryE_rows: "ensures (\<lambda>s. cl_rows s = rows) (tryA (callE q)) (\<lambda>_ s. cl_rows s = rows) (\<lambda>s. cl_rows s = rows)"
  by (auto simp: ensures_def callE_def act_defs callW_def split: prod.splits sum.splits outcome.splits)

lemma callW_keeps: "ensures (\<lambda>s. cl_rows s = rows \<and> R) (callW q) (\<lambda>_ s. cl_rows s = rows \<and> R) X"
  by (auto simp: ensures_def act_defs callW_def split: prod.splits)

lemma writeDB_rows:
  "ensures (\<lambda>s. cl_rows s = rows \<and> R) (writeDB env f) (\<lambda>_ s. R \<and> (\<exists>up now. f up now rows = Ok (cl_rows s))) (\<lambda>s. cl_rows s = rows)"
  by (auto simp: ensures_def writeDB_def act_defs callW_def split: prod.splits outcome.splits)

lemma suggestedGasPrice_rows:
  assumes "env_ok env" "cfg_ok cfg"
  shows "ensures (\<lambda>s. cl_rows s = rows) (suggestedGasPrice env cfg) (\<lambda>p s. cl_rows s = rows \<and> fits64 p) (\<lambda>s. cl_rows s = rows)"
  unfolding suggestedGasPrice_def Let_def
proof (rule ensures_bind[OF callE_rows[where R = "\<lambda>p. 0 \<le> p"]])
  show "0 \<le> a" if "en_SuggestedGasPrice env w = (Inr a, w')" for w a w'
    using that assms(1) unfolding env_ok_def by blast
qed (rule ensures_ret, intro conjI price_fits[OF assms(2)], simp_all)

text \<open>What \<open>Add\<close> leaves in the table.\<close>

definition addedTx ::
  "textLib \<Rightarrow> string \<times> string \<Rightarrow> address \<Rightarrow> address option \<Rightarrow> int option \<Rightarrow> bytes option \<Rightarrow> u64 \<Rightarrow> mtxRow list \<Rightarrow> mtxRow list \<Rightarrow> bool" where
  "addedTx tlib key sender to value data gasOffset rows rows' \<longleftrightarrow>
     table_ok tlib rows' \<and> mtxAt tlib rows key = None \<and>
     (\<forall>k. k \<noteq> key \<longrightarrow> mtxAt tlib rows' k = mtxAt tlib rows k) \<and>
     (\<exists>m. mtxAt tlib rows' key = Some m \<and> mtx_from m = sender \<and> mtx_to m = to \<and> mtx_value m = value \<and>
        mtx_data m = data \<and> mtx_gasOffset m = gasOffset \<and> mtx_status m = MonitoredTxStatusCreated \<and>
        mtx_blockNumber m = None \<and> mtx_history m = Some {||})"

lemma Add_rows:
  assumes tlib: "textLib_ok tlib" and env: "env_ok env" and cfg: "cfg_ok cfg" and ok: "table_ok tlib rows"
    and small: "\<forall>v. value = Some v \<longrightarrow> fits64 v"
  shows "ensures (\<lambda>s. cl_rows s = rows) (etm_Add tlib env cfg owner i sender to value data gasOffset)
    (\<lambda>_ s. addedTx tlib (owner, i) sender to value data gasOffset rows (cl_rows s)) (\<lambda>s. cl_rows s = rows)"
proof -
  let ?same = "\<lambda>s'. cl_rows s' = rows"
  let ?added = "\<lambda>s'. addedTx tlib (owner, i) sender to value data gasOffset rows (cl_rows s')"
  have new: "ensures (\<lambda>s. ?same s \<and> fits64 gasPrice) (writeDB env (\<lambda>up now2. ms_Add tlib up now1 now2
       \<lparr>mtx_owner = owner, mtx_id = i, mtx_from = sender, mtx_to = to, mtx_nonce = nonce, mtx_value = value, mtx_data = data,
        mtx_gas = gas, mtx_gasOffset = gasOffset, mtx_gasPrice = gasPrice, mtx_status = MonitoredTxStatusCreated,
        mtx_blockNumber = None, mtx_history = None, mtx_createdAt = 0, mtx_updatedAt = 0\<rparr>)) (\<lambda>_. ?added) ?same" for gasPrice now1 nonce gas
  proof (rule ensures_conseq[OF writeDB_rows[where rows = rows and R = "fits64 gasPrice"]])
    let ?m = "\<lparr>mtx_owner = owner, mtx_id = i, mtx_from = sender, mtx_to = to, mtx_nonce = nonce, mtx_value = value, mtx_data = data,
        mtx_gas = gas, mtx_gasOffset = gasOffset, mtx_gasPrice = gasPrice, mtx_status = MonitoredTxStatusCreated,
        mtx_blockNumber = None, mtx_history = None, mtx_createdAt = 0, mtx_updatedAt = 0\<rparr>"
    fix s'
    assume a: "fits64 gasPrice \<and> (\<exists>up now2. ms_Add tlib up now1 now2 ?m rows = Ok (cl_rows s'))"
    then obtain up now2 where add: "ms_Add tlib up now1 now2 ?m rows = Ok (cl_rows s')" by blast
    then have up: "ms_Add tlib True now1 now2 ?m rows = Ok (cl_rows s')" and key: "(owner, i) \<notin> rowKey ` set rows"
      by (auto simp: ms_Add_def mtxKey_def split: if_splits)
    have st: "mtx_storable (?m\<lparr>mtx_history := Some {||}\<rparr>)"
      using a small by (simp add: mtx_storable_def statusOf_def statusString_def)
    have k: "mtxKey ?m = (owner, i)" by (simp add: mtxKey_def)
    note r = ms_Add_ok[OF tlib ok st _ up, unfolded k]
    show "?added s'" using r(1) r(2) r(3) key by (simp add: addedTx_def mtxAt_None[OF tlib ok])
  qed simp_all
  have gas: "ensures ?same (case g of Inr gas \<Rightarrow> retA gas | Inl e \<Rightarrow> if ForcedGas cfg > 0 then retA (ForcedGas cfg) else failA e) (\<lambda>_. ?same) ?same" for g
    by (auto intro!: ensures_ret ensures_fail split: sum.split)
  show ?thesis
    unfolding etm_Add_def
    by (rule ensures_bind[OF callE_keeps] ensures_bind[OF tryE_rows] ensures_bind[OF gas]
        ensures_bind[OF suggestedGasPrice_rows[OF env cfg]] ensures_bind[OF callW_keeps] new)+
qed


lemma sample_add:
  "\<exists>s'. etm_Add sampleLib miningEnv sampleCfg ''sequencer'' ''a'' 7 (Some 9) None (Some [1, 2]) 10 \<lparr>cl_rows = [], cl_world = ()\<rparr> = (Ok (), s')"
  by (simp add: etm_Add_def suggestedGasPrice_def Let_def act_defs callE_def callW_def writeDB_def ms_Add_def miningEnv_def
      blockNumberU64Ptr_def bigint_ok_def)


end
