(* ===== verification/SequenceSender.thy ===== *)
theory SequenceSender
  imports BatchChain EthTxWait BlockRanges
begin

text \<open>
  The sequence sender (\<open>sequencesender/sequencesender.go\<close>): it waits until the transactions it gave to
  the transaction manager are done, collects the closed batches after the last virtual one, and gives the
  manager a transaction that sequences them.  The state and \<open>etherman\<close> are interfaces
  (\<open>sequencesender/interfaces.go\<close>) whose calls read and change a world of any type, because other
  parts of the node work on the database between two calls.
\<close>

subsection \<open>Interfaces and configuration\<close>

record Sequence =
  sq_GlobalExitRoot :: hash
  sq_StateRoot :: hash
  sq_LocalExitRoot :: hash
  sq_AccInputHash :: hash
  sq_Timestamp :: int
  sq_BatchL2Data :: bytes
  sq_IsSequenceTooBig :: bool
  sq_BatchNumber :: u64
  sq_ForcedBatchTimestamp :: int
  sq_PrevBlockHash :: hash

text \<open>The errors of \<open>etherman\<close> that the sender tells apart.\<close>

datatype EthermanError = ErrInsufficientAllowance | ErrGasRequiredExceedsAllowance | ErrContentLengthTooLarge | EthermanOther string

datatype SenderError = seqState StateError | seqEtherman EthermanError | ErrOversizedData | errForkUpgrade u64

record seqCfg =
  LastBatchVirtualizationTimeMaxWaitPeriod :: duration
  MaxTxSizeForL1 :: u64
  SenderAddress :: address
  L2Coinbase :: address
  ForkUpgradeBatchNumber :: u64
  GasOffset :: u64

text \<open>Of the estimated transaction only the size is used.\<close>

record 'w seqEnv =
  se_GetLastVirtualBatchNum :: "'w \<Rightarrow> (StateError + u64) \<times> 'w"
  se_IsBatchClosed :: "u64 \<Rightarrow> 'w \<Rightarrow> (StateError + bool) \<times> 'w"
  se_GetBatchByNumber :: "u64 \<Rightarrow> 'w \<Rightarrow> (StateError + Batch) \<times> 'w"
  se_GetForcedBatch :: "u64 \<Rightarrow> 'w \<Rightarrow> (StateError + ForcedBatch) \<times> 'w"
  se_GetTimeForLatestBatchVirtualization :: "'w \<Rightarrow> (StateError + time) \<times> 'w"
  se_GetLastBatchNumber :: "'w \<Rightarrow> (StateError + u64) \<times> 'w"
  se_EstimateGasSequenceBatches :: "address \<Rightarrow> Sequence list \<Rightarrow> address \<Rightarrow> 'w \<Rightarrow> (EthermanError + u64) \<times> 'w"
  se_BuildSequenceBatchesTxData ::
    "address \<Rightarrow> Sequence list \<Rightarrow> address \<Rightarrow> 'w \<Rightarrow> (EthermanError + address option \<times> bytes option) \<times> 'w"
  se_GetLatestBatchNumber :: "'w \<Rightarrow> (EthermanError + u64) \<times> 'w"
  se_now :: "'w \<Rightarrow> time \<times> 'w"

definition callS :: "('w \<Rightarrow> (StateError + 'a) \<times> 'w) \<Rightarrow> ('w client, SenderError, 'a) act" where
  "callS q = bindA (callW q) (\<lambda>r. case r of Inl e \<Rightarrow> failA (seqState e) | Inr a \<Rightarrow> retA a)"

subsection \<open>Collecting the sequences\<close>

definition isDataForEthTxTooBig :: "SenderError \<Rightarrow> bool" where
  "isDataForEthTxTooBig err \<longleftrightarrow>
     err = seqEtherman ErrGasRequiredExceedsAllowance \<or> err = ErrOversizedData \<or> err = seqEtherman ErrContentLengthTooLarge"

text \<open>A nil slice is \<open>None\<close>; cutting the last element of an empty slice panics.\<close>

definition handleEstimateGasSendSequenceErr ::
  "Sequence list \<Rightarrow> u64 \<Rightarrow> SenderError \<Rightarrow> (SenderError, Sequence list option \<times> SenderError option) outcome" where
  "handleEstimateGasSendSequenceErr sequences currentBatchNumToSequence err =
     (if err = seqEtherman ErrInsufficientAllowance then Ok (None, Some err)
      else if isDataForEthTxTooBig err then
        (if sequences = [] then Panic else Ok (Some (butlast sequences), None))
      else
        (if sequences = [] then Panic else Ok (Some (butlast sequences), None)))"

definition sequenceOf :: "Batch \<Rightarrow> int \<Rightarrow> Sequence" where
  "sequenceOf batch forcedAt =
     \<lparr>sq_GlobalExitRoot = bt_GlobalExitRoot batch, sq_StateRoot = 0, sq_LocalExitRoot = 0, sq_AccInputHash = 0,
      sq_Timestamp = unix (bt_Timestamp batch), sq_BatchL2Data = bt_BatchL2Data batch, sq_IsSequenceTooBig = False,
      sq_BatchNumber = bt_BatchNumber batch, sq_ForcedBatchTimestamp = forcedAt, sq_PrevBlockHash = 0\<rparr>"

definition newSequence :: "'w seqEnv \<Rightarrow> u64 \<Rightarrow> ('w client, SenderError, Sequence) act" where
  "newSequence env n =
     bindA (callS (se_GetBatchByNumber env n)) (\<lambda>batch.
     case bt_ForcedBatchNum batch of
       None \<Rightarrow> retA (sequenceOf batch 0)
     | Some f \<Rightarrow> bindA (callS (se_GetForcedBatch env f)) (\<lambda>forcedBatch. retA (sequenceOf batch (unix (fb_ForcedAt forcedBatch)))))"

text \<open>The error of an estimation, with the limit on the size of the transaction.\<close>

definition estimateError :: "seqCfg \<Rightarrow> EthermanError + u64 \<Rightarrow> SenderError option" where
  "estimateError cfg est =
     (case est of
        Inl e \<Rightarrow> Some (seqEtherman e)
      | Inr txSize \<Rightarrow> if txSize > MaxTxSizeForL1 cfg then Some ErrOversizedData else None)"

definition estimateSequences :: "'w seqEnv \<Rightarrow> seqCfg \<Rightarrow> Sequence list \<Rightarrow> ('w client, SenderError, EthermanError + u64) act" where
  "estimateSequences env cfg sequences =
     callW (se_EstimateGasSequenceBatches env (SenderAddress cfg) sequences (L2Coinbase cfg))"

text \<open>
  The loop ends with a return from the function or at the batch in progress; \<open>Unfinished\<close> is a run that
  needs more rounds than the bound.  The sequences that are returned beside an error are left out:
  the caller looks at the error first.
\<close>

datatype collected = Returned "Sequence list option" | Reached "Sequence list" | Unfinished

definition afterEstimateErr ::
  "'w seqEnv \<Rightarrow> seqCfg \<Rightarrow> Sequence list \<Rightarrow> u64 \<Rightarrow> SenderError \<Rightarrow> ('w client, SenderError, collected) act" where
  "afterEstimateErr env cfg sequences n err =
     (case handleEstimateGasSendSequenceErr sequences n err of
        Ok (Some kept, _) \<Rightarrow>
          bindA (estimateSequences env cfg kept) (\<lambda>est.
          case est of Inl e \<Rightarrow> failA (seqEtherman e) | Inr _ \<Rightarrow> retA (Returned (Some kept)))
      | Ok (None, Some e) \<Rightarrow> failA e
      | Ok (None, None) \<Rightarrow> retA (Returned None)
      | Err e \<Rightarrow> failA e
      | Panic \<Rightarrow> panicA)"

fun collectSequences :: "'w seqEnv \<Rightarrow> seqCfg \<Rightarrow> nat \<Rightarrow> u64 \<Rightarrow> Sequence list \<Rightarrow> ('w client, SenderError, collected) act" where
  "collectSequences env cfg 0 current sequences = retA Unfinished"
| "collectSequences env cfg (Suc n) current sequences =
     (if ForkUpgradeBatchNumber cfg \<noteq> 0 \<and> current = ForkUpgradeBatchNumber cfg + 1
      then failA (errForkUpgrade (ForkUpgradeBatchNumber cfg + 1))
      else
        bindA (callS (se_IsBatchClosed env current)) (\<lambda>isClosed.
        if \<not> isClosed then retA (Reached sequences)
        else
          bindA (newSequence env current) (\<lambda>seq.
          bindA (estimateSequences env cfg (sequences @ [seq])) (\<lambda>est.
          case estimateError cfg est of
            Some err \<Rightarrow> afterEstimateErr env cfg (sequences @ [seq]) current err
          | None \<Rightarrow>
              if ForkUpgradeBatchNumber cfg \<noteq> 0 \<and> current = ForkUpgradeBatchNumber cfg
              then retA (Returned (Some (sequences @ [seq])))
              else collectSequences env cfg n (current + 1) (sequences @ [seq])))))"

text \<open>The zero value of \<open>time.Time\<close>, the start of the year 1.\<close>

definition goZeroTime :: time where
  "goZeroTime = -62135596800 * 1000000000"

definition worthSending :: "'w seqEnv \<Rightarrow> seqCfg \<Rightarrow> Sequence list \<Rightarrow> ('w client, SenderError, Sequence list option) act" where
  "worthSending env cfg sequences =
     (if sequences = [] then retA None
      else
        bindA (callW (se_GetTimeForLatestBatchVirtualization env)) (\<lambda>r.
        if (case r of Inl e \<Rightarrow> e \<noteq> ErrObjectNotFound | Inr _ \<Rightarrow> False) then retA (Some sequences)
        else
          bindA (callW (se_now env)) (\<lambda>now.
          if (case r of Inl _ \<Rightarrow> goZeroTime | Inr t \<Rightarrow> t) < now - LastBatchVirtualizationTimeMaxWaitPeriod cfg
          then retA (Some sequences) else retA None)))"

text \<open>\<open>None\<close> inside the value is the nil slice, \<open>None\<close> outside a run that needs more rounds.\<close>

definition getSequencesToSend ::
  "'w seqEnv \<Rightarrow> seqCfg \<Rightarrow> nat \<Rightarrow> ('w client, SenderError, Sequence list option option) act" where
  "getSequencesToSend env cfg n =
     bindA (callS (se_GetLastVirtualBatchNum env)) (\<lambda>lastVirtualBatchNum.
     bindA (collectSequences env cfg n (lastVirtualBatchNum + 1) []) (\<lambda>c.
     case c of
       Unfinished \<Rightarrow> retA None
     | Returned sequences \<Rightarrow> retA (Some sequences)
     | Reached sequences \<Rightarrow> bindA (worthSending env cfg sequences) (\<lambda>r. retA (Some r))))"

subsection \<open>A cycle of the sender\<close>

definition isSynced :: "'w seqEnv \<Rightarrow> ('w client, SenderError, bool) act" where
  "isSynced env =
     bindA (callW (se_GetLastVirtualBatchNum env)) (\<lambda>virtual.
     if (case virtual of Inl e \<Rightarrow> e \<noteq> ErrObjectNotFound | Inr _ \<Rightarrow> False) then retA False
     else
       bindA (callW (se_GetLastBatchNumber env)) (\<lambda>lastBatch.
       if (case lastBatch of Inl e \<Rightarrow> e \<noteq> ErrObjectNotFound | Inr _ \<Rightarrow> False) then retA False
       else
         let lastSyncedBatchNum = (case virtual of Inl _ \<Rightarrow> 0 | Inr v \<Rightarrow> v);
             lastBatchNum = (case lastBatch of Inl _ \<Rightarrow> 0 | Inr b \<Rightarrow> b)
         in if lastBatchNum > lastSyncedBatchNum then retA True
            else
              bindA (callW (se_GetLatestBatchNumber env)) (\<lambda>eth.
              case eth of Inl _ \<Rightarrow> retA False | Inr lastEthBatchNum \<Rightarrow> retA (\<not> lastSyncedBatchNum < lastEthBatchNum))))"

definition ethTxManagerOwner :: string where "ethTxManagerOwner = ''sequencer''"

definition sequenceTxID :: "u64 \<Rightarrow> u64 \<Rightarrow> string" where
  "sequenceTxID a b = ''sequence-from-'' @ decimalText (unat a) @ ''-to-'' @ decimalText (unat b)"

text \<open>The variable \<open>retry\<close> of the caller, which the result handler sets.\<close>

definition onResult :: "MonitoredTxResult \<Rightarrow> bool \<Rightarrow> bool" where
  "onResult result retry = (if res_Status result = MonitoredTxStatusFailed then True else retry)"

text \<open>How a cycle ends: at once, waiting for the next tick, or with a panic.\<close>

datatype cycleEnd = Again | WaitTick | Crashed

definition sendSequences ::
  "textLib \<Rightarrow> 'w ethEnv \<Rightarrow> ethCfg \<Rightarrow> 'w seqEnv \<Rightarrow> seqCfg \<Rightarrow> Sequence list \<Rightarrow> ('w client, SenderError, unit) act" where
  "sendSequences tlib eenv ecfg env cfg sequences =
     bindA (callW (se_GetLastVirtualBatchNum env)) (\<lambda>virtual.
     case virtual of
       Inl _ \<Rightarrow> retA ()
     | Inr _ \<Rightarrow>
         bindA (callW (se_BuildSequenceBatchesTxData env (SenderAddress cfg) sequences (L2Coinbase cfg))) (\<lambda>built.
         case built of
           Inl _ \<Rightarrow> retA ()
         | Inr (to, data) \<Rightarrow>
             bindA (tryA (etm_Add tlib eenv ecfg ethTxManagerOwner
               (sequenceTxID (sq_BatchNumber (hd sequences)) (sq_BatchNumber (last sequences)))
               (SenderAddress cfg) to None data (GasOffset cfg))) (\<lambda>_. retA ())))"

definition tryToSendSequence ::
  "textLib \<Rightarrow> 'w ethEnv \<Rightarrow> ethCfg \<Rightarrow> ('w client \<Rightarrow> 'w client) \<Rightarrow> 'w seqEnv \<Rightarrow> seqCfg \<Rightarrow> nat \<Rightarrow> 'w client \<Rightarrow>
   (cycleEnd \<times> 'w client) option" where
  "tryToSendSequence tlib eenv ecfg sleep env cfg n s =
     (case ProcessPendingMonitoredTxs tlib eenv sleep onResult ethTxManagerOwner n False s of
        None \<Rightarrow> None
      | Some (retry, s1) \<Rightarrow>
          if retry then Some (Again, s1)
          else
            (case isSynced env s1 of
               (Ok True, s2) \<Rightarrow>
                 (case getSequencesToSend env cfg n s2 of
                    (Ok None, s3) \<Rightarrow> None
                  | (Ok (Some (Some (q # qs))), s3) \<Rightarrow>
                      (case sendSequences tlib eenv ecfg env cfg (q # qs) s3 of
                         (Panic, s4) \<Rightarrow> Some (Crashed, s4)
                       | (_, s4) \<Rightarrow> Some (Again, s4))
                  | (Panic, s3) \<Rightarrow> Some (Crashed, s3)
                  | (_, s3) \<Rightarrow> Some (WaitTick, s3))
             | (Panic, s2) \<Rightarrow> Some (Crashed, s2)
             | (_, s2) \<Rightarrow> Some (WaitTick, s2)))"

text \<open>\<open>Start\<close> for a number of cycles; \<open>tick\<close> is what the rest of the node does until the ticker fires.\<close>

fun startCycles ::
  "textLib \<Rightarrow> 'w ethEnv \<Rightarrow> ethCfg \<Rightarrow> ('w client \<Rightarrow> 'w client) \<Rightarrow> ('w client \<Rightarrow> 'w client) \<Rightarrow> 'w seqEnv \<Rightarrow> seqCfg \<Rightarrow>
   nat \<Rightarrow> nat \<Rightarrow> 'w client \<Rightarrow> (cycleEnd \<times> 'w client) option" where
  "startCycles tlib eenv ecfg sleep tick env cfg n 0 s = Some (Again, s)"
| "startCycles tlib eenv ecfg sleep tick env cfg n (Suc k) s =
     (case tryToSendSequence tlib eenv ecfg sleep env cfg n s of
        None \<Rightarrow> None
      | Some (Crashed, s') \<Rightarrow> Some (Crashed, s')
      | Some (WaitTick, s') \<Rightarrow> startCycles tlib eenv ecfg sleep tick env cfg n k (tick s')
      | Some (Again, s') \<Rightarrow> startCycles tlib eenv ecfg sleep tick env cfg n k s')"

end
