(* ===== verification/SequenceRun.thy ===== *)
theory SequenceRun
  imports SequenceSender
begin

text \<open>
  What the sequence sender sends: the contract of the state as a locale, its two instances on the
  tables of \<open>StateDB\<close> (with anything happening between the calls, and on a database at rest), and the
  pending transactions over the cycles of the sender.
\<close>

subsection \<open>What the sender relies on\<close>

text \<open>
  The contract of the state: as long as the calls keep an invariant of the world, a batch that is
  reported closed is closed and the batch of a number is the stored one.
\<close>

definition keepsW :: "('w \<Rightarrow> bool) \<Rightarrow> ('w \<Rightarrow> 'r \<times> 'w) \<Rightarrow> ('r \<Rightarrow> bool) \<Rightarrow> bool" where
  "keepsW I q R \<longleftrightarrow> (\<forall>w r w'. I w \<longrightarrow> q w = (r, w') \<longrightarrow> I w' \<and> R r)"

definition forcedMatch :: "(u64 \<Rightarrow> int \<Rightarrow> bool) \<Rightarrow> Batch \<Rightarrow> int \<Rightarrow> bool" where
  "forcedMatch forcedTime b t \<longleftrightarrow> (case bt_ForcedBatchNum b of None \<Rightarrow> t = 0 | Some f \<Rightarrow> forcedTime f t)"

definition isSequence :: "(u64 \<Rightarrow> bool) \<Rightarrow> (u64 \<Rightarrow> Batch \<Rightarrow> bool) \<Rightarrow> (u64 \<Rightarrow> int \<Rightarrow> bool) \<Rightarrow> u64 \<Rightarrow> Sequence \<Rightarrow> bool" where
  "isSequence isClosed stored forcedTime n q \<longleftrightarrow>
     isClosed n \<and> (\<exists>b t. stored n b \<and> forcedMatch forcedTime b t \<and> q = sequenceOf b t)"

lemma isSequenceI:
  "isClosed n \<Longrightarrow> stored n b \<Longrightarrow> forcedMatch forcedTime b t \<Longrightarrow> isSequence isClosed stored forcedTime n (sequenceOf b t)"
  unfolding isSequence_def by blast

text \<open>A run of sequences for the batches from \<open>first\<close> on, up to the fork upgrade.\<close>

definition seqRun :: "seqCfg \<Rightarrow> (u64 \<Rightarrow> Sequence \<Rightarrow> bool) \<Rightarrow> u64 \<Rightarrow> Sequence list \<Rightarrow> bool" where
  "seqRun cfg M first qs \<longleftrightarrow>
     (\<forall>i<length qs. M (first + of_nat i) (qs ! i)) \<and>
     (ForkUpgradeBatchNumber cfg \<noteq> 0 \<longrightarrow> (\<forall>i<length qs. first + of_nat i \<noteq> ForkUpgradeBatchNumber cfg + 1))"

lemma seqRun_Nil [simp]: "seqRun cfg M first []"
  by (simp add: seqRun_def)

lemma seqRun_snoc:
  "seqRun cfg M first (qs @ [q]) \<longleftrightarrow>
     seqRun cfg M first qs \<and> M (first + of_nat (length qs)) q \<and>
     (ForkUpgradeBatchNumber cfg \<noteq> 0 \<longrightarrow> first + of_nat (length qs) \<noteq> ForkUpgradeBatchNumber cfg + 1)"
  by (auto simp: seqRun_def nth_append less_Suc_eq)

lemma seqRun_butlast: "seqRun cfg M first qs \<Longrightarrow> seqRun cfg M first (butlast qs)"
  by (simp add: seqRun_def nth_butlast)

definition goodEnd :: "(Sequence list \<Rightarrow> bool) \<Rightarrow> collected \<Rightarrow> bool" where
  "goodEnd P c \<longleftrightarrow> (case c of Returned (Some qs) \<Rightarrow> P qs | Reached qs \<Rightarrow> P qs | _ \<Rightarrow> True)"

text \<open>The invariant of the world, for the calculus.\<close>

abbreviation worldI :: "('w \<Rightarrow> bool) \<Rightarrow> 'w client \<Rightarrow> bool" where
  "worldI I s \<equiv> I (cl_world s)"

lemma callW_keepsW:
  "keepsW I q R \<Longrightarrow> ensures (worldI I) (callW q) (\<lambda>r s. I (cl_world s) \<and> R r) (worldI I)"
  unfolding keepsW_def ensures_def callW_def askA_def by (auto split: prod.splits)

lemma callS_keepsW:
  assumes "keepsW I q R"
  shows "ensures (worldI I) (callS q) (\<lambda>a s. I (cl_world s) \<and> R (Inr a)) (worldI I)"
  unfolding callS_def
  by (rule ensures_bind[OF callW_keepsW[OF assms]])
    (auto intro!: ensures_ret ensures_fail split: sum.split)

locale batch_reads =
  fixes env :: "'w seqEnv" and I :: "'w \<Rightarrow> bool" and isClosed :: "u64 \<Rightarrow> bool" and stored :: "u64 \<Rightarrow> Batch \<Rightarrow> bool"
    and forcedTime :: "u64 \<Rightarrow> int \<Rightarrow> bool" and isVirtual :: "u64 \<Rightarrow> bool"
  assumes virtual_law: "keepsW I (se_GetLastVirtualBatchNum env) (\<lambda>r. \<forall>v. r = Inr v \<longrightarrow> isVirtual v)"
    and closed_law: "keepsW I (se_IsBatchClosed env n) (\<lambda>r. r = Inr True \<longrightarrow> isClosed n)"
    and batch_law: "keepsW I (se_GetBatchByNumber env n) (\<lambda>r. \<forall>b. r = Inr b \<longrightarrow> stored n b)"
    and forced_law: "keepsW I (se_GetForcedBatch env f) (\<lambda>r. \<forall>fb. r = Inr fb \<longrightarrow> forcedTime f (unix (fb_ForcedAt fb)))"
    and time_law: "keepsW I (se_GetTimeForLatestBatchVirtualization env) (\<lambda>_. True)"
    and last_law: "keepsW I (se_GetLastBatchNumber env) (\<lambda>_. True)"
    and estimate_law: "keepsW I (se_EstimateGasSequenceBatches env a qs c) (\<lambda>_. True)"
    and latest_law: "keepsW I (se_GetLatestBatchNumber env) (\<lambda>_. True)"
    and now_law: "keepsW I (se_now env) (\<lambda>_. True)"
    and stored_number: "stored n b \<Longrightarrow> bt_BatchNumber b = n"
begin

abbreviation good :: "u64 \<Rightarrow> Sequence \<Rightarrow> bool" where
  "good \<equiv> isSequence isClosed stored forcedTime"

lemma newSequence_good:
  "ensures (worldI I) (newSequence env n) (\<lambda>q s. I (cl_world s) \<and> (isClosed n \<longrightarrow> good n q)) (worldI I)"
  unfolding newSequence_def
proof (rule ensures_bind[OF callS_keepsW[OF batch_law]])
  fix b
  show "ensures (\<lambda>s. I (cl_world s) \<and> (\<forall>b'. Inr b = Inr b' \<longrightarrow> stored n b'))
      (case bt_ForcedBatchNum b of None \<Rightarrow> retA (sequenceOf b 0)
       | Some f \<Rightarrow> bindA (callS (se_GetForcedBatch env f)) (\<lambda>fb. retA (sequenceOf b (unix (fb_ForcedAt fb)))))
      (\<lambda>q s. I (cl_world s) \<and> (isClosed n \<longrightarrow> good n q)) (worldI I)"
  proof (cases "stored n b")
    case True
    show ?thesis
    proof (cases "bt_ForcedBatchNum b")
      case None
      then show ?thesis using True by (auto intro!: ensures_ret isSequenceI simp: forcedMatch_def)
    next
      case (Some f)
      have "ensures (worldI I) (bindA (callS (se_GetForcedBatch env f)) (\<lambda>fb. retA (sequenceOf b (unix (fb_ForcedAt fb)))))
          (\<lambda>q s. I (cl_world s) \<and> (isClosed n \<longrightarrow> good n q)) (worldI I)"
        using True Some
        by (intro ensures_bind[OF callS_keepsW[OF forced_law]] ensures_ret) (auto intro!: isSequenceI simp: forcedMatch_def)
      then show ?thesis
        using Some by (auto intro: ensures_conseq)
    qed
  qed (simp add: ensures_def)
qed

lemma estimate_keeps: "ensures (worldI I) (estimateSequences env cfg qs) (\<lambda>_. worldI I) (worldI I)"
  unfolding estimateSequences_def by (rule ensures_conseq[OF callW_keepsW[OF estimate_law]]) simp_all

lemma afterEstimateErr_good:
  assumes "P (butlast qs)"
  shows "ensures (worldI I) (afterEstimateErr env cfg qs n err) (\<lambda>c s. I (cl_world s) \<and> goodEnd P c) (worldI I)"
proof -
  have "ensures (worldI I) (bindA (estimateSequences env cfg (butlast qs)) (\<lambda>est.
      case est of Inl e \<Rightarrow> failA (seqEtherman e) | Inr _ \<Rightarrow> retA (Returned (Some (butlast qs)))))
      (\<lambda>c s. I (cl_world s) \<and> goodEnd P c) (worldI I)"
    by (rule ensures_bind[OF estimate_keeps]) (auto intro!: ensures_ret ensures_fail simp: goodEnd_def assms split: sum.split)
  then show ?thesis
    by (auto simp: afterEstimateErr_def handleEstimateGasSendSequenceErr_def intro!: ensures_fail ensures_panic)
qed

lemma collectSequences_good:
  "seqRun cfg good first qs \<Longrightarrow>
   ensures (worldI I) (collectSequences env cfg n (first + of_nat (length qs)) qs)
     (\<lambda>c s. I (cl_world s) \<and> goodEnd (seqRun cfg good first) c) (worldI I)"
proof (induction n arbitrary: qs)
  case 0
  then show ?case by (auto intro!: ensures_ret simp: goodEnd_def)
next
  case (Suc n)
  let ?cur = "first + of_nat (length qs)" and ?fork = "ForkUpgradeBatchNumber cfg"
  let ?Q = "\<lambda>c s. I (cl_world s) \<and> goodEnd (seqRun cfg good first) c"
  show ?case
  proof (cases "?fork \<noteq> 0 \<and> ?cur = ?fork + 1")
    case True
    then show ?thesis by (auto intro!: ensures_fail)
  next
    case fork: False
    have est: "ensures (worldI I) (case estimateError cfg est of
          Some err \<Rightarrow> afterEstimateErr env cfg (qs @ [q]) ?cur err
        | None \<Rightarrow> if ?fork \<noteq> 0 \<and> ?cur = ?fork then retA (Returned (Some (qs @ [q])))
                  else collectSequences env cfg n (?cur + 1) (qs @ [q])) ?Q (worldI I)"
      if "good ?cur q" for est q
    proof -
      have run: "seqRun cfg good first (qs @ [q])"
        using Suc.prems fork that unfolding seqRun_snoc by blast
      have "ensures (worldI I) (collectSequences env cfg n (?cur + 1) (qs @ [q])) ?Q (worldI I)"
        using Suc.IH[OF run] by (simp add: algebra_simps)
      then show ?thesis
        using run afterEstimateErr_good[of "seqRun cfg good first" "qs @ [q]"] Suc.prems
        by (auto intro!: ensures_ret simp: goodEnd_def split: option.split)
    qed
    have next_seq: "ensures (\<lambda>s. I (cl_world s) \<and> (isClosed ?cur \<longrightarrow> good ?cur q) \<and> isClosed ?cur)
        (bindA (estimateSequences env cfg (qs @ [q])) (\<lambda>est. case estimateError cfg est of
          Some err \<Rightarrow> afterEstimateErr env cfg (qs @ [q]) ?cur err
        | None \<Rightarrow> if ?fork \<noteq> 0 \<and> ?cur = ?fork then retA (Returned (Some (qs @ [q])))
                  else collectSequences env cfg n (?cur + 1) (qs @ [q]))) ?Q (worldI I)" for q
    proof (cases "isClosed ?cur \<and> good ?cur q")
      case True
      then show ?thesis
        using ensures_bind[OF estimate_keeps est[of q]] by (auto intro: ensures_conseq)
    qed (auto simp: ensures_def)
    have body: "ensures (\<lambda>s. I (cl_world s) \<and> (Inr closed = Inr True \<longrightarrow> isClosed ?cur))
        (if \<not> closed then retA (Reached qs)
         else bindA (newSequence env ?cur) (\<lambda>q. bindA (estimateSequences env cfg (qs @ [q])) (\<lambda>est.
           case estimateError cfg est of
             Some err \<Rightarrow> afterEstimateErr env cfg (qs @ [q]) ?cur err
           | None \<Rightarrow> if ?fork \<noteq> 0 \<and> ?cur = ?fork then retA (Returned (Some (qs @ [q])))
                     else collectSequences env cfg n (?cur + 1) (qs @ [q])))) ?Q (worldI I)" for closed
    proof (cases "closed \<and> isClosed ?cur")
      case True
      have "ensures (worldI I) (newSequence env ?cur) (\<lambda>q s. I (cl_world s) \<and> (isClosed ?cur \<longrightarrow> good ?cur q) \<and> isClosed ?cur) (worldI I)"
        by (rule ensures_conseq[OF newSequence_good]) (use True in simp_all)
      from ensures_bind[OF this next_seq] True show ?thesis
        by (auto intro: ensures_conseq)
    next
      case False
      then show ?thesis
        using Suc.prems by (auto simp: goodEnd_def ensures_def retA_def)
    qed
    show ?thesis
      unfolding collectSequences.simps if_not_P[OF fork] by (rule ensures_bind[OF callS_keepsW[OF closed_law] body])
  qed
qed

lemma worthSending_good:
  assumes "P qs"
  shows "ensures (worldI I) (worthSending env cfg qs) (\<lambda>r s. I (cl_world s) \<and> (\<forall>q. r = Some q \<longrightarrow> P q)) (worldI I)"
  unfolding worthSending_def
  by (auto intro!: ensures_ret ensures_bind[OF callW_keepsW[OF time_law]] ensures_bind[OF callW_keepsW[OF now_law]] simp: assms)

lemma getSequencesToSend_good:
  "ensures (worldI I) (getSequencesToSend env cfg n)
     (\<lambda>r s. I (cl_world s) \<and> (\<forall>qs. r = Some (Some qs) \<longrightarrow> (\<exists>v. isVirtual v \<and> seqRun cfg good (v + 1) qs))) (worldI I)"
  (is "ensures _ _ ?Q _")
  unfolding getSequencesToSend_def
proof (rule ensures_bind[OF callS_keepsW[OF virtual_law]])
  fix v
  have end_ok: "ensures (\<lambda>s. I (cl_world s) \<and> goodEnd (seqRun cfg good (v + 1)) c)
      (case c of Unfinished \<Rightarrow> retA None | Returned qs \<Rightarrow> retA (Some qs)
       | Reached qs \<Rightarrow> bindA (worthSending env cfg qs) (\<lambda>r. retA (Some r))) ?Q (worldI I)" if "isVirtual v" for c
  proof (cases c)
    case (Reached qs)
    show ?thesis
    proof (cases "seqRun cfg good (v + 1) qs")
      case True
      have "ensures (worldI I) (bindA (worthSending env cfg qs) (\<lambda>r. retA (Some r))) ?Q (worldI I)"
        by (rule ensures_bind[OF worthSending_good[of "seqRun cfg good (v + 1)", OF True]]) (auto intro!: ensures_ret that)
      then show ?thesis
        using Reached by (auto intro: ensures_conseq)
    qed (simp add: Reached goodEnd_def ensures_def)
  qed (use that in \<open>auto intro!: ensures_ret simp: goodEnd_def split: option.splits\<close>)
  show "ensures (\<lambda>s. I (cl_world s) \<and> (\<forall>v'. Inr v = Inr v' \<longrightarrow> isVirtual v'))
      (bindA (collectSequences env cfg n (v + 1) []) (\<lambda>c. case c of Unfinished \<Rightarrow> retA None | Returned qs \<Rightarrow> retA (Some qs)
       | Reached qs \<Rightarrow> bindA (worthSending env cfg qs) (\<lambda>r. retA (Some r)))) ?Q (worldI I)"
  proof (cases "isVirtual v")
    case True
    have "ensures (worldI I) (collectSequences env cfg n (v + 1) [])
        (\<lambda>c s. I (cl_world s) \<and> goodEnd (seqRun cfg good (v + 1)) c) (worldI I)"
      using collectSequences_good[of cfg "v + 1" "[]" n] by simp
    from ensures_bind[OF this end_ok[OF True]] show ?thesis
      by (auto intro: ensures_conseq)
  qed (simp add: ensures_def)
qed

lemma seqRun_numbers:
  "seqRun cfg good first qs \<Longrightarrow> i < length qs \<Longrightarrow> sq_BatchNumber (qs ! i) = first + of_nat i"
proof -
  assume "seqRun cfg good first qs" "i < length qs"
  then have "good (first + of_nat i) (qs ! i)"
    by (simp add: seqRun_def)
  then obtain b t where "stored (first + of_nat i) b" "qs ! i = sequenceOf b t"
    by (auto simp: isSequence_def)
  then show ?thesis
    using stored_number by (simp add: sequenceOf_def)
qed

end

text \<open>The interface on the database: other parts of the node may work between two calls.\<close>

definition dbQuery ::
  "('w \<Rightarrow> 'w) \<Rightarrow> ('w \<Rightarrow> bool) \<Rightarrow> ('w \<Rightarrow> stateDB) \<Rightarrow> (stateDB \<Rightarrow> (StateError, 'a) outcome) \<Rightarrow> 'w \<Rightarrow> (StateError + 'a) \<times> 'w" where
  "dbQuery others up dbOf q w =
     (let w' = others w
      in (if up w' then (case q (dbOf w') of Ok a \<Rightarrow> Inr a | Err e \<Rightarrow> Inl e | Panic \<Rightarrow> Inl pgConnection) else Inl pgConnection, w'))"

record 'w ethermanCalls =
  ec_Estimate :: "address \<Rightarrow> Sequence list \<Rightarrow> address \<Rightarrow> 'w \<Rightarrow> (EthermanError + u64) \<times> 'w"
  ec_Build :: "address \<Rightarrow> Sequence list \<Rightarrow> address \<Rightarrow> 'w \<Rightarrow> (EthermanError + address option \<times> bytes option) \<times> 'w"
  ec_Latest :: "'w \<Rightarrow> (EthermanError + u64) \<times> 'w"
  ec_now :: "'w \<Rightarrow> time \<times> 'w"

definition dbEnv :: "('w \<Rightarrow> 'w) \<Rightarrow> ('w \<Rightarrow> bool) \<Rightarrow> ('w \<Rightarrow> stateDB) \<Rightarrow> 'w ethermanCalls \<Rightarrow> 'w seqEnv" where
  "dbEnv others up dbOf ec =
     \<lparr>se_GetLastVirtualBatchNum = dbQuery others up dbOf GetLastVirtualBatchNum,
      se_IsBatchClosed = \<lambda>n. dbQuery others up dbOf (IsBatchClosed n),
      se_GetBatchByNumber = \<lambda>n. dbQuery others up dbOf (GetBatchByNumber n),
      se_GetForcedBatch = \<lambda>f. dbQuery others up dbOf (GetForcedBatch f),
      se_GetTimeForLatestBatchVirtualization = dbQuery others up dbOf GetTimeForLatestBatchVirtualization,
      se_GetLastBatchNumber = dbQuery others up dbOf GetLastBatchNumber,
      se_EstimateGasSequenceBatches = ec_Estimate ec, se_BuildSequenceBatchesTxData = ec_Build ec,
      se_GetLatestBatchNumber = ec_Latest ec, se_now = ec_now ec\<rparr>"

lemma dbQuery_keeps:
  assumes "\<And>w. I w \<Longrightarrow> I (others w)" "\<And>w a. I w \<Longrightarrow> q (dbOf w) = Ok a \<Longrightarrow> R (Inr a)" "\<And>e. R (Inl e)"
  shows "keepsW I (dbQuery others up dbOf q) R"
  unfolding keepsW_def dbQuery_def Let_def using assms by (auto split: outcome.splits)

lemma keepsW_trivial: "keepsW (\<lambda>_. True) q (\<lambda>_. True)"
  by (simp add: keepsW_def)

lemma GetBatchByNumber_number: "GetBatchByNumber n db = Ok b \<Longrightarrow> bt_BatchNumber b = n"
  by (auto simp: GetBatchByNumber_def scanBatch_def split: if_splits option.splits)

text \<open>A database on which anything happens between the calls.\<close>

interpretation live: batch_reads "dbEnv others up dbOf ec" "\<lambda>_. True" "\<lambda>_. True" "\<lambda>n b. bt_BatchNumber b = n" "\<lambda>_ _. True" "\<lambda>_. True"
  for others :: "'w \<Rightarrow> 'w" and up dbOf ec
  by unfold_locales (auto simp: dbEnv_def keepsW_trivial intro!: dbQuery_keeps dest: GetBatchByNumber_number)

text \<open>A database that does not change during the calls: the world beside it is that of the other calls.\<close>

definition beside :: "('x \<Rightarrow> 'r \<times> 'x) \<Rightarrow> stateDB \<times> 'x \<Rightarrow> 'r \<times> (stateDB \<times> 'x)" where
  "beside q w = (case q (snd w) of (r, x) \<Rightarrow> (r, (fst w, x)))"

definition quietEnv :: "(stateDB \<times> 'x \<Rightarrow> bool) \<Rightarrow> 'x ethermanCalls \<Rightarrow> (stateDB \<times> 'x) seqEnv" where
  "quietEnv up ec =
     dbEnv (\<lambda>w. w) up fst
       \<lparr>ec_Estimate = \<lambda>a qs c. beside (ec_Estimate ec a qs c), ec_Build = \<lambda>a qs c. beside (ec_Build ec a qs c),
        ec_Latest = beside (ec_Latest ec), ec_now = beside (ec_now ec)\<rparr>"

lemma beside_keeps: "keepsW (\<lambda>w. fst w = db) (beside q) (\<lambda>_. True)"
  by (auto simp: keepsW_def beside_def split: prod.splits)

interpretation quiet: batch_reads "quietEnv up ec" "\<lambda>w. fst w = db" "\<lambda>n. IsBatchClosed n db = Ok True"
  "\<lambda>n b. GetBatchByNumber n db = Ok b" "\<lambda>f t. \<exists>fb. GetForcedBatch f db = Ok fb \<and> t = unix (fb_ForcedAt fb)"
  "\<lambda>v. GetLastVirtualBatchNum db = Ok v" for up ec db
  by unfold_locales (auto simp: quietEnv_def dbEnv_def beside_keeps intro!: dbQuery_keeps dest: GetBatchByNumber_number)

subsection \<open>The table of the transactions\<close>

lemma waitResult_table:
  assumes "\<And>s. table_ok tlib (cl_rows s) \<Longrightarrow> table_ok tlib (cl_rows (sleep s))"
  shows "table_ok tlib (cl_rows s) \<Longrightarrow> waitResult tlib env sleep owner i n s = Some s' \<Longrightarrow> table_ok tlib (cl_rows s')"
proof (induction n arbitrary: s)
  case (Suc n)
  obtain r s1 where r: "etm_Result tlib env owner i (sleep s) = (r, s1)" by fastforce
  then have "table_ok tlib (cl_rows s1)"
    using assms[OF Suc.prems(1)] etm_Result_rows[OF r] by simp
  then show ?case using Suc.IH[of s1] Suc.prems(2) r by (cases r) (auto split: if_splits)
qed simp

lemma handleResults_table:
  assumes tlib: "textLib_ok tlib" and sl: "\<And>s. table_ok tlib (cl_rows s) \<Longrightarrow> table_ok tlib (cl_rows (sleep s))"
  shows "table_ok tlib (cl_rows s) \<Longrightarrow> handleResults tlib env sleep handler owner n rs h s = Some (h', s') \<Longrightarrow> table_ok tlib (cl_rows s')"
proof (induction rs arbitrary: h s)
  case (Cons r rs)
  obtain q s1 where q: "setStatusDone tlib env owner (res_ID r) s = (q, s1)" by fastforce
  have "table_ok tlib (cl_rows s1)"
    using setStatusDone_frame[OF tlib Cons.prems(1), of env owner "res_ID r"] q by simp
  then show ?case
    using Cons q waitResult_table[of tlib sleep s env owner "res_ID r" n, OF sl Cons.prems(1)]
    by (cases q) (auto split: if_splits option.splits)
qed simp

text \<open>When the wait returns, no transaction of the owner is pending.\<close>

lemma pending_done:
  assumes tlib: "textLib_ok tlib" and sl: "\<And>s. table_ok tlib (cl_rows s) \<Longrightarrow> table_ok tlib (cl_rows (sleep s))"
  shows "table_ok tlib (cl_rows s) \<Longrightarrow> ProcessPendingMonitoredTxs tlib env sleep handler owner n h s = Some (h', s') \<Longrightarrow>
    table_ok tlib (cl_rows s') \<and> (\<forall>i. statusAt tlib owner s' i \<notin> Some ` set pendingStatuses)"
proof (induction n arbitrary: h s)
  case (Suc n)
  obtain r s1 where r: "ResultsByStatus tlib env owner pendingStatuses s = (r, s1)" by fastforce
  have s1: "cl_rows s1 = cl_rows s" by (rule ResultsByStatus_rows[OF r])
  show ?case
  proof (cases r)
    case (Ok rs)
    show ?thesis
    proof (cases rs)
      case Nil
      have "statusAt tlib owner s i \<notin> Some ` set pendingStatuses" for i
        using results_reports[OF tlib Suc.prems(1) r[unfolded Ok Nil]] by (auto simp: reports_def)
      then show ?thesis
        using Suc.prems r Ok Nil s1 statusAt_rows[OF s1] by auto
    next
      case (Cons q qs)
      then obtain h2 s2 where h2: "handleResults tlib env sleep handler owner n rs h s1 = Some (h2, s2)"
        and rest: "ProcessPendingMonitoredTxs tlib env sleep handler owner n h2 s2 = Some (h', s')"
        using Suc.prems(2) r Ok by (auto split: option.splits)
      have "table_ok tlib (cl_rows s2)"
        using handleResults_table[OF tlib sl _ h2] Suc.prems(1) s1 by simp
      then show ?thesis using Suc.IH rest by blast
    qed
  qed (use Suc.IH[of "sleep s1"] Suc.prems sl[of s1] s1 r in simp_all)
qed simp

lemma keepsRows_sender: "keepsRows (isSynced env)" "keepsRows (getSequencesToSend env cfg n)"
proof -
  have callS: "keepsRows (callS q)" for q :: "'b \<Rightarrow> (StateError + 'c) \<times> 'b"
    unfolding callS_def by (intro keepsRows_bind keepsRows_basic) (auto intro: keepsRows_basic split: sum.split)
  have panic: "keepsRows panicA"
    by (simp add: keepsRows_def panicA_def)
  have newSeq: "keepsRows (newSequence env k)" for k
    unfolding newSequence_def by (intro keepsRows_bind callS) (auto intro!: keepsRows_bind keepsRows_basic callS split: option.split)
  have after: "keepsRows (afterEstimateErr env cfg qs k err)" for qs k err
    by (auto simp: afterEstimateErr_def estimateSequences_def handleEstimateGasSendSequenceErr_def panic
        intro!: keepsRows_bind keepsRows_basic split: sum.split)
  have "keepsRows (collectSequences env cfg n k qs)" for k qs
    by (induction n arbitrary: k qs)
      (auto simp: estimateSequences_def intro!: keepsRows_bind keepsRows_basic callS newSeq after split: option.split)
  then show "keepsRows (getSequencesToSend env cfg n)"
    unfolding getSequencesToSend_def worthSending_def
    by (auto intro!: keepsRows_bind keepsRows_basic callS split: collected.split)
  show "keepsRows (isSynced env)"
    unfolding isSynced_def Let_def by (auto intro!: keepsRows_bind keepsRows_basic split: sum.split)
qed

subsection \<open>A cycle of the sender\<close>

text \<open>No transaction of the sender but that of one key is pending.\<close>

definition onlyPending :: "textLib \<Rightarrow> string option \<Rightarrow> 'w client \<Rightarrow> bool" where
  "onlyPending tlib j s \<longleftrightarrow> (\<forall>i. Some i \<noteq> j \<longrightarrow> statusAt tlib ethTxManagerOwner s i \<notin> Some ` set pendingStatuses)"

text \<open>The transaction for a run of batches, as it is stored.\<close>

definition sequenceTxStored ::
  "textLib \<Rightarrow> 'w seqEnv \<Rightarrow> seqCfg \<Rightarrow> Sequence list \<Rightarrow> 'w client \<Rightarrow> bool" where
  "sequenceTxStored tlib env cfg qs s \<longleftrightarrow>
     (\<exists>w to data w' m. se_BuildSequenceBatchesTxData env (SenderAddress cfg) qs (L2Coinbase cfg) w = (Inr (to, data), w') \<and>
        mtxAt tlib (cl_rows s) (ethTxManagerOwner, sequenceTxID (sq_BatchNumber (hd qs)) (sq_BatchNumber (last qs))) = Some m \<and>
        mtx_from m = SenderAddress cfg \<and> mtx_to m = to \<and> mtx_value m = None \<and> mtx_data m = data \<and>
        mtx_gasOffset m = GasOffset cfg \<and> mtx_status m = MonitoredTxStatusCreated)"

lemma onlyPending_rows: "cl_rows s' = cl_rows s \<Longrightarrow> onlyPending tlib j s' = onlyPending tlib j s"
  by (simp add: onlyPending_def statusAt_def)

lemma sendSequences_adds:
  fixes s :: "'w client"
  assumes tlib: "textLib_ok tlib" and env: "env_ok eenv" and cfg: "cfg_ok ecfg" and ok: "table_ok tlib (cl_rows s)"
    and idle: "onlyPending tlib None s" and run: "sendSequences tlib eenv ecfg env cfg qs s = (r, s')"
  shows "table_ok tlib (cl_rows s') \<and>
    (onlyPending tlib None s' \<or>
     (onlyPending tlib (Some (sequenceTxID (sq_BatchNumber (hd qs)) (sq_BatchNumber (last qs)))) s' \<and>
      sequenceTxStored tlib env cfg qs s'))" (is "?Q s'")
proof -
  let ?id = "sequenceTxID (sq_BatchNumber (hd qs)) (sq_BatchNumber (last qs))"
  let ?same = "\<lambda>s'. cl_rows s' = cl_rows s"
  have same: "?Q s'" if "?same s'" for s' :: "'w client"
    using that ok idle onlyPending_rows[OF that, of tlib None] by simp
  have added: "?Q s'" if "addedTx tlib (ethTxManagerOwner, ?id) (SenderAddress cfg) to None data (GasOffset cfg) (cl_rows s) (cl_rows s')"
      and b: "se_BuildSequenceBatchesTxData env (SenderAddress cfg) qs (L2Coinbase cfg) w = (Inr (to, data), w')"
    for s' :: "'w client" and to data w w'
  proof -
    have "onlyPending tlib (Some ?id) s'"
      using idle that(1) by (auto simp: onlyPending_def addedTx_def statusAt_def)
    moreover have "sequenceTxStored tlib env cfg qs s'"
      using that(1) b unfolding sequenceTxStored_def addedTx_def by blast
    ultimately show ?thesis
      using that(1) by (simp add: addedTx_def)
  qed
  have add: "ensures ?same (bindA (tryA (etm_Add tlib eenv ecfg ethTxManagerOwner ?id (SenderAddress cfg) to None data (GasOffset cfg)))
      (\<lambda>_. retA ())) (\<lambda>_. ?Q) ?Q"
    if b: "se_BuildSequenceBatchesTxData env (SenderAddress cfg) qs (L2Coinbase cfg) w = (Inr (to, data), w')" for to data w w'
    by (rule ensures_bind[OF ensures_try[OF ensures_conseq[OF Add_rows[OF tlib env cfg ok]]], where R = "\<lambda>_. ?Q"])
      (use same added[OF _ b] in \<open>auto intro!: ensures_ret\<close>)
  have built: "ensures (\<lambda>s. ?same s \<and> (\<exists>w w'. se_BuildSequenceBatchesTxData env (SenderAddress cfg) qs (L2Coinbase cfg) w = (b, w')))
      (case b of Inl _ \<Rightarrow> retA () | Inr (to, data) \<Rightarrow>
        bindA (tryA (etm_Add tlib eenv ecfg ethTxManagerOwner ?id (SenderAddress cfg) to None data (GasOffset cfg))) (\<lambda>_. retA ()))
      (\<lambda>_. ?Q) ?Q" for b
  proof (cases b)
    case (Inl e)
    then show ?thesis using same by (auto intro!: ensures_ret)
  next
    case (Inr p)
    obtain to data where p: "p = (to, data)" by fastforce
    show ?thesis
    proof (cases "\<exists>w w'. se_BuildSequenceBatchesTxData env (SenderAddress cfg) qs (L2Coinbase cfg) w = (b, w')")
      case True
      then obtain w w' where "se_BuildSequenceBatchesTxData env (SenderAddress cfg) qs (L2Coinbase cfg) w = (Inr (to, data), w')"
        using Inr p by blast
      note add = add[OF this]
      show ?thesis
        unfolding Inr p sum.case prod.case by (rule ensures_conseq[OF add]) simp_all
    qed (simp add: ensures_def)
  qed
  have call: "ensures ?same (callW q) (\<lambda>r s. ?same s \<and> (\<exists>w w'. q w = (r, w'))) ?Q" for q :: "'w \<Rightarrow> 'b \<times> 'w"
    by (fastforce simp: ensures_def callW_def askA_def split: prod.splits)
  have "ensures ?same (sendSequences tlib eenv ecfg env cfg qs) (\<lambda>_. ?Q) ?Q"
    unfolding sendSequences_def
  proof (rule ensures_bind[OF call])
    fix v :: "StateError + u64"
    show "ensures (\<lambda>s. ?same s \<and> (\<exists>w w'. se_GetLastVirtualBatchNum env w = (v, w')))
        (case v of Inl _ \<Rightarrow> retA () | Inr _ \<Rightarrow> bindA (callW (se_BuildSequenceBatchesTxData env (SenderAddress cfg) qs (L2Coinbase cfg)))
          (\<lambda>b. case b of Inl _ \<Rightarrow> retA () | Inr (to, data) \<Rightarrow>
            bindA (tryA (etm_Add tlib eenv ecfg ethTxManagerOwner ?id (SenderAddress cfg) to None data (GasOffset cfg))) (\<lambda>_. retA ())))
        (\<lambda>_. ?Q) ?Q"
    proof (cases v)
      case (Inl e)
      then show ?thesis using same by (auto intro!: ensures_ret)
    next
      case (Inr n)
      show ?thesis
        unfolding Inr sum.case by (rule ensures_conseq[OF ensures_bind[OF call built]]) simp_all
    qed
  qed
  from ensuresD[OF this refl run] show ?thesis
    by (cases r) simp_all
qed

text \<open>The batches of a run have consecutive numbers, and none of them is past the fork upgrade.\<close>

definition consecutive :: "seqCfg \<Rightarrow> Sequence list \<Rightarrow> bool" where
  "consecutive cfg qs \<longleftrightarrow>
     qs \<noteq> [] \<and> (\<forall>i<length qs. sq_BatchNumber (qs ! i) = sq_BatchNumber (hd qs) + of_nat i) \<and>
     (ForkUpgradeBatchNumber cfg \<noteq> 0 \<longrightarrow> (\<forall>q\<in>set qs. sq_BatchNumber q \<noteq> ForkUpgradeBatchNumber cfg + 1))"

lemma live_consecutive:
  assumes "getSequencesToSend (dbEnv others up dbOf ec) cfg n s = (Ok (Some (Some qs)), s')" "qs \<noteq> []"
  shows "consecutive cfg qs"
proof -
  obtain v where v: "seqRun cfg (isSequence (\<lambda>_. True) (\<lambda>n b. bt_BatchNumber b = n) (\<lambda>_ _. True)) (v + 1) qs"
    using ensuresD[OF live.getSequencesToSend_good[where cfg = cfg and n = n] _ assms(1)] by auto
  have num: "sq_BatchNumber (qs ! i) = v + 1 + of_nat i" if "i < length qs" for i
    by (rule live.seqRun_numbers[OF v that])
  moreover have "sq_BatchNumber (hd qs) = v + 1"
    using num[of 0] assms(2) by (simp add: hd_conv_nth)
  moreover have "sq_BatchNumber q \<noteq> ForkUpgradeBatchNumber cfg + 1" if "ForkUpgradeBatchNumber cfg \<noteq> 0" "q \<in> set qs" for q
    using that v num unfolding seqRun_def by (metis in_set_conv_nth)
  ultimately show ?thesis
    using assms(2) by (simp add: consecutive_def)
qed

lemma tryToSendSequence_result:
  assumes tlib: "textLib_ok tlib" and env: "env_ok eenv" and cfg: "cfg_ok ecfg" and ok: "table_ok tlib (cl_rows s)"
    and sl: "\<And>s. table_ok tlib (cl_rows s) \<Longrightarrow> table_ok tlib (cl_rows (sleep s))"
    and run: "tryToSendSequence tlib eenv ecfg sleep (dbEnv others up dbOf ec) scfg n s = Some (e, s')"
  shows "table_ok tlib (cl_rows s') \<and>
    (onlyPending tlib None s' \<or>
     (\<exists>qs. consecutive scfg qs \<and> sequenceTxStored tlib (dbEnv others up dbOf ec) scfg qs s' \<and>
        onlyPending tlib (Some (sequenceTxID (sq_BatchNumber (hd qs)) (sq_BatchNumber (last qs)))) s'))"
proof -
  let ?env = "dbEnv others up dbOf ec"
  obtain retry s1 where p: "ProcessPendingMonitoredTxs tlib eenv sleep onResult ethTxManagerOwner n False s = Some (retry, s1)"
    using run by (auto simp: tryToSendSequence_def split: option.splits)
  have s1: "table_ok tlib (cl_rows s1)" "onlyPending tlib None s1"
    using pending_done[OF tlib sl ok p] by (simp_all add: onlyPending_def)
  obtain b s2 where b: "isSynced ?env s1 = (b, s2)" by fastforce
  obtain g s3 where g: "getSequencesToSend ?env scfg n s2 = (g, s3)" by fastforce
  have s2: "cl_rows s2 = cl_rows s1"
    using keepsRowsD[OF keepsRows_sender(1) b] .
  have s3: "cl_rows s3 = cl_rows s1"
    using keepsRowsD[OF keepsRows_sender(2) g] s2 by simp
  have idle: "table_ok tlib (cl_rows s2)" "onlyPending tlib None s2" "table_ok tlib (cl_rows s3)" "onlyPending tlib None s3"
    using s1 s2 s3 onlyPending_rows[OF s2, of tlib None] onlyPending_rows[OF s3, of tlib None] by simp_all
  show ?thesis
  proof (cases "\<exists>q qs. \<not> retry \<and> b = Ok True \<and> g = Ok (Some (Some (q # qs)))")
    case True
    then obtain q qs where q: "\<not> retry" "b = Ok True" "g = Ok (Some (Some (q # qs)))" by blast
    obtain r s4 where r: "sendSequences tlib eenv ecfg ?env scfg (q # qs) s3 = (r, s4)" by fastforce
    have "s' = s4"
      using run q r by (auto simp: tryToSendSequence_def p b g split: outcome.splits)
    then show ?thesis
      using sendSequences_adds[OF tlib env cfg idle(3,4) r] live_consecutive[OF g[unfolded q(3)]] by blast
  next
    case False
    then have "s' \<in> {s1, s2, s3}"
      using run by (auto simp: tryToSendSequence_def p b g split: outcome.splits option.splits list.splits if_splits bool.splits)
    then show ?thesis
      using s1 idle by auto
  qed
qed

lemma cycle_onlyPending:
  assumes "textLib_ok tlib" "env_ok eenv" "cfg_ok ecfg" "table_ok tlib (cl_rows s)" "onlyPending tlib j s"
  shows "onlyPending tlib j (cycle tlib eenv ecfg s)"
  unfolding onlyPending_def
proof (intro allI impI)
  fix i assume i: "Some i \<noteq> j"
  note frame = cycle_frame[OF assms(1-4)]
  show "statusAt tlib ethTxManagerOwner (cycle tlib eenv ecfg s) i \<notin> Some ` set pendingStatuses"
  proof (cases "statusAt tlib ethTxManagerOwner s i")
    case None
    then show ?thesis using frame(3) by fastforce
  next
    case (Some st)
    then have "st \<notin> set pendingStatuses"
      using assms(5) i by (auto simp: onlyPending_def)
    moreover from this have "st \<notin> set activeStatuses"
      by (auto simp: pendingStatuses_def)
    ultimately show ?thesis
      using frame(2)[OF _ Some] by auto
  qed
qed

lemma startCycles_onlyPending:
  assumes ok: "textLib_ok tlib" "env_ok eenv" "cfg_ok ecfg"
  shows "table_ok tlib (cl_rows s) \<Longrightarrow> onlyPending tlib j s \<Longrightarrow>
    startCycles tlib eenv ecfg (cycle tlib eenv ecfg) (cycle tlib eenv ecfg) (dbEnv others up dbOf ec) scfg n k s = Some (e, s') \<Longrightarrow>
    table_ok tlib (cl_rows s') \<and> (\<exists>j. onlyPending tlib j s')"
proof (induction k arbitrary: s j)
  case (Suc k)
  obtain e1 s1 where t: "tryToSendSequence tlib eenv ecfg (cycle tlib eenv ecfg) (dbEnv others up dbOf ec) scfg n s = Some (e1, s1)"
    using Suc.prems(3) by (auto split: option.splits)
  obtain j1 where s1: "table_ok tlib (cl_rows s1)" "onlyPending tlib j1 s1"
    using tryToSendSequence_result[OF ok Suc.prems(1) cycle_frame(1)[OF ok] t] by blast
  note s2 = cycle_frame(1)[OF ok s1(1)] cycle_onlyPending[OF ok s1]
  show ?case
    using Suc.IH[OF s1] Suc.IH[OF s2] Suc.prems(3) s1 t by (cases e1) auto
qed auto

end
