(* ===== verification/SequenceSending.thy ===== *)
theory SequenceSending
  imports SequenceRun
begin

text \<open>The sequences of a database at rest: which batches are collected, exactly, and that the loop ends.\<close>

subsection \<open>The loop ends\<close>

text \<open>The batches from a number on that the loop can still visit.\<close>

definition rowsFrom :: "stateDB \<Rightarrow> u64 \<Rightarrow> u64 set" where
  "rowsFrom db n = {k. k |\<in>| fmdom (db_batch db) \<and> n \<le> k}"

lemma finite_rowsFrom [simp]: "finite (rowsFrom db n)"
  by (simp add: rowsFrom_def)

lemma rowsFrom_next:
  assumes "IsBatchClosed n db = Ok True"
  shows "card (rowsFrom db (n + 1)) < card (rowsFrom db n)"
proof -
  have n: "int8 n" "n |\<in>| fmdom (db_batch db)"
    using assms by (auto simp: IsBatchClosed_def in_fmdom split: if_splits option.splits)
  then have less: "n < n + 1"
    by (simp add: int8_def word_less_nat_alt unat_word_ariths)
  have "n \<in> rowsFrom db n" "n \<notin> rowsFrom db (n + 1)" "rowsFrom db (n + 1) \<subseteq> rowsFrom db n"
    using n less by (auto simp: rowsFrom_def)
  then have "rowsFrom db (n + 1) \<subset> rowsFrom db n"
    by blast
  then show ?thesis
    by (simp add: psubset_card_mono)
qed

text \<open>Fuel for the rows that are left is enough.\<close>

lemma collect_finishes:
  fixes ec :: "'x ethermanCalls" and up :: "stateDB \<times> 'x \<Rightarrow> bool"
  shows "card (rowsFrom db n) < k \<Longrightarrow>
    ensures (worldI (\<lambda>w. fst w = db)) (collectSequences (quietEnv up ec) cfg k n qs)
      (\<lambda>c s. fst (cl_world s) = db \<and> c \<noteq> Unfinished) (worldI (\<lambda>w. fst w = db))"
proof (induction k arbitrary: n qs)
  case (Suc k)
  let ?I = "\<lambda>w :: stateDB \<times> 'x. fst w = db"
  let ?Q = "\<lambda>c s. fst (cl_world s) = db \<and> c \<noteq> Unfinished"
  let ?env = "quietEnv up ec"
  have after: "ensures (worldI ?I) (afterEstimateErr ?env cfg q m err) ?Q (worldI ?I)" for q m err
  proof -
    have "ensures (worldI ?I) (bindA (estimateSequences ?env cfg (butlast q)) (\<lambda>est.
        case est of Inl e \<Rightarrow> failA (seqEtherman e) | Inr _ \<Rightarrow> retA (Returned (Some (butlast q))))) ?Q (worldI ?I)"
      by (rule ensures_bind[OF quiet.estimate_keeps]) (auto intro!: ensures_ret ensures_fail split: sum.split)
    then show ?thesis
      by (auto simp: afterEstimateErr_def handleEstimateGasSendSequenceErr_def intro!: ensures_fail ensures_panic)
  qed
  have rest: "ensures (worldI ?I) (case estimateError cfg est of
        Some err \<Rightarrow> afterEstimateErr ?env cfg (qs @ [q]) n err
      | None \<Rightarrow> if ForkUpgradeBatchNumber cfg \<noteq> 0 \<and> n = ForkUpgradeBatchNumber cfg then retA (Returned (Some (qs @ [q])))
                else collectSequences ?env cfg k (n + 1) (qs @ [q])) ?Q (worldI ?I)"
    if "IsBatchClosed n db = Ok True" for est q
  proof -
    have "card (rowsFrom db (n + 1)) < k"
      using Suc.prems rowsFrom_next[OF that] by simp
    from Suc.IH[OF this] show ?thesis
      by (auto intro!: ensures_ret after split: option.split)
  qed
  have newSeq: "ensures (worldI ?I) (newSequence ?env n) (\<lambda>_. worldI ?I) (worldI ?I)"
    by (rule ensures_conseq[OF quiet.newSequence_good]) simp_all
  have body: "ensures (\<lambda>s. fst (cl_world s) = db \<and> (Inr closed = Inr True \<longrightarrow> IsBatchClosed n db = Ok True))
      (if \<not> closed then retA (Reached qs)
       else bindA (newSequence ?env n) (\<lambda>q. bindA (estimateSequences ?env cfg (qs @ [q])) (\<lambda>est.
         case estimateError cfg est of
           Some err \<Rightarrow> afterEstimateErr ?env cfg (qs @ [q]) n err
         | None \<Rightarrow> if ForkUpgradeBatchNumber cfg \<noteq> 0 \<and> n = ForkUpgradeBatchNumber cfg then retA (Returned (Some (qs @ [q])))
                   else collectSequences ?env cfg k (n + 1) (qs @ [q])))) ?Q (worldI ?I)" for closed
  proof (cases "closed \<and> IsBatchClosed n db = Ok True")
    case True
    show ?thesis
      using True by (simp only: simp_thms if_False)
        (rule ensures_conseq[OF ensures_bind[OF newSeq ensures_bind[OF quiet.estimate_keeps rest]]], simp_all)
  next
    case False
    then show ?thesis
      by (auto simp: ensures_def retA_def)
  qed
  show ?case
    unfolding collectSequences.simps
    using ensures_bind[OF callS_keepsW[OF quiet.closed_law] body] by (auto intro: ensures_fail)
qed simp

subsection \<open>No panic\<close>

definition noPanic :: "('s, 'e, 'a) act \<Rightarrow> bool" where
  "noPanic m \<longleftrightarrow> (\<forall>s. fst (m s) \<noteq> Panic)"

lemma noPanic_basic: "noPanic (retA a)" "noPanic (failA e)" "noPanic (callW q)"
  by (auto simp: noPanic_def retA_def failA_def callW_def askA_def split: prod.splits)

lemma noPanic_bind: "noPanic m \<Longrightarrow> (\<And>a. noPanic (k a)) \<Longrightarrow> noPanic (bindA m k)"
  by (simp add: noPanic_def bindA_def split: prod.split outcome.split) (metis fst_conv)

lemma noPanic_callS: "noPanic (callS q)"
  unfolding callS_def by (auto intro!: noPanic_bind noPanic_basic split: sum.split)

lemma noPanic_collect: "noPanic (collectSequences env cfg n k qs)"
proof (induction n arbitrary: k qs)
  case (Suc n)
  have newSeq: "noPanic (newSequence env m)" for m
    unfolding newSequence_def by (auto intro!: noPanic_bind noPanic_basic noPanic_callS split: option.split)
  have after: "noPanic (afterEstimateErr env cfg (qs @ [q]) m err)" for q m err
    by (auto simp: afterEstimateErr_def estimateSequences_def handleEstimateGasSendSequenceErr_def
        intro!: noPanic_bind noPanic_basic split: sum.split)
  show ?case
    by (auto simp: estimateSequences_def intro!: noPanic_bind noPanic_basic noPanic_callS newSeq after Suc.IH split: option.split)
qed (simp add: noPanic_basic)

lemma noPanic_getSequences: "noPanic (getSequencesToSend env cfg n)"
  unfolding getSequencesToSend_def worthSending_def
  by (auto intro!: noPanic_bind noPanic_basic noPanic_callS noPanic_collect split: collected.split)

subsection \<open>Which batches are sent\<close>

lemma card_rowsFrom: "card (rowsFrom db n) \<le> fcard (fmdom (db_batch db))"
proof -
  have "rowsFrom db n \<subseteq> fset (fmdom (db_batch db))"
    by (auto simp: rowsFrom_def)
  then show ?thesis
    by (simp add: fcard.rep_eq card_mono)
qed

lemma getSequences_finishes:
  fixes ec :: "'x ethermanCalls"
  assumes "fcard (fmdom (db_batch db)) < n"
  shows "ensures (worldI (\<lambda>w. fst w = db)) (getSequencesToSend (quietEnv up ec) cfg n) (\<lambda>r s. r \<noteq> None) (\<lambda>_. True)"
  unfolding getSequencesToSend_def
proof (rule ensures_bind[OF ensures_conseq[OF callS_keepsW[OF quiet.virtual_law]]], assumption, assumption, simp, rule ensures_bind)
  fix v
  have "card (rowsFrom db (v + 1)) < n"
    using assms card_rowsFrom[of db "v + 1"] by simp
  from collect_finishes[OF this] show "ensures (\<lambda>s. fst (cl_world s) = db \<and> (\<forall>v'. Inr v = Inr v' \<longrightarrow> GetLastVirtualBatchNum db = Ok v'))
      (collectSequences (quietEnv up ec) cfg n (v + 1) []) (\<lambda>c s. fst (cl_world s) = db \<and> c \<noteq> Unfinished) (\<lambda>_. True)"
    by (rule ensures_conseq) simp_all
next
  fix c
  have worth: "ensures (worldI (\<lambda>w. fst w = db)) (bindA (worthSending (quietEnv up ec) cfg qs) (\<lambda>r. retA (Some r)))
      (\<lambda>r s. r \<noteq> None) (\<lambda>_. True)" for qs
    by (rule ensures_bind[OF ensures_conseq[OF quiet.worthSending_good[of "\<lambda>_. True"]]]) (auto intro!: ensures_ret)
  show "ensures (\<lambda>s. fst (cl_world s) = db \<and> c \<noteq> Unfinished)
      (case c of Unfinished \<Rightarrow> retA None | Returned qs \<Rightarrow> retA (Some qs)
       | Reached qs \<Rightarrow> bindA (worthSending (quietEnv up ec) cfg qs) (\<lambda>r. retA (Some r))) (\<lambda>r s. r \<noteq> None) (\<lambda>_. True)"
  proof (cases c)
    case (Reached qs)
    show ?thesis
      unfolding Reached collected.case by (rule ensures_conseq[OF worth]) simp_all
  next
    case (Returned qs)
    then show ?thesis by (auto intro!: ensures_ret)
  qed (simp add: ensures_def)
qed

subsection \<open>An L1 node that accepts everything\<close>

text \<open>The sequence of a stored batch, and that it can be read.\<close>

definition seqAt :: "stateDB \<Rightarrow> u64 \<Rightarrow> Sequence" where
  "seqAt db n =
     (case GetBatchByNumber n db of
        Ok b \<Rightarrow> sequenceOf b (case bt_ForcedBatchNum b of
                   None \<Rightarrow> 0
                 | Some f \<Rightarrow> (case GetForcedBatch f db of Ok fb \<Rightarrow> unix (fb_ForcedAt fb) | _ \<Rightarrow> 0))
      | _ \<Rightarrow> undefined)"

definition readable :: "stateDB \<Rightarrow> u64 \<Rightarrow> bool" where
  "readable db n \<longleftrightarrow> IsBatchClosed n db = Ok True \<and>
     (\<exists>b. GetBatchByNumber n db = Ok b \<and> (\<forall>f. bt_ForcedBatchNum b = Some f \<longrightarrow> (\<exists>fb. GetForcedBatch f db = Ok fb)))"

text \<open>Every estimation fits, and the clock stands still.\<close>

definition accepting :: "seqCfg \<Rightarrow> time \<Rightarrow> 'x ethermanCalls \<Rightarrow> bool" where
  "accepting cfg now ec \<longleftrightarrow>
     (\<forall>a qs c x. \<exists>k x'. ec_Estimate ec a qs c x = (Inr k, x') \<and> k \<le> MaxTxSizeForL1 cfg) \<and> (\<forall>x. fst (ec_now ec x) = now)"

abbreviation upEnv :: "'x ethermanCalls \<Rightarrow> (stateDB \<times> 'x) seqEnv" where
  "upEnv ec \<equiv> quietEnv (\<lambda>_. True) ec"

lemma dbQuery_up:
  "dbQuery (\<lambda>w. w) (\<lambda>_. True) fst q w = ((case q (fst w) of Ok a \<Rightarrow> Inr a | Err e \<Rightarrow> Inl e | Panic \<Rightarrow> Inl pgConnection), w)"
  by (simp add: dbQuery_def)

lemma callW_up: "callW (dbQuery (\<lambda>w. w) (\<lambda>_. True) fst q) s =
    (Ok (case q (fst (cl_world s)) of Ok a \<Rightarrow> Inr a | Err e \<Rightarrow> Inl e | Panic \<Rightarrow> Inl pgConnection), s)"
  by (simp add: callW_def askA_def dbQuery_up)

lemma callS_up: "callS (dbQuery (\<lambda>w. w) (\<lambda>_. True) fst q) s =
    (case q (fst (cl_world s)) of Ok a \<Rightarrow> (Ok a, s) | Err e \<Rightarrow> (Err (seqState e), s) | Panic \<Rightarrow> (Err (seqState pgConnection), s))"
  by (simp add: callS_def bindA_def callW_up retA_def failA_def split: outcome.split)

lemmas quiet_calls = quietEnv_def dbEnv_def callW_up callS_up

lemma newSequence_up:
  assumes "readable db n" "fst (cl_world s) = db"
  shows "newSequence (upEnv ec) n s = (Ok (seqAt db n), s)"
  using assms by (auto simp: newSequence_def bindA_def quiet_calls readable_def seqAt_def retA_def split: option.split)

lemma beside_world:
  assumes "ec_Estimate ec a qs c (snd (cl_world s)) = (r, x)"
  shows "callW (beside (ec_Estimate ec a qs c)) s = (Ok r, s\<lparr>cl_world := (fst (cl_world s), x)\<rparr>)"
  using assms by (simp add: callW_def askA_def beside_def)

lemma collect_up:
  assumes acc: "accepting cfg now ec" and fork: "ForkUpgradeBatchNumber cfg = 0"
  shows "(\<forall>i<k. readable db (n + of_nat i)) \<Longrightarrow> fst (cl_world s) = db \<Longrightarrow>
    \<exists>s'. fst (cl_world s') = db \<and> collectSequences (upEnv ec) cfg (k + m) n qs s =
      collectSequences (upEnv ec) cfg m (n + of_nat k) (qs @ map (\<lambda>i. seqAt db (n + of_nat i)) [0..<k]) s'"
proof (induction k arbitrary: n qs s)
  case (Suc k)
  have r0: "readable db n"
    using Suc.prems(1) by force
  have rest: "\<forall>i<k. readable db (n + 1 + of_nat i)"
    using Suc.prems(1) by (force simp: algebra_simps dest: spec[of _ "Suc _"])
  let ?qs = "qs @ [seqAt db n]"
  obtain sz x where est: "ec_Estimate ec (SenderAddress cfg) ?qs (L2Coinbase cfg) (snd (cl_world s)) = (Inr sz, x)" "sz \<le> MaxTxSizeForL1 cfg"
    using acc unfolding accepting_def by blast
  let ?s = "s\<lparr>cl_world := (fst (cl_world s), x)\<rparr>"
  have e: "estimateSequences (upEnv ec) cfg ?qs s = (Ok (Inr sz), ?s)"
    using beside_world[OF est(1)] by (simp add: estimateSequences_def quietEnv_def dbEnv_def)
  have closed: "callS (se_IsBatchClosed (upEnv ec) n) s = (Ok True, s)"
    using r0 Suc.prems(2) by (simp add: quiet_calls readable_def)
  have step: "collectSequences (upEnv ec) cfg (Suc k + m) n qs s = collectSequences (upEnv ec) cfg (k + m) (n + 1) ?qs ?s"
  proof -
    have "estimateError cfg (Inr sz) = None"
      using est(2) by (simp add: estimateError_def)
    then show ?thesis
      by (simp add: fork bindA_def closed newSequence_up[OF r0 Suc.prems(2)] e)
  qed
  have "fst (cl_world ?s) = db"
    using Suc.prems(2) by simp
  then obtain s' where s': "fst (cl_world s') = db" "collectSequences (upEnv ec) cfg (k + m) (n + 1) ?qs ?s =
      collectSequences (upEnv ec) cfg m (n + 1 + of_nat k) (?qs @ map (\<lambda>i. seqAt db (n + 1 + of_nat i)) [0..<k]) s'"
    using Suc.IH[OF rest] by blast
  have list: "map (\<lambda>i. seqAt db (n + of_nat i)) [0..<Suc k] = seqAt db n # map (\<lambda>i. seqAt db (n + 1 + of_nat i)) [0..<k]"
    by (simp add: upt_conv_Cons map_Suc_upt[symmetric] comp_def algebra_simps del: upt_Suc)
  have "n + of_nat (Suc k) = n + 1 + of_nat k"
    by simp
  then show ?case
    using s' step unfolding list by (intro exI[of _ s']) (simp only: append_assoc append.simps)
qed auto

lemma chain_readable:
  assumes ok: "db_ok db" "chain_ok db" and m: "GetLastBatchNumber db = Ok m" and b: "b \<le> m" "IsBatchClosed b db = Ok True"
  shows "readable db b"
proof -
  obtain r where r: "fmlookup (db_batch db) b = Some r" "GetBatchByNumber b db = Ok (scanBatch b r)"
    using chain_reads[OF ok m b(1)] by blast
  have "\<exists>fb. GetForcedBatch f db = Ok fb" if f: "bt_ForcedBatchNum (scanBatch b r) = Some f" for f
  proof -
    obtain q where q: "fmlookup (db_forced db) f = Some q"
      using db_okD(4)[OF ok(1) r(1), of f] f by (auto simp: scanBatch_def in_fmdom)
    then show ?thesis
      using db_okD(2)[OF ok(1) q] by (auto simp: GetForcedBatch_def decodeForced_def)
  qed
  then show ?thesis
    using r(2) b(2) by (simp add: readable_def)
qed

definition lastVirtualTime :: "stateDB \<Rightarrow> time" where
  "lastVirtualTime db = (case GetTimeForLatestBatchVirtualization db of Ok t \<Rightarrow> t | _ \<Rightarrow> goZeroTime)"

lemma worthSending_up:
  assumes "accepting cfg now ec" "fst (cl_world s) = db"
  shows "fst (worthSending (upEnv ec) cfg qs s) =
    Ok (if qs \<noteq> [] \<and> lastVirtualTime db < now - LastBatchVirtualizationTimeMaxWaitPeriod cfg then Some qs else None)"
proof -
  have now: "fst (ec_now ec x) = now" for x
    using assms(1) by (simp add: accepting_def)
  have "GetTimeForLatestBatchVirtualization db = Err e \<Longrightarrow> e = ErrObjectNotFound" for e
    by (auto simp: GetTimeForLatestBatchVirtualization_def split: option.splits)
  moreover have "GetTimeForLatestBatchVirtualization db \<noteq> Panic"
    by (auto simp: GetTimeForLatestBatchVirtualization_def split: option.splits)
  ultimately show ?thesis
    using now[of "snd (cl_world s)"] assms(2)
    by (cases "GetTimeForLatestBatchVirtualization db")
      (auto simp: worthSending_def bindA_def quiet_calls retA_def lastVirtualTime_def callW_def[of "beside _"] askA_def beside_def
        split: prod.splits)
qed

lemma getSequences_up:
  assumes acc: "accepting cfg now ec" and fork: "ForkUpgradeBatchNumber cfg = 0" and s: "fst (cl_world s) = db"
    and v: "GetLastVirtualBatchNum db = Ok v" and closed: "\<forall>i<k. readable db (v + 1 + of_nat i)" and n: "k < n"
  shows "IsBatchClosed (v + 1 + of_nat k) db = Ok False \<Longrightarrow> fst (getSequencesToSend (upEnv ec) cfg n s) =
      Ok (Some (if k \<noteq> 0 \<and> lastVirtualTime db < now - LastBatchVirtualizationTimeMaxWaitPeriod cfg
        then Some (map (\<lambda>i. seqAt db (v + 1 + of_nat i)) [0..<k]) else None))"
    "IsBatchClosed (v + 1 + of_nat k) db = Err e \<Longrightarrow> fst (getSequencesToSend (upEnv ec) cfg n s) = Err (seqState e)"
proof -
  let ?qs = "map (\<lambda>i. seqAt db (v + 1 + of_nat i)) [0..<k]"
  obtain m where m: "n = k + Suc m"
    using n less_iff_Suc_add by auto
  obtain s' where s': "fst (cl_world s') = db" "collectSequences (upEnv ec) cfg n (v + 1) [] s =
      collectSequences (upEnv ec) cfg (Suc m) (v + 1 + of_nat k) ?qs s'"
    using collect_up[OF acc fork closed s, of "Suc m" "[]"] m by auto
  have virtual: "callS (se_GetLastVirtualBatchNum (upEnv ec)) s = (Ok v, s)"
    using s v by (simp add: quiet_calls)
  have last: "callS (se_IsBatchClosed (upEnv ec) (v + 1 + of_nat k)) s' =
      (case IsBatchClosed (v + 1 + of_nat k) db of Ok c \<Rightarrow> (Ok c, s') | Err e \<Rightarrow> (Err (seqState e), s') | Panic \<Rightarrow> (Err (seqState pgConnection), s'))"
    using s'(1) by (simp add: quiet_calls)
  have worth: "fst (bindA (worthSending (upEnv ec) cfg ?qs) (\<lambda>r. retA (Some r)) s') =
      Ok (Some (if k \<noteq> 0 \<and> lastVirtualTime db < now - LastBatchVirtualizationTimeMaxWaitPeriod cfg then Some ?qs else None))"
    using worthSending_up[OF acc s'(1), of ?qs] by (cases "worthSending (upEnv ec) cfg ?qs s'") (simp add: bindA_def retA_def)
  have run: "getSequencesToSend (upEnv ec) cfg n s = bindA (collectSequences (upEnv ec) cfg (Suc m) (v + 1 + of_nat k) ?qs) (\<lambda>c.
      case c of Unfinished \<Rightarrow> retA None | Returned qs \<Rightarrow> retA (Some qs)
      | Reached qs \<Rightarrow> bindA (worthSending (upEnv ec) cfg qs) (\<lambda>r. retA (Some r))) s'"
    unfolding getSequencesToSend_def bindA_def[of "callS _"] virtual prod.case outcome.case by (simp only: bindA_def s'(2))
  show "fst (getSequencesToSend (upEnv ec) cfg n s) =
      Ok (Some (if k \<noteq> 0 \<and> lastVirtualTime db < now - LastBatchVirtualizationTimeMaxWaitPeriod cfg then Some ?qs else None))"
    if c: "IsBatchClosed (v + 1 + of_nat k) db = Ok False"
  proof -
    have "collectSequences (upEnv ec) cfg (Suc m) (v + 1 + of_nat k) ?qs s' = (Ok (Reached ?qs), s')"
      by (simp add: fork bindA_def last c retA_def)
    then show ?thesis
      unfolding run bindA_def[of "collectSequences _ _ _ _ _"] by (simp only: prod.case outcome.case collected.case worth)
  qed
  show "fst (getSequencesToSend (upEnv ec) cfg n s) = Err (seqState e)" if c: "IsBatchClosed (v + 1 + of_nat k) db = Err e"
  proof -
    have "collectSequences (upEnv ec) cfg (Suc m) (v + 1 + of_nat k) ?qs s' = (Err (seqState e), s')"
      by (simp add: fork bindA_def last c)
    then show ?thesis
      unfolding run bindA_def[of "collectSequences _ _ _ _ _"] by simp
  qed
qed

text \<open>The numbers from the last virtual batch to the last batch.\<close>

lemma after_number:
  fixes v m :: u64
  assumes "unat m < 2 ^ 63" "i \<le> unat m - unat v" "v < m"
  shows "unat (v + 1 + of_nat i) = unat v + 1 + i"
  using assms by (simp add: unat_word_ariths unat_of_nat word_less_nat_alt)

lemma after_last:
  fixes v m :: u64
  assumes "unat m < 2 ^ 63" "v < m"
  shows "v + 1 + of_nat (unat m - unat v - 1) = m" "v + 1 + of_nat (unat m - unat v) = m + 1"
    "(unat m - unat v - 1 \<noteq> 0) = (v + 1 \<noteq> m)"
proof -
  have uv: "unat v < unat m"
    using assms(2) by (simp add: word_less_nat_alt)
  have m1: "unat (m + 1) = unat m + 1"
    using assms(1) by (simp add: unat_word_ariths)
  show "v + 1 + of_nat (unat m - unat v - 1) = m" "v + 1 + of_nat (unat m - unat v) = m + 1"
    using after_number[OF assms(1) _ assms(2)] uv m1 by (simp_all add: word_unat_eq_iff add.commute[of 1 m])
  show "(unat m - unat v - 1 \<noteq> 0) = (v + 1 \<noteq> m)"
    using after_number[OF assms(1) _ assms(2), of 0] uv by (auto simp: word_unat_eq_iff)
qed

lemma readable_after:
  assumes ok: "db_ok db" "chain_ok db" and m: "GetLastBatchNumber db = Ok m" "fmlookup (db_batch db) m = Some r" and less: "v < m"
    and i: "i < unat m - unat v" "\<not> br_wip r \<or> i < unat m - unat v - 1"
  shows "readable db (v + 1 + of_nat i)"
proof -
  let ?b = "v + 1 + of_nat i"
  have um: "unat m < 2 ^ 63"
    using db_okD(3)[OF ok(1) m(2)] by (simp add: int8_def)
  have num: "unat ?b = unat v + 1 + i"
    using after_number[OF um _ less] i(1) by simp
  then have le: "?b \<le> m"
    using i(1) by (simp add: word_le_nat_alt)
  obtain q where q: "fmlookup (db_batch db) ?b = Some q" "IsBatchClosed ?b db = Ok (\<not> br_wip q)" "?b < m \<longrightarrow> \<not> br_wip q"
    using chain_reads[OF ok m(1) le] by blast
  have "\<not> br_wip q"
  proof (cases "?b = m")
    case True
    then show ?thesis using q(1) m(2) i num by auto
  next
    case False
    then show ?thesis using q(3) le by auto
  qed
  then show ?thesis
    using chain_readable[OF ok m(1) le] q(2) by simp
qed

lemma no_batch_after:
  assumes ok: "db_ok db" and m: "GetLastBatchNumber db = Ok m" "fmlookup (db_batch db) m = Some r"
  shows "IsBatchClosed (m + 1) db = Err (if int8 (m + 1) then pgNoRows else pgInt8Range)"
proof -
  have "m + 1 |\<notin>| fmdom (db_batch db)"
  proof
    assume "m + 1 |\<in>| fmdom (db_batch db)"
    then have "unat (m + 1) \<le> unat m"
      using m(1) word_le_nat_alt by (auto simp: GetLastBatchNumber_def lastKey_Some split: option.splits)
    then show False
      using db_okD(3)[OF ok m(2)] by (simp add: int8_def unat_word_ariths)
  qed
  then show ?thesis
    by (simp add: IsBatchClosed_def fmdom_notD)
qed

subsection \<open>Properties\<close>


text \<open>C36: when the L1 node accepts every estimation and no fork upgrade is set, the sender collects exactly the closed
  batches after the last virtual one, if the batch after them is open: it sends all of them when the
  last sequence is older than the configured period, and nothing otherwise.  If the last batch of
  the database is closed, so that no batch is open, collecting fails and nothing is sent,
  although there are closed batches.\<close>

theorem getSequencesToSend_exact:
  assumes ok: "db_ok db" "chain_ok db" and acc: "accepting cfg now ec" and fork: "ForkUpgradeBatchNumber cfg = 0"
    and v: "GetLastVirtualBatchNum db = Ok v" and m: "GetLastBatchNumber db = Ok m" and less: "v < m"
    and row: "fmlookup (db_batch db) m = Some r" and s: "fst (cl_world s) = db" and n: "unat m - unat v < n"
  shows "fst (getSequencesToSend (quietEnv (\<lambda>_. True) ec) cfg n s) =
    (if br_wip r
     then Ok (Some (if v + 1 \<noteq> m \<and> lastVirtualTime db < now - LastBatchVirtualizationTimeMaxWaitPeriod cfg
       then Some (map (\<lambda>i. seqAt db (v + 1 + of_nat i)) [0..<unat m - unat v - 1]) else None))
     else Err (seqState (if int8 (m + 1) then pgNoRows else pgInt8Range)))"
proof -
  have um: "unat m < 2 ^ 63"
    using db_okD(3)[OF ok(1) row] by (simp add: int8_def)
  note nums = after_last[OF um less] and closed = readable_after[OF ok m row less]
  show ?thesis
  proof (cases "br_wip r")
    case True
    then have "IsBatchClosed (v + 1 + of_nat (unat m - unat v - 1)) db = Ok False"
      unfolding nums using row db_okD(3)[OF ok(1) row] by (simp add: IsBatchClosed_def)
    then show ?thesis
      using getSequences_up(1)[OF acc fork s v, of "unat m - unat v - 1" n] closed True n nums(3) by simp
  next
    case False
    have "IsBatchClosed (v + 1 + of_nat (unat m - unat v)) db = Err (if int8 (m + 1) then pgNoRows else pgInt8Range)"
      unfolding nums by (rule no_batch_after[OF ok(1) m row])
    then show ?thesis
      using getSequences_up(2)[OF acc fork s v, of "unat m - unat v" n] closed False n by simp
  qed
qed


text \<open>Over any number of cycles, with the monitoring of the transaction manager running while the sender waits,
  there is never more than one pending transaction of the sender, if there was at most one at the start.\<close>

lemma Start_one_pending:
  assumes "textLib_ok tlib" "env_ok eenv" "cfg_ok ecfg" "table_ok tlib (cl_rows s)" "onlyPending tlib j s"
    and "startCycles tlib eenv ecfg (\<lambda>s. snd (monitorTxs tlib eenv ecfg s)) (\<lambda>s. snd (monitorTxs tlib eenv ecfg s))
      (dbEnv others up dbOf ec) scfg n k s = Some (e, s')"
  shows "\<exists>j. onlyPending tlib j s'"
  using startCycles_onlyPending[OF assms] by blast

subsection \<open>Sample runs\<close>

text \<open>The genesis batch, a closed batch and an open one; then the same without the open one.\<close>

definition genesisBatch :: Batch where
  "genesisBatch =
     \<lparr>bt_BatchNumber = 0, bt_Coinbase = 0, bt_BatchL2Data = [], bt_StateRoot = 0, bt_LocalExitRoot = 0, bt_AccInputHash = 0,
      bt_Timestamp = 0, bt_GlobalExitRoot = 0, bt_ForcedBatchNum = None,
      bt_Resources = \<lparr>ZKCounters = zeroCounters, Bytes = 0\<rparr>, bt_WIP = False\<rparr>"

definition closedReceipt :: ProcessingReceipt where
  "closedReceipt =
     \<lparr>rt_BatchNumber = 1, rt_StateRoot = 5, rt_LocalExitRoot = 6, rt_AccInputHash = 7, rt_BatchL2Data = [1, 2],
      rt_ClosingReason = [], rt_BatchResources = \<lparr>ZKCounters = zeroCounters, Bytes = 2\<rparr>\<rparr>"

definition openContext :: "u64 \<Rightarrow> ProcessingContext" where
  "openContext n =
     \<lparr>pc_BatchNumber = n, pc_Coinbase = 3, pc_Timestamp = 9, pc_GlobalExitRoot = 0, pc_ForcedBatchNum = None, pc_BatchL2Data = None\<rparr>"

definition sampleDB :: stateDB where
  "sampleDB =
     dbRun [opStoreGenesisBatch genesisBatch, opOpenBatch True (openContext 1), opCloseBatch True closedReceipt,
            opOpenBatch True (openContext 2)] emptyDB"

lemmas sampleDB_defs =
  sampleDB_def emptyDB_def StoreGenesisBatch_def OpenBatch_def OpenBatchInStorage_def insertBatch_def checkNextBatch_def
  GetLastBatchNumber_def IsBatchClosed_def GetLastBatchTime_def CloseBatch_def isBatchClosable_def CloseBatchInStorage_def updateBatch_def
  lastKey_def int8_def unix_def pgTime_def genesisBatch_def closedReceipt_def openContext_def

lemma sampleDB_reads:
  "fmdom (db_batch sampleDB) = {|2, 1, 0|}" "GetLastVirtualBatchNum sampleDB = Ok 0"
  "\<exists>r. fmlookup (db_batch sampleDB) 2 = Some r \<and> br_wip r"
  "\<exists>r. fmlookup (db_batch sampleDB) 1 = Some r \<and> \<not> br_wip r \<and> br_forced r = None"
  by (simp_all add: sampleDB_defs GetLastVirtualBatchNum_def)

lemma sampleDB_ok: "db_ok sampleDB" "chain_ok sampleDB"
proof -
  have "db_ok sampleDB \<and> chain_ok sampleDB"
    unfolding sampleDB_def by (rule dbRun_invariant[of "\<lambda>db. db_ok db \<and> chain_ok db"])
      (auto intro: db_ok_step chain_ok_step simp: db_ok_empty chain_ok_empty)
  then show "db_ok sampleDB" "chain_ok sampleDB" by simp_all
qed

lemma sampleDB_last: "GetLastBatchNumber sampleDB = Ok 2"
  by (simp add: GetLastBatchNumber_def lastKey_def sampleDB_reads(1))

definition sampleCalls :: "unit ethermanCalls" where
  "sampleCalls =
     \<lparr>ec_Estimate = \<lambda>a qs c x. (Inr 100, x), ec_Build = \<lambda>a qs c x. (Inr (Some 9, Some [1, 2]), x), ec_Latest = \<lambda>x. (Inr 0, x),
      ec_now = \<lambda>x. (5000, x)\<rparr>"

definition sampleSeqCfg :: seqCfg where
  "sampleSeqCfg =
     \<lparr>LastBatchVirtualizationTimeMaxWaitPeriod = 100, MaxTxSizeForL1 = 1000, SenderAddress = 7, L2Coinbase = 8,
      ForkUpgradeBatchNumber = 0, GasOffset = 10\<rparr>"

lemma sampleCalls_accept: "accepting sampleSeqCfg 5000 sampleCalls"
  by (simp add: accepting_def sampleCalls_def sampleSeqCfg_def)

definition sampleState :: "(stateDB \<times> unit) client" where
  "sampleState = \<lparr>cl_rows = [], cl_world = (sampleDB, ())\<rparr>"

lemma sampleDB_time: "lastVirtualTime sampleDB = goZeroTime"
  by (simp add: lastVirtualTime_def GetTimeForLatestBatchVirtualization_def sampleDB_defs)

theorem getSequencesToSend_exact_witness:
  "fst (getSequencesToSend (quietEnv (\<lambda>_. True) sampleCalls) sampleSeqCfg 3 sampleState) = Ok (Some (Some [seqAt sampleDB 1]))"
proof -
  obtain r where r: "fmlookup (db_batch sampleDB) 2 = Some r" "br_wip r"
    using sampleDB_reads(3) by blast
  show ?thesis
    using getSequencesToSend_exact[OF sampleDB_ok sampleCalls_accept _ sampleDB_reads(2) sampleDB_last _ r(1), of sampleState 3] r(2)
    by (simp add: sampleSeqCfg_def sampleState_def sampleDB_time goZeroTime_def)
qed


text \<open>A cycle on the sample database, with the L1 node that mines everything.\<close>

abbreviation sampleEnv :: "unit seqEnv" where
  "sampleEnv \<equiv> dbEnv (\<lambda>_. ()) (\<lambda>_. True) (\<lambda>_. sampleDB) sampleCalls"

lemma sample_call:
  "callW (dbQuery (\<lambda>_. ()) (\<lambda>_. True) (\<lambda>_. sampleDB) q) (s :: unit client) =
    (Ok (case q sampleDB of Ok a \<Rightarrow> Inr a | Err e \<Rightarrow> Inl e | Panic \<Rightarrow> Inl pgConnection), s)"
  by (cases s) (simp add: callW_def askA_def dbQuery_def)

lemma sample_answer: "callW (Pair a) (s :: unit client) = (Ok a, s)"
  by (cases s) (simp add: callW_def askA_def)

lemma sample_sequences:
  "isSynced sampleEnv s = (Ok True, s)"
  "\<exists>q. getSequencesToSend sampleEnv sampleSeqCfg 4 s = (Ok (Some (Some [q])), s)"
proof -
  show "isSynced sampleEnv s = (Ok True, s)"
    by (simp add: isSynced_def bindA_def dbEnv_def sample_call sampleDB_reads(2) sampleDB_last Let_def retA_def)
  obtain r where r: "fmlookup (db_batch sampleDB) 1 = Some r" "\<not> br_wip r" "br_forced r = None"
    using sampleDB_reads(4) by blast
  have closed: "IsBatchClosed 1 sampleDB = Ok True" "IsBatchClosed 2 sampleDB = Ok False"
    "GetBatchByNumber 1 sampleDB = Ok (scanBatch 1 r)"
    using r sampleDB_reads(3) by (auto simp: IsBatchClosed_def GetBatchByNumber_def int8_def)
  have time: "GetTimeForLatestBatchVirtualization sampleDB = Err ErrObjectNotFound"
    by (simp add: GetTimeForLatestBatchVirtualization_def sampleDB_defs)
  have calls: "callS (se_GetLastVirtualBatchNum sampleEnv) s = (Ok 0, s)" "callS (se_IsBatchClosed sampleEnv 1) s = (Ok True, s)"
    "callS (se_IsBatchClosed sampleEnv 2) s = (Ok False, s)"
    by (simp_all add: callS_def bindA_def dbEnv_def sample_call retA_def closed sampleDB_reads(2))
  have seq: "newSequence sampleEnv 1 s = (Ok (sequenceOf (scanBatch 1 r) 0), s)"
    using r(3) by (simp add: newSequence_def callS_def bindA_def dbEnv_def sample_call closed scanBatch_def retA_def)
  have est: "estimateSequences sampleEnv sampleSeqCfg qs s = (Ok (Inr 100), s)" "estimateError sampleSeqCfg (Inr 100) = None" for qs
    by (simp_all add: estimateSequences_def dbEnv_def sampleCalls_def sample_answer estimateError_def sampleSeqCfg_def)
  have worth: "worthSending sampleEnv sampleSeqCfg [q] s = (Ok (Some [q]), s)" for q
    by (simp add: worthSending_def bindA_def dbEnv_def sample_call time sampleCalls_def sample_answer retA_def sampleSeqCfg_def goZeroTime_def)
  have fork: "ForkUpgradeBatchNumber sampleSeqCfg = 0"
    by (simp add: sampleSeqCfg_def)
  have "collectSequences sampleEnv sampleSeqCfg (Suc m) 2 qs s = (Ok (Reached qs), s)" for m qs
    by (simp add: bindA_def calls fork retA_def)
  then have "collectSequences sampleEnv sampleSeqCfg (Suc (Suc m)) 1 [] s = (Ok (Reached [sequenceOf (scanBatch 1 r) 0]), s)" for m
    by (simp add: bindA_def calls seq est fork)
  from this[of 2] show "\<exists>q. getSequencesToSend sampleEnv sampleSeqCfg 4 s = (Ok (Some (Some [q])), s)"
    by (simp add: getSequencesToSend_def bindA_def calls worth retA_def)
qed

lemma sample_send:
  "\<exists>s'. sendSequences sampleLib miningEnv sampleCfg sampleEnv sampleSeqCfg [q] \<lparr>cl_rows = [], cl_world = ()\<rparr> = (Ok (), s') \<and> cl_rows s' \<noteq> []"
proof -
  let ?add = "etm_Add sampleLib miningEnv sampleCfg ethTxManagerOwner (sequenceTxID (sq_BatchNumber q) (sq_BatchNumber q)) 7 (Some 9) None (Some [1, 2]) 10
    \<lparr>cl_rows = [], cl_world = ()\<rparr>"
  obtain s' where "?add = (Ok (), s')" "cl_rows s' \<noteq> []"
    by (simp add: etm_Add_def suggestedGasPrice_def Let_def act_defs callE_def callW_def writeDB_def ms_Add_def miningEnv_def
        blockNumberU64Ptr_def bigint_ok_def)
  then show ?thesis
    by (simp add: sendSequences_def bindA_def dbEnv_def sample_call sampleDB_reads(2) sampleCalls_def sample_answer sampleSeqCfg_def tryA_def retA_def)
qed

lemma sample_cycle:
  "\<exists>s'. tryToSendSequence sampleLib miningEnv sampleCfg (\<lambda>s. snd (monitorTxs sampleLib miningEnv sampleCfg s)) sampleEnv sampleSeqCfg 4
     \<lparr>cl_rows = [], cl_world = ()\<rparr> = Some (Again, s') \<and> cl_rows s' \<noteq> []"
proof -
  let ?s = "\<lparr>cl_rows = [], cl_world = ()\<rparr>"
  have "ResultsByStatus sampleLib miningEnv ethTxManagerOwner pendingStatuses ?s = (Ok [], ?s)"
    by (simp add: ResultsByStatus_def readDB_def bindA_def callW_def askA_def miningEnv_def ms_GetByStatus_def retA_def)
  then have p: "ProcessPendingMonitoredTxs sampleLib miningEnv sl onResult ethTxManagerOwner 4 False ?s = Some (False, ?s)" for sl
    by (simp add: numeral_eq_Suc)
  obtain q where q: "getSequencesToSend sampleEnv sampleSeqCfg 4 ?s = (Ok (Some (Some [q])), ?s)"
    using sample_sequences(2) by blast
  obtain s4 where "sendSequences sampleLib miningEnv sampleCfg sampleEnv sampleSeqCfg [q] ?s = (Ok (), s4)" "cl_rows s4 \<noteq> []"
    using sample_send by blast
  then show ?thesis
    by (simp add: tryToSendSequence_def p sample_sequences(1) q)
qed

lemma sample_table: "table_ok sampleLib (cl_rows \<lparr>cl_rows = [], cl_world = ()\<rparr>)" "onlyPending sampleLib None \<lparr>cl_rows = [], cl_world = ()\<rparr>"
  by (simp_all add: table_ok_def onlyPending_def statusAt_def mtxAt_def image_iff)


end
