(* ===== verification/Aggregator.thy ===== *)
theory Aggregator
  imports BatchChain BlockRanges EthTxManager
begin

text \<open>
  The aggregator (\<open>aggregator/aggregator.go\<close>, \<open>aggregator/profitabilitychecker.go\<close>): every connected
  prover has a goroutine that looks for a proof to finish, for two proofs to aggregate and for a batch
  to prove, and one more goroutine sends the final proofs to L1.  They share the table of proofs, in which
  a row is locked while its proof is being generated.  The goroutines are program counters with
  the proofs they work on; a step is a statement or a transaction on the database, or an answer of a
  prover.  Any statement may fail.
\<close>

subsection \<open>Configuration and variables\<close>

datatype ProfitabilityChecker = TxProfitabilityCheckerBase int | TxProfitabilityCheckerAcceptAll

text \<open>An unknown type leaves the checker nil.\<close>

definition newChecker :: "string \<Rightarrow> int \<Rightarrow> ProfitabilityChecker option" where
  "newChecker kind minReward =
     (if kind = ''base'' then Some (TxProfitabilityCheckerBase minReward)
      else if kind = ''acceptall'' then Some TxProfitabilityCheckerAcceptAll
      else None)"

fun IsProfitable :: "ProfitabilityChecker \<Rightarrow> int \<Rightarrow> bool" where
  "IsProfitable (TxProfitabilityCheckerBase minReward) polCollateral = (polCollateral \<ge> minReward)"
| "IsProfitable TxProfitabilityCheckerAcceptAll polCollateral = True"

record aggCfg =
  cfg_checker :: "ProfitabilityChecker option"
  cfg_VerifyProofInterval :: duration

record aggVars =
  TimeSendFinalProof :: time
  verifyingProof :: bool

definition canVerifyProof :: "time \<Rightarrow> aggVars \<Rightarrow> bool" where
  "canVerifyProof now v \<longleftrightarrow> TimeSendFinalProof v < now \<and> \<not> verifyingProof v"

definition startProofVerification :: "aggVars \<Rightarrow> aggVars" where
  "startProofVerification v = v\<lparr>verifyingProof := True\<rparr>"

definition endProofVerification :: "aggVars \<Rightarrow> aggVars" where
  "endProofVerification v = v\<lparr>verifyingProof := False\<rparr>"

definition resetVerifyProofTime :: "aggCfg \<Rightarrow> time \<Rightarrow> aggVars \<Rightarrow> aggVars" where
  "resetVerifyProofTime cfg now v = v\<lparr>TimeSendFinalProof := now + cfg_VerifyProofInterval cfg\<rparr>"

subsection \<open>Operations on the proofs\<close>

text \<open>\<open>time.Now().Round(time.Microsecond)\<close>\<close>

definition roundMicro :: "time \<Rightarrow> time" where
  "roundMicro t = (t + 500) div 1000 * 1000"

definition lockProof :: "time \<Rightarrow> Proof \<Rightarrow> Proof" where
  "lockProof now p = p\<lparr>pf_GeneratingSince := Some (roundMicro now)\<rparr>"

definition unlockProof :: "Proof \<Rightarrow> Proof" where
  "unlockProof p = p\<lparr>pf_GeneratingSince := None\<rparr>"

text \<open>The answer of L1 is \<open>None\<close> when the call fails.\<close>

definition agg_isSynced :: "u64 option \<Rightarrow> u64 option \<Rightarrow> stateDB \<Rightarrow> bool" where
  "agg_isSynced batchNum lastVerifiedEthBatchNum db \<longleftrightarrow>
     (case GetLastVerifiedBatch db of
        Ok v \<Rightarrow> (case batchNum of None \<Rightarrow> True | Some n \<Rightarrow> \<not> vf_BatchNumber v < n) \<and>
                (case lastVerifiedEthBatchNum of None \<Rightarrow> False | Some e \<Rightarrow> \<not> vf_BatchNumber v < e)
      | _ \<Rightarrow> False)"

definition lastVerifiedNum :: "stateDB \<Rightarrow> u64" where
  "lastVerifiedNum db = (case GetLastVerifiedBatch db of Ok v \<Rightarrow> vf_BatchNumber v | _ \<Rightarrow> 0)"

definition validateEligibleFinalProof :: "Proof \<Rightarrow> u64 \<Rightarrow> stateDB \<Rightarrow> (StateError, bool \<times> stateDB) outcome" where
  "validateEligibleFinalProof proof lastVerifiedBatchNum db =
     (let batchNumberToVerify = lastVerifiedBatchNum + 1;
          complete = bind_outcome (CheckProofContainsCompleteSequences proof db) (\<lambda>bComplete. Ok (bComplete, db))
      in if pf_BatchNumber proof \<noteq> batchNumberToVerify then
           if pf_BatchNumber proof < batchNumberToVerify \<and> pf_BatchNumberFinal proof \<ge> batchNumberToVerify then complete
           else if pf_BatchNumberFinal proof < batchNumberToVerify then
             bind_outcome (DeleteGeneratedProofs (pf_BatchNumber proof) (pf_BatchNumberFinal proof) db) (\<lambda>db'. Ok (False, db'))
           else Ok (False, db)
         else complete)"

text \<open>A row that \<open>GetProofReadyToVerify\<close> may return, and a pair that \<open>GetProofsToAggregate\<close> may return.\<close>

definition readyToVerify :: "u64 \<Rightarrow> stateDB \<Rightarrow> Proof \<Rightarrow> bool" where
  "readyToVerify lastVerifiedBatchNum db p \<longleftrightarrow>
     (\<exists>b bf. fmlookup (db_proof db) (b, bf) = Some p \<and> b = lastVerifiedBatchNum + 1 \<and> pf_GeneratingSince p = None \<and>
        completeSequences b bf db)"

definition readyToAggregate :: "stateDB \<Rightarrow> Proof \<Rightarrow> Proof \<Rightarrow> bool" where
  "readyToAggregate db p1 p2 \<longleftrightarrow>
     (\<exists>k1 k2. fmlookup (db_proof db) k1 = Some p1 \<and> fmlookup (db_proof db) k2 = Some p2 \<and> aggregatable db k1 k2)"

definition lockProofs :: "time \<Rightarrow> Proof \<Rightarrow> Proof \<Rightarrow> stateDB \<Rightarrow> (StateError, stateDB) outcome" where
  "lockProofs now p1 p2 db =
     bind_outcome (UpdateGeneratedProof now (lockProof now p1) db) (\<lambda>db1. UpdateGeneratedProof now (lockProof now p2) db1)"

definition unlockProofsToAggregate :: "time \<Rightarrow> Proof \<Rightarrow> Proof \<Rightarrow> stateDB \<Rightarrow> (StateError, stateDB) outcome" where
  "unlockProofsToAggregate now p1 p2 db =
     bind_outcome (UpdateGeneratedProof now (unlockProof p1) db) (\<lambda>db1. UpdateGeneratedProof now (unlockProof p2) db1)"

text \<open>A new proof record, and the record of two proofs that are aggregated.\<close>

definition newProof :: "u64 \<Rightarrow> u64 \<Rightarrow> string \<Rightarrow> string \<Rightarrow> string \<Rightarrow> Proof" where
  "newProof b bf name proverID input =
     \<lparr>pf_BatchNumber = b, pf_BatchNumberFinal = bf, pf_Proof = [], pf_InputProver = input, pf_ProofID = None, pf_Prover = Some name,
      pf_ProverID = Some proverID, pf_GeneratingSince = None, pf_CreatedAt = 0, pf_UpdatedAt = 0\<rparr>"

definition aggregatedProof :: "Proof \<Rightarrow> Proof \<Rightarrow> string \<Rightarrow> string \<Rightarrow> string \<Rightarrow> string \<Rightarrow> string \<Rightarrow> Proof" where
  "aggregatedProof p1 p2 name proverID input proofID recursiveProof =
     (newProof (pf_BatchNumber p1) (pf_BatchNumberFinal p2) name proverID input)\<lparr>pf_ProofID := Some proofID, pf_Proof := recursiveProof\<rparr>"

definition storeAggregated :: "time \<Rightarrow> Proof \<Rightarrow> Proof \<Rightarrow> Proof \<Rightarrow> stateDB \<Rightarrow> (StateError, stateDB) outcome" where
  "storeAggregated now p1 p2 proof db =
     bind_outcome (DeleteGeneratedProofs (pf_BatchNumber p1) (pf_BatchNumberFinal p2) db) (\<lambda>db1.
     AddGeneratedProof now (lockProof now proof) db1)"

subsection \<open>The key of a verification transaction\<close>

definition buildMonitoredTxID :: "u64 \<Rightarrow> u64 \<Rightarrow> string" where
  "buildMonitoredTxID batchNumber batchNumberFinal =
     ''proof-from-'' @ decimalText (unat batchNumber) @ ''-to-'' @ decimalText (unat batchNumberFinal)"

text \<open>\<open>strings.Split(s, "-")\<close>\<close>

fun splitDash :: "string \<Rightarrow> string list" where
  "splitDash [] = [[]]"
| "splitDash (c # cs) =
     (if c = CHR ''-'' then [] # splitDash cs
      else case splitDash cs of [] \<Rightarrow> [[c]] | w # ws \<Rightarrow> (c # w) # ws)"

text \<open>
  \<open>strconv.ParseUint(s, 10, 0)\<close>: the value and whether there was an error.  The value is 0 for a text that is
  not a number and the greatest number for one that is too big.
\<close>

definition isDigit :: "char \<Rightarrow> bool" where
  "isDigit c \<longleftrightarrow> 48 \<le> (of_char c :: nat) \<and> (of_char c :: nat) \<le> 57"

definition decimalValue :: "string \<Rightarrow> nat" where
  "decimalValue cs = foldl (\<lambda>v c. 10 * v + (of_char c - 48)) 0 cs"

definition ParseUint :: "string \<Rightarrow> u64 \<times> bool" where
  "ParseUint cs =
     (if cs = [] \<or> \<not> list_all isDigit cs then (0, True)
      else if decimalValue cs < 2 ^ 64 then (of_nat (decimalValue cs), False)
      else (- 1, True))"

text \<open>The numbers that \<open>handleMonitoredTxResult\<close> reads from the key; too few parts are an index out of range.\<close>

definition proofRange :: "string \<Rightarrow> (StateError, u64 \<times> u64) outcome" where
  "proofRange ID =
     (let idSlice = splitDash ID
      in if length idSlice < 5 then Panic else Ok (fst (ParseUint (idSlice ! 2)), fst (ParseUint (idSlice ! 4))))"

subsection \<open>The goroutines\<close>

text \<open>
  The program counters of a prover's goroutine: the three turns of the loop in \<open>Channel\<close>, and the
  points inside \<open>tryBuildFinalProof\<close>, \<open>tryAggregateProofs\<close> and \<open>tryGenerateBatchProof\<close>, with the proofs
  that the local variables hold there.
\<close>

datatype proverPC =
    AtFinal
  | FinalWait "Proof option"
  | FinalSynced "Proof option"
  | TryVerify u64
  | VerifyRead Proof
  | BuildVerify Proof
  | SendVerify Proof
  | UnlockVerify Proof
  | AtAggregate
  | AggregateRead Proof Proof
  | Aggregate Proof Proof
  | UnlockAggregate Proof Proof
  | AtBatch
  | BatchVerified u64
  | BatchRead Batch
  | ProveBatch Proof
  | DropBatch Proof
  | Generated Proof
  | TryGenerated Proof u64
  | BuildGenerated Proof
  | SendGenerated Proof
  | StoreGenerated Proof
  | Crashed
  | Stopped

datatype senderPC = SenderWait | SenderGot Proof | SenderUnlock Proof | SenderMonitor | SenderSync u64 | SenderCleanup u64 | SenderDead

record aggState =
  ag_db :: stateDB
  ag_vars :: aggVars
  ag_prover :: "nat \<Rightarrow> proverPC"
  ag_sender :: senderPC

text \<open>\<open>StateDBMutex\<close> is held between reading the rows and locking them.\<close>

fun inMutex :: "proverPC \<Rightarrow> bool" where
  "inMutex (VerifyRead p) = True"
| "inMutex (AggregateRead p1 p2) = True"
| "inMutex (BatchVerified n) = True"
| "inMutex (BatchRead b) = True"
| "inMutex _ = False"

definition mutexFree :: "aggState \<Rightarrow> bool" where
  "mutexFree s \<longleftrightarrow> (\<forall>j. \<not> inMutex (ag_prover s j))"

definition goto :: "nat \<Rightarrow> proverPC \<Rightarrow> aggState \<Rightarrow> aggState" where
  "goto i pc s = s\<lparr>ag_prover := (ag_prover s)(i := pc)\<rparr>"

definition setDB :: "stateDB \<Rightarrow> aggState \<Rightarrow> aggState" where
  "setDB db s = s\<lparr>ag_db := db\<rparr>"

text \<open>What the rest of the node does to the database: everything but the proofs and the resets.\<close>

fun syncOp :: "dbOp \<Rightarrow> bool" where
  "syncOp (opAddGeneratedProof now p) = False"
| "syncOp (opUpdateGeneratedProof now p) = False"
| "syncOp (opDeleteGeneratedProofs b bf) = False"
| "syncOp (opCleanupGeneratedProofs n) = False"
| "syncOp (opCleanupLockedProofs iv now d) = False"
| "syncOp opDeleteUngeneratedProofs = False"
| "syncOp (opReset n) = False"
| "syncOp (opResetTrustedState n) = False"
| "syncOp (opResetForkID n) = False"
| "syncOp _ = True"

text \<open>
  The steps.  A rule with an outcome \<open>Ok\<close> is the normal end of a statement; the rule beside it that goes
  on without it is its failure.  First \<open>tryBuildFinalProof\<close> with \<open>getAndLockProofReadyToVerify\<close>, called with
  nil (\<open>final\<close>, \<open>verify\<close>) or with the proof just generated (\<open>generated\<close>).
\<close>

inductive final_step :: "aggState \<Rightarrow> aggState \<Rightarrow> bool" where
  final_skip: "ag_prover s i = AtFinal \<Longrightarrow> final_step s (goto i AtAggregate s)"
| final_turn: "ag_prover s i = AtFinal \<Longrightarrow> canVerifyProof now (ag_vars s) \<Longrightarrow> final_step s (goto i (FinalWait None) s)"
| final_synced: "ag_prover s i = FinalWait po \<Longrightarrow> agg_isSynced None eth (ag_db s) \<Longrightarrow> final_step s (goto i (FinalSynced po) s)"
| final_last: "ag_prover s i = FinalSynced None \<Longrightarrow> final_step s (goto i (TryVerify (lastVerifiedNum (ag_db s))) s)"
| final_last_err: "ag_prover s i = FinalSynced None \<Longrightarrow> final_step s (goto i AtAggregate s)"
| verify_none: "ag_prover s i = TryVerify n \<Longrightarrow> final_step s (goto i AtAggregate s)"
| verify_read: "ag_prover s i = TryVerify n \<Longrightarrow> mutexFree s \<Longrightarrow> readyToVerify n (ag_db s) p \<Longrightarrow> final_step s (goto i (VerifyRead p) s)"
| verify_lock: "ag_prover s i = VerifyRead p \<Longrightarrow> UpdateGeneratedProof now (lockProof now p) (ag_db s) = Ok db \<Longrightarrow>
    final_step s (goto i (BuildVerify (lockProof now p)) (setDB db s))"
| verify_lock_err: "ag_prover s i = VerifyRead p \<Longrightarrow> final_step s (goto i AtAggregate s)"
| verify_built: "ag_prover s i = BuildVerify p \<Longrightarrow> final_step s (goto i (SendVerify (p\<lparr>pf_ProofID := Some finalProofID\<rparr>)) s)"
| verify_failed: "ag_prover s i = BuildVerify p \<Longrightarrow> final_step s (goto i (UnlockVerify (p\<lparr>pf_ProofID := proofID\<rparr>)) s)"
| verify_sent: "ag_prover s i = SendVerify p \<Longrightarrow> ag_sender s = SenderWait \<Longrightarrow>
    final_step s (goto i AtAggregate (s\<lparr>ag_sender := SenderGot p, ag_vars := startProofVerification (ag_vars s)\<rparr>))"
| verify_unlock: "ag_prover s i = UnlockVerify p \<Longrightarrow> UpdateGeneratedProof now (unlockProof p) (ag_db s) = Ok db \<Longrightarrow>
    final_step s (goto i AtAggregate (setDB db s))"
| verify_unlock_err: "ag_prover s i = UnlockVerify p \<Longrightarrow> final_step s (goto i AtAggregate s)"
| generated_last: "ag_prover s i = FinalSynced (Some p) \<Longrightarrow> final_step s (goto i (TryGenerated p (lastVerifiedNum (ag_db s))) s)"
| generated_last_err: "ag_prover s i = FinalSynced (Some p) \<Longrightarrow> final_step s (goto i (StoreGenerated p) s)"
| generated_valid: "ag_prover s i = TryGenerated p n \<Longrightarrow> validateEligibleFinalProof p n (ag_db s) = Ok (eligible, db) \<Longrightarrow>
    final_step s (goto i (if eligible then BuildGenerated p else StoreGenerated p) (setDB db s))"
| generated_valid_err: "ag_prover s i = TryGenerated p n \<Longrightarrow> final_step s (goto i (StoreGenerated p) s)"
| generated_built: "ag_prover s i = BuildGenerated p \<Longrightarrow> final_step s (goto i (SendGenerated (p\<lparr>pf_ProofID := Some finalProofID\<rparr>)) s)"
| generated_failed: "ag_prover s i = BuildGenerated p \<Longrightarrow> final_step s (goto i (StoreGenerated (p\<lparr>pf_ProofID := proofID\<rparr>)) s)"
| generated_sent: "ag_prover s i = SendGenerated p \<Longrightarrow> ag_sender s = SenderWait \<Longrightarrow>
    final_step s (goto i AtFinal (s\<lparr>ag_sender := SenderGot p, ag_vars := startProofVerification (ag_vars s)\<rparr>))"

text \<open>\<open>tryAggregateProofs\<close> with \<open>getAndLockProofsToAggregate\<close>, up to the commit of the aggregated proof.\<close>

inductive aggregate_step :: "aggState \<Rightarrow> aggState \<Rightarrow> bool" where
  aggregate_none: "ag_prover s i = AtAggregate \<Longrightarrow> aggregate_step s (goto i AtBatch s)"
| aggregate_read: "ag_prover s i = AtAggregate \<Longrightarrow> mutexFree s \<Longrightarrow> readyToAggregate (ag_db s) p1 p2 \<Longrightarrow>
    aggregate_step s (goto i (AggregateRead p1 p2) s)"
| aggregate_lock: "ag_prover s i = AggregateRead p1 p2 \<Longrightarrow> lockProofs now p1 p2 (ag_db s) = Ok db \<Longrightarrow>
    aggregate_step s (goto i (Aggregate (lockProof now p1) (lockProof now p2)) (setDB db s))"
| aggregate_lock_err: "ag_prover s i = AggregateRead p1 p2 \<Longrightarrow> aggregate_step s (goto i AtBatch s)"
| aggregate_done: "ag_prover s i = Aggregate p1 p2 \<Longrightarrow> p = aggregatedProof p1 p2 name proverID input proofID recursiveProof \<Longrightarrow>
    storeAggregated now p1 p2 p (ag_db s) = Ok db \<Longrightarrow> aggregate_step s (goto i (Generated (lockProof now p)) (setDB db s))"
| aggregate_failed: "ag_prover s i = Aggregate p1 p2 \<Longrightarrow> aggregate_step s (goto i (UnlockAggregate p1 p2) s)"
| aggregate_unlock: "ag_prover s i = UnlockAggregate p1 p2 \<Longrightarrow> unlockProofsToAggregate now p1 p2 (ag_db s) = Ok db \<Longrightarrow>
    aggregate_step s (goto i AtBatch (setDB db s))"
| aggregate_unlock_err: "ag_prover s i = UnlockAggregate p1 p2 \<Longrightarrow> aggregate_step s (goto i AtBatch s)"

text \<open>\<open>getAndLockBatchToProve\<close> and \<open>tryGenerateBatchProof\<close>, up to the generated proof.\<close>

inductive batch_step :: "aggCfg \<Rightarrow> aggState \<Rightarrow> aggState \<Rightarrow> bool" for cfg where
  batch_none: "ag_prover s i = AtBatch \<Longrightarrow> batch_step cfg s (goto i AtFinal s)"
| batch_verified: "ag_prover s i = AtBatch \<Longrightarrow> mutexFree s \<Longrightarrow> GetLastVerifiedBatch (ag_db s) = Ok v \<Longrightarrow>
    batch_step cfg s (goto i (BatchVerified (vf_BatchNumber v)) s)"
| batch_missing: "ag_prover s i = BatchVerified n \<Longrightarrow> batch_step cfg s (goto i AtFinal s)"
| batch_read: "ag_prover s i = BatchVerified n \<Longrightarrow> GetVirtualBatchToProve n (ag_db s) = Ok b \<Longrightarrow>
    cfg_checker cfg = Some c \<Longrightarrow> IsProfitable c 0 \<Longrightarrow> batch_step cfg s (goto i (BatchRead b) s)"
| batch_unprofitable: "ag_prover s i = BatchVerified n \<Longrightarrow> GetVirtualBatchToProve n (ag_db s) = Ok b \<Longrightarrow>
    (case cfg_checker cfg of None \<Rightarrow> True | Some c \<Rightarrow> \<not> IsProfitable c 0) \<Longrightarrow> batch_step cfg s (goto i Crashed s)"
| batch_lock: "ag_prover s i = BatchRead b \<Longrightarrow> p = newProof (bt_BatchNumber b) (bt_BatchNumber b) name proverID [] \<Longrightarrow>
    AddGeneratedProof now (lockProof now p) (ag_db s) = Ok db \<Longrightarrow> batch_step cfg s (goto i (ProveBatch (lockProof now p)) (setDB db s))"
| batch_lock_err: "ag_prover s i = BatchRead b \<Longrightarrow> batch_step cfg s (goto i AtFinal s)"
| batch_proved: "ag_prover s i = ProveBatch p \<Longrightarrow>
    batch_step cfg s (goto i (Generated (p\<lparr>pf_InputProver := input, pf_ProofID := Some proofID, pf_Proof := proof\<rparr>)) s)"
| batch_failed: "ag_prover s i = ProveBatch p \<Longrightarrow> batch_step cfg s (goto i (DropBatch p) s)"
| batch_drop: "ag_prover s i = DropBatch p \<Longrightarrow> DeleteGeneratedProofs (pf_BatchNumber p) (pf_BatchNumberFinal p) (ag_db s) = Ok db \<Longrightarrow>
    batch_step cfg s (goto i AtFinal (setDB db s))"
| batch_drop_err: "ag_prover s i = DropBatch p \<Longrightarrow> batch_step cfg s (goto i AtFinal s)"

text \<open>The end of both: a try to build the final proof, and otherwise unlocking the generated one.\<close>

inductive store_step :: "aggState \<Rightarrow> aggState \<Rightarrow> bool" where
  generated_skip: "ag_prover s i = Generated p \<Longrightarrow> store_step s (goto i (StoreGenerated p) s)"
| generated_turn: "ag_prover s i = Generated p \<Longrightarrow> canVerifyProof now (ag_vars s) \<Longrightarrow> store_step s (goto i (FinalWait (Some p)) s)"
| generated_store: "ag_prover s i = StoreGenerated p \<Longrightarrow> UpdateGeneratedProof now (unlockProof p) (ag_db s) = Ok db \<Longrightarrow>
    store_step s (goto i AtFinal (setDB db s))"
| generated_store_err: "ag_prover s i = StoreGenerated p \<Longrightarrow> store_step s (goto i AtFinal s)"
| aggregated_store_err: "ag_prover s i = StoreGenerated p \<Longrightarrow> store_step s (goto i AtBatch s)"

text \<open>\<open>sendFinalProof\<close>, \<open>handleFailureToAddVerifyBatchToBeMonitored\<close> and \<open>handleMonitoredTxResult\<close>.\<close>

inductive sender_step :: "aggCfg \<Rightarrow> aggState \<Rightarrow> aggState \<Rightarrow> bool" for cfg where
  send_no_batch: "ag_sender s = SenderGot p \<Longrightarrow>
    sender_step cfg s (s\<lparr>ag_sender := SenderWait, ag_vars := endProofVerification (ag_vars s)\<rparr>)"
| send_failed: "ag_sender s = SenderGot p \<Longrightarrow> sender_step cfg s (s\<lparr>ag_sender := SenderUnlock p\<rparr>)"
| send_unlock: "ag_sender s = SenderUnlock p \<Longrightarrow> UpdateGeneratedProof now (unlockProof p) (ag_db s) = Ok db \<Longrightarrow>
    sender_step cfg s (setDB db (s\<lparr>ag_sender := SenderWait, ag_vars := endProofVerification (ag_vars s)\<rparr>))"
| send_unlock_err: "ag_sender s = SenderUnlock p \<Longrightarrow>
    sender_step cfg s (s\<lparr>ag_sender := SenderWait, ag_vars := endProofVerification (ag_vars s)\<rparr>)"
| send_added: "ag_sender s = SenderGot p \<Longrightarrow> GetBatchByNumber (pf_BatchNumberFinal p) (ag_db s) = Ok b \<Longrightarrow>
    sender_step cfg s (s\<lparr>ag_sender := SenderMonitor\<rparr>)"
| result_ok: "ag_sender s = SenderMonitor \<Longrightarrow> status \<noteq> MonitoredTxStatusFailed \<Longrightarrow> proofRange ID = Ok (b, bf) \<Longrightarrow>
    sender_step cfg s (s\<lparr>ag_sender := SenderSync bf\<rparr>)"
| result_failed: "ag_sender s = SenderMonitor \<Longrightarrow> status = MonitoredTxStatusFailed \<or> proofRange ID = Panic \<Longrightarrow>
    sender_step cfg s (s\<lparr>ag_sender := SenderDead\<rparr>)"
| result_synced: "ag_sender s = SenderSync bf \<Longrightarrow> agg_isSynced (Some bf) eth (ag_db s) \<Longrightarrow>
    sender_step cfg s (s\<lparr>ag_sender := SenderCleanup bf\<rparr>)"
| result_cleanup: "ag_sender s = SenderCleanup bf \<Longrightarrow> CleanupGeneratedProofs bf (ag_db s) = Ok db \<Longrightarrow>
    sender_step cfg s (setDB db (s\<lparr>ag_sender := SenderMonitor\<rparr>))"
| result_cleanup_err: "ag_sender s = SenderCleanup bf \<Longrightarrow> sender_step cfg s (s\<lparr>ag_sender := SenderMonitor\<rparr>)"
| send_end: "ag_sender s = SenderMonitor \<Longrightarrow>
    sender_step cfg s (s\<lparr>ag_sender := SenderWait, ag_vars := endProofVerification (resetVerifyProofTime cfg now (ag_vars s))\<rparr>)"

text \<open>All of them, and the rest of the node.\<close>

inductive agg_step :: "aggCfg \<Rightarrow> aggState \<Rightarrow> aggState \<Rightarrow> bool" for cfg where
  final: "final_step s s' \<Longrightarrow> agg_step cfg s s'"
| aggregate: "aggregate_step s s' \<Longrightarrow> agg_step cfg s s'"
| batch: "batch_step cfg s s' \<Longrightarrow> agg_step cfg s s'"
| store: "store_step s s' \<Longrightarrow> agg_step cfg s s'"
| sender: "sender_step cfg s s' \<Longrightarrow> agg_step cfg s s'"
| sync: "syncOp op \<Longrightarrow> dbExec op (ag_db s) = Ok db \<Longrightarrow> agg_step cfg s (setDB db s)"

text \<open>
  The process stops at any point, and \<open>Start\<close>: the results of pending transactions are handled first (the
  steps of \<open>SenderMonitor\<close> above, while no prover is connected), then the locked proofs are deleted.
\<close>

inductive restart_step :: "aggCfg \<Rightarrow> aggState \<Rightarrow> aggState \<Rightarrow> bool" for cfg where
  stop: "restart_step cfg s (s\<lparr>ag_prover := \<lambda>_. Stopped, ag_sender := SenderMonitor\<rparr>)"
| started: "ag_sender s = SenderMonitor \<Longrightarrow> ag_prover s = (\<lambda>_. Stopped) \<Longrightarrow> DeleteUngeneratedProofs (ag_db s) = Ok db \<Longrightarrow>
    restart_step cfg s \<lparr>ag_db = db, ag_vars = resetVerifyProofTime cfg now \<lparr>TimeSendFinalProof = 0, verifyingProof = False\<rparr>,
      ag_prover = \<lambda>_. AtFinal, ag_sender = SenderWait\<rparr>"

text \<open>\<open>cleanupLockedProofs\<close>: the other goroutine, which removes rows that have been locked for too long.\<close>

inductive expire_step :: "aggState \<Rightarrow> aggState \<Rightarrow> bool" where
  expire: "CleanupLockedProofs interval now duration (ag_db s) = Ok db \<Longrightarrow> expire_step s (setDB db s)"

end
