(* ===== verification/AggregatorSafe.thy ===== *)
theory AggregatorSafe
  imports Aggregator
begin

text \<open>
  No batch that is still to be verified is covered by two proofs, whatever the interleaving of the provers,
  the sender and the synchronizer.  The first part is about claims on the rows of a table in general, the
  second applies it to the goroutines.
\<close>

subsection \<open>Claims\<close>

text \<open>
  The holders of claims, the keys of the rows they work on, whether a holder is inside the mutex, and
  whether it has reserved a key that has no row yet.
\<close>

record ('h, 'k) claims =
  cl_keys :: "'h \<Rightarrow> 'k set"
  cl_mutex :: "'h \<Rightarrow> bool"
  cl_reserved :: "'h \<Rightarrow> bool"

text \<open>\<open>claim h K m r\<close> gives a holder the keys \<open>K\<close> and the two flags.\<close>

definition claim :: "'h \<Rightarrow> 'k set \<Rightarrow> bool \<Rightarrow> bool \<Rightarrow> ('h, 'k) claims \<Rightarrow> ('h, 'k) claims" where
  "claim h K m r C =
     C\<lparr>cl_keys := (cl_keys C)(h := K), cl_mutex := (cl_mutex C)(h := m), cl_reserved := (cl_reserved C)(h := r)\<rparr>"

lemma claim_sel [simp]:
  "cl_keys (claim h K m r C) h' = (if h' = h then K else cl_keys C h')"
  "cl_mutex (claim h K m r C) h' = (if h' = h then m else cl_mutex C h')"
  "cl_reserved (claim h K m r C) h' = (if h' = h then r else cl_reserved C h')"
  by (simp_all add: claim_def)

text \<open>
  Keys that may conflict: \<open>S k k'\<close> means that they do not, \<open>low k\<close> that \<open>k\<close> conflicts with nothing.  The rows
  have a lock.
\<close>

locale row_claims =
  fixes S :: "'k \<Rightarrow> 'k \<Rightarrow> bool" and low :: "'k \<Rightarrow> bool" and locked :: "'r \<Rightarrow> bool"
  assumes sep_sym: "S k k' \<Longrightarrow> S k' k" and sep_self: "S k k \<Longrightarrow> low k" and low_sep: "low k \<Longrightarrow> S k k'"
begin

text \<open>
  Different rows, different holders, and a claim and the row of another key do not conflict; a
  claim without a row is low or reserved; a claimed row is locked once its holder has left the mutex; and
  one holder is inside the mutex.
\<close>

definition claims_ok :: "('k \<rightharpoonup> 'r) \<Rightarrow> ('h, 'k) claims \<Rightarrow> bool" where
  "claims_ok rows C \<longleftrightarrow>
     (\<forall>k k' p p'. rows k = Some p \<longrightarrow> rows k' = Some p' \<longrightarrow> k \<noteq> k' \<longrightarrow> S k k') \<and>
     (\<forall>h h' k k'. h \<noteq> h' \<longrightarrow> k \<in> cl_keys C h \<longrightarrow> k' \<in> cl_keys C h' \<longrightarrow> S k k') \<and>
     (\<forall>h k k' p. k \<in> cl_keys C h \<longrightarrow> rows k' = Some p \<longrightarrow> k' \<noteq> k \<longrightarrow> S k k') \<and>
     (\<forall>h k. k \<in> cl_keys C h \<longrightarrow> \<not> cl_reserved C h \<longrightarrow> rows k = None \<longrightarrow> low k) \<and>
     (\<forall>h k p. k \<in> cl_keys C h \<longrightarrow> \<not> cl_mutex C h \<longrightarrow> rows k = Some p \<longrightarrow> \<not> low k \<longrightarrow> locked p) \<and>
     (\<forall>h h'. cl_mutex C h \<longrightarrow> cl_mutex C h' \<longrightarrow> h = h') \<and>
     (\<forall>h. cl_reserved C h \<longrightarrow> cl_mutex C h)"

lemma claims_okD:
  assumes "claims_ok rows C"
  shows "rows k = Some p \<Longrightarrow> rows k' = Some p' \<Longrightarrow> k \<noteq> k' \<Longrightarrow> S k k'"
    "h \<noteq> h' \<Longrightarrow> k \<in> cl_keys C h \<Longrightarrow> k' \<in> cl_keys C h' \<Longrightarrow> S k k'"
    "k \<in> cl_keys C h \<Longrightarrow> rows k' = Some p \<Longrightarrow> k' \<noteq> k \<Longrightarrow> S k k'"
    "k \<in> cl_keys C h \<Longrightarrow> \<not> cl_reserved C h \<Longrightarrow> rows k = None \<Longrightarrow> low k"
    "k \<in> cl_keys C h \<Longrightarrow> \<not> cl_mutex C h \<Longrightarrow> rows k = Some p \<Longrightarrow> \<not> low k \<Longrightarrow> locked p"
    "cl_mutex C h \<Longrightarrow> cl_mutex C h' \<Longrightarrow> h = h'"
    "cl_reserved C h \<Longrightarrow> cl_mutex C h"
  using assms unfolding claims_ok_def by meson+

lemma claims_okI:
  assumes "\<And>k k' p p'. rows k = Some p \<Longrightarrow> rows k' = Some p' \<Longrightarrow> k \<noteq> k' \<Longrightarrow> S k k'"
    "\<And>h h' k k'. h \<noteq> h' \<Longrightarrow> k \<in> cl_keys C h \<Longrightarrow> k' \<in> cl_keys C h' \<Longrightarrow> S k k'"
    "\<And>h k k' p. k \<in> cl_keys C h \<Longrightarrow> rows k' = Some p \<Longrightarrow> k' \<noteq> k \<Longrightarrow> S k k'"
    "\<And>h k. k \<in> cl_keys C h \<Longrightarrow> \<not> cl_reserved C h \<Longrightarrow> rows k = None \<Longrightarrow> low k"
    "\<And>h k p. k \<in> cl_keys C h \<Longrightarrow> \<not> cl_mutex C h \<Longrightarrow> rows k = Some p \<Longrightarrow> \<not> low k \<Longrightarrow> locked p"
    "\<And>h h'. cl_mutex C h \<Longrightarrow> cl_mutex C h' \<Longrightarrow> h = h'"
    "\<And>h. cl_reserved C h \<Longrightarrow> cl_mutex C h"
  shows "claims_ok rows C"
  unfolding claims_ok_def using assms by blast

text \<open>Letting go.\<close>

lemma claims_drop: "claims_ok rows C \<Longrightarrow> claims_ok rows (claim h {} False False C)"
  by (rule claims_okI) (auto dest: claims_okD split: if_splits)

text \<open>Writing to own rows: letting go afterwards, or leaving the mutex with the rows locked.\<close>

lemma claims_write_drop:
  assumes ok: "claims_ok rows C" and own: "\<And>k. k \<notin> cl_keys C h \<Longrightarrow> rows' k = rows k"
    and same: "\<And>k. rows' k = None \<longleftrightarrow> rows k = None"
  shows "claims_ok rows' (claim h {} False False C)"
proof -
  have old: "\<exists>q. rows k = Some q" if "rows' k = Some p" for k p
    using same[of k] that by auto
  have other: "low k \<or> rows' k = rows k" if "h' \<noteq> h" "k \<in> cl_keys C h'" for h' k
    using own[of k] claims_okD(2)[OF ok that(1,2), of k] sep_self by blast
  show ?thesis
  proof (rule claims_okI)
    fix h' k p
    assume "k \<in> cl_keys (claim h {} False False C) h'" "\<not> cl_mutex (claim h {} False False C) h'" "rows' k = Some p" "\<not> low k"
    then show "locked p"
      using other[of h' k] claims_okD(5)[OF ok, of k h'] by (auto split: if_splits)
  qed (use same in \<open>auto dest!: old dest: claims_okD[OF ok] split: if_splits\<close>)
qed

lemma claims_lock:
  assumes ok: "claims_ok rows C" and own: "\<And>k. k \<notin> cl_keys C h \<Longrightarrow> rows' k = rows k"
    and same: "\<And>k. rows' k = None \<longleftrightarrow> rows k = None" and r: "\<not> cl_reserved C h"
    and l: "\<And>k p. k \<in> cl_keys C h \<Longrightarrow> rows' k = Some p \<Longrightarrow> locked p"
  shows "claims_ok rows' (claim h (cl_keys C h) False False C)"
proof -
  have old: "\<exists>q. rows k = Some q" if "rows' k = Some p" for k p
    using same[of k] that by auto
  show ?thesis
  proof (rule claims_okI)
    fix h' k p
    assume k: "k \<in> cl_keys (claim h (cl_keys C h) False False C) h'" "\<not> cl_mutex (claim h (cl_keys C h) False False C) h'"
      "rows' k = Some p" "\<not> low k"
    show "locked p"
    proof (cases "k \<in> cl_keys C h")
      case True
      then show ?thesis using l k(3) by blast
    next
      case False
      then show ?thesis using own k claims_okD(5)[OF ok, of k h'] by (auto split: if_splits)
    qed
  qed (use same r in \<open>auto dest!: old dest: claims_okD[OF ok] split: if_splits\<close>)
qed

text \<open>Taking rows that are not locked, inside the mutex.\<close>

lemma claims_take:
  assumes ok: "claims_ok rows C" and free: "\<And>h. \<not> cl_mutex C h"
    and K: "\<And>k. k \<in> K \<Longrightarrow> \<exists>p. rows k = Some p \<and> \<not> locked p"
  shows "claims_ok rows (claim h K True False C)"
proof -
  have sep_K: "S k k'" if "k \<in> K" "k' \<in> cl_keys C h'" for k k' h'
  proof (cases "k = k'")
    case True
    have "low k'"
      using K[OF that(1)] claims_okD(5)[OF ok that(2) free] True by auto
    then show ?thesis
      using True low_sep by simp
  next
    case False
    then show ?thesis
      using K[OF that(1)] claims_okD(3)[OF ok that(2)] sep_sym by blast
  qed
  show ?thesis
    by (rule claims_okI)
      (use free in \<open>auto dest: claims_okD[OF ok] K intro: sep_K sep_sym[OF sep_K] split: if_splits\<close>)
qed

text \<open>Reserving a key that conflicts with no row, and giving it its row.\<close>

lemma claims_reserve:
  assumes ok: "claims_ok rows C" and free: "\<And>h. \<not> cl_mutex C h" and k: "\<And>k' p. rows k' = Some p \<Longrightarrow> S k k'"
  shows "claims_ok rows (claim h {k} True True C)"
proof -
  have sep: "S k k'" if "k' \<in> cl_keys C h'" for k' h'
  proof (cases "rows k'")
    case None
    have "\<not> cl_reserved C h'"
      using free claims_okD(7)[OF ok] by blast
    then show ?thesis
      using claims_okD(4)[OF ok that _ None] low_sep sep_sym by blast
  qed (use k in blast)
  show ?thesis
    by (rule claims_okI) (use free k in \<open>auto dest: claims_okD[OF ok] intro: sep sep_sym[OF sep] split: if_splits\<close>)
qed

lemma claims_insert:
  assumes ok: "claims_ok rows C" and k: "cl_keys C h = {k}" and p: "locked p"
  shows "claims_ok (rows(k \<mapsto> p)) (claim h {k} False False C)"
proof -
  have row: "S k k'" if "rows k' = Some q" "k' \<noteq> k" for k' q
    using claims_okD(3)[OF ok, of k h k'] k that by simp
  have other: "S k k'" if "h' \<noteq> h" "k' \<in> cl_keys C h'" for h' k'
    using claims_okD(2)[OF ok, of h h' k k'] k that by simp
  show ?thesis
    by (rule claims_okI)
      (use p in \<open>auto dest: claims_okD[OF ok] intro: row sep_sym[OF row] other sep_sym[OF other] split: if_splits\<close>)
qed

text \<open>Deleting rows: those of nobody's concern, and own ones.\<close>

lemma claims_prune:
  assumes ok: "claims_ok rows C" and D: "\<And>k p. D k \<Longrightarrow> rows k = Some p \<Longrightarrow> low k"
  shows "claims_ok (\<lambda>k. if D k then None else rows k) C"
  by (rule claims_okI) (use D in \<open>auto dest: claims_okD[OF ok] split: if_splits\<close>, metis claims_okD(4) ok not_None_eq)

lemma claims_delete:
  assumes ok: "claims_ok rows C" and D: "\<And>k p. D k \<Longrightarrow> rows k = Some p \<Longrightarrow> low k \<or> k \<in> cl_keys C h"
  shows "claims_ok (\<lambda>k. if D k then None else rows k) (claim h {} False False C)"
proof -
  have gone: "low k" if "h' \<noteq> h" "k \<in> cl_keys C h'" "\<not> cl_reserved C h'" "D k" for h' k
  proof (cases "rows k")
    case None
    then show ?thesis using claims_okD(4)[OF ok that(2,3)] by blast
  next
    case (Some p)
    then show ?thesis
      using D[OF that(4)] claims_okD(2)[OF ok that(1,2)] sep_self by blast
  qed
  show ?thesis
    by (rule claims_okI) (use gone in \<open>auto dest: claims_okD[OF ok] split: if_splits\<close>)
qed

text \<open>Replacing two rows by one for both.\<close>

lemma claims_merge:
  assumes ok: "claims_ok rows C" and keys: "cl_keys C h = {k1, k2}" "D k1" "D k2" and p: "locked p"
    and merged: "\<And>k'. S k1 k' \<Longrightarrow> S k2 k' \<Longrightarrow> S k k'" and inside: "\<And>k'. D k' \<Longrightarrow> S k1 k' \<Longrightarrow> S k2 k' \<Longrightarrow> low k'"
  shows "claims_ok ((\<lambda>k'. if D k' then None else rows k')(k \<mapsto> p)) (claim h {k} False False C)"
proof -
  have row: "S k k'" if "rows k' = Some q" "\<not> D k'" for k' q
    using claims_okD(3)[OF ok, of k1 h k'] claims_okD(3)[OF ok, of k2 h k'] keys that by (intro merged) auto
  have other: "S k1 k'" "S k2 k'" if "h' \<noteq> h" "k' \<in> cl_keys C h'" for h' k'
    using claims_okD(2)[OF ok, of h h' k1 k'] claims_okD(2)[OF ok, of h h' k2 k'] keys that by auto
  have other_k: "S k k'" if "h' \<noteq> h" "k' \<in> cl_keys C h'" for h' k'
    using merged[OF other[OF that]] .
  have gone: "low k'" if "h' \<noteq> h" "k' \<in> cl_keys C h'" "D k'" for h' k'
    using inside[OF that(3) other[OF that(1,2)]] .
  show ?thesis
    by (rule claims_okI)
      (use p in \<open>auto dest: claims_okD[OF ok] intro: row sep_sym[OF row] other_k sep_sym[OF other_k] gone split: if_splits\<close>)
qed

text \<open>Handing the claims over.\<close>

lemma claims_hand_over:
  assumes ok: "claims_ok rows C" and h: "h \<noteq> h'" "\<not> cl_mutex C h" "cl_keys C h' = {}"
  shows "claims_ok rows (claim h' (cl_keys C h) False False (claim h {} False False C))"
proof -
  have "\<not> cl_reserved C h"
    using h(2) claims_okD(7)[OF ok] by blast
  moreover have "S k k'" if "h'' \<noteq> h" "k \<in> cl_keys C h" "k' \<in> cl_keys C h''" for h'' k k'
    using claims_okD(2)[OF ok, of h h'' k k'] that by auto
  ultimately show ?thesis
    by (intro claims_okI) (use h in \<open>auto dest: claims_okD[OF ok] split: if_splits\<close>)
qed

end

subsection \<open>Ranges of batches\<close>

definition covers :: "u64 \<times> u64 \<Rightarrow> u64 \<Rightarrow> bool" where
  "covers k n \<longleftrightarrow> fst k \<le> n \<and> n \<le> snd k"

text \<open>No batch above \<open>L\<close> is in both ranges, and none is in the range.\<close>

definition disjointAbove :: "u64 \<Rightarrow> u64 \<times> u64 \<Rightarrow> u64 \<times> u64 \<Rightarrow> bool" where
  "disjointAbove L k1 k2 \<longleftrightarrow> (\<forall>n. L < n \<longrightarrow> \<not> (covers k1 n \<and> covers k2 n))"

definition verifiedRange :: "u64 \<Rightarrow> u64 \<times> u64 \<Rightarrow> bool" where
  "verifiedRange L k \<longleftrightarrow> (\<forall>n. covers k n \<longrightarrow> n \<le> L)"

definition lockedRow :: "Proof \<Rightarrow> bool" where
  "lockedRow p \<longleftrightarrow> pf_GeneratingSince p \<noteq> None"

interpretation ranges: row_claims "disjointAbove L" "verifiedRange L" lockedRow for L
  by unfold_locales (auto simp: disjointAbove_def verifiedRange_def not_less)

lemma verifiedRange_snd: "snd k \<le> L \<Longrightarrow> verifiedRange L k"
  by (auto simp: verifiedRange_def covers_def)

lemma disjointAbove_merge:
  assumes adj: "uint (snd k1) = uint (fst k2) - 1" and sep: "disjointAbove L k1 k'" "disjointAbove L k2 k'"
  shows "disjointAbove L (fst k1, snd k2) k'"
  unfolding disjointAbove_def
proof (intro allI impI notI)
  fix n assume n: "L < n" "covers (fst k1, snd k2) n \<and> covers k' n"
  have "n \<le> snd k1 \<or> fst k2 \<le> n"
    using adj by (simp add: word_le_def) linarith
  then have "covers k1 n \<or> covers k2 n"
    using n(2) by (auto simp: covers_def)
  then show False
    using n sep by (auto simp: disjointAbove_def)
qed

lemma inside_merge:
  assumes adj: "uint (snd k1) = uint (fst k2) - 1" and inside: "fst k1 \<le> fst k'" "snd k' \<le> snd k2"
    and sep: "disjointAbove L k1 k'" "disjointAbove L k2 k'"
  shows "verifiedRange L k'"
  unfolding verifiedRange_def
proof (intro allI impI)
  fix n assume n: "covers k' n"
  then have "covers (fst k1, snd k2) n"
    using inside by (auto simp: covers_def)
  then show "n \<le> L"
    using disjointAbove_merge[OF adj sep] n by (meson disjointAbove_def not_le)
qed

lemma claims_grow:
  assumes ok: "ranges.claims_ok L rows C" and le: "L \<le> L'"
  shows "ranges.claims_ok L' rows C"
proof -
  have "disjointAbove L k k' \<Longrightarrow> disjointAbove L' k k'" "verifiedRange L k \<Longrightarrow> verifiedRange L' k" for k k'
    using le by (auto simp: disjointAbove_def verifiedRange_def intro: order_trans)
  then show ?thesis
    using ok unfolding ranges.claims_ok_def by meson
qed

subsection \<open>The claims of the goroutines\<close>

datatype holder = ProverHolder nat | SenderHolder

definition proofKey :: "Proof \<Rightarrow> u64 \<times> u64" where
  "proofKey p = (pf_BatchNumber p, pf_BatchNumberFinal p)"

fun proverKeys :: "proverPC \<Rightarrow> (u64 \<times> u64) set" where
  "proverKeys (FinalWait (Some p)) = {proofKey p}"
| "proverKeys (FinalSynced (Some p)) = {proofKey p}"
| "proverKeys (VerifyRead p) = {proofKey p}"
| "proverKeys (BuildVerify p) = {proofKey p}"
| "proverKeys (SendVerify p) = {proofKey p}"
| "proverKeys (UnlockVerify p) = {proofKey p}"
| "proverKeys (AggregateRead p1 p2) = {proofKey p1, proofKey p2}"
| "proverKeys (Aggregate p1 p2) = {proofKey p1, proofKey p2}"
| "proverKeys (UnlockAggregate p1 p2) = {proofKey p1, proofKey p2}"
| "proverKeys (BatchRead b) = {(bt_BatchNumber b, bt_BatchNumber b)}"
| "proverKeys (ProveBatch p) = {proofKey p}"
| "proverKeys (DropBatch p) = {proofKey p}"
| "proverKeys (Generated p) = {proofKey p}"
| "proverKeys (TryGenerated p n) = {proofKey p}"
| "proverKeys (BuildGenerated p) = {proofKey p}"
| "proverKeys (SendGenerated p) = {proofKey p}"
| "proverKeys (StoreGenerated p) = {proofKey p}"
| "proverKeys _ = {}"

fun senderKeys :: "senderPC \<Rightarrow> (u64 \<times> u64) set" where
  "senderKeys (SenderGot p) = {proofKey p}"
| "senderKeys (SenderUnlock p) = {proofKey p}"
| "senderKeys _ = {}"

fun reservesBatch :: "proverPC \<Rightarrow> bool" where
  "reservesBatch (BatchRead b) = True"
| "reservesBatch _ = False"

definition claimsOf :: "aggState \<Rightarrow> (holder, u64 \<times> u64) claims" where
  "claimsOf s =
     \<lparr>cl_keys = (\<lambda>h. case h of ProverHolder i \<Rightarrow> proverKeys (ag_prover s i) | SenderHolder \<Rightarrow> senderKeys (ag_sender s)),
      cl_mutex = (\<lambda>h. case h of ProverHolder i \<Rightarrow> inMutex (ag_prover s i) | SenderHolder \<Rightarrow> False),
      cl_reserved = (\<lambda>h. case h of ProverHolder i \<Rightarrow> reservesBatch (ag_prover s i) | SenderHolder \<Rightarrow> False)\<rparr>"

definition adjacentProofs :: "Proof \<Rightarrow> Proof \<Rightarrow> bool" where
  "adjacentProofs p1 p2 \<longleftrightarrow>
     uint (pf_BatchNumberFinal p1) = uint (pf_BatchNumber p2) - 1 \<and>
     pf_BatchNumber p1 \<le> pf_BatchNumberFinal p1 \<and> pf_BatchNumber p2 \<le> pf_BatchNumberFinal p2"

text \<open>What the local variables of a goroutine satisfy besides.\<close>

fun proverFact :: "u64 \<Rightarrow> proverPC \<Rightarrow> bool" where
  "proverFact L (AggregateRead p1 p2) \<longleftrightarrow> adjacentProofs p1 p2"
| "proverFact L (Aggregate p1 p2) \<longleftrightarrow> adjacentProofs p1 p2"
| "proverFact L (UnlockAggregate p1 p2) \<longleftrightarrow> adjacentProofs p1 p2"
| "proverFact L (TryGenerated p n) \<longleftrightarrow> n \<le> L"
| "proverFact L _ \<longleftrightarrow> True"

fun senderFact :: "u64 \<Rightarrow> senderPC \<Rightarrow> bool" where
  "senderFact L (SenderCleanup bf) \<longleftrightarrow> bf \<le> L"
| "senderFact L _ \<longleftrightarrow> True"

abbreviation proofRows :: "stateDB \<Rightarrow> u64 \<times> u64 \<rightharpoonup> Proof" where
  "proofRows db \<equiv> fmlookup (db_proof db)"

text \<open>No row is of an empty range.\<close>

definition proofs_ok :: "stateDB \<Rightarrow> bool" where
  "proofs_ok db \<longleftrightarrow> db_ok db \<and> (\<forall>k p. proofRows db k = Some p \<longrightarrow> fst k \<le> snd k)"

lemma proofs_okD:
  assumes "proofs_ok db"
  shows "db_ok db" "proofRows db k = Some p \<Longrightarrow> fst k \<le> snd k"
  using assms by (simp_all add: proofs_ok_def)

lemma proofs_ok_step:
  assumes "proofs_ok db" "dbExec op db = Ok db'" "\<And>k p. proofRows db' k = Some p \<Longrightarrow> proofRows db k \<noteq> None \<or> fst k \<le> snd k"
  shows "proofs_ok db'"
  unfolding proofs_ok_def
proof (intro conjI allI impI)
  show "db_ok db'"
    using db_ok_step[OF proofs_okD(1)[OF assms(1)] assms(2)] .
  show "fst k \<le> snd k" if "proofRows db' k = Some p" for k p
    using assms(3)[OF that] proofs_okD(2)[OF assms(1), of k] by blast
qed

definition agg_ok :: "aggState \<Rightarrow> bool" where
  "agg_ok s \<longleftrightarrow>
     proofs_ok (ag_db s) \<and> ranges.claims_ok (lastVerifiedNum (ag_db s)) (proofRows (ag_db s)) (claimsOf s) \<and>
     (\<forall>i. proverFact (lastVerifiedNum (ag_db s)) (ag_prover s i)) \<and> senderFact (lastVerifiedNum (ag_db s)) (ag_sender s)"

lemma agg_okD:
  assumes "agg_ok s"
  shows "proofs_ok (ag_db s)" "ranges.claims_ok (lastVerifiedNum (ag_db s)) (proofRows (ag_db s)) (claimsOf s)"
    "proverFact (lastVerifiedNum (ag_db s)) (ag_prover s i)" "senderFact (lastVerifiedNum (ag_db s)) (ag_sender s)"
  using assms by (simp_all add: agg_ok_def)

lemma claimsOf_sel [simp]:
  "cl_keys (claimsOf s) (ProverHolder i) = proverKeys (ag_prover s i)" "cl_keys (claimsOf s) SenderHolder = senderKeys (ag_sender s)"
  "cl_mutex (claimsOf s) (ProverHolder i) = inMutex (ag_prover s i)" "\<not> cl_mutex (claimsOf s) SenderHolder"
  "cl_reserved (claimsOf s) (ProverHolder i) = reservesBatch (ag_prover s i)" "\<not> cl_reserved (claimsOf s) SenderHolder"
  by (simp_all add: claimsOf_def)

lemma agg_sel [simp]:
  "ag_db (goto i pc s) = ag_db s" "ag_sender (goto i pc s) = ag_sender s" "ag_vars (goto i pc s) = ag_vars s"
  "ag_prover (goto i pc s) j = (if j = i then pc else ag_prover s j)"
  "ag_db (setDB db s) = db" "ag_sender (setDB db s) = ag_sender s" "ag_prover (setDB db s) = ag_prover s" "ag_vars (setDB db s) = ag_vars s"
  by (simp_all add: goto_def setDB_def)

lemma claimsOf_goto: "claimsOf (goto i pc s) = claim (ProverHolder i) (proverKeys pc) (inMutex pc) (reservesBatch pc) (claimsOf s)"
  by (auto simp: claimsOf_def claim_def split: holder.splits intro!: ext)

lemma claimsOf_sender: "claimsOf (s\<lparr>ag_sender := pc\<rparr>) = claim SenderHolder (senderKeys pc) False False (claimsOf s)"
  by (auto simp: claimsOf_def claim_def split: holder.splits intro!: ext)

lemma claimsOf_other [simp]: "claimsOf (setDB db s) = claimsOf s" "claimsOf (s\<lparr>ag_vars := v\<rparr>) = claimsOf s"
  by (auto simp: claimsOf_def setDB_def split: holder.splits intro!: ext)

lemma claim_claim [simp]: "claim h K m r (claim h K' m' r' C) = claim h K m r C"
  by (simp add: claim_def)

lemma claim_self: "claim h (cl_keys C h) (cl_mutex C h) (cl_reserved C h) C = C"
  by (simp add: claim_def)

lemma claim_same: "cl_keys C h = K \<Longrightarrow> cl_mutex C h = m \<Longrightarrow> cl_reserved C h = r \<Longrightarrow> claim h K m r C = C"
  using claim_self[of h C] by simp

text \<open>A goroutine moves on, with a new table of proofs.\<close>

lemma agg_ok_goto:
  assumes "agg_ok s" "proofs_ok db" "lastVerifiedNum db = lastVerifiedNum (ag_db s)"
    "ranges.claims_ok (lastVerifiedNum (ag_db s)) (proofRows db)
       (claim (ProverHolder i) (proverKeys pc) (inMutex pc) (reservesBatch pc) (claimsOf s))"
    "proverFact (lastVerifiedNum (ag_db s)) pc"
  shows "agg_ok (goto i pc (setDB db s))"
  using assms by (auto simp: agg_ok_def claimsOf_goto)

lemma agg_ok_sender:
  assumes "agg_ok s" "proofs_ok db" "lastVerifiedNum db = lastVerifiedNum (ag_db s)"
    "ranges.claims_ok (lastVerifiedNum (ag_db s)) (proofRows db) (claim SenderHolder (senderKeys pc) False False (claimsOf s))"
    "senderFact (lastVerifiedNum (ag_db s)) pc"
  shows "agg_ok (setDB db (s\<lparr>ag_sender := pc\<rparr>))"
  using assms by (simp add: agg_ok_def claimsOf_sender)

lemma setDB_same: "setDB (ag_db s) s = s"
  by (simp add: setDB_def)

lemma setDB_vars: "setDB db (s\<lparr>ag_sender := a, ag_vars := v\<rparr>) = (setDB db (s\<lparr>ag_sender := a\<rparr>))\<lparr>ag_vars := v\<rparr>"
  by (simp add: setDB_def)

lemma agg_ok_vars: "agg_ok s \<Longrightarrow> agg_ok (s\<lparr>ag_vars := v\<rparr>)"
  by (simp add: agg_ok_def)

text \<open>Steps that touch no row: keeping the claims and letting go of them.\<close>

lemma agg_ok_stay:
  assumes "agg_ok s" "proverKeys pc = proverKeys (ag_prover s i)" "inMutex pc = inMutex (ag_prover s i)"
    "reservesBatch pc = reservesBatch (ag_prover s i)" "proverFact (lastVerifiedNum (ag_db s)) pc"
  shows "agg_ok (goto i pc s)"
  using agg_ok_goto[OF assms(1) agg_okD(1)[OF assms(1)] refl _ assms(5), of i] assms(2-4) agg_okD(2)[OF assms(1)]
  by (simp add: setDB_same claim_same)

lemma agg_ok_drop:
  assumes "agg_ok s" "proverKeys pc = {}" "\<not> inMutex pc" "\<not> reservesBatch pc" "proverFact (lastVerifiedNum (ag_db s)) pc"
  shows "agg_ok (goto i pc s)"
  using agg_ok_goto[OF assms(1) agg_okD(1)[OF assms(1)] refl _ assms(5), of i] assms(2-4)
    ranges.claims_drop[OF agg_okD(2)[OF assms(1)], of "ProverHolder i"]
  by (simp add: setDB_same)

lemma agg_ok_move:
  assumes "agg_ok s" "proverKeys pc = {} \<or> proverKeys pc = proverKeys (ag_prover s i) \<and> \<not> inMutex (ag_prover s i)"
    "\<not> inMutex pc" "\<not> reservesBatch pc" "proverFact (lastVerifiedNum (ag_db s)) pc"
  shows "agg_ok (goto i pc s)"
  using assms(2)
proof
  assume old: "proverKeys pc = proverKeys (ag_prover s i) \<and> \<not> inMutex (ag_prover s i)"
  then have "\<not> reservesBatch (ag_prover s i)"
    by (cases "ag_prover s i") auto
  then show ?thesis
    using agg_ok_stay[OF assms(1)] assms(3-5) old by simp
qed (use agg_ok_drop[OF assms(1)] assms(3-5) in simp)

lemma agg_ok_sender_stay:
  assumes "agg_ok s" "senderKeys pc = senderKeys (ag_sender s)" "senderFact (lastVerifiedNum (ag_db s)) pc"
  shows "agg_ok (s\<lparr>ag_sender := pc\<rparr>)"
  using agg_ok_sender[OF assms(1) agg_okD(1)[OF assms(1)] refl _ assms(3)] assms(2) agg_okD(2)[OF assms(1)]
  by (simp add: setDB_def claim_same)

lemma agg_ok_sender_drop:
  assumes "agg_ok s" "senderKeys pc = {}" "senderFact (lastVerifiedNum (ag_db s)) pc"
  shows "agg_ok (s\<lparr>ag_sender := pc\<rparr>)"
  using agg_ok_sender[OF assms(1) agg_okD(1)[OF assms(1)] refl _ assms(3)] assms(2)
    ranges.claims_drop[OF agg_okD(2)[OF assms(1)], of SenderHolder]
  by (simp add: setDB_def)

subsection \<open>The operations on the table\<close>

lemma lastVerifiedNum_proofs [simp]: "lastVerifiedNum (db\<lparr>db_proof := m\<rparr>) = lastVerifiedNum db"
  by (simp add: lastVerifiedNum_def GetLastVerifiedBatch_def split: option.split)

lemma UpdateGeneratedProof_rows:
  assumes "UpdateGeneratedProof now p db = Ok db'"
  shows "lastVerifiedNum db' = lastVerifiedNum db" "k \<noteq> proofKey p \<Longrightarrow> proofRows db' k = proofRows db k"
    "proofRows db' k = None \<longleftrightarrow> proofRows db k = None" "proofRows db' (proofKey p) = Some q \<Longrightarrow> lockedRow q \<longleftrightarrow> lockedRow p"
  using assms by (auto simp: UpdateGeneratedProof_def proofKey_def lockedRow_def Let_def split: if_splits option.splits)

lemma AddGeneratedProof_rows:
  assumes "AddGeneratedProof now p db = Ok db'"
  shows "lastVerifiedNum db' = lastVerifiedNum db" "\<exists>q. proofRows db' = (proofRows db)(proofKey p \<mapsto> q) \<and> (lockedRow q \<longleftrightarrow> lockedRow p)"
  using assms by (auto simp: AddGeneratedProof_def proofKey_def lockedRow_def Let_def split: if_splits
      intro!: ext exI[of _ "p\<lparr>pf_GeneratingSince := map_option pgTime (pf_GeneratingSince p), pf_CreatedAt := pgTime now,
        pf_UpdatedAt := pgTime now\<rparr>"])

lemma DeleteGeneratedProofs_rows:
  assumes "DeleteGeneratedProofs b bf db = Ok db'"
  shows "lastVerifiedNum db' = lastVerifiedNum db" "proofRows db' = (\<lambda>k. if b \<le> fst k \<and> snd k \<le> bf then None else proofRows db k)"
  using assms by (auto simp: DeleteGeneratedProofs_def split: if_splits intro!: ext)

lemma CleanupGeneratedProofs_rows:
  assumes "CleanupGeneratedProofs n db = Ok db'"
  shows "lastVerifiedNum db' = lastVerifiedNum db" "proofRows db' = (\<lambda>k. if snd k \<le> n then None else proofRows db k)"
  using assms by (auto simp: CleanupGeneratedProofs_def split: if_splits intro!: ext)

lemma DeleteUngeneratedProofs_rows:
  assumes "DeleteUngeneratedProofs db = Ok db'"
  shows "lastVerifiedNum db' = lastVerifiedNum db" "proofRows db' k = Some p \<Longrightarrow> proofRows db k = Some p"
  using assms by (auto simp: DeleteUngeneratedProofs_def split: if_splits option.splits)

lemma proof_ops_table:
  "UpdateGeneratedProof now p db = Ok db' \<Longrightarrow> proofs_ok db \<Longrightarrow> proofs_ok db'"
  "AddGeneratedProof now p db = Ok db' \<Longrightarrow> pf_BatchNumber p \<le> pf_BatchNumberFinal p \<Longrightarrow> proofs_ok db \<Longrightarrow> proofs_ok db'"
  "DeleteGeneratedProofs b bf db = Ok db' \<Longrightarrow> proofs_ok db \<Longrightarrow> proofs_ok db'"
  "CleanupGeneratedProofs n db = Ok db' \<Longrightarrow> proofs_ok db \<Longrightarrow> proofs_ok db'"
  "DeleteUngeneratedProofs db = Ok db' \<Longrightarrow> proofs_ok db \<Longrightarrow> proofs_ok db'"
proof -
  show "UpdateGeneratedProof now p db = Ok db' \<Longrightarrow> proofs_ok db \<Longrightarrow> proofs_ok db'"
    using proofs_ok_step[of db "opUpdateGeneratedProof now p" db'] UpdateGeneratedProof_rows(3)[of now p db db'] by (metis dbExec.simps(16) not_None_eq)
  show "AddGeneratedProof now p db = Ok db' \<Longrightarrow> pf_BatchNumber p \<le> pf_BatchNumberFinal p \<Longrightarrow> proofs_ok db \<Longrightarrow> proofs_ok db'"
    using proofs_ok_step[of db "opAddGeneratedProof now p" db'] AddGeneratedProof_rows(2)[of now p db db']
    by (auto simp: proofKey_def split: if_splits)
  show "DeleteGeneratedProofs b bf db = Ok db' \<Longrightarrow> proofs_ok db \<Longrightarrow> proofs_ok db'"
    by (rule proofs_ok_step[of db "opDeleteGeneratedProofs b bf"]) (auto dest!: DeleteGeneratedProofs_rows(2) split: if_splits)
  show "CleanupGeneratedProofs n db = Ok db' \<Longrightarrow> proofs_ok db \<Longrightarrow> proofs_ok db'"
    by (rule proofs_ok_step[of db "opCleanupGeneratedProofs n"]) (auto dest!: CleanupGeneratedProofs_rows(2) split: if_splits)
  show "DeleteUngeneratedProofs db = Ok db' \<Longrightarrow> proofs_ok db \<Longrightarrow> proofs_ok db'"
    by (rule proofs_ok_step[of db opDeleteUngeneratedProofs]) (auto dest!: DeleteUngeneratedProofs_rows(2))
qed

lemma lockProof_sel [simp]:
  "proofKey (lockProof now p) = proofKey p" "proofKey (unlockProof p) = proofKey p" "lockedRow (lockProof now p)"
  "pf_BatchNumber (lockProof now p) = pf_BatchNumber p" "pf_BatchNumberFinal (lockProof now p) = pf_BatchNumberFinal p"
  by (simp_all add: lockProof_def unlockProof_def proofKey_def lockedRow_def)

lemma proofKey_update [simp]:
  "proofKey (p\<lparr>pf_ProofID := x\<rparr>) = proofKey p" "proofKey (p\<lparr>pf_Proof := y\<rparr>) = proofKey p" "proofKey (p\<lparr>pf_InputProver := z\<rparr>) = proofKey p"
  by (simp_all add: proofKey_def)

lemma adjacentProofs_lock [simp]: "adjacentProofs (lockProof now p1) (lockProof now p2) \<longleftrightarrow> adjacentProofs p1 p2"
  by (simp add: adjacentProofs_def)

lemma newProof_key: "proofKey (newProof b bf name proverID input) = (b, bf)"
  by (simp add: newProof_def proofKey_def)

lemma aggregatedProof_key:
  "proofKey (aggregatedProof p1 p2 name proverID input proofID recursiveProof) = (pf_BatchNumber p1, pf_BatchNumberFinal p2)"
  by (simp add: aggregatedProof_def newProof_key)

lemma proofRows_key: "db_ok db \<Longrightarrow> proofRows db k = Some p \<Longrightarrow> proofKey p = k"
  by (cases k) (simp add: proofKey_def db_okD)

text \<open>The synchronizer touches no proof, and the last verified batch only grows.\<close>

lemma lastVerifiedNum_key:
  assumes "db_ok db"
  shows "lastVerifiedNum db = (case lastKey (db_verified db) of None \<Rightarrow> 0 | Some n \<Rightarrow> n)"
proof (cases "lastKey (db_verified db)")
  case (Some n)
  then have "n |\<in>| fmdom (db_verified db)"
    by (simp add: lastKey_Some)
  then show ?thesis
    using Some db_okD(6)[OF assms, of n] by (auto simp: lastVerifiedNum_def GetLastVerifiedBatch_def in_fmdom)
qed (simp add: lastVerifiedNum_def GetLastVerifiedBatch_def)

lemma lastVerifiedNum_mono:
  assumes "db_ok db" "db_ok db'" "fmdom (db_verified db) |\<subseteq>| fmdom (db_verified db')"
  shows "lastVerifiedNum db \<le> lastVerifiedNum db'"
  using assms(3) unfolding lastVerifiedNum_key[OF assms(1)] lastVerifiedNum_key[OF assms(2)]
  by (auto simp: lastKey_Some lastKey_None fsubset_iff split: option.split)

lemma batchRow_proofs:
  "insertBatch n r db = Ok db' \<Longrightarrow> db_proof db' = db_proof db \<and> db_verified db' = db_verified db"
  "updateBatch n f db = Ok db' \<Longrightarrow> db_proof db' = db_proof db \<and> db_verified db' = db_verified db"
  by (auto simp: insertBatch_def updateBatch_def split: if_splits option.splits)

lemma syncOp_rows:
  assumes "syncOp op" "dbExec op db = Ok db'"
  shows "db_proof db' = db_proof db \<and> fmdom (db_verified db) |\<subseteq>| fmdom (db_verified db')"
  using assms
  by (cases op) (auto simp: AddBlock_def AddForcedBatch_def StoreGenesisBatch_def AddVirtualBatch_def AddVerifiedBatch_def AddSequence_def
      OpenBatch_def OpenWIPBatch_def CloseBatch_def CloseWIPBatch_def OpenBatchInStorage_def
      OpenWIPBatchInStorage_def CloseBatchInStorage_def CloseWIPBatchInStorage_def UpdateBatchL2Data_def UpdateWIPBatch_def
      AddAccumulatedInputHash_def dest!: batchRow_proofs split: if_splits option.splits)

subsection \<open>The steps\<close>

text \<open>Unlocking and letting go: one row or two, by a prover or by the sender.\<close>

lemma agg_ok_write_drop:
  assumes ok: "agg_ok s" and db: "proofs_ok db" "lastVerifiedNum db = lastVerifiedNum (ag_db s)"
    and own: "\<And>k. k \<notin> proverKeys (ag_prover s i) \<Longrightarrow> proofRows db k = proofRows (ag_db s) k"
    and same: "\<And>k. proofRows db k = None \<longleftrightarrow> proofRows (ag_db s) k = None"
    and pc: "proverKeys pc = {}" "\<not> inMutex pc" "\<not> reservesBatch pc" "proverFact (lastVerifiedNum (ag_db s)) pc"
  shows "agg_ok (goto i pc (setDB db s))"
  using agg_ok_goto[OF ok db _ pc(4), of i] pc(1-3)
    ranges.claims_write_drop[OF agg_okD(2)[OF ok], of "ProverHolder i" "proofRows db"] own same
  by simp

lemma unlock_one:
  assumes ok: "agg_ok s" and up: "UpdateGeneratedProof now p (ag_db s) = Ok db" and k: "proofKey p \<in> proverKeys (ag_prover s i)"
    and pc: "proverKeys pc = {}" "\<not> inMutex pc" "\<not> reservesBatch pc" "proverFact (lastVerifiedNum (ag_db s)) pc"
  shows "agg_ok (goto i pc (setDB db s))"
proof (rule agg_ok_write_drop[OF ok _ _ _ _ pc])
  show "proofRows db k' = proofRows (ag_db s) k'" if "k' \<notin> proverKeys (ag_prover s i)" for k'
    using UpdateGeneratedProof_rows(2)[OF up, of k'] k that by metis
qed (use UpdateGeneratedProof_rows[OF up] proof_ops_table(1)[OF up agg_okD(1)[OF ok]] in simp_all)

lemma unlock_two:
  assumes ok: "agg_ok s" and up: "unlockProofsToAggregate now p1 p2 (ag_db s) = Ok db" and pc: "ag_prover s i = UnlockAggregate p1 p2"
  shows "agg_ok (goto i AtBatch (setDB db s))"
proof -
  obtain db1 where u1: "UpdateGeneratedProof now (unlockProof p1) (ag_db s) = Ok db1"
    and u2: "UpdateGeneratedProof now (unlockProof p2) db1 = Ok db"
    using up by (auto simp: unlockProofsToAggregate_def)
  show ?thesis
    by (rule agg_ok_write_drop[OF ok])
      (use UpdateGeneratedProof_rows[OF u1] UpdateGeneratedProof_rows[OF u2] proof_ops_table(1)[OF u2 proof_ops_table(1)[OF u1 agg_okD(1)[OF ok]]] pc in \<open>simp_all\<close>)
qed

lemma unlock_sender:
  assumes ok: "agg_ok s" and up: "UpdateGeneratedProof now (unlockProof p) (ag_db s) = Ok db" and pc: "ag_sender s = SenderUnlock p"
  shows "agg_ok (setDB db (s\<lparr>ag_sender := SenderWait\<rparr>))"
proof -
  have "ranges.claims_ok (lastVerifiedNum (ag_db s)) (proofRows db) (claim SenderHolder {} False False (claimsOf s))"
    by (rule ranges.claims_write_drop[OF agg_okD(2)[OF ok]]) (use UpdateGeneratedProof_rows[OF up] pc in simp_all)
  then show ?thesis
    using UpdateGeneratedProof_rows[OF up] proof_ops_table(1)[OF up agg_okD(1)[OF ok]] by (intro agg_ok_sender[OF ok]) simp_all
qed

text \<open>Reading rows inside the mutex and locking them.\<close>

lemma agg_ok_take:
  assumes ok: "agg_ok s" and free: "mutexFree s"
    and K: "\<And>k. k \<in> proverKeys pc \<Longrightarrow> \<exists>p. proofRows (ag_db s) k = Some p \<and> \<not> lockedRow p"
    and pc: "inMutex pc" "\<not> reservesBatch pc" "proverFact (lastVerifiedNum (ag_db s)) pc"
  shows "agg_ok (goto i pc s)"
proof -
  have "\<not> cl_mutex (claimsOf s) h" for h
    using free by (cases h) (simp_all add: mutexFree_def)
  from agg_ok_goto[OF ok agg_okD(1)[OF ok] refl _ pc(3), of i] ranges.claims_take[OF agg_okD(2)[OF ok] this K]
  show ?thesis using pc(1,2) by (simp add: setDB_same)
qed

lemma verify_read_ok:
  assumes ok: "agg_ok s" and "mutexFree s" and r: "readyToVerify n (ag_db s) p"
  shows "agg_ok (goto i (VerifyRead p) s)"
proof (rule agg_ok_take[OF assms(1,2)])
  fix k assume "k \<in> proverKeys (VerifyRead p)"
  then show "\<exists>q. proofRows (ag_db s) k = Some q \<and> \<not> lockedRow q"
    using r proofRows_key[OF proofs_okD(1)[OF agg_okD(1)[OF ok]]] by (auto simp: readyToVerify_def lockedRow_def)
qed simp_all

lemma aggregate_read_ok:
  assumes ok: "agg_ok s" and "mutexFree s" and r: "readyToAggregate (ag_db s) p1 p2"
  shows "agg_ok (goto i (AggregateRead p1 p2) s)"
proof (rule agg_ok_take[OF assms(1,2)])
  obtain k1 k2 where rows: "proofRows (ag_db s) k1 = Some p1" "proofRows (ag_db s) k2 = Some p2" and a: "aggregatable (ag_db s) k1 k2"
    using r by (auto simp: readyToAggregate_def)
  have keys: "proofKey p1 = k1" "proofKey p2 = k2"
    using rows proofRows_key[OF proofs_okD(1)[OF agg_okD(1)[OF ok]]] by blast+
  show "\<exists>q. proofRows (ag_db s) k = Some q \<and> \<not> lockedRow q" if "k \<in> proverKeys (AggregateRead p1 p2)" for k
    using that a rows keys by (auto simp: aggregatable_def lockedRow_def)
  show "proverFact (lastVerifiedNum (ag_db s)) (AggregateRead p1 p2)"
    using a rows keys proofs_okD(2)[OF agg_okD(1)[OF ok]] by (auto simp: aggregatable_def adjacentProofs_def proofKey_def)
qed simp_all

lemma agg_ok_lock:
  assumes ok: "agg_ok s" and db: "proofs_ok db" "lastVerifiedNum db = lastVerifiedNum (ag_db s)"
    and own: "\<And>k. k \<notin> proverKeys (ag_prover s i) \<Longrightarrow> proofRows db k = proofRows (ag_db s) k"
    and same: "\<And>k. proofRows db k = None \<longleftrightarrow> proofRows (ag_db s) k = None"
    and l: "\<And>k p. k \<in> proverKeys (ag_prover s i) \<Longrightarrow> proofRows db k = Some p \<Longrightarrow> lockedRow p"
    and pc: "\<not> reservesBatch (ag_prover s i)" "proverKeys pc = proverKeys (ag_prover s i)" "\<not> inMutex pc" "\<not> reservesBatch pc"
      "proverFact (lastVerifiedNum (ag_db s)) pc"
  shows "agg_ok (goto i pc (setDB db s))"
  using agg_ok_goto[OF ok db _ pc(5), of i] pc(1-4)
    ranges.claims_lock[OF agg_okD(2)[OF ok], of "ProverHolder i" "proofRows db"] own same l
  by simp

lemma verify_lock_ok:
  assumes ok: "agg_ok s" and pc: "ag_prover s i = VerifyRead p" and up: "UpdateGeneratedProof now (lockProof now p) (ag_db s) = Ok db"
  shows "agg_ok (goto i (BuildVerify (lockProof now p)) (setDB db s))"
  by (rule agg_ok_lock[OF ok]) (use UpdateGeneratedProof_rows[OF up] proof_ops_table(1)[OF up agg_okD(1)[OF ok]] pc in simp_all)

lemma aggregate_lock_ok:
  assumes ok: "agg_ok s" and pc: "ag_prover s i = AggregateRead p1 p2" and up: "lockProofs now p1 p2 (ag_db s) = Ok db"
  shows "agg_ok (goto i (Aggregate (lockProof now p1) (lockProof now p2)) (setDB db s))"
proof -
  obtain db1 where u1: "UpdateGeneratedProof now (lockProof now p1) (ag_db s) = Ok db1"
    and u2: "UpdateGeneratedProof now (lockProof now p2) db1 = Ok db"
    using up by (auto simp: lockProofs_def)
  note rows = UpdateGeneratedProof_rows[OF u1] UpdateGeneratedProof_rows[OF u2] proof_ops_table(1)[OF u2 proof_ops_table(1)[OF u1 agg_okD(1)[OF ok]]]
  have l: "lockedRow q" if "k \<in> {proofKey p1, proofKey p2}" "proofRows db k = Some q" for k q
    using that rows(2)[of k] rows(4) rows(6)[of k] rows(8)[of q] by (cases "k = proofKey p2") auto
  show ?thesis
    by (rule agg_ok_lock[OF ok]) (use rows agg_okD(3)[OF ok, of i] pc l in \<open>simp_all\<close>)
qed

text \<open>Storing an aggregated proof in place of its two parts.\<close>

lemma aggregate_done_ok:
  assumes ok: "agg_ok s" and pc: "ag_prover s i = Aggregate p1 p2"
    and p: "p = aggregatedProof p1 p2 name proverID input proofID recursiveProof" and st: "storeAggregated now p1 p2 p (ag_db s) = Ok db"
  shows "agg_ok (goto i (Generated (lockProof now p)) (setDB db s))"
proof -
  obtain db1 where d: "DeleteGeneratedProofs (pf_BatchNumber p1) (pf_BatchNumberFinal p2) (ag_db s) = Ok db1"
    and a: "AddGeneratedProof now (lockProof now p) db1 = Ok db"
    using st by (auto simp: storeAggregated_def)
  let ?D = "\<lambda>k. pf_BatchNumber p1 \<le> fst k \<and> snd k \<le> pf_BatchNumberFinal p2"
  have key: "proofKey p = (fst (proofKey p1), snd (proofKey p2))"
    unfolding p aggregatedProof_key by (simp add: proofKey_def)
  obtain q where q: "proofRows db = (\<lambda>k. if ?D k then None else proofRows (ag_db s) k)(proofKey p \<mapsto> q)" "lockedRow q"
    using AddGeneratedProof_rows(2)[OF a] DeleteGeneratedProofs_rows(2)[OF d] by auto
  have adj: "adjacentProofs p1 p2"
    using agg_okD(3)[OF ok, of i] pc by simp
  then have in_order: "pf_BatchNumber p1 \<le> pf_BatchNumber p2" "pf_BatchNumberFinal p1 \<le> pf_BatchNumberFinal p2"
    by (auto simp: adjacentProofs_def word_le_def)
  have a12: "uint (snd (proofKey p1)) = uint (fst (proofKey p2)) - 1"
    using adj by (simp add: adjacentProofs_def proofKey_def)
  have "ranges.claims_ok (lastVerifiedNum (ag_db s)) (proofRows db) (claim (ProverHolder i) {proofKey p} False False (claimsOf s))"
    unfolding q(1)
  proof (rule ranges.claims_merge[OF agg_okD(2)[OF ok], where ?k1.0 = "proofKey p1" and ?k2.0 = "proofKey p2"])
    show "disjointAbove (lastVerifiedNum (ag_db s)) (proofKey p) k'"
      if "disjointAbove (lastVerifiedNum (ag_db s)) (proofKey p1) k'" "disjointAbove (lastVerifiedNum (ag_db s)) (proofKey p2) k'" for k'
      unfolding key using disjointAbove_merge[OF a12 that] .
    show "verifiedRange (lastVerifiedNum (ag_db s)) k'"
      if "?D k'" "disjointAbove (lastVerifiedNum (ag_db s)) (proofKey p1) k'" "disjointAbove (lastVerifiedNum (ag_db s)) (proofKey p2) k'" for k'
      using inside_merge[OF a12 _ _ that(2,3)] that(1) by (simp add: proofKey_def)
  qed (use pc q(2) in_order in \<open>simp_all add: proofKey_def\<close>)
  moreover have "proofs_ok db"
    using proof_ops_table(3)[OF d agg_okD(1)[OF ok]] key adj in_order
    by (intro proof_ops_table(2)[OF a]) (auto simp: adjacentProofs_def proofKey_def)
  ultimately show ?thesis
    using AddGeneratedProof_rows(1)[OF a] DeleteGeneratedProofs_rows(1)[OF d] by (intro agg_ok_goto[OF ok]) simp_all
qed

text \<open>Choosing a batch, adding its row, and removing it again.\<close>

lemma GetVirtualBatchToProve_uncovered:
  assumes "GetVirtualBatchToProve n db = Ok b" "proofRows db k = Some p"
  shows "\<not> covers k (bt_BatchNumber b)"
proof -
  let ?free = "ffilter (\<lambda>b. n < b \<and> b |\<in>| fmdom (db_virtual db) \<and> \<not> coveredByProof b db) (fmdom (db_batch db))"
  obtain m ms where ms: "sorted_list_of_fset ?free = m # ms" and b: "b = scanBatch m (the (fmlookup (db_batch db) m))"
    using assms(1) unfolding GetVirtualBatchToProve_def by (auto split: if_splits list.splits)
  have "m \<in> set (sorted_list_of_fset ?free)"
    unfolding ms by simp
  then have "\<not> coveredByProof (bt_BatchNumber b) db"
    by (simp add: b scanBatch_def)
  moreover have "k |\<in>| fmdom (db_proof db)"
    using assms(2) by (auto simp: in_fmdom)
  ultimately show ?thesis
    by (auto simp: coveredByProof_def covers_def split: prod.splits)
qed

lemma batch_read_ok:
  assumes ok: "agg_ok s" and pc: "ag_prover s i = BatchVerified n" and b: "GetVirtualBatchToProve n (ag_db s) = Ok b"
  shows "agg_ok (goto i (BatchRead b) s)"
proof -
  let ?C = "claim (ProverHolder i) {} False False (claimsOf s)" and ?k = "(bt_BatchNumber b, bt_BatchNumber b)"
  have "\<not> cl_mutex ?C h" for h
    using ranges.claims_okD(6)[OF agg_okD(2)[OF ok], of "ProverHolder i" h] pc by auto
  moreover have "disjointAbove (lastVerifiedNum (ag_db s)) ?k k'" if "proofRows (ag_db s) k' = Some p" for k' p
    using GetVirtualBatchToProve_uncovered[OF b that] by (auto simp: disjointAbove_def covers_def dest: antisym)
  ultimately have "ranges.claims_ok (lastVerifiedNum (ag_db s)) (proofRows (ag_db s)) (claim (ProverHolder i) {?k} True True ?C)"
    by (rule ranges.claims_reserve[OF ranges.claims_drop[OF agg_okD(2)[OF ok]]])
  then show ?thesis
    using agg_ok_goto[OF ok agg_okD(1)[OF ok] refl, of i "BatchRead b"] by (simp add: setDB_same)
qed

lemma batch_lock_ok:
  assumes ok: "agg_ok s" and pc: "ag_prover s i = BatchRead b" and p: "p = newProof (bt_BatchNumber b) (bt_BatchNumber b) name proverID []"
    and a: "AddGeneratedProof now (lockProof now p) (ag_db s) = Ok db"
  shows "agg_ok (goto i (ProveBatch (lockProof now p)) (setDB db s))"
proof -
  obtain q where q: "proofRows db = (proofRows (ag_db s))(proofKey p \<mapsto> q)" "lockedRow q"
    using AddGeneratedProof_rows(2)[OF a] by auto
  have "ranges.claims_ok (lastVerifiedNum (ag_db s)) (proofRows db) (claim (ProverHolder i) {proofKey p} False False (claimsOf s))"
    unfolding q(1) by (rule ranges.claims_insert[OF agg_okD(2)[OF ok] _ q(2)]) (simp add: pc p newProof_key)
  moreover have "proofs_ok db"
    by (rule proof_ops_table(2)[OF a _ agg_okD(1)[OF ok]]) (simp add: p newProof_def)
  ultimately show ?thesis
    using AddGeneratedProof_rows(1)[OF a] by (intro agg_ok_goto[OF ok]) simp_all
qed

lemma batch_drop_ok:
  assumes ok: "agg_ok s" and pc: "ag_prover s i = DropBatch p"
    and d: "DeleteGeneratedProofs (pf_BatchNumber p) (pf_BatchNumberFinal p) (ag_db s) = Ok db"
  shows "agg_ok (goto i AtFinal (setDB db s))"
proof -
  have "verifiedRange (lastVerifiedNum (ag_db s)) k \<or> k = proofKey p"
    if "pf_BatchNumber p \<le> fst k" "snd k \<le> pf_BatchNumberFinal p" "proofRows (ag_db s) k = Some q" for k q
    using ranges.claims_okD(3)[OF agg_okD(2)[OF ok], of "proofKey p" "ProverHolder i" k q] that pc
    by (auto simp: disjointAbove_def verifiedRange_def covers_def proofKey_def not_less)
      (meson order_trans not_le)
  then have "ranges.claims_ok (lastVerifiedNum (ag_db s)) (proofRows db) (claim (ProverHolder i) {} False False (claimsOf s))"
    unfolding DeleteGeneratedProofs_rows(2)[OF d] by (intro ranges.claims_delete[OF agg_okD(2)[OF ok]]) (use pc in auto)
  then show ?thesis
    using DeleteGeneratedProofs_rows(1)[OF d] proof_ops_table(3)[OF d agg_okD(1)[OF ok]] by (intro agg_ok_goto[OF ok]) simp_all
qed

text \<open>Deleting proofs of verified batches.\<close>

lemma verified_pruned:
  assumes "ranges.claims_ok L rows C" "\<And>k. D k \<Longrightarrow> snd k \<le> L"
  shows "ranges.claims_ok L (\<lambda>k. if D k then None else rows k) C"
  using assms verifiedRange_snd by (intro ranges.claims_prune[OF assms(1)]) blast

lemma validate_cases:
  assumes "validateEligibleFinalProof p n db = Ok (eligible, db')"
  obtains "db' = db"
  | "DeleteGeneratedProofs (pf_BatchNumber p) (pf_BatchNumberFinal p) db = Ok db'" "pf_BatchNumberFinal p < n + 1"
  using assms that unfolding validateEligibleFinalProof_def by (auto simp: Let_def split: if_splits)

lemma generated_valid_ok:
  assumes ok: "agg_ok s" and pc: "ag_prover s i = TryGenerated p n"
    and v: "validateEligibleFinalProof p n (ag_db s) = Ok (eligible, db)"
  shows "agg_ok (goto i (if eligible then BuildGenerated p else StoreGenerated p) (setDB db s))"
proof -
  have n: "n \<le> lastVerifiedNum (ag_db s)"
    using agg_okD(3)[OF ok, of i] pc by simp
  have same: "claim (ProverHolder i) {proofKey p} False False (claimsOf s) = claimsOf s"
    using pc by (intro claim_same) simp_all
  have db: "proofs_ok db \<and> lastVerifiedNum db = lastVerifiedNum (ag_db s) \<and>
      ranges.claims_ok (lastVerifiedNum (ag_db s)) (proofRows db) (claimsOf s)"
    using v
  proof (cases rule: validate_cases)
    case 2
    have "snd k \<le> lastVerifiedNum (ag_db s)" if "snd k \<le> pf_BatchNumberFinal p" for k :: "u64 \<times> u64"
      using that 2(2) n inc_le by (meson order_trans not_le)
    then show ?thesis
      using DeleteGeneratedProofs_rows[OF 2(1)] proof_ops_table(3)[OF 2(1) agg_okD(1)[OF ok]] agg_okD(2)[OF ok]
      by (auto intro!: verified_pruned)
  qed (simp add: agg_okD[OF ok])
  show ?thesis
    by (rule agg_ok_goto[OF ok]) (use db same in auto)
qed

lemma cleanup_ok:
  assumes ok: "agg_ok s" and pc: "ag_sender s = SenderCleanup bf" and d: "CleanupGeneratedProofs bf (ag_db s) = Ok db"
  shows "agg_ok (setDB db (s\<lparr>ag_sender := SenderMonitor\<rparr>))"
proof -
  have "bf \<le> lastVerifiedNum (ag_db s)"
    using agg_okD(4)[OF ok] pc by simp
  then have "ranges.claims_ok (lastVerifiedNum (ag_db s)) (proofRows db) (claimsOf s)"
    unfolding CleanupGeneratedProofs_rows(2)[OF d] by (intro verified_pruned agg_okD(2)[OF ok]) (rule order_trans)
  moreover have "claim SenderHolder {} False False (claimsOf s) = claimsOf s"
    using pc by (intro claim_same) simp_all
  ultimately show ?thesis
    using CleanupGeneratedProofs_rows(1)[OF d] proof_ops_table(4)[OF d agg_okD(1)[OF ok]] by (intro agg_ok_sender[OF ok]) simp_all
qed

text \<open>Handing a proof to the sender.\<close>

lemma claim_commute: "h \<noteq> h' \<Longrightarrow> claim h K m r (claim h' K' m' r' C) = claim h' K' m' r' (claim h K m r C)"
  by (simp add: claim_def fun_upd_twist)

lemma sent_ok:
  assumes ok: "agg_ok s" and pc: "proverKeys (ag_prover s i) = {proofKey p}" "\<not> inMutex (ag_prover s i)" "ag_sender s = SenderWait"
    and pc': "proverKeys pc' = {}" "\<not> inMutex pc'" "\<not> reservesBatch pc'" "\<And>L. proverFact L pc'"
  shows "agg_ok (goto i pc' (s\<lparr>ag_sender := SenderGot p, ag_vars := v\<rparr>))"
proof -
  have "ranges.claims_ok (lastVerifiedNum (ag_db s)) (proofRows (ag_db s))
      (claim SenderHolder {proofKey p} False False (claim (ProverHolder i) {} False False (claimsOf s)))"
    using ranges.claims_hand_over[OF agg_okD(2)[OF ok], of "ProverHolder i" SenderHolder] pc by simp
  then show ?thesis
    using ok pc' by (simp add: agg_ok_def claimsOf_goto claimsOf_sender claim_commute)
qed

text \<open>The synchronizer.\<close>

lemma proverFact_mono: "proverFact L pc \<Longrightarrow> L \<le> L' \<Longrightarrow> proverFact L' pc"
  by (cases pc) auto

lemma senderFact_mono: "senderFact L pc \<Longrightarrow> L \<le> L' \<Longrightarrow> senderFact L' pc"
  by (cases pc) auto

lemma sync_ok:
  assumes ok: "agg_ok s" and op: "syncOp op" "dbExec op (ag_db s) = Ok db"
  shows "agg_ok (setDB db s)"
proof -
  have rows: "db_proof db = db_proof (ag_db s)" "fmdom (db_verified (ag_db s)) |\<subseteq>| fmdom (db_verified db)"
    using syncOp_rows[OF op] by auto
  have db: "proofs_ok db"
    using rows by (intro proofs_ok_step[OF agg_okD(1)[OF ok] op(2)]) simp
  have le: "lastVerifiedNum (ag_db s) \<le> lastVerifiedNum db"
    using lastVerifiedNum_mono[OF proofs_okD(1)[OF agg_okD(1)[OF ok]] proofs_okD(1)[OF db] rows(2)] .
  show ?thesis
    unfolding agg_ok_def
    using db rows(1) claims_grow[OF agg_okD(2)[OF ok] le] proverFact_mono[OF agg_okD(3)[OF ok] le] senderFact_mono[OF agg_okD(4)[OF ok] le]
    by simp
qed

lemma synced_le: "agg_isSynced (Some bf) eth db \<Longrightarrow> bf \<le> lastVerifiedNum db"
  by (auto simp: agg_isSynced_def lastVerifiedNum_def split: outcome.splits)

subsection \<open>The invariant\<close>

lemma final_step_ok:
  assumes "final_step s s'" and ok: "agg_ok s"
  shows "agg_ok s'"
  using assms(1)
proof cases
  case (verify_read i n p)
  then show ?thesis using verify_read_ok[OF ok] by simp
next
  case (verify_lock i p now db)
  then show ?thesis using verify_lock_ok[OF ok] by simp
next
  case (verify_unlock i p now db)
  then show ?thesis using unlock_one[OF ok] by simp
next
  case (generated_valid i p n eligible db)
  then show ?thesis using generated_valid_ok[OF ok] by blast
next
  case (final_synced i po eth)
  then show ?thesis by (cases po) (simp_all add: agg_ok_move[OF ok])
qed (simp_all add: agg_ok_move[OF ok] sent_ok[OF ok])

lemma aggregate_step_ok:
  assumes "aggregate_step s s'" and ok: "agg_ok s"
  shows "agg_ok s'"
  using assms(1)
proof cases
  case (aggregate_read i p1 p2)
  then show ?thesis using aggregate_read_ok[OF ok] by simp
next
  case (aggregate_lock i p1 p2 now db)
  then show ?thesis using aggregate_lock_ok[OF ok] by simp
next
  case (aggregate_done i p1 p2 p name proverID input proofID recursiveProof now db)
  then show ?thesis using aggregate_done_ok[OF ok] by blast
next
  case (aggregate_unlock i p1 p2 now db)
  then show ?thesis using unlock_two[OF ok] by simp
next
  case (aggregate_failed i p1 p2)
  then show ?thesis using agg_okD(3)[OF ok, of i] by (simp add: agg_ok_move[OF ok])
qed (simp_all add: agg_ok_move[OF ok])

lemma batch_step_ok:
  assumes "batch_step cfg s s'" and ok: "agg_ok s"
  shows "agg_ok s'"
  using assms(1)
proof cases
  case (batch_verified i v)
  then show ?thesis by (auto intro!: agg_ok_take[OF ok])
next
  case (batch_read i n b c)
  then show ?thesis using batch_read_ok[OF ok] by simp
next
  case (batch_lock i b p name proverID now db)
  then show ?thesis using batch_lock_ok[OF ok] by blast
next
  case (batch_drop i p db)
  then show ?thesis using batch_drop_ok[OF ok] by simp
qed (simp_all add: agg_ok_move[OF ok])

lemma store_step_ok:
  assumes "store_step s s'" and ok: "agg_ok s"
  shows "agg_ok s'"
  using assms(1)
proof cases
  case (generated_store i p now db)
  then show ?thesis using unlock_one[OF ok] by simp
qed (simp_all add: agg_ok_move[OF ok])

lemma sender_step_ok:
  assumes "sender_step cfg s s'" and ok: "agg_ok s"
  shows "agg_ok s'"
  using assms(1)
proof cases
  case (send_unlock p now db)
  then show ?thesis using agg_ok_vars[OF unlock_sender[OF ok]] by (simp add: setDB_vars)
next
  case (result_cleanup bf db)
  then show ?thesis using cleanup_ok[OF ok] by simp
qed (simp_all add: agg_ok_vars agg_ok_sender_stay[OF ok] agg_ok_sender_drop[OF ok] synced_le)

lemma agg_step_ok: "agg_step cfg s s' \<Longrightarrow> agg_ok s \<Longrightarrow> agg_ok s'"
  by (induction rule: agg_step.induct) (auto intro: final_step_ok aggregate_step_ok batch_step_ok store_step_ok sender_step_ok sync_ok)

text \<open>Stopping and starting again.\<close>

lemma claims_idle:
  assumes "\<And>k p k' p'. rows k = Some p \<Longrightarrow> rows k' = Some p' \<Longrightarrow> k \<noteq> k' \<Longrightarrow> disjointAbove L k k'"
    and "ag_prover s = (\<lambda>_. pc)" "proverKeys pc = {}" "\<not> inMutex pc" "\<not> reservesBatch pc" "senderKeys (ag_sender s) = {}"
  shows "ranges.claims_ok L rows (claimsOf s)"
proof -
  have C: "cl_keys (claimsOf s) h = {}" "\<not> cl_mutex (claimsOf s) h" "\<not> cl_reserved (claimsOf s) h" for h
    using assms(2-6) by (cases h; simp)+
  show ?thesis
    by (rule ranges.claims_okI) (use assms(1) C in simp_all)
qed

lemma agg_ok_idle:
  assumes "proofs_ok (ag_db s)" "ag_prover s = (\<lambda>_. pc)" "senderKeys (ag_sender s) = {}"
    "proverKeys pc = {}" "\<not> inMutex pc" "\<not> reservesBatch pc" "\<And>L. proverFact L pc" "\<And>L. senderFact L (ag_sender s)"
    "\<And>k p k' p'. proofRows (ag_db s) k = Some p \<Longrightarrow> proofRows (ag_db s) k' = Some p' \<Longrightarrow> k \<noteq> k' \<Longrightarrow>
       disjointAbove (lastVerifiedNum (ag_db s)) k k'"
  shows "agg_ok s"
  unfolding agg_ok_def using claims_idle[OF assms(9,2,4,5,6,3)] assms(1,2,7,8) by simp

lemma restart_step_ok:
  assumes "restart_step cfg s s'" and ok: "agg_ok s"
  shows "agg_ok s'"
  using assms(1)
proof cases
  case stop
  then show ?thesis
    using agg_okD(1)[OF ok] ranges.claims_okD(1)[OF agg_okD(2)[OF ok]] by (intro agg_ok_idle[of _ Stopped]) simp_all
next
  case (started db now)
  note rows = DeleteUngeneratedProofs_rows[OF started(4)]
  have sep: "disjointAbove (lastVerifiedNum db) k k'" if "proofRows db k = Some p" "proofRows db k' = Some p'" "k \<noteq> k'" for k k' p p'
    using ranges.claims_okD(1)[OF agg_okD(2)[OF ok] rows(2)[OF that(1)] rows(2)[OF that(2)] that(3)] rows(1) by simp
  show ?thesis
    unfolding started(1) by (rule agg_ok_idle[of _ AtFinal]) (use sep proof_ops_table(5)[OF started(4) agg_okD(1)[OF ok]] in simp_all)
qed

text \<open>The states in which the aggregator starts: nobody works on a proof, and the rows do not overlap.\<close>

definition aggStart :: "aggState \<Rightarrow> bool" where
  "aggStart s \<longleftrightarrow>
     ag_prover s = (\<lambda>_. AtFinal) \<and> ag_sender s = SenderWait \<and> proofs_ok (ag_db s) \<and>
     (\<forall>k k' p p'. proofRows (ag_db s) k = Some p \<longrightarrow> proofRows (ag_db s) k' = Some p' \<longrightarrow> k \<noteq> k' \<longrightarrow>
        disjointAbove (lastVerifiedNum (ag_db s)) k k')"

lemma aggStart_ok: "aggStart s \<Longrightarrow> agg_ok s"
  unfolding aggStart_def by (rule agg_ok_idle[of _ AtFinal]) (simp_all del: split_paired_All)

definition aggRun :: "aggCfg \<Rightarrow> aggState \<Rightarrow> aggState \<Rightarrow> bool" where
  "aggRun cfg = (\<lambda>s s'. agg_step cfg s s' \<or> restart_step cfg s s')\<^sup>*\<^sup>*"

lemma aggRun_ok:
  assumes "aggRun cfg s0 s" "aggStart s0"
  shows "agg_ok s"
  using assms(1) unfolding aggRun_def
  by (induction rule: rtranclp_induct) (auto intro: aggStart_ok[OF assms(2)] agg_step_ok restart_step_ok)

end
