(* ===== verification/Aggregation.thy ===== *)
theory Aggregation
  imports AggregatorSafe
begin

text \<open>
  The theorems on the aggregator: its proofs never overlap, the expiry of locks breaks this, and a positive
  minimal reward crashes it.  The concrete runs that show the last two, and the witnesses, are about a
  database with three batches of one sequence and three provers.
\<close>

subsection \<open>A database with three batches to prove\<close>

definition sampleBatchRow :: batchRow where
  "sampleBatchRow =
     \<lparr>br_ger = 0, br_ler = None, br_root = None, br_acc = None, br_timestamp = 0, br_coinbase = 0, br_raw = [], br_forced = None,
      br_resources = None, br_closing = None, br_wip = False\<rparr>"

definition sampleVirtual :: "u64 \<Rightarrow> VirtualBatch" where
  "sampleVirtual n =
     \<lparr>vb_BatchNumber = n, vb_TxHash = 0, vb_Coinbase = 0, vb_SequencerAddr = 0, vb_BlockNumber = 1, vb_TimestampBatchEtrog = None\<rparr>"

definition provingDB :: "((u64 \<times> u64) \<times> Proof) list \<Rightarrow> stateDB" where
  "provingDB rs =
     \<lparr>db_block = fmap_of_list [(1, \<lparr>blk_BlockNumber = 1, blk_BlockHash = 1, blk_ParentHash = 0, blk_ReceivedAt = 0\<rparr>)],
      db_forced = fmempty,
      db_batch = fmap_of_list [(0, sampleBatchRow), (1, sampleBatchRow), (2, sampleBatchRow), (3, sampleBatchRow)],
      db_virtual = fmap_of_list [(0, sampleVirtual 0), (1, sampleVirtual 1), (2, sampleVirtual 2), (3, sampleVirtual 3)],
      db_verified = fmap_of_list [(0, \<lparr>vf_BlockNumber = 1, vf_BatchNumber = 0, vf_Aggregator = 0, vf_TxHash = 0, vf_StateRoot = 0, vf_IsTrusted = False\<rparr>)],
      db_sequences = fmap_of_list [(1, 3)],
      db_proof = fmap_of_list rs\<rparr>"

definition putRow :: "u64 \<times> u64 \<Rightarrow> Proof \<Rightarrow> ((u64 \<times> u64) \<times> Proof) list \<Rightarrow> ((u64 \<times> u64) \<times> Proof) list" where
  "putRow k p rs = (k, p) # filter (\<lambda>(k', _). k' \<noteq> k) rs"

text \<open>A proof being generated at time 0, and a finished one.\<close>

definition begun :: "u64 \<Rightarrow> u64 \<Rightarrow> Proof" where
  "begun b bf = lockProof 0 (newProof b bf [] [] [])"

definition finished :: "u64 \<Rightarrow> u64 \<Rightarrow> Proof" where
  "finished b bf = (newProof b bf [] [] [])\<lparr>pf_ProofID := Some [], pf_Proof := []\<rparr>"

definition sampleState :: "((u64 \<times> u64) \<times> Proof) list \<Rightarrow> proverPC \<Rightarrow> proverPC \<Rightarrow> proverPC \<Rightarrow> aggState" where
  "sampleState rs A B C =
     \<lparr>ag_db = provingDB rs, ag_vars = \<lparr>TimeSendFinalProof = 0, verifyingProof = False\<rparr>,
      ag_prover = (\<lambda>j. if j = 0 then A else if j = 1 then B else if j = 2 then C else AtFinal), ag_sender = SenderWait\<rparr>"

lemma provingDB_sel [simp]:
  "db_proof (provingDB rs) = fmap_of_list rs" "db_sequences (provingDB rs) = fmap_of_list [(1, 3)]"
  "db_batch (provingDB rs) = fmap_of_list [(0, sampleBatchRow), (1, sampleBatchRow), (2, sampleBatchRow), (3, sampleBatchRow)]"
  "provingDB rs\<lparr>db_proof := fmap_of_list rs'\<rparr> = provingDB rs'"
  by (simp_all add: provingDB_def)

lemma sampleState_sel [simp]:
  "ag_db (sampleState rs A B C) = provingDB rs" "ag_sender (sampleState rs A B C) = SenderWait"
  "ag_prover (sampleState rs A B C) 0 = A" "ag_prover (sampleState rs A B C) 1 = B" "ag_prover (sampleState rs A B C) 2 = C"
  "ag_prover (sampleState rs A B C) (Suc 0) = B"
  by (simp_all add: sampleState_def)

lemma sampleState_goto [simp]:
  "goto 0 X (sampleState rs A B C) = sampleState rs X B C" "goto 1 X (sampleState rs A B C) = sampleState rs A X C"
  "goto (Suc 0) X (sampleState rs A B C) = sampleState rs A X C" "goto 2 X (sampleState rs A B C) = sampleState rs A B X"
  by (simp_all add: sampleState_def goto_def fun_eq_iff)

lemma sampleState_setDB [simp]: "setDB (provingDB rs') (sampleState rs A B C) = sampleState rs' A B C"
  by (simp add: sampleState_def setDB_def)

lemma sampleState_mutex [simp]: "mutexFree (sampleState rs A B C) \<longleftrightarrow> \<not> inMutex A \<and> \<not> inMutex B \<and> \<not> inMutex C"
proof
  assume free: "mutexFree (sampleState rs A B C)"
  have "\<not> inMutex (ag_prover (sampleState rs A B C) j)" for j
    using free by (simp add: mutexFree_def)
  from this[of 0] this[of 1] this[of 2] show "\<not> inMutex A \<and> \<not> inMutex B \<and> \<not> inMutex C"
    by simp
qed (simp add: mutexFree_def sampleState_def)

text \<open>The operations on the rows as a list.\<close>

lemma putRow_fmap: "fmap_of_list (putRow k p rs) = fmupd k p (fmap_of_list rs)"
proof (rule fmap_ext)
  fix k'
  have "map_of (filter (\<lambda>(k', _). k' \<noteq> k) rs) k' = map_of rs k'" if "k' \<noteq> k"
    using that by (induction rs) auto
  then show "fmlookup (fmap_of_list (putRow k p rs)) k' = fmlookup (fmupd k p (fmap_of_list rs)) k'"
    by (simp add: putRow_def fmlookup_of_list)
qed

lemma filterRow_fmap: "fmap_of_list (filter (\<lambda>(k, _). P k) rs) = fmfilter P (fmap_of_list rs)"
proof (rule fmap_ext)
  fix k
  have "map_of (filter (\<lambda>(k, _). P k) rs) k = (if P k then map_of rs k else None)"
    by (induction rs) auto
  then show "fmlookup (fmap_of_list (filter (\<lambda>(k, _). P k) rs)) k = fmlookup (fmfilter P (fmap_of_list rs)) k"
    by (simp add: fmlookup_of_list)
qed

lemma sample_update:
  assumes "map_of rs (proofKey p) = Some q" "int8 (pf_BatchNumber p)" "int8 (pf_BatchNumberFinal p)"
    "pf_CreatedAt q = pf_CreatedAt p" "pf_UpdatedAt p = 0" "pf_GeneratingSince p \<in> {None, Some 0}"
  shows "UpdateGeneratedProof 0 p (provingDB rs) = Ok (provingDB (putRow (proofKey p) p rs))"
proof -
  have "p\<lparr>pf_GeneratingSince := map_option pgTime (pf_GeneratingSince p), pf_CreatedAt := pf_CreatedAt q, pf_UpdatedAt := pgTime 0\<rparr> = p"
    using assms(4-6) by (auto simp: pgTime_def)
  then show ?thesis
    using assms(1-3) by (simp add: UpdateGeneratedProof_def proofKey_def fmlookup_of_list flip: putRow_fmap)
qed

lemma sample_update_none:
  assumes "map_of rs (proofKey p) = None" "int8 (pf_BatchNumber p)" "int8 (pf_BatchNumberFinal p)"
  shows "UpdateGeneratedProof 0 p (provingDB rs) = Ok (provingDB rs)"
  using assms by (simp add: UpdateGeneratedProof_def proofKey_def fmlookup_of_list)

lemma sample_insert:
  assumes "map_of rs (proofKey p) = None" "pf_BatchNumber p \<in> {1, 2, 3}" "pf_BatchNumberFinal p \<in> {1, 2, 3}"
    "pf_CreatedAt p = 0" "pf_UpdatedAt p = 0" "pf_GeneratingSince p = Some 0"
  shows "AddGeneratedProof 0 p (provingDB rs) = Ok (provingDB (putRow (proofKey p) p rs))"
proof -
  have "p\<lparr>pf_GeneratingSince := map_option pgTime (pf_GeneratingSince p), pf_CreatedAt := pgTime 0, pf_UpdatedAt := pgTime 0\<rparr> = p"
    using assms(4-6) by (auto simp: pgTime_def)
  moreover have "int8 n" "n |\<in>| fmdom (db_batch (provingDB rs))" if "n \<in> {1, 2, 3}" for n
    using that by (auto simp: int8_def in_fmdom fmlookup_of_list)
  moreover have "proofKey p |\<notin>| fmdom (db_proof (provingDB rs))"
    unfolding in_fmdom using assms(1) by (simp add: fmlookup_of_list)
  ultimately show ?thesis
    using assms(2,3) unfolding AddGeneratedProof_def by (simp add: proofKey_def Let_def del: provingDB_sel(1-3)) (simp flip: putRow_fmap)
qed

lemma sample_delete:
  assumes "int8 b" "int8 bf"
  shows "DeleteGeneratedProofs b bf (provingDB rs) = Ok (provingDB (filter (\<lambda>(k, _). \<not> (b \<le> fst k \<and> snd k \<le> bf)) rs))"
proof -
  have keep: "(\<lambda>(p, pf). \<not> (b \<le> p \<and> pf \<le> bf)) = (\<lambda>k. \<not> (b \<le> fst k \<and> snd k \<le> bf))"
    by auto
  show ?thesis
    unfolding DeleteGeneratedProofs_def keep provingDB_sel filterRow_fmap[symmetric] using assms by simp
qed

lemma sample_expire:
  "CleanupLockedProofs (\<lambda>_. 1000) 2000 ''1s'' (provingDB rs) =
     Ok (provingDB (filter (\<lambda>(k, _). map_of rs k \<noteq> None \<and> (case pf_GeneratingSince (the (map_of rs k)) of None \<Rightarrow> True | Some t \<Rightarrow> \<not> t < 2000 - 1000)) rs))"
proof -
  have "fmkeep P (fmap_of_list rs) = fmap_of_list (filter (\<lambda>(k, _). map_of rs k \<noteq> None \<and> P k (the (map_of rs k))) rs)" for P
    unfolding fmkeep_def filterRow_fmap by (rule fmap_ext) (auto simp: fmlookup_of_list split: option.splits)
  then show ?thesis
    by (simp add: CleanupLockedProofs_def toPostgresInterval_def)
qed

lemma sample_covered: "coveredByProof n (provingDB rs) \<longleftrightarrow> list_ex (\<lambda>(k, _). covers k n) rs"
  by (force simp: coveredByProof_def covers_def list_ex_iff fmdom_of_list fset_of_list_elem)

lemma sorted_first:
  assumes "n |\<in>| F" "\<And>m. m |\<in>| F \<Longrightarrow> n \<le> m"
  shows "\<exists>ms. sorted_list_of_fset F = n # ms"
proof (cases "sorted_list_of_fset F")
  case (Cons m ms)
  then have "n \<in> set (m # ms)" "m |\<in>| F" "sorted (m # ms)"
    using assms(1) sorted_list_of_fset_simps(1)[of F] sorted_sorted_list_of_set[of "fset F"] by (auto simp: sorted_list_of_fset.rep_eq)
  then show ?thesis
    using assms(2) Cons by (auto intro: antisym)
qed (use assms(1) sorted_list_of_fset_simps(1)[of F] in auto)

definition freeBatches :: "((u64 \<times> u64) \<times> Proof) list \<Rightarrow> u64 fset" where
  "freeBatches rs = ffilter (\<lambda>b. 0 < b \<and> b |\<in>| fmdom (db_virtual (provingDB rs)) \<and> \<not> coveredByProof b (provingDB rs))
     (fmdom (db_batch (provingDB rs)))"

lemma freeBatches_iff: "m |\<in>| freeBatches rs \<longleftrightarrow> m \<in> {1, 2, 3} \<and> \<not> list_ex (\<lambda>(k, _). covers k m) rs"
  unfolding freeBatches_def sample_covered by (auto simp: provingDB_def)

lemma sample_batch:
  assumes n: "n \<in> {1, 2, 3}" "\<And>m. m \<in> {1, 2, 3} \<Longrightarrow> m < n \<Longrightarrow> list_ex (\<lambda>(k, _). covers k m) rs" "\<not> list_ex (\<lambda>(k, _). covers k n) rs"
  shows "GetVirtualBatchToProve 0 (provingDB rs) = Ok (scanBatch n sampleBatchRow)"
proof -
  let ?F = "freeBatches rs"
  have "\<exists>ms. sorted_list_of_fset ?F = n # ms"
  proof (rule sorted_first)
    show "n |\<in>| ?F"
      unfolding freeBatches_iff using n(1,3) by blast
    show "n \<le> m" if "m |\<in>| ?F" for m
      using that n(2)[of m] unfolding freeBatches_iff by (meson not_le)
  qed
  moreover have "fmlookup (db_batch (provingDB rs)) n = Some sampleBatchRow"
    using n(1) by (auto simp: fmlookup_of_list)
  ultimately show ?thesis
    unfolding GetVirtualBatchToProve_def by (elim exE) (simp add: int8_def del: provingDB_sel flip: freeBatches_def)
qed

lemma sample_no_batch:
  assumes "\<And>m. m \<in> {1, 2, 3} \<Longrightarrow> list_ex (\<lambda>(k, _). covers k m) rs"
  shows "GetVirtualBatchToProve 0 (provingDB rs) = Err ErrObjectNotFound"
proof -
  have "freeBatches rs = {||}"
    using assms freeBatches_iff by (metis bot_fset.rep_eq empty_iff fset_eqI)
  then show ?thesis
    unfolding GetVirtualBatchToProve_def by (simp add: int8_def sorted_list_of_fset.rep_eq del: provingDB_sel flip: freeBatches_def)
qed

lemma sample_ready:
  assumes "map_of rs (b, c) = Some p1" "map_of rs (d, f) = Some p2" "pf_GeneratingSince p1 = None" "pf_GeneratingSince p2 = None"
    "uint c = uint d - 1" "{b, c, d, f} \<subseteq> {1, 2, 3}"
  shows "readyToAggregate (provingDB rs) p1 p2"
proof -
  have range: "1 \<le> n \<and> n \<le> 3" if "n \<in> {b, c, d, f}" for n
    using that assms(6) by auto
  have "bothInOneSequence (b, c) (d, f) (provingDB rs)"
    using range by (simp add: bothInOneSequence_def)
  then show ?thesis
    using assms(1-5) unfolding readyToAggregate_def aggregatable_def
    by (intro exI[of _ "(b, c)"] exI[of _ "(d, f)"]) (simp add: fmlookup_of_list)
qed

lemma sample_proof_sel [simp]:
  "proofKey (begun b bf) = (b, bf)" "proofKey (finished b bf) = (b, bf)"
  "pf_BatchNumber (begun b bf) = b" "pf_BatchNumber (finished b bf) = b"
  "pf_BatchNumberFinal (begun b bf) = bf" "pf_BatchNumberFinal (finished b bf) = bf"
  "pf_CreatedAt (begun b bf) = 0" "pf_CreatedAt (finished b bf) = 0" "pf_UpdatedAt (begun b bf) = 0" "pf_UpdatedAt (finished b bf) = 0"
  "pf_GeneratingSince (begun b bf) = Some 0" "pf_GeneratingSince (finished b bf) = None"
  "pf_GeneratingSince (lockProof 0 p) = Some 0" "pf_CreatedAt (lockProof 0 p) = pf_CreatedAt p" "pf_UpdatedAt (lockProof 0 p) = pf_UpdatedAt p"
  "unlockProof (lockProof 0 (finished b bf)) = finished b bf"
  "lockProof 0 (newProof b bf [] [] []) = begun b bf"
  "aggregatedProof (lockProof 0 (finished b c)) (lockProof 0 (finished d f)) [] [] [] [] [] = finished b f"
  "begun b bf\<lparr>pf_InputProver := [], pf_ProofID := Some [], pf_Proof := []\<rparr> = lockProof 0 (finished b bf)"
  by (simp_all add: begun_def finished_def lockProof_def unlockProof_def newProof_def proofKey_def aggregatedProof_def roundMicro_def)

lemma sample_int8 [simp]: "int8 1" "int8 2" "int8 3"
  by (simp_all add: int8_def)

text \<open>The parts of a run that the provers share.\<close>

lemma sample_lock:
  assumes "map_of rs (b, c) = Some (finished b c)" "map_of rs (d, f) = Some (finished d f)" "(b, c) \<noteq> (d, f)"
    "int8 b" "int8 c" "int8 d" "int8 f"
  shows "lockProofs 0 (finished b c) (finished d f) (provingDB rs) =
    Ok (provingDB (putRow (d, f) (lockProof 0 (finished d f)) (putRow (b, c) (lockProof 0 (finished b c)) rs)))"
proof -
  have "map_of (putRow (b, c) q rs) (d, f) = Some (finished d f)" for q
    using assms(2,3) putRow_fmap[of "(b, c)" q rs] by (metis fmlookup_of_list fmupd_lookup)
  then show ?thesis
    unfolding lockProofs_def using assms by (simp add: sample_update[where q = "finished b c"] sample_update[where q = "finished d f"])
qed

lemma sample_store:
  assumes "int8 b" "int8 f" "b \<in> {1, 2, 3}" "f \<in> {1, 2, 3}"
  shows "storeAggregated 0 (lockProof 0 (finished b c)) (lockProof 0 (finished d f)) (finished b f) (provingDB rs) =
    Ok (provingDB (putRow (b, f) (lockProof 0 (finished b f)) (filter (\<lambda>(k, _). \<not> (b \<le> fst k \<and> snd k \<le> f)) rs)))"
proof -
  have "map_of (filter (\<lambda>(k, _). \<not> (b \<le> fst k \<and> snd k \<le> f)) rs) (b, f) = None"
    by (auto simp: map_of_eq_None_iff)
  then show ?thesis
    unfolding storeAggregated_def using assms by (simp add: sample_delete sample_insert)
qed

subsection \<open>Turns of a prover\<close>

lemma goto_goto [simp]: "goto i X (goto i Y s) = goto i X s" "setDB db (goto i X s) = goto i X (setDB db s)"
  "setDB db (setDB db' s) = setDB db s"
  by (simp_all add: goto_def setDB_def)

lemma goto_mutexFree: "mutexFree s \<Longrightarrow> \<not> inMutex pc \<Longrightarrow> mutexFree (goto i pc s)"
  by (simp add: mutexFree_def)

lemma turn_take:
  assumes "ag_prover s i = AtFinal" "mutexFree s" "readyToAggregate (ag_db s) p1 p2" "lockProofs now p1 p2 (ag_db s) = Ok db"
  shows "(agg_step cfg)\<^sup>*\<^sup>* s (goto i (Aggregate (lockProof now p1) (lockProof now p2)) (setDB db s))"
proof -
  have "agg_step cfg s (goto i AtAggregate s)"
    using agg_step.final[OF final_step.final_skip[OF assms(1)]] .
  moreover have "agg_step cfg (goto i AtAggregate s) (goto i (AggregateRead p1 p2) s)"
    using agg_step.aggregate[OF aggregate_step.aggregate_read[of "goto i AtAggregate s" i p1 p2], where cfg = cfg] assms(2,3) by (simp add: goto_mutexFree)
  moreover have "agg_step cfg (goto i (AggregateRead p1 p2) s) (goto i (Aggregate (lockProof now p1) (lockProof now p2)) (setDB db s))"
    using agg_step.aggregate[OF aggregate_step.aggregate_lock[of "goto i (AggregateRead p1 p2) s" i p1 p2 now db], where cfg = cfg] assms(4) by simp
  ultimately show ?thesis
    by (meson converse_rtranclp_into_rtranclp r_into_rtranclp)
qed

lemma turn_store:
  assumes "ag_prover s i = Generated p" "UpdateGeneratedProof now (unlockProof p) (ag_db s) = Ok db"
  shows "(agg_step cfg)\<^sup>*\<^sup>* s (goto i AtFinal (setDB db s))"
proof -
  have "agg_step cfg s (goto i (StoreGenerated p) s)"
    using agg_step.store[OF store_step.generated_skip[OF assms(1)]] .
  moreover have "agg_step cfg (goto i (StoreGenerated p) s) (goto i AtFinal (setDB db s))"
    using agg_step.store[OF store_step.generated_store[of "goto i (StoreGenerated p) s" i p now db], where cfg = cfg] assms(2) by simp
  ultimately show ?thesis
    by (meson converse_rtranclp_into_rtranclp r_into_rtranclp)
qed

lemma turn_aggregate:
  assumes "ag_prover s i = Aggregate p1 p2" "p = aggregatedProof p1 p2 name proverID input proofID recursiveProof"
    "storeAggregated now p1 p2 p (ag_db s) = Ok db" "UpdateGeneratedProof now (unlockProof (lockProof now p)) db = Ok db'"
  shows "(agg_step cfg)\<^sup>*\<^sup>* s (goto i AtFinal (setDB db' s))"
  using agg_step.aggregate[OF aggregate_step.aggregate_done[OF assms(1-3)], where cfg = cfg]
    turn_store[of "goto i (Generated (lockProof now p)) (setDB db s)" i "lockProof now p" now db' cfg] assms(4)
  by (simp add: converse_rtranclp_into_rtranclp)

lemma turn_begin:
  assumes "ag_prover s i = AtFinal" "mutexFree s" "GetLastVerifiedBatch (ag_db s) = Ok v" "GetVirtualBatchToProve (vf_BatchNumber v) (ag_db s) = Ok b"
    "cfg_checker cfg = Some c" "IsProfitable c 0" "p = newProof (bt_BatchNumber b) (bt_BatchNumber b) name proverID []"
    "AddGeneratedProof now (lockProof now p) (ag_db s) = Ok db"
  shows "(agg_step cfg)\<^sup>*\<^sup>* s (goto i (ProveBatch (lockProof now p)) (setDB db s))"
proof -
  have "agg_step cfg s (goto i AtAggregate s)"
    using agg_step.final[OF final_step.final_skip[OF assms(1)]] .
  moreover have "agg_step cfg (goto i AtAggregate s) (goto i AtBatch s)"
    using agg_step.aggregate[OF aggregate_step.aggregate_none[of "goto i AtAggregate s" i], where cfg = cfg] by simp
  moreover have "agg_step cfg (goto i AtBatch s) (goto i (BatchVerified (vf_BatchNumber v)) s)"
    using agg_step.batch[OF batch_step.batch_verified[of "goto i AtBatch s" i v cfg]] assms(2,3) by (simp add: goto_mutexFree)
  moreover have "agg_step cfg (goto i (BatchVerified (vf_BatchNumber v)) s) (goto i (BatchRead b) s)"
    using agg_step.batch[OF batch_step.batch_read[of "goto i (BatchVerified (vf_BatchNumber v)) s" i _ b cfg c]] assms(4-6) by simp
  moreover have "agg_step cfg (goto i (BatchRead b) s) (goto i (ProveBatch (lockProof now p)) (setDB db s))"
    using agg_step.batch[OF batch_step.batch_lock[of "goto i (BatchRead b) s" i b p name proverID now db cfg]] assms(7,8) by simp
  ultimately show ?thesis
    by (meson converse_rtranclp_into_rtranclp r_into_rtranclp)
qed

lemma turn_prove:
  assumes "ag_prover s i = ProveBatch p" "q = p\<lparr>pf_InputProver := input, pf_ProofID := Some proofID, pf_Proof := recursiveProof\<rparr>"
    "UpdateGeneratedProof now (unlockProof q) (ag_db s) = Ok db"
  shows "(agg_step cfg)\<^sup>*\<^sup>* s (goto i AtFinal (setDB db s))"
  using agg_step.batch[OF batch_step.batch_proved[OF assms(1), of cfg recursiveProof proofID input]] turn_store[of "goto i (Generated q) s" i q now db cfg] assms(2,3)
  by (simp add: converse_rtranclp_into_rtranclp)

subsection \<open>Runs\<close>

definition sampleCfg :: aggCfg where
  "sampleCfg = \<lparr>cfg_checker = newChecker ''acceptall'' 0, cfg_VerifyProofInterval = 0\<rparr>"

definition startRows :: "((u64 \<times> u64) \<times> Proof) list" where
  "startRows = [((1, 1), finished 1 1), ((2, 2), finished 2 2), ((3, 3), finished 3 3)]"

abbreviation lockedProof :: "u64 \<Rightarrow> u64 \<Rightarrow> Proof" where
  "lockedProof b bf \<equiv> lockProof 0 (finished b bf)"

lemma sample_verified: "GetLastVerifiedBatch (provingDB rs) =
  Ok \<lparr>vf_BlockNumber = 1, vf_BatchNumber = 0, vf_Aggregator = 0, vf_TxHash = 0, vf_StateRoot = 0, vf_IsTrusted = False\<rparr>"
  by (simp add: GetLastVerifiedBatch_def provingDB_def lastKey_def fmlookup_of_list)

lemma sample_lastVerified [simp]: "lastVerifiedNum (provingDB rs) = 0"
  by (simp add: lastVerifiedNum_def sample_verified)

lemma sample_rows:
  assumes "list_all (\<lambda>((b, bf), p). proofKey p = (b, bf) \<and> b \<in> {1, 2, 3} \<and> bf \<in> {1, 2, 3} \<and> b \<le> bf) rs"
    and "fmlookup (db_proof (provingDB rs)) (b, bf) = Some p"
  shows "pf_BatchNumber p = b \<and> pf_BatchNumberFinal p = bf \<and> b \<in> {1, 2, 3} \<and> bf \<in> {1, 2, 3} \<and> b \<le> bf"
  using assms map_of_SomeD[of rs "(b, bf)" p] by (fastforce simp: fmlookup_of_list proofKey_def list_all_iff)

lemma sample_batches: "n \<in> {1, 2, 3} \<Longrightarrow> n |\<in>| fmdom (db_batch (provingDB rs))"
  by (auto simp: provingDB_def)

lemma sample_proofs_ok:
  assumes rs: "list_all (\<lambda>((b, bf), p). proofKey p = (b, bf) \<and> b \<in> {1, 2, 3} \<and> bf \<in> {1, 2, 3} \<and> b \<le> bf) rs"
  shows "proofs_ok (provingDB rs)"
  unfolding proofs_ok_def
proof (intro conjI allI impI)
  show "db_ok (provingDB rs)"
  proof (rule db_okI)
    show "pf_BatchNumber p = c \<and> pf_BatchNumberFinal p = cf \<and> c |\<in>| fmdom (db_batch (provingDB rs)) \<and> cf |\<in>| fmdom (db_batch (provingDB rs))"
      if "proofRows (provingDB rs) (c, cf) = Some p" for c cf p
      using sample_rows[OF rs that] sample_batches by blast
  qed (auto simp: provingDB_def fmlookup_of_list sampleBatchRow_def sampleVirtual_def int8_def split: if_splits)
  show "fst k \<le> snd k" if "proofRows (provingDB rs) k = Some p" for k p
    using sample_rows[OF rs, of "fst k" "snd k" p] that by simp
qed

lemma apart_disjoint: "snd k < fst k' \<or> snd k' < fst k \<Longrightarrow> disjointAbove L k k'"
  unfolding disjointAbove_def covers_def by (meson le_less_trans less_le_trans not_less_iff_gr_or_eq)

lemma sample_start: "aggStart (sampleState startRows AtFinal AtFinal AtFinal)"
proof -
  have "proofs_ok (provingDB startRows)"
    by (rule sample_proofs_ok) (simp add: startRows_def)
  moreover have "disjointAbove 0 k k'"
    if "proofRows (provingDB startRows) k = Some p" "proofRows (provingDB startRows) k' = Some p'" "k \<noteq> k'" for k k' p p'
  proof -
    have "k \<in> {(1, 1), (2, 2), (3, 3)}" "k' \<in> {(1, 1), (2, 2), (3, 3)}"
      using that(1,2) by (auto simp: startRows_def fmlookup_of_list split: if_splits)
    then show ?thesis
      using that(3) by (auto intro!: apart_disjoint)
  qed
  ultimately show ?thesis
    unfolding aggStart_def by (auto simp: sampleState_def)
qed

text \<open>The turns on this database.\<close>

lemma putRow_map [simp]: "map_of (putRow k p rs) k = Some p" "putRow k p (putRow k q rs) = putRow k p rs"
  by (auto simp: putRow_def intro: filter_cong)

lemma sample_take:
  assumes "ag_db s = provingDB rs" "ag_prover s i = AtFinal" "mutexFree s" "map_of rs (b, c) = Some (finished b c)"
    "map_of rs (d, f) = Some (finished d f)" "uint c = uint d - 1" "(b, c) \<noteq> (d, f)" "{b, c, d, f} \<subseteq> {1, 2, 3}"
  shows "(agg_step cfg)\<^sup>*\<^sup>* s (goto i (Aggregate (lockedProof b c) (lockedProof d f))
    (setDB (provingDB (putRow (d, f) (lockedProof d f) (putRow (b, c) (lockedProof b c) rs))) s))"
proof -
  have "int8 b" "int8 c" "int8 d" "int8 f"
    using assms(8) by auto
  then show ?thesis
    using sample_ready[OF assms(4,5) _ _ assms(6,8)] sample_lock[OF assms(4,5,7)] assms(1)
    by (intro turn_take[OF assms(2,3)]) simp_all
qed

lemma sample_aggregate:
  assumes "ag_db s = provingDB rs" "ag_prover s i = Aggregate (lockedProof b c) (lockedProof d f)" "b \<in> {1, 2, 3}" "f \<in> {1, 2, 3}"
  shows "(agg_step cfg)\<^sup>*\<^sup>* s (goto i AtFinal
    (setDB (provingDB (putRow (b, f) (finished b f) (filter (\<lambda>(k, _). \<not> (b \<le> fst k \<and> snd k \<le> f)) rs))) s))"
proof -
  have n: "int8 b" "int8 f"
    using assms(3,4) by auto
  let ?rs = "filter (\<lambda>(k, _). \<not> (b \<le> fst k \<and> snd k \<le> f)) rs"
  have "UpdateGeneratedProof 0 (finished b f) (provingDB (putRow (b, f) (lockedProof b f) ?rs)) = Ok (provingDB (putRow (b, f) (finished b f) ?rs))"
    using n sample_update[of "putRow (b, f) (lockedProof b f) ?rs" "finished b f" "lockedProof b f"] by simp
  then show ?thesis
    using sample_store[OF n assms(3,4), of c d rs] assms(1)
    by (intro turn_aggregate[OF assms(2), of "finished b f" "[]" "[]" "[]" "[]" "[]" 0]) simp_all
qed

lemma sample_begin:
  assumes "ag_db s = provingDB rs" "ag_prover s i = AtFinal" "mutexFree s" "n \<in> {1, 2, 3}" "\<not> list_ex (\<lambda>(k, _). covers k n) rs"
    "\<And>m. m \<in> {1, 2, 3} \<Longrightarrow> m < n \<Longrightarrow> list_ex (\<lambda>(k, _). covers k m) rs"
  shows "(agg_step sampleCfg)\<^sup>*\<^sup>* s (goto i (ProveBatch (begun n n)) (setDB (provingDB (putRow (n, n) (begun n n) rs)) s))"
proof -
  have "(n, n) \<notin> fst ` set rs"
    using assms(5) by (force simp: list_ex_iff covers_def)
  then have "AddGeneratedProof 0 (begun n n) (provingDB rs) = Ok (provingDB (putRow (n, n) (begun n n) rs))"
    using sample_insert[of rs "begun n n"] assms(4) by (simp add: map_of_eq_None_iff)
  then show ?thesis
    using turn_begin[OF assms(2,3), of _ "scanBatch n sampleBatchRow" sampleCfg TxProfitabilityCheckerAcceptAll "newProof n n [] [] []" "[]" "[]" 0]
      sample_batch[OF assms(4,6,5)] sample_verified[of rs] assms(1)
    by (simp add: sampleCfg_def newChecker_def scanBatch_def)
qed

lemma sample_prove:
  assumes "ag_db s = provingDB rs" "ag_prover s i = ProveBatch (begun n n)" "n \<in> {1, 2, 3}" "map_of rs (n, n) = Some (begun n n)"
  shows "(agg_step cfg)\<^sup>*\<^sup>* s (goto i AtFinal (setDB (provingDB (putRow (n, n) (finished n n) rs)) s))"
proof -
  have "int8 n"
    using assms(3) by auto
  then show ?thesis
    using sample_update[of rs "finished n n" "begun n n"] assms(1,4)
    by (intro turn_prove[OF assms(2), of "lockedProof n n" "[]" "[]" "[]" 0]) simp_all
qed

lemma sample_prove_gone:
  assumes "ag_db s = provingDB rs" "ag_prover s i = ProveBatch (begun n n)" "n \<in> {1, 2, 3}" "map_of rs (n, n) = None"
  shows "(agg_step cfg)\<^sup>*\<^sup>* s (goto i AtFinal s)"
proof -
  have "int8 n"
    using assms(3) by auto
  then have "UpdateGeneratedProof 0 (finished n n) (provingDB rs) = Ok (provingDB rs)"
    using sample_update_none[of rs "finished n n"] assms(4) by simp
  then have "(agg_step cfg)\<^sup>*\<^sup>* s (goto i AtFinal (setDB (provingDB rs) s))"
    using turn_prove[OF assms(2), of "lockedProof n n" "[]" "[]" "[]" 0 "provingDB rs" cfg] assms(1) by simp
  then show ?thesis
    by (metis assms(1) setDB_same)
qed

text \<open>The prover 0 takes the proofs of the batches 1 and 2, and stores their aggregation.\<close>

abbreviation takenRows :: "((u64 \<times> u64) \<times> Proof) list" where
  "takenRows \<equiv> [((2, 2), lockedProof 2 2), ((1, 1), lockedProof 1 1), ((3, 3), finished 3 3)]"

lemma run_take:
  "(agg_step cfg)\<^sup>*\<^sup>* (sampleState startRows AtFinal AtFinal AtFinal)
     (sampleState takenRows (Aggregate (lockedProof 1 1) (lockedProof 2 2)) AtFinal AtFinal)"
  using sample_take[of "sampleState startRows AtFinal AtFinal AtFinal" startRows 0 1 1 2 2 cfg] by (simp add: startRows_def putRow_def)

lemma run_aggregate:
  "(agg_step cfg)\<^sup>*\<^sup>* (sampleState takenRows (Aggregate (lockedProof 1 1) (lockedProof 2 2)) AtFinal AtFinal)
     (sampleState [((1, 2), finished 1 2), ((3, 3), finished 3 3)] AtFinal AtFinal AtFinal)"
  using sample_aggregate[of "sampleState takenRows (Aggregate (lockedProof 1 1) (lockedProof 2 2)) AtFinal AtFinal" takenRows 0 1 1 2 2 cfg]
  by (simp add: putRow_def)

text \<open>
  The same when the lock of prover 0 expires meanwhile: prover 1 proves batch 1 again, prover 2 proves
  batch 2 again and aggregates it with batch 3, and then prover 0 stores its aggregation of 1 and 2.
\<close>

abbreviation taken12 :: proverPC where
  "taken12 \<equiv> Aggregate (lockedProof 1 1) (lockedProof 2 2)"

lemma run_expire: "expire_step (sampleState takenRows taken12 AtFinal AtFinal) (sampleState [((3, 3), finished 3 3)] taken12 AtFinal AtFinal)"
  using expire_step.expire[of "\<lambda>_. 1000" 2000 "''1s''" "sampleState takenRows taken12 AtFinal AtFinal"] sample_expire[of takenRows] by simp

lemma run_again:
  "(agg_step sampleCfg)\<^sup>*\<^sup>* (sampleState [((3, 3), finished 3 3)] taken12 AtFinal AtFinal)
     (sampleState [((1, 2), finished 1 2), ((2, 3), finished 2 3)] AtFinal AtFinal AtFinal)"
proof -
  let ?P = "ProveBatch (begun 1 1)" and ?b1 = "((1, 1), begun 1 1)" and ?f3 = "((3, 3), finished 3 3)"
  have cover: "\<not> covers (3, 3) 1" "\<not> covers (3, 3) 2" "\<not> covers (1, 1) 2" "covers (1, 1) 1"
    by (simp_all add: covers_def not_le)
  have one: "list_ex (\<lambda>(k, _). covers k m) [?b1, ?f3]" if "m \<in> {1, 2, 3}" "m < 2" for m
    using that cover by auto
  let ?s1 = "sampleState [?b1, ?f3] taken12 ?P AtFinal"
  let ?s2 = "sampleState [((2, 2), begun 2 2), ?b1, ?f3] taken12 ?P (ProveBatch (begun 2 2))"
  let ?s3 = "sampleState [((2, 2), finished 2 2), ?b1, ?f3] taken12 ?P AtFinal"
  let ?s4 = "sampleState [((3, 3), lockedProof 3 3), ((2, 2), lockedProof 2 2), ?b1] taken12 ?P (Aggregate (lockedProof 2 2) (lockedProof 3 3))"
  let ?s5 = "sampleState [((2, 3), finished 2 3), ?b1] taken12 ?P AtFinal"
  let ?s6 = "sampleState [((1, 2), finished 1 2), ((2, 3), finished 2 3)] AtFinal ?P AtFinal"
  have "(agg_step sampleCfg)\<^sup>*\<^sup>* (sampleState [?f3] taken12 AtFinal AtFinal) ?s1"
    using sample_begin[of "sampleState [?f3] taken12 AtFinal AtFinal" "[?f3]" 1 1] cover by (force simp: putRow_def)
  moreover have "(agg_step sampleCfg)\<^sup>*\<^sup>* ?s1 ?s2"
    using sample_begin[of ?s1 "[?b1, ?f3]" 2 2, OF _ _ _ _ _ one] cover by (simp add: putRow_def)
  moreover have "(agg_step sampleCfg)\<^sup>*\<^sup>* ?s2 ?s3"
    using sample_prove[of ?s2 "[((2, 2), begun 2 2), ?b1, ?f3]" 2 2 sampleCfg] by (simp add: putRow_def)
  moreover have "(agg_step sampleCfg)\<^sup>*\<^sup>* ?s3 ?s4"
    using sample_take[of ?s3 "[((2, 2), finished 2 2), ?b1, ?f3]" 2 2 2 3 3 sampleCfg] by (simp add: putRow_def)
  moreover have "(agg_step sampleCfg)\<^sup>*\<^sup>* ?s4 ?s5"
    using sample_aggregate[of ?s4 "[((3, 3), lockedProof 3 3), ((2, 2), lockedProof 2 2), ?b1]" 2 2 2 3 3 sampleCfg]
    by (simp add: putRow_def not_le)
  moreover have "(agg_step sampleCfg)\<^sup>*\<^sup>* ?s5 ?s6"
    using sample_aggregate[of ?s5 "[((2, 3), finished 2 3), ?b1]" 0 1 1 2 2 sampleCfg] by (simp add: putRow_def not_le)
  moreover have "(agg_step sampleCfg)\<^sup>*\<^sup>* ?s6 (sampleState [((1, 2), finished 1 2), ((2, 3), finished 2 3)] AtFinal AtFinal AtFinal)"
    using sample_prove_gone[of ?s6 "[((1, 2), finished 1 2), ((2, 3), finished 2 3)]" 1 1 sampleCfg] by simp
  ultimately show ?thesis
    by (meson rtranclp_trans)
qed

subsection \<open>The key of a verification transaction\<close>

lemma splitDash_nodash: "CHR ''-'' \<notin> set w \<Longrightarrow> splitDash w = [w]"
  by (induction w) auto

lemma splitDash_dash: "CHR ''-'' \<notin> set w \<Longrightarrow> splitDash (w @ CHR ''-'' # rest) = w # splitDash rest"
  by (induction w) auto

lemma isDigit_digit: "m < 10 \<Longrightarrow> isDigit (char_of (m + 48 :: nat))"
  by (simp add: isDigit_def)

lemma decimalText_digits: "list_all isDigit (decimalText n)"
proof (induction n rule: decimalText.induct)
  case (1 n)
  show ?case
    by (subst decimalText.simps) (use 1 in \<open>simp add: isDigit_digit\<close>)
qed

lemma decimalText_nodash: "CHR ''-'' \<notin> set (decimalText n)"
proof
  assume "CHR ''-'' \<in> set (decimalText n)"
  then have "isDigit (CHR ''-'')"
    using decimalText_digits[of n] by (simp add: list_all_iff)
  then show False
    by (simp add: isDigit_def)
qed

lemma decimalText_nonempty: "decimalText n \<noteq> []"
  by (subst decimalText.simps) auto

lemma decimalValue_text: "decimalValue (decimalText n) = n"
proof (induction n rule: decimalText.induct)
  case (1 n)
  show ?case
    by (subst decimalText.simps) (use 1 in \<open>auto simp: decimalValue_def\<close>)
qed

lemma ParseUint_text: "ParseUint (decimalText (unat x)) = (x, False)"
  using unsigned_less[of x, where ?'a = nat] by (simp add: ParseUint_def decimalText_digits decimalText_nonempty decimalValue_text)

lemma proofRange_key: "proofRange (buildMonitoredTxID b bf) = Ok (b, bf)"
proof -
  have "buildMonitoredTxID b bf =
      ''proof'' @ CHR ''-'' # ''from'' @ CHR ''-'' # decimalText (unat b) @ CHR ''-'' # ''to'' @ CHR ''-'' # decimalText (unat bf)"
    by (simp add: buildMonitoredTxID_def)
  then have "splitDash (buildMonitoredTxID b bf) = [''proof'', ''from'', decimalText (unat b), ''to'', decimalText (unat bf)]"
    by (simp only: splitDash_dash splitDash_nodash decimalText_nodash not_False_eq_True) (simp add: splitDash_dash splitDash_nodash decimalText_nodash)
  then show ?thesis
    by (simp add: proofRange_def ParseUint_text)
qed

subsection \<open>The theorems\<close>


lemma aggRun_steps: "(agg_step cfg)\<^sup>*\<^sup>* s s' \<Longrightarrow> aggRun cfg s s'"
  unfolding aggRun_def by (rule rtranclp_mono[THEN predicate2D]) auto


definition expireRun :: "aggCfg \<Rightarrow> aggState \<Rightarrow> aggState \<Rightarrow> bool" where
  "expireRun cfg = (\<lambda>s s'. agg_step cfg s s' \<or> expire_step s s')\<^sup>*\<^sup>*"

lemma expireRun_intros:
  "(agg_step cfg)\<^sup>*\<^sup>* s s' \<Longrightarrow> expireRun cfg s s'" "expire_step s s' \<Longrightarrow> expireRun cfg s s'"
  "expireRun cfg s s' \<Longrightarrow> expireRun cfg s' s'' \<Longrightarrow> expireRun cfg s s''"
  unfolding expireRun_def by (rule rtranclp_mono[THEN predicate2D], auto)

text \<open>The state at the end of that run.\<close>

abbreviation blockedRows :: "((u64 \<times> u64) \<times> Proof) list" where
  "blockedRows \<equiv> [((1, 2), finished 1 2), ((2, 3), finished 2 3)]"

lemma run_blocked:
  "expireRun sampleCfg (sampleState startRows AtFinal AtFinal AtFinal) (sampleState blockedRows AtFinal AtFinal AtFinal)"
  using expireRun_intros(1)[OF run_take] expireRun_intros(2)[OF run_expire] expireRun_intros(1)[OF run_again]
  by (rule expireRun_intros(3)[OF expireRun_intros(3)])

lemma blocked_overlap: "\<not> disjointAbove 0 (1, 2) (2, 3)"
  unfolding disjointAbove_def covers_def by (intro notI, drule spec[of _ 2]) simp

lemma blocked_verify: "\<not> readyToVerify 0 (provingDB blockedRows) q"
  by (auto simp: readyToVerify_def fmlookup_of_list completeSequences_def fmlookup_ran_iff split: if_splits)

lemma blocked_aggregate: "\<not> readyToAggregate (provingDB blockedRows) q q'"
proof
  assume "readyToAggregate (provingDB blockedRows) q q'"
  then obtain k k' :: "u64 \<times> u64" where "k \<in> {(1, 2), (2, 3)}" "k' \<in> {(1, 2), (2, 3)}" "uint (snd k) = uint (fst k') - 1"
    by (auto simp: readyToAggregate_def aggregatable_def fmlookup_of_list split: if_splits)
  then show False
    by auto
qed

lemma blocked_batch: "GetVirtualBatchToProve 0 (provingDB blockedRows) = Err ErrObjectNotFound"
  by (rule sample_no_batch) (auto simp: covers_def)

lemma blocked_restart: "DeleteUngeneratedProofs (provingDB blockedRows) = Ok (provingDB blockedRows)"
proof -
  have "fmkeep (\<lambda>_ p. pf_GeneratingSince p = None) (fmap_of_list blockedRows) = fmap_of_list blockedRows"
    by (rule fmap_ext) (simp add: fmlookup_of_list)
  then show ?thesis
    by (simp add: DeleteUngeneratedProofs_def)
qed

text \<open>C39:
  The deletion of locked proofs that are too old breaks this, and for good: there is a run in which two
  proofs that cover the same unverified batch are stored and unlocked, every goroutine is back at the
  start of its loop, and no proof can be verified, no two proofs can be aggregated and no batch is left to
  prove, although a sequence is not verified.  A restart keeps the two proofs.
\<close>

theorem expired_locks_block_aggregation:
  "\<exists>cfg s0 s k k' p p' n m.
     aggStart s0 \<and> expireRun cfg s0 s \<and>
     fmlookup (db_proof (ag_db s)) k = Some p \<and> fmlookup (db_proof (ag_db s)) k' = Some p' \<and> k \<noteq> k' \<and>
     \<not> disjointAbove (lastVerifiedNum (ag_db s)) k k' \<and>
     ag_prover s = (\<lambda>_. AtFinal) \<and> ag_sender s = SenderWait \<and>
     fmlookup (db_sequences (ag_db s)) n = Some m \<and> lastVerifiedNum (ag_db s) < n \<and>
     (\<nexists>q. readyToVerify (lastVerifiedNum (ag_db s)) (ag_db s) q) \<and> (\<nexists>q q'. readyToAggregate (ag_db s) q q') \<and>
     GetVirtualBatchToProve (lastVerifiedNum (ag_db s)) (ag_db s) = Err ErrObjectNotFound \<and>
     DeleteUngeneratedProofs (ag_db s) = Ok (ag_db s)"
proof -
  have idle: "ag_prover (sampleState blockedRows AtFinal AtFinal AtFinal) = (\<lambda>_. AtFinal)"
    by (simp add: sampleState_def fun_eq_iff)
  show ?thesis
    by (rule exI[of _ sampleCfg], rule exI[of _ "sampleState startRows AtFinal AtFinal AtFinal"],
        rule exI[of _ "sampleState blockedRows AtFinal AtFinal AtFinal"],
        rule exI[of _ "(1, 2)"], rule exI[of _ "(2, 3)"], rule exI[of _ "finished 1 2"], rule exI[of _ "finished 2 3"],
        rule exI[of _ 1], rule exI[of _ 3])
      (simp add: fmlookup_of_list sample_start run_blocked idle blocked_overlap blocked_verify blocked_aggregate blocked_batch blocked_restart)
qed

subsection \<open>An unprofitable batch\<close>

fun provesBatch :: "proverPC \<Rightarrow> bool" where
  "provesBatch (BatchRead b) = True"
| "provesBatch (ProveBatch p) = True"
| "provesBatch (DropBatch p) = True"
| "provesBatch _ = False"

lemma unprofitable_batch_step:
  assumes "batch_step cfg s s'" and unprofitable: "\<And>c. cfg_checker cfg = Some c \<Longrightarrow> \<not> IsProfitable c 0"
    and ok: "\<And>i. \<not> provesBatch (ag_prover s i)"
  shows "\<not> provesBatch (ag_prover s' j)"
  using assms(1)
proof cases
  case (batch_read i n b c)
  then show ?thesis using unprofitable by blast
next
  case (batch_lock i b p name proverID now db)
  then show ?thesis using ok[of i] by simp
next
  case (batch_failed i p)
  then show ?thesis using ok[of i] by simp
qed (use ok in simp_all)

lemma other_steps_prove_nothing:
  assumes "\<And>i. \<not> provesBatch (ag_prover s i)"
  shows "final_step s s' \<Longrightarrow> \<not> provesBatch (ag_prover s' j)" "aggregate_step s s' \<Longrightarrow> \<not> provesBatch (ag_prover s' j)"
    "store_step s s' \<Longrightarrow> \<not> provesBatch (ag_prover s' j)" "sender_step cfg s s' \<Longrightarrow> \<not> provesBatch (ag_prover s' j)"
  using assms by (auto elim!: final_step.cases aggregate_step.cases store_step.cases sender_step.cases split: if_splits)

lemma unprofitable_step:
  assumes "agg_step cfg s s'" and "\<And>c. cfg_checker cfg = Some c \<Longrightarrow> \<not> IsProfitable c 0" and ok: "\<And>i. \<not> provesBatch (ag_prover s i)"
  shows "\<not> provesBatch (ag_prover s' j)"
  using assms(1) other_steps_prove_nothing[OF ok] unprofitable_batch_step[OF _ assms(2,3)] ok by cases auto

lemma unprofitable_run:
  assumes "aggRun cfg s0 s" "aggStart s0" and unprofitable: "\<And>c. cfg_checker cfg = Some c \<Longrightarrow> \<not> IsProfitable c 0"
  shows "\<not> provesBatch (ag_prover s i)"
  using assms(1) unfolding aggRun_def
proof (induction arbitrary: i rule: rtranclp_induct)
  case base
  then show ?case
    using assms(2) by (simp add: aggStart_def)
next
  case (step s1 s2)
  from step(2) show ?case
  proof
    assume "agg_step cfg s1 s2"
    then show ?case
      using unprofitable_step[OF _ unprofitable step(3)] by blast
  next
    assume "restart_step cfg s1 s2"
    then show ?case
      by cases simp_all
  qed
qed

text \<open>C40:
  With the profitability checker \<open>base\<close> and any positive minimal reward no batch is ever proved, and the
  aggregator crashes as soon as it finds a batch to prove: \<open>getAndLockBatchToProve\<close> returns no batch
  and no error, and its caller reads the number of the batch.
\<close>

theorem positive_reward_crashes:
  assumes "cfg_checker cfg = newChecker ''base'' minReward" "0 < minReward" "aggStart s0" "aggRun cfg s0 s"
  shows "\<not> provesBatch (ag_prover s i) \<and>
    (ag_prover s i = BatchVerified n \<and> GetVirtualBatchToProve n (ag_db s) = Ok b \<longrightarrow>
       agg_step cfg s (goto i Crashed s) \<and> \<not> agg_step cfg s (goto i (BatchRead b) s))"
proof -
  have checker: "cfg_checker cfg = Some (TxProfitabilityCheckerBase minReward)"
    using assms(1) by (simp add: newChecker_def)
  then have unprofitable: "\<not> IsProfitable c 0" if "cfg_checker cfg = Some c" for c
    using that assms(2) by auto
  have none: "\<not> provesBatch (ag_prover s j)" for j
    using unprofitable_run[OF assms(4,3) unprofitable] by blast
  moreover have "\<not> agg_step cfg s (goto i (BatchRead b) s)"
  proof
    assume "agg_step cfg s (goto i (BatchRead b) s)"
    from unprofitable_step[OF this unprofitable none, of i] show False
      by simp
  qed
  moreover have "agg_step cfg s (goto i Crashed s)" if "ag_prover s i = BatchVerified n" "GetVirtualBatchToProve n (ag_db s) = Ok b"
    using agg_step.batch[OF batch_step.batch_unprofitable[OF that, of cfg]] checker assms(2) by simp
  ultimately show ?thesis
    by blast
qed

text \<open>A state in which batch 1 is found.\<close>

definition rewardCfg :: aggCfg where
  "rewardCfg = \<lparr>cfg_checker = newChecker ''base'' 1, cfg_VerifyProofInterval = 0\<rparr>"

lemma sample_start_empty: "aggStart (sampleState [] AtFinal AtFinal AtFinal)"
  using sample_proofs_ok[of "[]"] unfolding aggStart_def by (auto simp: sampleState_def)

lemma run_verified: "aggRun rewardCfg (sampleState [] AtFinal AtFinal AtFinal) (sampleState [] (BatchVerified 0) AtFinal AtFinal)"
proof (rule aggRun_steps)
  let ?s = "\<lambda>pc. sampleState [] pc AtFinal AtFinal"
  have "agg_step rewardCfg (?s AtFinal) (?s AtAggregate)"
    using agg_step.final[OF final_step.final_skip[of "?s AtFinal" 0], where cfg = rewardCfg] by simp
  moreover have "agg_step rewardCfg (?s AtAggregate) (?s AtBatch)"
    using agg_step.aggregate[OF aggregate_step.aggregate_none[of "?s AtAggregate" 0], where cfg = rewardCfg] by simp
  moreover have "agg_step rewardCfg (?s AtBatch) (?s (BatchVerified 0))"
    using agg_step.batch[OF batch_step.batch_verified[of "?s AtBatch" 0 _ rewardCfg]] sample_verified[of "[]"] by simp
  ultimately show "(agg_step rewardCfg)\<^sup>*\<^sup>* (?s AtFinal) (?s (BatchVerified 0))"
    by (meson converse_rtranclp_into_rtranclp r_into_rtranclp)
qed

theorem positive_reward_crashes_witness:
  "aggRun rewardCfg (sampleState [] AtFinal AtFinal AtFinal) (sampleState [] (BatchVerified 0) AtFinal AtFinal) \<and>
   \<not> provesBatch (ag_prover (sampleState [] (BatchVerified 0) AtFinal AtFinal) 0) \<and>
   agg_step rewardCfg (sampleState [] (BatchVerified 0) AtFinal AtFinal) (sampleState [] Crashed AtFinal AtFinal)"
proof -
  have "cfg_checker rewardCfg = newChecker ''base'' 1"
    by (simp add: rewardCfg_def)
  moreover have "GetVirtualBatchToProve 0 (provingDB []) = Ok (scanBatch 1 sampleBatchRow)"
    by (rule sample_batch) auto
  ultimately show ?thesis
    using positive_reward_crashes[OF _ _ sample_start_empty run_verified, of 1 0 0 "scanBatch 1 sampleBatchRow"] run_verified by simp
qed

end
