(* ===== verification/Spec2Isabelle.thy ===== *)
theory Spec2Isabelle
  imports L1InfoTree L1Producer L1Reorg PoolAdmission SequenceSending Aggregation
begin

text \<open>
  Verification library for the Go node of the zkEVM rollup (\<open>src/\<close>).

  The node has a sequencer that orders the transactions of its pool into batches, a sequence
  sender and an aggregator that send batches and proofs to Ethereum (L1), and a synchronizer that
  reads the rollup events of L1 back into the state database.  The library models these parts
  as far as they are self-contained Go code; everything the code reaches through an interface
  (the Ethereum node, the executor, the database driver, the clock, the RLP and Keccak packages)
  is an argument, with what the code relies on as a named hypothesis.

  Conventions (\<open>Prelude\<close>).  Fixed-width Go integers are words and wrap; \<open>big.Int\<close> and times are
  \<open>int\<close>; a Go map is a finite map, an iteration over it takes the order as an argument; a pointer
  that may be nil is an option; a function that can fail returns an \<open>outcome\<close> with an error or
  with \<open>Panic\<close>, which also stands for \<open>log.Fatal\<close>.  \<open>Effects\<close> has the actions of code that changes
  state and calls the outside world, with Hoare-style rules.  \<open>GoFloat\<close> has \<open>float64\<close> and
  \<open>big.Float\<close> as rationals with rounding.  Log output and metrics are left out everywhere.

  Sequencer.  \<open>Resources\<close> (\<open>state/types.go\<close>, \<open>sequencer/batch.go\<close>): counters of a batch and their
  accounting, with \<open>uint32\<close> and \<open>uint64\<close> wrap-around.  \<open>AddrQueue\<close> (\<open>txtracker.go\<close>, \<open>addrqueue.go\<close>):
  the transactions of one sender; trackers live in a heap because worker, queue and list share
  them.  \<open>TxSortedList\<close> (\<open>txsorted_list.go\<close>): the list of ready transactions with its binary
  search, proved a stable insertion and interpreted as the locale \<open>price_list\<close>.  \<open>BestFit\<close> and
  \<open>Worker\<close> (\<open>worker.go\<close>): all operations, with the goroutines of \<open>GetBestFittingTx\<close> interleaved in
  every way.  The lemmas show that queues and list agree in every history, that the search
  returns the best payer that fits, and that it always ends.

  Batch data.  \<open>Hex\<close> (\<open>hex/hex.go\<close>), \<open>Rlp\<close> (the contract of the RLP package, a locale),
  \<open>BatchCodec\<close> (\<open>state/helper.go\<close>, \<open>encoding_batch_v2.go\<close>, \<open>transaction.go\<close>) and \<open>BatchRoundTrip\<close>:
  encoders and decoders of transaction lists and of Etrog batches, round trips for every codec
  that meets the contract, and the inputs on which the decoders panic or lose data.

  L1 info tree.  \<open>L1InfoTree\<close> (\<open>l1infotree/\<close>): the perfect tree, Merkle proofs and the incremental
  frontier, for any hash function, as a refinement through the locale \<open>accumulator\<close>.

  L1 synchronization.  \<open>BlockRanges\<close>, \<open>SyncStatus\<close>, \<open>OrderedFilter\<close>, \<open>L1Consumer\<close>, \<open>L1Workers\<close>,
  \<open>L1Producer\<close> and \<open>L1Reorg\<close> (\<open>synchronizer/l1_parallel_sync/\<close>): the bookkeeping of block ranges as
  a step relation, the ordering filter (locale \<open>ordered_filter\<close>), producer and consumer with
  responses, failures and timeouts in any order.  No block is lost, messages arrive in order,
  and a reorganization between two ranges is noticed; the histories in which the bookkeeping
  forgets a range are theorems too.

  Transaction pool.  \<open>RomErrors\<close> (\<open>state/runtime/executor/errors.go\<close>), \<open>EffectiveGasPrice\<close>
  (\<open>pool/effectivegasprice.go\<close>), \<open>PoolStorage\<close> (\<open>pool/pgpoolstorage\<close>, a table is a list of rows),
  \<open>Pool\<close> and \<open>PoolAdmission\<close> (\<open>pool/pool.go\<close>): what is true of an accepted transaction, what is
  stored, and the bounds of the effective gas price with all roundings.

  Ethereum transaction manager.  \<open>MonitoredTx\<close> (\<open>ethtxmanager/monitoredtx.go\<close>, \<open>pgstorage.go\<close>),
  \<open>EthTxManager\<close> (\<open>ethtxmanager.go\<close>), \<open>EthTxLifecycle\<close>, \<open>EthTxPending\<close> and \<open>EthTxWait\<close>: one monitoring
  of a transaction refines the life cycle \<open>mtx_step\<close> whatever node, state and database answer;
  with a node that mines, waiting for an owner ends after four rounds of the loop, which is
  the bound of \<open>ProcessPendingMonitoredTxs\<close>; with a failed transaction no bound is enough.

  State database.  \<open>StateDB\<close> (\<open>state/pgstatestorage/\<close>, the migrations): the tables of blocks,
  forced batches, batches, virtual and verified batches, sequences and proofs as finite maps by
  key in the record \<open>stateDB\<close>, one definition per statement, with the constraints of the schema
  and the range of \<open>BIGINT\<close> as errors.  \<open>StateBatch\<close> (\<open>state/batch.go\<close>): opening and closing
  batches, the operations as the type \<open>dbOp\<close>, and that every history of them keeps the tables well
  formed.  \<open>BatchChain\<close>: batch numbers without a gap, at most one open batch at the end,
  timestamps in order, and what a reset after a reorganization keeps.

  Sequence sender.  \<open>SequenceSender\<close> (\<open>sequencesender/sequencesender.go\<close>): collecting closed
  batches, estimating, sending through the transaction manager, over an environment of calls.
  \<open>SequenceRun\<close>: what a cycle needs of the state as the locale \<open>batch_reads\<close>, interpreted on the
  database, at rest and with other goroutines writing.  \<open>SequenceSending\<close>: which batches are
  sent, and that at most one transaction of the sender is pending.

  Aggregator.  \<open>Aggregator\<close> (\<open>aggregator/aggregator.go\<close>, \<open>profitabilitychecker.go\<close>): the goroutines
  of any number of provers and of the sender as program counters with their local variables, one step
  relation per function of the source (\<open>final_step\<close>, \<open>aggregate_step\<close>, \<open>batch_step\<close>, \<open>store_step\<close>,
  \<open>sender_step\<close>), their union \<open>agg_step\<close> with the writes of the synchronizer, restarts and the
  expiry of locks.  \<open>AggregatorSafe\<close>: claims on the rows of a table and how operations change them
  (locale \<open>row_claims\<close>, interpreted on ranges of batches), the claims of the goroutines, and that
  every step keeps them.  \<open>Aggregation\<close>: proofs of unverified batches never overlap; the expiry of
  locks breaks this and blocks the aggregator; a positive minimal reward crashes it.

  Bounds.  Two loops have a bound on their steps: the rounds of \<open>ProcessPendingMonitoredTxs\<close>, and
  the batches that \<open>getSequencesToSend\<close> looks at, for which more than the number of batch rows is
  enough because the loop ends at the first number without a closed batch.  All other loops of the
  models are total recursions or step relations.

  Not modelled.  Generated code (\<open>etherman/smartcontracts\<close>, \<open>proto\<close>, the protobuf files, mocks),
  the command line, configuration and metrics packages, the JSON-RPC server, the data stream, the
  Merkle tree client and the L1 client itself: they are bindings, servers or thin wrappers around
  libraries that are not part of the repository.  The finalizer of the sequencer, the processing of
  batches in \<open>state\<close>, the processors of L1 events and the trusted synchronization are driven by the
  answers of the executor, an external program; only the operations that they call and that are
  listed above are modelled.  Of the aggregator, the input that is built for a prover and the
  contents of proofs are left out.  \<open>state/runtime/fakevm\<close> is a copy of go-ethereum's interpreter that
  only the tracers touch.
\<close>

end
